(* ===== verification/Prelude.thy ===== *)
theory Prelude
  imports Main "HOL-Library.Char_ord" "HOL-Library.List_Lexorder" "HOL-Library.Sublist"
begin

text \<open>
  Shared vocabulary of the development: the types that name Go's times, durations and byte
  strings, the fragments of the Go standard library the sources call on strings
  (\<open>strings.Split\<close>, \<open>strings.Cut\<close>, \<open>bytes.LastIndexByte\<close>, decimal printing and parsing), and
  the list, map and ordering lemmas every component uses. Go strings are byte sequences; a
  \<open>string\<close> (a list of 8-bit characters) is exactly that, and \<open><\<close> on it is Go's (and bbolt's)
  byte-wise lexicographic order.
\<close>

named_theorems key_simps "equations of the key encodings"
named_theorems effect "what a catalog operation does to the catalog"

section \<open>Names for Go's types\<close>

type_synonym gotime = int       \<comment> \<open>\<open>time.Time\<close>: nanoseconds since the Unix epoch\<close>
type_synonym duration = int     \<comment> \<open>\<open>time.Duration\<close>: nanoseconds\<close>
type_synonym bytes = string     \<comment> \<open>\<open>[]byte\<close>\<close>

abbreviation second :: duration where "second \<equiv> 1000000000"
abbreviation minute :: duration where "minute \<equiv> 60000000000"

text \<open>\<open>int64\<close> arithmetic wraps around; this is the value an out-of-range integer takes.\<close>

definition wrap64 :: "int \<Rightarrow> int" where
  "wrap64 i = (i + 2 ^ 63) mod 2 ^ 64 - 2 ^ 63"

lemma wrap64_id [simp]: "- (2 ^ 63) \<le> i \<Longrightarrow> i < 2 ^ 63 \<Longrightarrow> wrap64 i = i"
  by (simp add: wrap64_def)

lemma wrap64_code [code]:
  "wrap64 i = (if - 9223372036854775808 \<le> i \<and> i < 9223372036854775808 then i
     else (i + 9223372036854775808) mod 18446744073709551616 - 9223372036854775808)"
  by (simp add: wrap64_def)

lemma wrap64_bounds: "- (2 ^ 63) \<le> wrap64 i" "wrap64 i < 2 ^ 63"
proof -
  have "0 \<le> (i + 2 ^ 63) mod 2 ^ 64" "(i + 2 ^ 63) mod 2 ^ 64 < 2 ^ 64"
    by simp_all
  then show "- (2 ^ 63) \<le> wrap64 i" "wrap64 i < 2 ^ 63"
    by (simp_all add: wrap64_def)
qed

text \<open>The zero \<open>time.Time{}\<close> is 1 January of year 1.\<close>

definition zero_time :: gotime where
  "zero_time = - 62135596800000000000"

abbreviation nul :: char where "nul \<equiv> CHR 0x00"
abbreviation slash :: char where "slash \<equiv> CHR 0x2F"
abbreviation backslash :: char where "backslash \<equiv> CHR 0x5C"

section \<open>Splitting and joining strings\<close>

text \<open>\<open>strings.Split(s, c)\<close> for a one-byte separator, and \<open>strings.Join\<close>.\<close>

fun split_on :: "char \<Rightarrow> string \<Rightarrow> string list" where
  "split_on c [] = [[]]"
| "split_on c (x # xs) =
     (if x = c then [] # split_on c xs
      else case split_on c xs of [] \<Rightarrow> [[x]] | y # ys \<Rightarrow> (x # y) # ys)"

fun join_with :: "char \<Rightarrow> string list \<Rightarrow> string" where
  "join_with c [] = []"
| "join_with c [x] = x"
| "join_with c (x # y # ys) = x @ c # join_with c (y # ys)"

lemma split_on_ne [simp]: "split_on c s \<noteq> []"
  by (cases s) (auto split: list.splits)

lemma split_on_no_sep: "p \<in> set (split_on c s) \<Longrightarrow> c \<notin> set p"
proof (induction s arbitrary: p)
  case (Cons x xs)
  then show ?case
    by (cases "split_on c xs") (auto split: if_splits)
qed simp

lemma set_split_on: "p \<in> set (split_on c s) \<Longrightarrow> x \<in> set p \<Longrightarrow> x \<in> set s"
proof (induction s arbitrary: p)
  case (Cons y ys)
  then show ?case
    by (cases "split_on c ys") (fastforce split: if_splits)+
qed simp

lemma split_on_id: "c \<notin> set s \<Longrightarrow> split_on c s = [s]"
  by (induction s) auto

lemma split_on_append: "c \<notin> set p \<Longrightarrow> split_on c (p @ c # s) = p # split_on c s"
  by (induction p) auto

lemma split_on_join:
  "xs \<noteq> [] \<Longrightarrow> (\<And>x. x \<in> set xs \<Longrightarrow> c \<notin> set x) \<Longrightarrow> split_on c (join_with c xs) = xs"
proof (induction c xs rule: join_with.induct)
  case (2 c x)
  then show ?case by (simp add: split_on_id)
next
  case (3 c x y ys)
  then show ?case by (simp add: split_on_append)
qed simp

lemma join_split_on [simp]: "join_with c (split_on c s) = s"
proof (induction s)
  case (Cons x xs)
  obtain y ys where yys: "split_on c xs = y # ys"
    by (cases "split_on c xs") auto
  show ?case
    using Cons by (cases ys) (auto simp: yys)
qed simp

lemma set_join_with: "set (join_with c xs) \<subseteq> insert c (\<Union> (set ` set xs))"
  by (induction c xs rule: join_with.induct) auto

lemma join_with_Nil_iff [simp]: "join_with c xs = [] \<longleftrightarrow> xs = [] \<or> xs = [[]]"
  by (cases "(c, xs)" rule: join_with.cases) auto

text \<open>\<open>strings.Cut(s, c)\<close>: the text before and after the first separator, and whether it occurs.\<close>

fun cut_at :: "char \<Rightarrow> string \<Rightarrow> string \<times> string \<times> bool" where
  "cut_at c [] = ([], [], False)"
| "cut_at c (x # xs) =
     (if x = c then ([], xs, True)
      else case cut_at c xs of (a, b, f) \<Rightarrow> (x # a, b, f))"

lemma cut_at_no_sep: "c \<notin> set s \<Longrightarrow> cut_at c s = (s, [], False)"
  by (induction s) auto

lemma cut_at_append [simp]: "c \<notin> set a \<Longrightarrow> cut_at c (a @ c # b) = (a, b, True)"
  by (induction a) auto

lemma cut_at_fst: "c \<notin> set (fst (cut_at c s))"
  by (induction s) (auto split: prod.splits)

text \<open>\<open>bytes.LastIndexByte(s, c)\<close>: the index of the last occurrence, if any.\<close>

definition last_index :: "char \<Rightarrow> string \<Rightarrow> nat option" where
  "last_index c s =
     (if c \<in> set s then Some (length s - 1 - length (takeWhile (\<lambda>x. x \<noteq> c) (rev s))) else None)"

lemma last_index_append [simp]: "c \<notin> set b \<Longrightarrow> last_index c (a @ c # b) = Some (length a)"
proof -
  assume c: "c \<notin> set b"
  have "takeWhile (\<lambda>x. x \<noteq> c) (rev b @ c # rev a) = rev b"
    using c by (subst takeWhile_append2) auto
  then show ?thesis by (simp add: last_index_def)
qed

lemma last_index_None [simp]: "c \<notin> set s \<Longrightarrow> last_index c s = None"
  by (simp add: last_index_def)

text \<open>\<open>strings.TrimPrefix\<close> and \<open>strings.TrimSuffix\<close>.\<close>

definition trim_prefix :: "string \<Rightarrow> string \<Rightarrow> string" where
  "trim_prefix s p = (if prefix p s then drop (length p) s else s)"

definition trim_suffix :: "string \<Rightarrow> string \<Rightarrow> string" where
  "trim_suffix s p = (if suffix p s then take (length s - length p) s else s)"

lemma trim_prefix_append [simp]: "trim_prefix (p @ s) p = s"
  by (simp add: trim_prefix_def)

section \<open>Decimal numbers\<close>

text \<open>\<open>fmt.Sprintf("%0wd", n)\<close>: decimal digits padded with zeros to width \<open>w\<close>.\<close>

definition digit :: "nat \<Rightarrow> char" where
  "digit d = char_of (48 + d)"

fun digits_of :: "nat \<Rightarrow> string" where
  "digits_of n = (if n < 10 then [digit n] else digits_of (n div 10) @ [digit (n mod 10)])"

declare digits_of.simps [simp del]

definition pad_digits :: "nat \<Rightarrow> nat \<Rightarrow> string" where
  "pad_digits w n = (let s = digits_of n in replicate (w - length s) (digit 0) @ s)"

text \<open>The same digits, most significant first, as a fixed-width recursion.\<close>

fun fixed_digits :: "nat \<Rightarrow> nat \<Rightarrow> string" where
  "fixed_digits 0 n = []"
| "fixed_digits (Suc w) n = fixed_digits w (n div 10) @ [digit (n mod 10)]"

lemma length_fixed_digits [simp]: "length (fixed_digits w n) = w"
  by (induction w arbitrary: n) auto

lemma fixed_digits_0: "fixed_digits w 0 = replicate w (digit 0)"
  by (induction w) (simp_all add: replicate_append_same)

lemma digits_of_fixed:
  "n < 10 ^ w \<Longrightarrow> 0 < w \<Longrightarrow> length (digits_of n) \<le> w \<and>
     replicate (w - length (digits_of n)) (digit 0) @ digits_of n = fixed_digits w n"
proof (induction w arbitrary: n)
  case (Suc w)
  show ?case
  proof (cases "n < 10")
    case True
    then show ?thesis by (simp add: digits_of.simps [of n] fixed_digits_0)
  next
    case False
    with Suc.prems have w: "0 < w" and nd: "n div 10 < 10 ^ w"
      by (cases w; auto)+
    from Suc.IH [OF nd w] False show ?thesis
      by (auto simp: digits_of.simps [of n])
  qed
qed simp

lemma pad_digits_fixed: "n < 10 ^ w \<Longrightarrow> 0 < w \<Longrightarrow> pad_digits w n = fixed_digits w n"
  using digits_of_fixed [of n w] by (simp add: pad_digits_def Let_def)

text \<open>\<open>strconv.ParseUint\<close> and \<open>ParseInt\<close> (base 10): the callers ignore the error, so a malformed
  numeral reads as 0 and one out of range as the largest value.\<close>

definition is_digit :: "char \<Rightarrow> bool" where
  "is_digit c \<longleftrightarrow> 48 \<le> (of_char c :: nat) \<and> (of_char c :: nat) \<le> 57"

definition digit_val :: "char \<Rightarrow> nat" where
  "digit_val c = of_char c - 48"

definition dec_value :: "string \<Rightarrow> nat" where
  "dec_value s = foldl (\<lambda>a c. 10 * a + digit_val c) 0 s"

definition parse_uint :: "string \<Rightarrow> nat" where
  "parse_uint s =
     (if s = [] \<or> \<not> list_all is_digit s then 0 else min (dec_value s) (2 ^ 64 - 1))"

definition parse_int :: "string \<Rightarrow> int" where
  "parse_int s =
     (let neg = (s \<noteq> [] \<and> hd s = CHR ''-'');
          body = (if s \<noteq> [] \<and> (hd s = CHR ''-'' \<or> hd s = CHR ''+'') then tl s else s)
      in if body = [] \<or> \<not> list_all is_digit body then 0
         else if neg then max (- int (dec_value body)) (- (2 ^ 63))
         else min (int (dec_value body)) (2 ^ 63 - 1))"

lemma of_char_digit: "d < 10 \<Longrightarrow> (of_char (digit d) :: nat) = 48 + d"
  by (simp add: digit_def)

lemma is_digit_digit [simp]: "d < 10 \<Longrightarrow> is_digit (digit d)"
  by (simp add: is_digit_def of_char_digit)

lemma digit_val_digit [simp]: "d < 10 \<Longrightarrow> digit_val (digit d) = d"
  by (simp add: digit_val_def of_char_digit)

lemma digit_less_iff: "a < 10 \<Longrightarrow> b < 10 \<Longrightarrow> digit a < digit b \<longleftrightarrow> a < b"
  by (simp add: less_char_def of_char_digit)

lemma digit_eq_iff: "a < 10 \<Longrightarrow> b < 10 \<Longrightarrow> digit a = digit b \<longleftrightarrow> a = b"
  by (metis digit_val_digit)

lemma not_is_digit [simp]:
  "\<not> is_digit nul" "\<not> is_digit slash" "\<not> is_digit (CHR ''-'')" "\<not> is_digit (CHR ''+'')"
  by (simp_all add: is_digit_def)

lemma fixed_digits_is_digit: "c \<in> set (fixed_digits w n) \<Longrightarrow> is_digit c"
  by (induction w arbitrary: n) auto

lemma fixed_digits_no_nul [simp]: "nul \<notin> set (fixed_digits w n)"
  using fixed_digits_is_digit not_is_digit(1) by blast

lemma digits_of_is_digit: "c \<in> set (digits_of n) \<Longrightarrow> is_digit c"
proof (induction n rule: digits_of.induct)
  case (1 n)
  then show ?case by (cases "n < 10") (auto simp: digits_of.simps [of n])
qed

lemma dec_value_append: "dec_value (s @ [c]) = 10 * dec_value s + digit_val c"
  by (simp add: dec_value_def)

lemma dec_value_fixed: "n < 10 ^ w \<Longrightarrow> dec_value (fixed_digits w n) = n"
proof (induction w arbitrary: n)
  case (Suc w)
  then have "n div 10 < 10 ^ w" by auto
  with Suc.IH show ?case by (simp add: dec_value_append)
qed (simp add: dec_value_def)

lemma fixed_digits_inj: "m < 10 ^ w \<Longrightarrow> n < 10 ^ w \<Longrightarrow> fixed_digits w m = fixed_digits w n \<longleftrightarrow> m = n"
  by (metis dec_value_fixed)

lemma append_less_iff:
  fixes xs ys :: "'a::order list"
  assumes "length xs = length ys"
  shows "xs @ us < ys @ vs \<longleftrightarrow> xs < ys \<or> xs = ys \<and> us < vs"
  using assms by (induction xs ys rule: list_induct2) auto

lemma fixed_digits_less:
  "m < 10 ^ w \<Longrightarrow> n < 10 ^ w \<Longrightarrow> fixed_digits w m < fixed_digits w n \<longleftrightarrow> m < n"
proof (induction w arbitrary: m n)
  case (Suc w)
  then have md: "m div 10 < 10 ^ w" and nd: "n div 10 < 10 ^ w" by auto
  have "fixed_digits (Suc w) m < fixed_digits (Suc w) n \<longleftrightarrow>
      m div 10 < n div 10 \<or> m div 10 = n div 10 \<and> m mod 10 < n mod 10"
    by (simp add: append_less_iff Suc.IH [OF md nd] fixed_digits_inj [OF md nd] digit_less_iff)
  also have "\<dots> \<longleftrightarrow> m < n"
    using div_mult_mod_eq [of m 10] div_mult_mod_eq [of n 10]
      mod_less_divisor [of 10 m] mod_less_divisor [of 10 n] by linarith
  finally show ?case .
qed simp

lemma fixed_digits_ne: "0 < w \<Longrightarrow> fixed_digits w n \<noteq> []"
  by (cases w) auto

lemma fixed_digits_all: "list_all is_digit (fixed_digits w n)"
  by (auto simp: list_all_iff dest: fixed_digits_is_digit)

lemma parse_uint_fixed:
  "n < 2 ^ 64 \<Longrightarrow> n < 10 ^ w \<Longrightarrow> 0 < w \<Longrightarrow> parse_uint (fixed_digits w n) = n"
  by (simp add: parse_uint_def dec_value_fixed fixed_digits_ne fixed_digits_all)

lemma parse_int_fixed:
  assumes n: "n < 2 ^ 63" "n < 10 ^ w" and w: "0 < w"
  shows "parse_int (fixed_digits w n) = int n"
proof -
  let ?s = "fixed_digits w n"
  have ne: "?s \<noteq> []" using w by (rule fixed_digits_ne)
  then have hd: "is_digit (hd ?s)" by (metis fixed_digits_is_digit hd_in_set)
  then have "hd ?s \<noteq> CHR ''-''" "hd ?s \<noteq> CHR ''+''"
    using not_is_digit by metis+
  moreover have "list_all is_digit ?s" by (rule fixed_digits_all)
  moreover have "int n \<le> 2 ^ 63 - 1" using n(1) by simp
  ultimately show ?thesis
    using ne by (simp add: parse_int_def dec_value_fixed [OF n(2)])
qed

section \<open>Lists and maps\<close>

lemma find_Some_iff: "find P xs = Some x \<Longrightarrow> P x \<and> x \<in> set xs"
  by (induction xs) (auto split: if_splits)

lemma map_upd_None_triv [simp]: "m k = None \<Longrightarrow> m(k := None) = m"
  by auto

lemma fold_fun_upd [simp]: "(\<lambda>a. if a = k then v else m a) = m(k := v)"
  by (simp add: fun_upd_def)

section \<open>Hexadecimal text\<close>

definition hex_digit :: "nat \<Rightarrow> char" where
  "hex_digit n = ''0123456789abcdef'' ! (n mod 16)"

fun hex_encode :: "string \<Rightarrow> string" where
  "hex_encode [] = []"
| "hex_encode (c # cs) = hex_digit (of_char c div 16) # hex_digit (of_char c) # hex_encode cs"

text \<open>The lower case of an ASCII letter.\<close>

definition ascii_lower :: "char \<Rightarrow> char" where
  "ascii_lower c = (let n = (of_char c :: nat) in if 65 \<le> n \<and> n \<le> 90 then char_of (n + 32) else c)"

section \<open>Shared state\<close>

text \<open>Components whose state is shared by concurrent requests are step relations. An invariant that every step keeps, with
  a part of the state (such as the configuration) that no step changes, holds after any interleaving.\<close>

locale kept_by_steps =
  fixes step :: "'s \<Rightarrow> 's \<Rightarrow> bool" and inv :: "'s \<Rightarrow> bool" and const_part :: "'s \<Rightarrow> 'c"
  assumes step_keeps: "step s s' \<Longrightarrow> inv s \<Longrightarrow> inv s' \<and> const_part s' = const_part s"
begin

lemma steps_keep: "step\<^sup>*\<^sup>* s s' \<Longrightarrow> inv s \<Longrightarrow> inv s' \<and> const_part s' = const_part s"
proof (induction rule: rtranclp_induct)
  case (step y z)
  then show ?case
    using step_keeps [of y z] by simp
qed simp

end

end
