(* ===== verification/Model.thy ===== *)
theory Model
  imports Prelude
begin

text \<open>
  The records of \<^verbatim>\<open>internal/model/model.go\<close>, the error values and the delivery policy of
  \<^verbatim>\<open>internal/store/store.go\<close>, and the garbage-collection record of \<^verbatim>\<open>schema.go\<close>. Fields keep the
  Go names behind a prefix for their struct (\<open>o_\<close>, \<open>u_\<close>, \<open>c_\<close>, \<open>t_\<close>, \<open>e_\<close>, \<open>g_\<close>, \<open>p_\<close>), because
  Isabelle's record selectors share one name space. Times are nanoseconds since the epoch.
\<close>

datatype state =
    StateNone                   \<comment> \<open>the empty string\<close>
  | StateUploading
  | StateFinalizing
  | StateReady
  | StateLeased
  | StateDeletePending
  | StateInterrupted
  | StateFailed
  | StateHeld
  | StateParked

text \<open>Errors that callers tell apart with \<open>errors.Is\<close>; a wrapped error is the error it wraps.
  \<open>ErrDB\<close> is whatever bbolt or the encoder reports, \<open>ErrIO\<close> whatever the file system reports.\<close>

datatype error =
    ErrNotFound
  | ErrLeaseMismatch
  | ErrConflict
  | ErrInsufficient
  | ErrUploadBlocked error
  | ErrDraining
  | ErrQuota
  | ErrBusy
  | ErrIsDirectory
  | ErrNotDirectory
  | ErrInvalidOffset
  | ErrIncomplete
  | ErrInvalidPath
  | ErrCriticalCapacity
  | ErrUploadsRejected
  | ErrTooManyUploads
  | ErrCanceled
  | ErrClosed
  | ErrDecode
  | ErrDB string
  | ErrIO string
  | ErrOther string

text \<open>The text of an error, without what wrapping adds to it.\<close>

fun error_text :: "error \<Rightarrow> string" where
  "error_text ErrNotFound = ''not found''"
| "error_text ErrLeaseMismatch = ''lease mismatch''"
| "error_text ErrConflict = ''conflict''"
| "error_text ErrInsufficient = ''insufficient storage''"
| "error_text (ErrUploadBlocked e) = ''new uploads are temporarily blocked: '' @ error_text e"
| "error_text ErrDraining = ''server is shutting down; retry shortly''"
| "error_text ErrQuota = ''account storage quota exceeded''"
| "error_text ErrBusy = ''object is being delivered and cannot be renamed''"
| "error_text ErrIsDirectory = ''path is a directory''"
| "error_text ErrNotDirectory = ''a parent of the path is a file''"
| "error_text ErrInvalidOffset = ''write offset does not continue any existing upload''"
| "error_text ErrIncomplete = ''upload is incomplete: bytes were not written contiguously''"
| "error_text ErrInvalidPath = ''invalid path''"
| "error_text ErrCriticalCapacity = ''critical storage capacity reached''"
| "error_text ErrUploadsRejected = ''storage is above the hard watermark; new uploads are rejected''"
| "error_text ErrTooManyUploads = ''too many concurrent uploads for this account''"
| "error_text ErrCanceled = ''context canceled''"
| "error_text ErrClosed = ''file already closed''"
| "error_text ErrDecode = ''undecodable record''"
| "error_text (ErrDB m) = m"
| "error_text (ErrIO m) = m"
| "error_text (ErrOther m) = m"

record upload =
  u_ID :: string
  u_Tenant :: string
  u_Path :: string
  u_Protocol :: string
  u_StagingPath :: string
  u_State :: state
  u_CreatedAt :: gotime
  u_UpdatedAt :: gotime
  u_Error :: string

record object_version =
  o_ID :: string
  o_Tenant :: string
  o_Path :: string
  o_BlobPath :: string
  o_Size :: int
  o_SHA256 :: string
  o_ETag :: string
  o_Metadata :: "(string \<times> string) list"
  o_Tags :: "(string \<times> string) list"
  o_Version :: nat
  o_State :: state
  o_QueueSeq :: nat
  o_QueueKey :: string
  o_VisibleAt :: gotime
  o_CreatedAt :: gotime
  o_UpdatedAt :: gotime
  o_LeaseID :: string
  o_LeaseClient :: string
  o_LeaseUntil :: gotime
  o_Attempts :: int
  o_LastError :: string
  o_ParkedAt :: gotime
  o_Retracted :: bool

record claim =
  c_LeaseID :: string
  c_ObjectID :: string
  c_Tenant :: string
  c_ClientID :: string
  c_Path :: string
  c_Size :: int
  c_SHA256 :: string
  c_Version :: nat
  c_Attempts :: int
  c_LeaseUntil :: gotime
  c_LeaseSeconds :: int

record tombstone =
  t_ObjectID :: string
  t_Tenant :: string
  t_Reason :: string
  t_DeletedAt :: gotime

record dir_entry =
  e_Path :: string
  e_Directory :: bool
  e_UpdatedAt :: gotime

record gc_entry =
  g_Tenant :: string
  g_Blob :: string
  g_Size :: int

record policy =
  p_Supersede :: bool
  p_HoldPatterns :: "string list"
  p_PublishDelay :: duration
  p_MaxAttempts :: int
  p_MaxStoredBytes :: int

definition DefaultPolicy :: policy where
  "DefaultPolicy =
     \<lparr> p_Supersede = True, p_HoldPatterns = [''*.filepart'', ''*.partial'', ''*.tmp''],
       p_PublishDelay = 0, p_MaxAttempts = 10, p_MaxStoredBytes = 0 \<rparr>"

text \<open>\<open>policyFor\<close>: a store without a policy source uses the default; an unset attempt budget is
  the default's.\<close>

definition policyFor :: "(string \<Rightarrow> policy) option \<Rightarrow> string \<Rightarrow> policy" where
  "policyFor src tenant =
     (case src of
        None \<Rightarrow> DefaultPolicy
      | Some f \<Rightarrow>
          (let p = f tenant
           in if p_MaxAttempts p \<le> 0 then p\<lparr>p_MaxAttempts := p_MaxAttempts DefaultPolicy\<rparr> else p))"

lemma policyFor_MaxAttempts_pos: "0 < p_MaxAttempts (policyFor src tenant)"
  by (auto simp: policyFor_def DefaultPolicy_def Let_def split: option.splits)

end
