(* ===== verification/Paths.thy ===== *)
theory Paths
  imports Model
begin

text \<open>
  \<^verbatim>\<open>internal/store/path.go\<close>: the one place where client-supplied names are normalised. \<open>CleanPath\<close>
  is proved equal to a reference definition (drop empty and \<open>.\<close> segments, refuse NUL and \<open>..\<close>),
  its results are safe to use as catalog keys, and it is idempotent. \<open>path.Clean\<close> and \<open>path.Dir\<close>
  are the standard library's lexical functions.
\<close>

section \<open>path.Clean and path.Dir\<close>

text \<open>The components of a path are pushed on a stack (last one first); \<open>..\<close> pops unless there is
  nothing to pop.\<close>

fun clean_comps :: "bool \<Rightarrow> string list \<Rightarrow> string list \<Rightarrow> string list" where
  "clean_comps rooted st [] = rev st"
| "clean_comps rooted st (c # cs) =
     (if c = [] \<or> c = ''.'' then clean_comps rooted st cs
      else if c = ''..'' then
        (case st of
           [] \<Rightarrow> clean_comps rooted (if rooted then [] else [''..'']) cs
         | s # ss \<Rightarrow> clean_comps rooted (if s = ''..'' then ''..'' # st else ss) cs)
      else clean_comps rooted (c # st) cs)"

definition path_Clean :: "string \<Rightarrow> string" where
  "path_Clean p =
     (if p = [] then ''.''
      else let rooted = (hd p = slash);
               s = join_with slash (clean_comps rooted [] (split_on slash p))
           in if rooted then slash # s else if s = [] then ''.'' else s)"

definition path_Dir :: "string \<Rightarrow> string" where
  "path_Dir p = path_Clean (case last_index slash p of None \<Rightarrow> [] | Some i \<Rightarrow> take (Suc i) p)"

section \<open>CleanPath\<close>

definition CleanPath :: "string \<Rightarrow> error + string" where
  "CleanPath name0 =
     (if nul \<in> set name0 then Inl (ErrOther ''path contains NUL'')
      else let name = map (\<lambda>c. if c = backslash then slash else c) name0
           in if ''..'' \<in> set (split_on slash name)
              then Inl (ErrOther ''path traversal is not allowed'')
              else let clean = path_Clean (slash # name)
                   in if clean = ''/'' then Inr []
                      else let clean' = trim_prefix clean ''/''
                           in if list_ex (\<lambda>part. part = ''..'' \<or> part = ''.'' \<or> part = []) (split_on slash clean')
                              then Inl (ErrOther ''invalid path component'')
                              else Inr clean')"

definition pathHasPrefix :: "string \<Rightarrow> string \<Rightarrow> bool" where
  "pathHasPrefix name pre = (if pre = [] then True else name = pre \<or> prefix (pre @ [slash]) name)"

text \<open>\<open>firstSegment\<close> of \<^verbatim>\<open>schema.go\<close>.\<close>

definition firstSegment :: "string \<Rightarrow> string" where
  "firstSegment p = fst (cut_at slash p)"

section \<open>What the functions promise\<close>

text \<open>The segments a path keeps, and the paths the catalog stores: nonempty lists of real
  segments.\<close>

definition real_segment :: "string \<Rightarrow> bool" where
  "real_segment c \<longleftrightarrow> c \<noteq> [] \<and> c \<noteq> ''.'' \<and> c \<noteq> ''..''"

definition clean_path :: "string \<Rightarrow> bool" where
  "clean_path p \<longleftrightarrow> nul \<notin> set p \<and> backslash \<notin> set p \<and> list_all real_segment (split_on slash p)"

lemma clean_comps_no_dotdot:
  "''..'' \<notin> set cs \<Longrightarrow>
   clean_comps rooted st cs = rev st @ filter (\<lambda>c. c \<noteq> [] \<and> c \<noteq> ''.'') cs"
  by (induction cs arbitrary: st) auto

lemma path_Clean_rooted:
  assumes "''..'' \<notin> set (split_on slash name)"
  shows "path_Clean (slash # name) =
     slash # join_with slash (filter (\<lambda>c. c \<noteq> [] \<and> c \<noteq> ''.'') (split_on slash name))"
  using assms by (simp add: path_Clean_def clean_comps_no_dotdot)

definition segments :: "string \<Rightarrow> string list" where
  "segments name =
     filter (\<lambda>c. c \<noteq> [] \<and> c \<noteq> ''.'')
       (split_on slash (map (\<lambda>c. if c = backslash then slash else c) name))"

text \<open>The reference definition: a name is refused exactly when it holds NUL or a \<open>..\<close> segment;
  otherwise the result joins the segments that are neither empty nor \<open>.\<close>. In particular the last
  check of the code never fires.\<close>

lemma CleanPath_eq:
  "CleanPath name =
     (if nul \<in> set name then Inl (ErrOther ''path contains NUL'')
      else if ''..'' \<in> set (split_on slash (map (\<lambda>c. if c = backslash then slash else c) name))
      then Inl (ErrOther ''path traversal is not allowed'')
      else Inr (join_with slash (segments name)))"
proof -
  let ?n = "map (\<lambda>c. if c = backslash then slash else c) name"
  have seg: "\<And>x. x \<in> set (segments name) \<Longrightarrow> slash \<notin> set x \<and> x \<noteq> [] \<and> x \<noteq> ''.''"
    by (auto simp: segments_def dest: split_on_no_sep)
  {
    assume nd: "''..'' \<notin> set (split_on slash ?n)"
    have cl: "path_Clean (slash # ?n) = slash # join_with slash (segments name)"
      using path_Clean_rooted [OF nd] by (simp add: segments_def)
    have split: "split_on slash (join_with slash (segments name)) = segments name"
      if "segments name \<noteq> []"
      using that seg by (intro split_on_join) auto
    have ne: "join_with slash (segments name) = [] \<longleftrightarrow> segments name = []"
      using seg by (cases "segments name") auto
    have "''..'' \<notin> set (segments name)" using nd by (auto simp: segments_def)
    then have "\<not> list_ex (\<lambda>part. part = ''..'' \<or> part = ''.'' \<or> part = [])
        (split_on slash (join_with slash (segments name)))" if "segments name \<noteq> []"
      using seg that by (auto simp: split list_ex_iff)
    note this cl ne
  }
  then show ?thesis
    by (auto simp: CleanPath_def Let_def trim_prefix_def)
qed

lemma segments_chars:
  assumes "x \<in> set (segments name)" "nul \<notin> set name"
  shows "nul \<notin> set x" "backslash \<notin> set x" "slash \<notin> set x" "x \<noteq> []" "x \<noteq> ''.''"
proof -
  let ?n = "map (\<lambda>c. if c = backslash then slash else c) name"
  from assms have "x \<in> set (split_on slash ?n)" and ne: "x \<noteq> []" "x \<noteq> ''.''"
    by (auto simp: segments_def)
  then have sub: "\<And>c. c \<in> set x \<Longrightarrow> c \<in> set ?n" and "slash \<notin> set x"
    by (auto dest: set_split_on split_on_no_sep)
  have "nul \<notin> set ?n" "backslash \<notin> set ?n" using assms(2) by auto
  with sub show "nul \<notin> set x" "backslash \<notin> set x" by blast+
  show "slash \<notin> set x" "x \<noteq> []" "x \<noteq> ''.''" by fact+
qed

lemma CleanPath_Inr:
  assumes "CleanPath name = Inr p"
  shows "p = [] \<or> clean_path p"
proof -
  from assms have nn: "nul \<notin> set name" and
    nd: "''..'' \<notin> set (split_on slash (map (\<lambda>c. if c = backslash then slash else c) name))" and
    p: "p = join_with slash (segments name)"
    by (auto simp: CleanPath_eq split: if_splits)
  show ?thesis
  proof (cases "segments name = []")
    case True
    with p show ?thesis by simp
  next
    case False
    have split: "split_on slash p = segments name"
      unfolding p using False segments_chars [OF _ nn] by (intro split_on_join) auto
    have "''..'' \<notin> set (segments name)" using nd by (auto simp: segments_def)
    then have "list_all real_segment (split_on slash p)"
      using segments_chars [OF _ nn] by (auto simp: split list_all_iff real_segment_def)
    moreover have "nul \<notin> set p" "backslash \<notin> set p"
      using set_join_with [of slash "segments name"] segments_chars [OF _ nn] by (auto simp: p)
    ultimately show ?thesis by (simp add: clean_path_def)
  qed
qed

lemma clean_path_ne: "clean_path p \<Longrightarrow> p \<noteq> []"
  by (auto simp: clean_path_def real_segment_def)

lemma map_no_backslash:
  "backslash \<notin> set p \<Longrightarrow> map (\<lambda>c. if c = backslash then slash else c) p = p"
  by (induction p) auto

lemma segments_clean: "clean_path p \<Longrightarrow> segments p = split_on slash p"
  by (auto simp: clean_path_def segments_def map_no_backslash list_all_iff real_segment_def
      intro!: filter_True)

lemma CleanPath_clean: "clean_path p \<Longrightarrow> CleanPath p = Inr p"
proof -
  assume c: "clean_path p"
  then have "''..'' \<notin> set (split_on slash p)"
    by (auto simp: clean_path_def list_all_iff real_segment_def)
  with c show ?thesis
    by (simp add: CleanPath_eq segments_clean) (simp add: clean_path_def map_no_backslash)
qed

lemma clean_path_nul: "clean_path p \<Longrightarrow> nul \<notin> set p"
  by (simp add: clean_path_def)

lemma CleanPath_no_nul: "CleanPath name = Inr p \<Longrightarrow> nul \<notin> set p"
  using CleanPath_Inr clean_path_nul by fastforce

lemma firstSegment_no_slash: "slash \<notin> set (firstSegment p)"
  by (simp add: firstSegment_def cut_at_fst)

lemma firstSegment_prefix: "pathHasPrefix name pre \<Longrightarrow> pre \<noteq> [] \<Longrightarrow> firstSegment name = firstSegment pre"
proof -
  have cut: "fst (cut_at slash (a @ slash # b)) = fst (cut_at slash a)" for a b
    by (induction a) (auto split: prod.splits)
  assume "pathHasPrefix name pre" "pre \<noteq> []"
  then show ?thesis
    by (auto simp: pathHasPrefix_def firstSegment_def prefix_def cut)
qed

section \<open>The parents of a path\<close>

text \<open>The loop \<open>for dir := path.Dir(p); dir != "." \<and> dir != "/" \<and> dir != ""; dir = path.Dir(dir)\<close> of
  \<open>checkAncestors\<close> visits ever shorter paths. The measure below charges each component its length
  and one separator.\<close>

definition weight :: "string list \<Rightarrow> nat" where
  "weight cs = sum_list (map (\<lambda>c. Suc (length c)) cs)"

lemma weight_simps [simp]: "weight [] = 0" "weight (c # cs) = Suc (length c + weight cs)"
  "weight (cs @ ds) = weight cs + weight ds" "weight (rev cs) = weight cs"
  by (simp_all add: weight_def rev_map [symmetric] sum_list_rev)

lemma weight_split_on: "weight (split_on c s) = Suc (length s)"
  by (induction s) (auto split: list.splits)

lemma length_join_with: "cs \<noteq> [] \<Longrightarrow> Suc (length (join_with c cs)) = weight cs"
  by (induction c cs rule: join_with.induct) auto

lemma weight_clean_comps: "weight (clean_comps rooted st cs) \<le> weight st + weight (filter (\<lambda>c. c \<noteq> []) cs)"
proof (induction rooted st cs rule: clean_comps.induct)
  case (2 rooted st c cs)
  then show ?case by (auto split: list.splits)
qed simp

lemma split_on_snoc: "split_on c (s @ [c]) = split_on c s @ [[]]"
proof (induction s)
  case (Cons x xs)
  then show ?case by (cases "split_on c xs") auto
qed simp

lemma path_Dir_shorter:
  "path_Dir p = ''.'' \<or> path_Dir p = ''/'' \<or> length (path_Dir p) < length p"
proof (cases "slash \<in> set p")
  case False
  then show ?thesis by (simp add: path_Dir_def path_Clean_def)
next
  case True
  then obtain a b where p: "p = a @ slash # b" and b: "slash \<notin> set b"
    by (metis split_list_last)
  let ?q = "a @ [slash]"
  have q: "path_Dir p = path_Clean ?q" using b by (simp add: path_Dir_def p)
  let ?cs = "clean_comps (hd ?q = slash) [] (split_on slash ?q)"
  have w: "weight ?cs \<le> weight (filter (\<lambda>c. c \<noteq> []) (split_on slash a))"
    using weight_clean_comps [of "hd ?q = slash" "[]" "split_on slash ?q"]
    by (simp add: split_on_snoc)
  have wa: "weight (filter (\<lambda>c. c \<noteq> []) (split_on slash a)) \<le> (if hd ?q = slash then length a else Suc (length a))"
  proof -
    have le: "weight (filter P cs) \<le> weight cs" for P and cs :: "string list"
      by (induction cs) auto
    show ?thesis
    proof (cases "hd ?q = slash \<and> a \<noteq> []")
      case True
      then obtain a' where a: "a = slash # a'" by (cases a) auto
      with le [of "\<lambda>c. c \<noteq> []" "split_on slash a'"] show ?thesis
        by (simp add: weight_split_on)
    next
      case False
      with le [of "\<lambda>c. c \<noteq> []" "split_on slash a"] show ?thesis
        by (auto simp: weight_split_on)
    qed
  qed
  define cs where "cs = ?cs"
  define rooted where "rooted = (hd ?q = slash)"
  have cl: "path_Clean ?q = (let s = join_with slash cs in
      if rooted then slash # s else if s = [] then ''.'' else s)"
    by (simp add: path_Clean_def cs_def rooted_def Let_def)
  have wcs: "weight cs \<le> (if rooted then length a else Suc (length a))"
    using w wa unfolding cs_def rooted_def by linarith
  show ?thesis
  proof (cases "cs = []")
    case True
    then show ?thesis by (simp add: q cl)
  next
    case False
    have "Suc (length (join_with slash cs)) = weight cs" using False by (rule length_join_with)
    with wcs have "length (path_Clean ?q) \<le> length a \<or> path_Clean ?q = ''.''"
      unfolding cl by (auto simp: Let_def split: if_splits)
    then show ?thesis unfolding q by (auto simp: p)
  qed
qed

function ancestor_dirs :: "string \<Rightarrow> string list" where
  "ancestor_dirs p =
     (let d = path_Dir p in if d = ''.'' \<or> d = ''/'' \<or> d = [] then [] else d # ancestor_dirs d)"
  by pat_completeness auto
termination
  by (relation "measure length") (use path_Dir_shorter in auto)

declare ancestor_dirs.simps [simp del]

lemma clean_path_split:
  assumes "clean_path (a @ slash # b)"
  shows "clean_path a" "clean_path b"
proof -
  have split: "split_on slash (a @ slash # b) = split_on slash a @ split_on slash b"
    by (induction a) (auto split: list.splits)
  show "clean_path a" "clean_path b"
    using assms by (auto simp: clean_path_def split)
qed

lemma path_Clean_snoc: "clean_path a \<Longrightarrow> path_Clean (a @ [slash]) = a"
proof -
  assume c: "clean_path a"
  have ne: "a \<noteq> []" using c by (rule clean_path_ne)
  have hd: "hd a \<noteq> slash"
    using c ne by (cases a) (auto simp: clean_path_def real_segment_def)
  have real: "''..'' \<notin> set (split_on slash a)" "\<And>x. x \<in> set (split_on slash a) \<Longrightarrow> x \<noteq> [] \<and> x \<noteq> ''.''"
    using c by (auto simp: clean_path_def list_all_iff real_segment_def)
  have "clean_comps False [] (split_on slash (a @ [slash])) = split_on slash a"
    using real by (subst clean_comps_no_dotdot) (auto simp: split_on_snoc intro!: filter_True)
  with ne hd show ?thesis
    by (simp add: path_Clean_def Let_def)
qed

lemma path_Dir_clean:
  assumes "clean_path (a @ slash # b)" "slash \<notin> set b"
  shows "path_Dir (a @ slash # b) = a"
  using assms clean_path_split(1) by (simp add: path_Dir_def path_Clean_snoc)

lemma ancestor_dirs_clean:
  "clean_path p \<Longrightarrow> set (ancestor_dirs p) = {a. \<exists>b. p = a @ slash # b}"
proof (induction p rule: ancestor_dirs.induct)
  case (1 p)
  show ?case
  proof (cases "slash \<in> set p")
    case False
    then have "path_Dir p = ''.''" by (simp add: path_Dir_def path_Clean_def)
    with False show ?thesis by (auto simp: ancestor_dirs.simps [of p])
  next
    case True
    then obtain a b where p: "p = a @ slash # b" and b: "slash \<notin> set b"
      by (metis split_list_last)
    have ca: "clean_path a" using "1.prems" p clean_path_split(1) by blast
    have d: "path_Dir p = a" using path_Dir_clean "1.prems" p b by simp
    have nd: "a \<noteq> ''.''" "a \<noteq> ''/''" "a \<noteq> []"
      using ca by (auto simp: clean_path_def real_segment_def)
    have IH: "set (ancestor_dirs a) = {x. \<exists>y. a = x @ slash # y}"
      using "1.IH" [OF refl, of] d nd ca by simp
    have "p = x @ slash # y \<longleftrightarrow> (x = a \<and> y = b \<or> (\<exists>z. a = x @ slash # z \<and> y = z @ slash # b))" for x y
      using b by (auto simp: p append_eq_append_conv2 append_eq_Cons_conv Cons_eq_append_conv)
    then show ?thesis
      using nd IH by (auto simp: ancestor_dirs.simps [of p] d Let_def)
  qed
qed

end
