(* ===== verification/Keys.thy ===== *)
theory Keys
  imports Paths
begin

text \<open>
  The key encodings of \<^verbatim>\<open>internal/store/schema.go\<close>. Catalog keys are byte strings whose parts are
  separated by NUL; sequence numbers and times are 20-digit decimals, so that the byte order in
  which bbolt walks a bucket is the numeric order. The lemmas: every encoding is injective, the
  parsers invert the encoders, the order is the intended one, and the keys of one tenant are
  exactly those that start with its prefix.
\<close>

definition u64key :: "nat \<Rightarrow> string" where
  "u64key n = pad_digits 20 n"

definition UnixNano :: "gotime \<Rightarrow> int" where
  "UnixNano t = wrap64 t"

definition tskey :: "gotime \<Rightarrow> string" where
  "tskey t = (let n = UnixNano t; n' = (if n < 0 then 0 else n) in u64key (nat n'))"

definition parseTS :: "string \<Rightarrow> gotime" where
  "parseTS s = parse_int s"

definition nsKey :: "string \<Rightarrow> string \<Rightarrow> string" where
  "nsKey tenant name = tenant @ [nul] @ name"

definition queueKey :: "string \<Rightarrow> nat \<Rightarrow> string \<Rightarrow> string" where
  "queueKey tenant seq oid = tenant @ [nul] @ u64key seq @ [nul] @ oid"

definition queueSegKey :: "string \<Rightarrow> string \<Rightarrow> nat \<Rightarrow> string \<Rightarrow> string" where
  "queueSegKey tenant p seq oid = tenant @ [nul] @ firstSegment p @ [nul] @ u64key seq @ [nul] @ oid"

definition queueValue :: "gotime \<Rightarrow> string \<Rightarrow> string" where
  "queueValue visible p = tskey visible @ [nul] @ p"

definition parseQueueValue :: "string \<Rightarrow> gotime \<times> string" where
  "parseQueueValue v = (case cut_at nul v of (ts, p, _) \<Rightarrow> (parseTS ts, p))"

definition parseTailKey :: "string \<Rightarrow> nat \<times> string" where
  "parseTailKey k =
     (case last_index nul k of
        None \<Rightarrow> (0, [])
      | Some i \<Rightarrow>
          let oid = drop (Suc i) k;
              j = (case last_index nul (take i k) of None \<Rightarrow> 0 | Some j \<Rightarrow> Suc j)
          in (parse_uint (drop j (take i k)), oid))"

definition timeIDKey :: "gotime \<Rightarrow> string \<Rightarrow> string" where
  "timeIDKey t oid = tskey t @ [nul] @ oid"

definition parseTimeIDKey :: "string \<Rightarrow> gotime \<times> string" where
  "parseTimeIDKey k = (case cut_at nul k of (ts, oid, _) \<Rightarrow> (parseTS ts, oid))"

definition uploadPathKey :: "string \<Rightarrow> string \<Rightarrow> string \<Rightarrow> string" where
  "uploadPathKey tenant p oid = tenant @ [nul] @ p @ [nul] @ oid"

definition parkedKey :: "string \<Rightarrow> gotime \<Rightarrow> string \<Rightarrow> string" where
  "parkedKey tenant at oid = tenant @ [nul] @ tskey at @ [nul] @ oid"

text \<open>\<open>hasPrefix\<close> of \<^verbatim>\<open>upload.go\<close>.\<close>

definition hasPrefix :: "string \<Rightarrow> string \<Rightarrow> bool" where
  "hasPrefix b pre = (length pre \<le> length b \<and> take (length pre) b = pre)"

lemma hasPrefix_iff [simp]: "hasPrefix b pre \<longleftrightarrow> prefix pre b"
  by (auto simp: hasPrefix_def prefix_def intro: exI [of _ "drop (length pre) b"])
    (metis append_take_drop_id)

section \<open>Numbers and times\<close>

lemma u64key_fixed: "n < 2 ^ 64 \<Longrightarrow> u64key n = fixed_digits 20 n"
  by (simp add: u64key_def pad_digits_fixed)

lemma length_u64key: "n < 2 ^ 64 \<Longrightarrow> length (u64key n) = 20"
  by (simp add: u64key_fixed)

lemma u64key_no_nul [simp]: "nul \<notin> set (u64key n)"
proof -
  have "c \<in> set (u64key n) \<Longrightarrow> is_digit c" for c
    by (auto simp: u64key_def pad_digits_def Let_def dest: digits_of_is_digit)
  then show ?thesis using not_is_digit(1) by blast
qed

lemma u64key_less: "m < 2 ^ 64 \<Longrightarrow> n < 2 ^ 64 \<Longrightarrow> u64key m < u64key n \<longleftrightarrow> m < n"
  by (simp add: u64key_fixed fixed_digits_less)

lemma parse_u64key: "n < 2 ^ 64 \<Longrightarrow> parse_uint (u64key n) = n"
  by (simp add: u64key_fixed parse_uint_fixed)

definition ts_ok :: "gotime \<Rightarrow> bool" where
  "ts_ok t \<longleftrightarrow> 0 \<le> t \<and> t < 2 ^ 63"

lemma tskey_u64: "tskey t = u64key (nat (max 0 (wrap64 t)))" "nat (max 0 (wrap64 t)) < 2 ^ 64"
proof -
  show "tskey t = u64key (nat (max 0 (wrap64 t)))"
    by (simp add: tskey_def UnixNano_def Let_def max_def not_less)
  show "nat (max 0 (wrap64 t)) < 2 ^ 64"
    using wrap64_bounds [of t] by (simp add: nat_less_iff)
qed

lemma tskey_no_nul [simp]: "nul \<notin> set (tskey t)"
  by (simp add: tskey_u64(1))

lemma length_tskey [simp]: "length (tskey t) = 20"
  using tskey_u64 length_u64key by metis

lemma tskey_ok: "ts_ok t \<Longrightarrow> tskey t = u64key (nat t)"
  by (simp add: tskey_u64(1) ts_ok_def)

lemma tskey_less: "ts_ok s \<Longrightarrow> ts_ok t \<Longrightarrow> tskey s < tskey t \<longleftrightarrow> s < t"
proof -
  assume st: "ts_ok s" "ts_ok t"
  then have "nat s < 2 ^ 64" "nat t < 2 ^ 64" by (auto simp: ts_ok_def nat_less_iff)
  with st show ?thesis by (auto simp: tskey_ok u64key_less ts_ok_def)
qed

lemma parseTS_tskey: "parseTS (tskey t) = max 0 (wrap64 t)"
proof -
  have b: "nat (max 0 (wrap64 t)) < 2 ^ 63"
    using wrap64_bounds [of t] by (simp add: nat_less_iff)
  then have "nat (max 0 (wrap64 t)) < 10 ^ 20" by simp
  with b show ?thesis
    by (simp add: parseTS_def tskey_u64(1) u64key_fixed [OF tskey_u64(2)] parse_int_fixed)
qed

lemma parseTS_ok [simp]: "ts_ok t \<Longrightarrow> parseTS (tskey t) = t"
  by (simp add: parseTS_tskey ts_ok_def)

lemma tskey_zero_time: "parseTS (tskey zero_time) = 0"
  by (simp add: parseTS_tskey zero_time_def wrap64_def)

section \<open>Parsing inverts encoding\<close>

lemma parseTailKey_append:
  assumes "nul \<notin> set oid" "n < 2 ^ 64"
  shows "parseTailKey (a @ nul # u64key n @ nul # oid) = (n, oid)"
proof -
  have 1: "last_index nul ((a @ nul # u64key n) @ nul # oid) = Some (length (a @ nul # u64key n))"
    using assms(1) by (rule last_index_append)
  have 2: "last_index nul (a @ nul # u64key n) = Some (length a)"
    by (rule last_index_append) simp
  from 1 2 assms(2) show ?thesis
    by (simp add: parseTailKey_def Let_def parse_u64key)
qed

lemma parse_queueKey:
  "nul \<notin> set oid \<Longrightarrow> n < 2 ^ 64 \<Longrightarrow> parseTailKey (queueKey tenant n oid) = (n, oid)"
  using parseTailKey_append [of oid n tenant] by (simp add: queueKey_def)

lemma parse_queueSegKey:
  "nul \<notin> set oid \<Longrightarrow> n < 2 ^ 64 \<Longrightarrow> parseTailKey (queueSegKey tenant p n oid) = (n, oid)"
  using parseTailKey_append [of oid n "tenant @ nul # firstSegment p"] by (simp add: queueSegKey_def)

lemma parse_parkedKey: "nul \<notin> set oid \<Longrightarrow> snd (parseTailKey (parkedKey tenant at oid)) = oid"
  using parseTailKey_append [of oid "nat (max 0 (wrap64 at))" tenant] tskey_u64 [of at]
  by (simp add: parkedKey_def)

lemma parse_timeIDKey: "parseTimeIDKey (timeIDKey t oid) = (max 0 (wrap64 t), oid)"
  by (simp add: parseTimeIDKey_def timeIDKey_def parseTS_tskey)

lemma parse_queueValue: "parseQueueValue (queueValue v p) = (max 0 (wrap64 v), p)"
  by (simp add: parseQueueValue_def queueValue_def parseTS_tskey)

section \<open>Injectivity\<close>

text \<open>The record an index key belongs to is the text after its last NUL.\<close>

definition key_tail :: "string \<Rightarrow> string" where
  "key_tail k = rev (takeWhile (\<lambda>c. c \<noteq> nul) (rev k))"

lemma key_tail_append [key_simps]: "nul \<notin> set oid \<Longrightarrow> key_tail (a @ nul # oid) = oid"
  by (simp add: key_tail_def) (subst takeWhile_append2, auto)

lemma key_tails [key_simps]:
  assumes "nul \<notin> set oid"
  shows "key_tail (queueKey t n oid) = oid" "key_tail (queueSegKey t p n oid) = oid"
    "key_tail (timeIDKey at oid) = oid" "key_tail (parkedKey t at oid) = oid"
    "key_tail (uploadPathKey t p oid) = oid"
  using key_tail_append [OF assms, of "t @ nul # u64key n"]
    key_tail_append [OF assms, of "t @ nul # firstSegment p @ nul # u64key n"]
    key_tail_append [OF assms, of "tskey at"] key_tail_append [OF assms, of "t @ nul # tskey at"]
    key_tail_append [OF assms, of "t @ nul # p"]
  by (simp_all add: queueKey_def queueSegKey_def timeIDKey_def parkedKey_def uploadPathKey_def)

lemma nul_split_eq:
  "nul \<notin> set a \<Longrightarrow> nul \<notin> set b \<Longrightarrow> a @ nul # x = b @ nul # y \<longleftrightarrow> a = b \<and> x = y"
  by (metis cut_at_append prod.inject)

lemma nsKey_inj [key_simps]:
  "nul \<notin> set s \<Longrightarrow> nul \<notin> set t \<Longrightarrow> nsKey s p = nsKey t q \<longleftrightarrow> s = t \<and> p = q"
  by (simp add: nsKey_def nul_split_eq)

lemma nsKey_same [simp]: "nsKey t p = nsKey t q \<longleftrightarrow> p = q"
  by (simp add: nsKey_def)

lemma prefix_tenant:
  assumes "nul \<notin> set s" "nul \<notin> set t"
  shows "prefix (s @ [nul]) (t @ nul # x) \<longleftrightarrow> s = t"
proof
  assume "prefix (s @ [nul]) (t @ nul # x)"
  then obtain y where "t @ nul # x = s @ nul # y" by (auto simp: prefix_def)
  with assms show "s = t" by (simp add: nul_split_eq)
qed (simp add: prefix_def)

lemma prefix_nsKey [key_simps]:
  "nul \<notin> set s \<Longrightarrow> nul \<notin> set t \<Longrightarrow> prefix (nsKey s p) (nsKey t q) \<longleftrightarrow> s = t \<and> prefix p q"
  by (auto simp: nsKey_def prefix_def nul_split_eq)

lemma prefix_nsKey_same [simp]: "prefix (nsKey t p) (nsKey t q) \<longleftrightarrow> prefix p q"
  by (simp add: nsKey_def)

section \<open>Order\<close>

lemma append_cancel_less: "(xs :: 'a::order list) @ us < xs @ vs \<longleftrightarrow> us < vs"
  using append_less_iff [of xs xs us vs] by simp

lemma queueKey_less:
  assumes "m < 2 ^ 64" "n < 2 ^ 64" "m < n"
  shows "queueKey t m a < queueKey t n b"
proof -
  have "u64key m @ nul # a < u64key n @ nul # b"
    using assms by (subst append_less_iff) (simp_all add: length_u64key u64key_less)
  then show ?thesis by (simp add: queueKey_def append_cancel_less)
qed

lemma timeIDKey_less:
  assumes "ts_ok s" "ts_ok t" "s < t"
  shows "timeIDKey s a < timeIDKey t b"
proof -
  have "tskey s @ nul # a < tskey t @ nul # b"
    using assms by (subst append_less_iff) (simp_all add: tskey_less)
  then show ?thesis by (simp add: timeIDKey_def)
qed

end
