(* ===== verification/Counters.thy ===== *)
theory Counters
  imports Model "HOL-Library.AList"
begin

text \<open>
  The in-memory statistics of \<^verbatim>\<open>internal/store/store.go\<close>: the per-tenant counters, the delta a
  write transaction accumulates, and \<open>apply\<close>, which adds a committed delta to the counters. The
  counters form a commutative group, which turns "the counters never drift" into an equation:
  what a transaction adds to its delta is the difference of what the objects contribute before
  and after (\<open>move_lookup\<close>), and applying a delta keeps the totals equal to the sum over the
  tenants (\<open>apply_totals\<close>). Go maps are association lists with distinct keys.
\<close>

datatype TenantStats =
  TenantStats (ts_Objects: int) (ts_Ready: int) (ts_Leased: int) (ts_Held: int) (ts_Parked: int)
    (ts_Bytes: int)

instantiation TenantStats :: ab_group_add
begin
definition zero_TenantStats where "0 = TenantStats 0 0 0 0 0 0"
definition plus_TenantStats where
  "s + t = TenantStats (ts_Objects s + ts_Objects t) (ts_Ready s + ts_Ready t)
     (ts_Leased s + ts_Leased t) (ts_Held s + ts_Held t) (ts_Parked s + ts_Parked t)
     (ts_Bytes s + ts_Bytes t)"
definition uminus_TenantStats where
  "- s = TenantStats (- ts_Objects s) (- ts_Ready s) (- ts_Leased s) (- ts_Held s)
     (- ts_Parked s) (- ts_Bytes s)"
definition minus_TenantStats where "(s :: TenantStats) - t = s + - t"
instance
  by standard
    (auto simp: zero_TenantStats_def plus_TenantStats_def uminus_TenantStats_def
      minus_TenantStats_def)
end

lemmas stats_defs =
  zero_TenantStats_def plus_TenantStats_def uminus_TenantStats_def minus_TenantStats_def

lemma ts_sel_simps [simp]:
  "ts_Objects 0 = 0" "ts_Ready 0 = 0" "ts_Leased 0 = 0" "ts_Held 0 = 0" "ts_Parked 0 = 0"
  "ts_Bytes 0 = 0"
  "ts_Objects (s + t) = ts_Objects s + ts_Objects t" "ts_Ready (s + t) = ts_Ready s + ts_Ready t"
  "ts_Leased (s + t) = ts_Leased s + ts_Leased t" "ts_Held (s + t) = ts_Held s + ts_Held t"
  "ts_Parked (s + t) = ts_Parked s + ts_Parked t" "ts_Bytes (s + t) = ts_Bytes s + ts_Bytes t"
  by (simp_all add: stats_defs)

section \<open>Deltas\<close>

record delta =
  d_uploads :: int
  d_claims :: int
  d_gc :: int
  d_tenants :: "(string \<times> TenantStats) list"
  d_touched :: "string list"

definition delta0 :: delta where
  "delta0 = \<lparr>d_uploads = 0, d_claims = 0, d_gc = 0, d_tenants = [], d_touched = []\<rparr>"

definition lookup_stats :: "(string \<times> TenantStats) list \<Rightarrow> string \<Rightarrow> TenantStats" where
  "lookup_stats m t = (case map_of m t of None \<Rightarrow> 0 | Some s \<Rightarrow> s)"

definition wake :: "string \<Rightarrow> delta \<Rightarrow> delta" where
  "wake tenant d = d\<lparr>d_touched := List.insert tenant (d_touched d)\<rparr>"

definition bump :: "TenantStats \<Rightarrow> state \<Rightarrow> int \<Rightarrow> TenantStats" where
  "bump t st n =
     (case st of
        StateReady \<Rightarrow> t + TenantStats 0 n 0 0 0 0
      | StateLeased \<Rightarrow> t + TenantStats 0 0 n 0 0 0
      | StateHeld \<Rightarrow> t + TenantStats 0 0 0 n 0 0
      | StateParked \<Rightarrow> t + TenantStats 0 0 0 0 n 0
      | _ \<Rightarrow> t)"

definition move :: "object_version \<Rightarrow> state \<Rightarrow> state \<Rightarrow> delta \<Rightarrow> delta" where
  "move ob from to d =
     (let t0 = lookup_stats (d_tenants d) (o_Tenant ob);
          t1 = (if from = StateNone then t0 + TenantStats 1 0 0 0 0 (o_Size ob) else bump t0 from (-1));
          t2 = (if to = StateNone then t1 - TenantStats 1 0 0 0 0 (o_Size ob) else bump t1 to 1);
          d' = d\<lparr>d_tenants := AList.update (o_Tenant ob) t2 (d_tenants d)\<rparr>
      in if to = StateReady then wake (o_Tenant ob) d' else d')"

text \<open>What an object contributes in a given state; no state, no contribution.\<close>

definition state_stats :: "object_version \<Rightarrow> state \<Rightarrow> TenantStats" where
  "state_stats ob st = (if st = StateNone then 0 else bump (TenantStats 1 0 0 0 0 (o_Size ob)) st 1)"

definition pulse :: "state \<Rightarrow> TenantStats" where
  "pulse st = bump 0 st 1"

lemma bump_pulse: "bump t st 1 = t + pulse st" "bump t st (-1) = t - pulse st"
  by (cases st; simp add: pulse_def bump_def stats_defs)+

lemma lookup_stats_update:
  "lookup_stats (AList.update k v m) t = (if t = k then v else lookup_stats m t)"
  by (simp add: lookup_stats_def update_conv')

lemma move_lookup:
  "lookup_stats (d_tenants (move ob from to d)) t =
     lookup_stats (d_tenants d) t +
     (if t = o_Tenant ob then state_stats ob to - state_stats ob from else 0)"
  by (simp add: move_def state_stats_def bump_pulse Let_def wake_def lookup_stats_update)

lemma move_frame [simp]:
  "d_uploads (move ob from to d) = d_uploads d" "d_claims (move ob from to d) = d_claims d"
  "d_gc (move ob from to d) = d_gc d"
  by (simp_all add: move_def wake_def Let_def)

lemma move_touched:
  "set (d_touched (move ob from to d)) =
     (if to = StateReady then insert (o_Tenant ob) (set (d_touched d)) else set (d_touched d))"
  by (simp add: move_def wake_def Let_def)

lemma move_distinct [simp]:
  "distinct (map fst (d_tenants d)) \<Longrightarrow> distinct (map fst (d_tenants (move ob from to d)))"
  by (simp add: move_def wake_def Let_def distinct_update)

lemma move_cong: "o_Tenant ob = o_Tenant ob' \<Longrightarrow> o_Size ob = o_Size ob' \<Longrightarrow> move ob = move ob'"
  by (simp add: fun_eq_iff move_def Let_def)

text \<open>A delta that adds READY objects of a tenant touches the tenant.\<close>

definition woken :: "delta \<Rightarrow> delta \<Rightarrow> bool" where
  "woken d d' \<longleftrightarrow>
     set (d_touched d) \<subseteq> set (d_touched d') \<and>
     (\<forall>t. t \<notin> set (d_touched d') \<longrightarrow>
        ts_Ready (lookup_stats (d_tenants d') t) \<le> ts_Ready (lookup_stats (d_tenants d) t))"

lemma woken_refl [simp]: "woken d d"
  by (simp add: woken_def)

lemma woken_trans: "woken d d' \<Longrightarrow> woken d' d'' \<Longrightarrow> woken d d''"
  unfolding woken_def by (meson order_trans subsetD)

lemma ts_Ready_diff: "ts_Ready (s - t) = ts_Ready s - ts_Ready t"
  by (simp add: stats_defs)

lemma woken_move: "woken d (move ob from to d)"
proof -
  have "ts_Ready (state_stats ob st) = (if st = StateReady then 1 else 0)" for st
    by (cases st) (simp_all add: state_stats_def bump_def stats_defs)
  then show ?thesis
    by (auto simp: woken_def move_touched move_lookup ts_Ready_diff)
qed

lemma woken_frame:
  "woken (d\<lparr>d_claims := x\<rparr>) d' \<longleftrightarrow> woken d d'" "woken d (d'\<lparr>d_claims := x\<rparr>) \<longleftrightarrow> woken d d'"
  "woken (d\<lparr>d_gc := x\<rparr>) d' \<longleftrightarrow> woken d d'" "woken d (d'\<lparr>d_gc := x\<rparr>) \<longleftrightarrow> woken d d'"
  "woken (d\<lparr>d_uploads := x\<rparr>) d' \<longleftrightarrow> woken d d'" "woken d (d'\<lparr>d_uploads := x\<rparr>) \<longleftrightarrow> woken d d'"
  by (simp_all add: woken_def)

section \<open>Counters\<close>

text \<open>\<open>Stats\<close>: the six fields it shares with \<open>TenantStats\<close> are grouped in \<open>s_objects\<close>.\<close>

record stats =
  s_objects :: TenantStats
  s_DeletePending :: int
  s_Uploads :: int
  s_Claims :: int

record counters =
  k_stats :: stats
  k_tenants :: "(string \<times> TenantStats) list"

definition counters_tenant :: "counters \<Rightarrow> string \<Rightarrow> TenantStats" where
  "counters_tenant c oid = lookup_stats (k_tenants c) oid"

fun apply_tenants :: "(string \<times> TenantStats) list \<Rightarrow> counters \<Rightarrow> counters" where
  "apply_tenants [] c = c"
| "apply_tenants ((oid, td) # ds) c =
     apply_tenants ds
       (c\<lparr>k_tenants := AList.update oid (lookup_stats (k_tenants c) oid + td) (k_tenants c),
          k_stats := (k_stats c)\<lparr>s_objects := s_objects (k_stats c) + td\<rparr>\<rparr>)"

definition apply_delta :: "delta \<Rightarrow> counters \<Rightarrow> counters" where
  "apply_delta d c =
     apply_tenants (d_tenants d)
       (c\<lparr>k_stats := (k_stats c)\<lparr>s_Uploads := s_Uploads (k_stats c) + d_uploads d,
                                 s_Claims := s_Claims (k_stats c) + d_claims d,
                                 s_DeletePending := s_DeletePending (k_stats c) + d_gc d\<rparr>\<rparr>)"

definition total_stats :: "(string \<times> TenantStats) list \<Rightarrow> TenantStats" where
  "total_stats m = sum_list (map snd m)"

lemma total_update:
  "distinct (map fst m) \<Longrightarrow>
   total_stats (AList.update k (lookup_stats m k + td) m) = total_stats m + td"
proof (induction m)
  case Nil
  then show ?case by (simp add: total_stats_def lookup_stats_def)
next
  case (Cons p m)
  obtain a b where p: "p = (a, b)" by (cases p)
  show ?case
  proof (cases "a = k")
    case True
    with p show ?thesis by (simp add: total_stats_def lookup_stats_def add_ac)
  next
    case False
    then have "lookup_stats (p # m) k = lookup_stats m k" by (simp add: p lookup_stats_def)
    with Cons False p show ?thesis by (simp add: total_stats_def add.assoc)
  qed
qed

lemma apply_tenants_lookup:
  "distinct (map fst ds) \<Longrightarrow>
   lookup_stats (k_tenants (apply_tenants ds c)) t = lookup_stats (k_tenants c) t + lookup_stats ds t"
proof (induction ds arbitrary: c)
  case Nil
  then show ?case by (simp add: lookup_stats_def)
next
  case (Cons p ds)
  obtain a b where p: "p = (a, b)" by (cases p)
  from Cons.prems p have "a \<notin> fst ` set ds" by simp
  then have none: "lookup_stats ds a = 0" 
    by (simp add: lookup_stats_def map_of_eq_None_iff [THEN iffD2])
  have "lookup_stats (p # ds) t = (if t = a then b else lookup_stats ds t)"
    by (simp add: p lookup_stats_def)
  with Cons p none show ?case by (simp add: lookup_stats_update)
qed

definition counters_ok :: "counters \<Rightarrow> bool" where
  "counters_ok c \<longleftrightarrow>
     distinct (map fst (k_tenants c)) \<and> s_objects (k_stats c) = total_stats (k_tenants c)"

lemma apply_tenants_ok: "counters_ok c \<Longrightarrow> counters_ok (apply_tenants ds c)"
  by (induction ds c rule: apply_tenants.induct)
    (auto simp: counters_ok_def distinct_update total_update)

lemma apply_tenants_frame [simp]:
  "s_Uploads (k_stats (apply_tenants ds c)) = s_Uploads (k_stats c)"
  "s_Claims (k_stats (apply_tenants ds c)) = s_Claims (k_stats c)"
  "s_DeletePending (k_stats (apply_tenants ds c)) = s_DeletePending (k_stats c)"
  by (induction ds c rule: apply_tenants.induct) auto

lemma apply_totals: "counters_ok c \<Longrightarrow> counters_ok (apply_delta d c)"
  unfolding apply_delta_def by (rule apply_tenants_ok) (simp add: counters_ok_def)

lemma apply_delta_lookup:
  "distinct (map fst (d_tenants d)) \<Longrightarrow>
   counters_tenant (apply_delta d c) t = counters_tenant c t + lookup_stats (d_tenants d) t"
  by (simp add: counters_tenant_def apply_delta_def apply_tenants_lookup)

lemma apply_delta_frame:
  "s_Uploads (k_stats (apply_delta d c)) = s_Uploads (k_stats c) + d_uploads d"
  "s_Claims (k_stats (apply_delta d c)) = s_Claims (k_stats c) + d_claims d"
  "s_DeletePending (k_stats (apply_delta d c)) = s_DeletePending (k_stats c) + d_gc d"
  by (simp_all add: apply_delta_def)

end
