(* ===== verification/Bolt.thy ===== *)
theory Bolt
  imports Keys Counters
begin

text \<open>
  The catalog database. bbolt is a third-party package, so it is a parameter of the model: a
  record \<open>K\<close> of the operations the store calls on a transaction, over an arbitrary type \<open>'db\<close> of
  database contents. What the store relies on is bbolt's documented behaviour, stated as the
  locale \<open>bolt_laws\<close>: \<open>Get\<close> returns what \<open>Put\<close> stored, \<open>Delete\<close> removes (and cannot fail in a
  writable transaction), a cursor walks the keys in
  byte order, \<open>NextSequence\<close> counts up. Any write may fail; a failed write transaction is
  rolled back by \<open>update\<close> (\<^verbatim>\<open>store.go\<close>).

  Values are JSON documents or raw bytes; a document is the record it encodes (type \<open>cell\<close>), and
  reading a cell of another kind is the decoding error. The transaction monad threads the
  database and the counter delta and stops at the first error, as the Go closures do.
\<close>

section \<open>Buckets and cells\<close>

datatype bkt =
    BMeta | BObjects | BNamespace | BUploads | BClaims | BTombstones | BGC | BVersions | BDirectories
  | BQueue | BQueueSeg | BLeases | BUploadPaths | BStale | BHeld | BParked | BTombTimes

definition primaryBuckets :: "bkt list" where
  "primaryBuckets =
     [BMeta, BObjects, BNamespace, BUploads, BClaims, BTombstones, BGC, BVersions, BDirectories]"

definition indexBuckets :: "bkt list" where
  "indexBuckets = [BQueue, BQueueSeg, BLeases, BUploadPaths, BStale, BHeld, BParked, BTombTimes]"

datatype cell =
    is_CObject: CObject object_version
  | is_CUpload: CUpload upload
  | is_CClaim: CClaim claim
  | is_CTomb: CTomb tombstone
  | CGC gc_entry
  | CDir dir_entry
  | is_CRaw: CRaw string

type_synonym view = "bkt \<Rightarrow> string \<Rightarrow> cell option"

record 'db bolt =
  b_get :: "'db \<Rightarrow> bkt \<Rightarrow> string \<Rightarrow> cell option"
  b_put :: "'db \<Rightarrow> bkt \<Rightarrow> string \<Rightarrow> cell \<Rightarrow> error + 'db"
  b_delete :: "'db \<Rightarrow> bkt \<Rightarrow> string \<Rightarrow> error + 'db"
  b_seq :: "'db \<Rightarrow> bkt \<Rightarrow> nat"
  b_next :: "'db \<Rightarrow> bkt \<Rightarrow> error + (nat \<times> 'db)"
  b_seek :: "'db \<Rightarrow> bkt \<Rightarrow> string \<Rightarrow> (string \<times> cell) list"
  b_clear :: "'db \<Rightarrow> bkt \<Rightarrow> error + 'db"
  b_commit :: "'db \<Rightarrow> error option"

text \<open>\<open>b_seek db B k\<close> is what \<open>Cursor.Seek(k)\<close> followed by \<open>Next\<close> enumerates; \<open>First\<close> and \<open>ForEach\<close>
  start from the empty key. \<open>b_clear\<close> is \<open>DeleteBucket\<close> followed by \<open>CreateBucket\<close>;
  \<open>b_commit\<close> says whether committing a transaction's contents fails.\<close>

definition upd :: "view \<Rightarrow> bkt \<Rightarrow> string \<Rightarrow> cell option \<Rightarrow> view" where
  "upd g B k c = g(B := (g B)(k := c))"

lemma upd_same [simp]: "upd g B k c B = (g B)(k := c)"
  by (simp add: upd_def)

lemma upd_other [simp]: "B' \<noteq> B \<Longrightarrow> upd g B k c B' = g B'"
  by (simp add: upd_def)

text \<open>The errors of the database are not the store's own.\<close>

definition db_error :: "error \<Rightarrow> bool" where
  "db_error e \<longleftrightarrow> (\<exists>m. e = ErrDB m)"

text \<open>The keys with a given prefix lie next to each other in byte order.\<close>

lemma prefix_between: "(pre :: string) \<le> k \<Longrightarrow> k \<le> pre @ x \<Longrightarrow> prefix pre k"
proof (induction pre arbitrary: k)
  case (Cons c pre)
  then show ?case by (cases k) auto
qed simp

lemma prefix_le: "prefix pre k \<Longrightarrow> (pre :: string) \<le> k"
proof -
  have "(pre :: string) \<le> pre @ x" for x by (induction pre) auto
  then show "prefix pre k \<Longrightarrow> pre \<le> k" by (auto elim!: prefixE)
qed

locale bolt_laws =
  fixes K :: "'db bolt"
  assumes put_view: "b_put K db B k c = Inr db' \<Longrightarrow> b_get K db' = upd (b_get K db) B k (Some c)"
    and put_seq: "b_put K db B k c = Inr db' \<Longrightarrow> b_seq K db' = b_seq K db"
    and delete_total: "\<exists>db'. b_delete K db B k = Inr db'"
    and delete_view: "b_delete K db B k = Inr db' \<Longrightarrow> b_get K db' = upd (b_get K db) B k None"
    and delete_seq: "b_delete K db B k = Inr db' \<Longrightarrow> b_seq K db' = b_seq K db"
    and next_view: "b_next K db B = Inr (n, db') \<Longrightarrow> b_get K db' = b_get K db"
    and next_seq: "b_next K db B = Inr (n, db') \<Longrightarrow> n = Suc (b_seq K db B) \<and> n < 2 ^ 64
        \<and> b_seq K db' = (b_seq K db)(B := n)"
    and clear_view: "b_clear K db B = Inr db' \<Longrightarrow> b_get K db' = (b_get K db)(B := Map.empty)"
    and clear_seq: "b_clear K db B = Inr db' \<Longrightarrow> b_seq K db' = (b_seq K db)(B := 0)"
    and put_err: "b_put K db B k c = Inl e \<Longrightarrow> db_error e"
    and next_err: "b_next K db B = Inl e \<Longrightarrow> db_error e"
    and clear_err: "b_clear K db B = Inl e \<Longrightarrow> db_error e"
    and commit_err: "b_commit K db = Some e \<Longrightarrow> db_error e"
    and seek_sorted: "sorted_wrt (\<lambda>x y. fst x < fst y) (b_seek K db B k)"
    and seek_set: "set (b_seek K db B k) = {(k', c). b_get K db B k' = Some c \<and> k \<le> k'}"
begin

lemma seek_iff: "(k', c) \<in> set (b_seek K db B k) \<longleftrightarrow> b_get K db B k' = Some c \<and> k \<le> k'"
  by (simp add: seek_set)

lemma finite_dom: "finite (dom (b_get K db B))"
proof -
  have "dom (b_get K db B) = fst ` set (b_seek K db B [])"
    by (force simp: seek_set)
  then show ?thesis by simp
qed

lemma seek_prefix_from:
  assumes "pre \<le> s"
  shows "set (takeWhile (\<lambda>e. prefix pre (fst e)) (b_seek K db B s)) =
    {(k, c). b_get K db B k = Some c \<and> prefix pre k \<and> s \<le> k}"
proof -
  let ?l = "b_seek K db B s"
  have all: "e \<in> set (takeWhile (\<lambda>e. prefix pre (fst e)) l)"
    if "sorted_wrt (\<lambda>x y. fst x < fst y) l" "\<forall>x\<in>set l. pre \<le> fst x" "e \<in> set l" "prefix pre (fst e)"
    for e and l :: "(string \<times> cell) list"
    using that
  proof (induction l)
    case (Cons a l)
    have "prefix pre (fst a)"
    proof (cases "e = a")
      case False
      then have "fst a < fst e" using Cons.prems by auto
      then show ?thesis using Cons.prems(2,4) prefix_between [of pre "fst a"]
          by (auto elim!: prefixE dest: less_imp_le)
    qed (use Cons.prems in simp)
    with Cons show ?case by auto
  qed simp
  have "\<forall>x\<in>set ?l. pre \<le> fst x" using assms seek_set [of db B s] by auto
  with all [OF seek_sorted this] show ?thesis
    using seek_set [of db B s] by (auto dest: set_takeWhileD)
qed

lemma seek_prefix:
  "set (takeWhile (\<lambda>e. prefix pre (fst e)) (b_seek K db B pre)) = {(k, c). b_get K db B k = Some c \<and> prefix pre k}"
  using seek_prefix_from [OF order_refl] prefix_le by blast

text \<open>A cursor's list is determined by its elements, so seeking further is dropping.\<close>

lemma sorted_entries_eq:
  assumes "sorted_wrt (\<lambda>x y. fst x < fst y) xs" "sorted_wrt (\<lambda>x y. fst x < fst y) ys" "set xs = set ys"
  shows "xs = (ys :: (string \<times> cell) list)"
proof -
  have "sorted_wrt (<) (map fst xs)" "sorted_wrt (<) (map fst ys)"
    using assms(1,2) by (simp_all add: sorted_wrt_map)
  moreover have "set (map fst xs) = set (map fst ys)" using assms(3) by simp
  ultimately have "map fst xs = map fst ys" by (metis strict_sorted_equal)
  moreover have inj: "inj_on fst (set xs \<union> set ys)"
    using assms(1,3) by (metis distinct_map strict_sorted_iff sorted_wrt_map sup.idem)
  ultimately show ?thesis by (metis map_inj_on)
qed

lemma takeWhile_ge: "sorted_wrt (\<lambda>x y. fst x < fst y) l \<Longrightarrow> e \<in> set (takeWhile (\<lambda>e. fst e < t) l) \<longleftrightarrow> e \<in> set l \<and> fst e < (t :: string)"
  by (induction l) (auto dest: less_trans)

lemma seek_dropWhile:
  assumes "s \<le> t"
  shows "b_seek K db B t = dropWhile (\<lambda>e. fst e < t) (b_seek K db B s)"
proof (rule sorted_entries_eq [OF seek_sorted])
  let ?l = "b_seek K db B s"
  have split: "?l = takeWhile (\<lambda>e. fst e < t) ?l @ dropWhile (\<lambda>e. fst e < t) ?l" by simp
  show sd: "sorted_wrt (\<lambda>x y. fst x < fst y) (dropWhile (\<lambda>e. fst e < t) ?l)"
    using seek_sorted [of db B s] by (metis split sorted_wrt_append)
  have "e \<in> set (dropWhile (\<lambda>e. fst e < t) ?l) \<longleftrightarrow> e \<in> set ?l \<and> t \<le> fst e" for e
  proof
    assume d: "e \<in> set (dropWhile (\<lambda>e. fst e < t) ?l)"
    obtain x xs where x: "dropWhile (\<lambda>e. fst e < t) ?l = x # xs" using d by (cases "dropWhile (\<lambda>e. fst e < t) ?l") auto
    then have "t \<le> fst x" using hd_dropWhile [of "\<lambda>e. fst e < t" ?l] by auto
    moreover have "fst x \<le> fst e" using sd d x by (auto dest: less_imp_le)
    ultimately show "e \<in> set ?l \<and> t \<le> fst e" using d by (auto dest: set_dropWhileD)
  next
    assume e: "e \<in> set ?l \<and> t \<le> fst e"
    then have "e \<notin> set (takeWhile (\<lambda>e. fst e < t) ?l)" by (auto dest: set_takeWhileD)
    with e show "e \<in> set (dropWhile (\<lambda>e. fst e < t) ?l)" by (metis Un_iff set_append split)
  qed
  then show "set (b_seek K db B t) = set (dropWhile (\<lambda>e. fst e < t) ?l)"
    using assms by (auto simp: seek_set)
qed

lemma append_nul_le: "(k :: string) @ [nul] \<le> k' \<longleftrightarrow> k < k'"
proof (induction k arbitrary: k')
  case Nil
  have "nul < a \<or> nul = a" for a
    using le_less [of nul a] by (simp add: less_eq_char_def)
  then show ?case by (cases k') auto
next
  case (Cons a k)
  then show ?case by (cases k') auto
qed

lemma seek_tl:
  assumes "b_seek K db B s = (k, c) # rest"
  shows "rest = b_seek K db B (k @ [nul])"
proof -
  have "s \<le> k" using seek_iff [of k c db B s] assms by simp
  then have "s \<le> k @ [nul]" by (metis append_nul_le dual_order.trans less_imp_le order_refl)
  from seek_dropWhile [OF this, of db B] assms have "b_seek K db B (k @ [nul]) = dropWhile (\<lambda>e. fst e < k @ [nul]) ((k, c) # rest)"
    by simp
  moreover have "k < k @ [nul]" by (metis append_nul_le order_refl)
  moreover have "dropWhile (\<lambda>e. fst e < k @ [nul]) rest = rest"
  proof (cases rest)
    case (Cons e l)
    have "k < fst e" using seek_sorted [of db B s] assms Cons by simp
    then have "\<not> fst e < k @ [nul]" by (metis append_nul_le leD)
    then show ?thesis using Cons by simp
  qed simp
  ultimately show ?thesis by simp
qed

lemma seek_distinct: "distinct (map fst (b_seek K db B k))"
  using seek_sorted [of db B k]
  by (induction "b_seek K db B k" rule: list.induct)
    (simp_all add: distinct_map sorted_wrt_map strict_sorted_iff flip: sorted_wrt_map)

lemma length_seek: "length (b_seek K db B []) = card (dom (b_get K db B))"
proof -
  have "dom (b_get K db B) = set (map fst (b_seek K db B []))"
    by (force simp: seek_set)
  then show ?thesis using distinct_card [OF seek_distinct] by simp
qed

end

section \<open>The transaction monad\<close>

type_synonym ('db, 'a) txn = "'db \<times> delta \<Rightarrow> error + 'a \<times> ('db \<times> delta)"

definition ret :: "'a \<Rightarrow> ('db, 'a) txn" where
  "ret x s = Inr (x, s)"

definition throw :: "error \<Rightarrow> ('db, 'a) txn" where
  "throw e s = Inl e"

definition tbind :: "('db, 'a) txn \<Rightarrow> ('a \<Rightarrow> ('db, 'b) txn) \<Rightarrow> ('db, 'b) txn" where
  "tbind m f s = (case m s of Inl e \<Rightarrow> Inl e | Inr (x, s') \<Rightarrow> f x s')"

definition tseq :: "('db, 'a) txn \<Rightarrow> ('db, 'b) txn \<Rightarrow> ('db, 'b) txn" where
  "tseq m n = tbind m (\<lambda>_. n)"

text \<open>\<open>_ = op\<close>: the error is dropped.\<close>

definition ttry :: "('db, 'a) txn \<Rightarrow> ('db, unit) txn" where
  "ttry m s = (case m s of Inl e \<Rightarrow> Inr ((), s) | Inr (x, s') \<Rightarrow> Inr ((), s'))"

definition tget :: "'db bolt \<Rightarrow> bkt \<Rightarrow> string \<Rightarrow> ('db, cell option) txn" where
  "tget K B k s = Inr (b_get K (fst s) B k, s)"

text \<open>A read of the database that needs more than one bucket, or a cursor.\<close>

definition tread :: "('db \<Rightarrow> 'a) \<Rightarrow> ('db, 'a) txn" where
  "tread f s = Inr (f (fst s), s)"

text \<open>\<open>if err := check(tx); err != nil { return err }\<close>.\<close>

definition tcheck :: "error option \<Rightarrow> ('db, unit) txn" where
  "tcheck eo s = (case eo of None \<Rightarrow> Inr ((), s) | Some e \<Rightarrow> Inl e)"

definition tput :: "'db bolt \<Rightarrow> bkt \<Rightarrow> string \<Rightarrow> cell \<Rightarrow> ('db, unit) txn" where
  "tput K B k c s = (case b_put K (fst s) B k c of Inl e \<Rightarrow> Inl e | Inr db \<Rightarrow> Inr ((), (db, snd s)))"

definition tdel :: "'db bolt \<Rightarrow> bkt \<Rightarrow> string \<Rightarrow> ('db, unit) txn" where
  "tdel K B k s = (case b_delete K (fst s) B k of Inl e \<Rightarrow> Inl e | Inr db \<Rightarrow> Inr ((), (db, snd s)))"

definition tnext :: "'db bolt \<Rightarrow> bkt \<Rightarrow> ('db, nat) txn" where
  "tnext K B s = (case b_next K (fst s) B of Inl e \<Rightarrow> Inl e | Inr (n, db) \<Rightarrow> Inr (n, (db, snd s)))"

definition tclear :: "'db bolt \<Rightarrow> bkt \<Rightarrow> ('db, unit) txn" where
  "tclear K B s = (case b_clear K (fst s) B of Inl e \<Rightarrow> Inl e | Inr db \<Rightarrow> Inr ((), (db, snd s)))"

definition tseek :: "'db bolt \<Rightarrow> bkt \<Rightarrow> string \<Rightarrow> ('db, (string \<times> cell) list) txn" where
  "tseek K B k s = Inr (b_seek K (fst s) B k, s)"

definition tmod :: "(delta \<Rightarrow> delta) \<Rightarrow> ('db, unit) txn" where
  "tmod f s = Inr ((), (fst s, f (snd s)))"

fun tfor :: "'a list \<Rightarrow> ('a \<Rightarrow> ('db, unit) txn) \<Rightarrow> ('db, unit) txn" where
  "tfor [] f = ret ()"
| "tfor (x # xs) f = tseq (f x) (tfor xs f)"

fun tfold :: "'a list \<Rightarrow> 'b \<Rightarrow> ('a \<Rightarrow> 'b \<Rightarrow> ('db, 'b) txn) \<Rightarrow> ('db, 'b) txn" where
  "tfold [] acc f = ret acc"
| "tfold (x # xs) acc f = tbind (f x acc) (\<lambda>acc'. tfold xs acc' f)"

definition twhen :: "bool \<Rightarrow> ('db, unit) txn \<Rightarrow> ('db, unit) txn" where
  "twhen b m = (if b then m else ret ())"

subsection \<open>getJSON and putJSON\<close>

fun json_object :: "cell option \<Rightarrow> error + object_version" where
  "json_object None = Inl ErrNotFound"
| "json_object (Some (CObject ob)) = Inr ob"
| "json_object (Some _) = Inl ErrDecode"

fun json_upload :: "cell option \<Rightarrow> error + upload" where
  "json_upload None = Inl ErrNotFound"
| "json_upload (Some (CUpload u)) = Inr u"
| "json_upload (Some _) = Inl ErrDecode"

fun json_claim :: "cell option \<Rightarrow> error + claim" where
  "json_claim None = Inl ErrNotFound"
| "json_claim (Some (CClaim c)) = Inr c"
| "json_claim (Some _) = Inl ErrDecode"

fun json_tomb :: "cell option \<Rightarrow> error + tombstone" where
  "json_tomb None = Inl ErrNotFound"
| "json_tomb (Some (CTomb t)) = Inr t"
| "json_tomb (Some _) = Inl ErrDecode"

definition getObject :: "'db bolt \<Rightarrow> string \<Rightarrow> ('db, error + object_version) txn" where
  "getObject K oid = tbind (tget K BObjects oid) (\<lambda>c. ret (json_object c))"

definition getUpload :: "'db bolt \<Rightarrow> string \<Rightarrow> ('db, error + upload) txn" where
  "getUpload K oid = tbind (tget K BUploads oid) (\<lambda>c. ret (json_upload c))"

definition getClaim :: "'db bolt \<Rightarrow> string \<Rightarrow> ('db, error + claim) txn" where
  "getClaim K lease = tbind (tget K BClaims lease) (\<lambda>c. ret (json_claim c))"

definition getTomb :: "'db bolt \<Rightarrow> string \<Rightarrow> ('db, error + tombstone) txn" where
  "getTomb K oid = tbind (tget K BTombstones oid) (\<lambda>c. ret (json_tomb c))"

definition putObject :: "'db bolt \<Rightarrow> object_version \<Rightarrow> ('db, unit) txn" where
  "putObject K ob = tput K BObjects (o_ID ob) (CObject ob)"

text \<open>\<open>string(b.Get(k))\<close> on the namespace and index buckets, which hold raw bytes only; a missing
  entry reads as the empty string.\<close>

fun raw_string :: "cell option \<Rightarrow> string" where
  "raw_string (Some (CRaw s)) = s"
| "raw_string _ = []"

text \<open>What the proofs need of a transaction state: the contents, the sequences, the delta.\<close>

definition contents :: "'db bolt \<Rightarrow> 'db \<times> delta \<Rightarrow> view" where
  "contents K s = b_get K (fst s)"

definition seqs :: "'db bolt \<Rightarrow> 'db \<times> delta \<Rightarrow> bkt \<Rightarrow> nat" where
  "seqs K s = b_seq K (fst s)"

lemma contents_pair [simp]:
  "contents K (db, d) = b_get K db" "seqs K (db, d) = b_seq K db"
  by (simp_all add: contents_def seqs_def)

subsection \<open>Running the monad\<close>

named_theorems txn_simps "inversion of successful transactions"

lemma tbind_Inr [txn_simps]: "tbind m f s = Inr r \<longleftrightarrow> (\<exists>x s'. m s = Inr (x, s') \<and> f x s' = Inr r)"
  by (auto simp: tbind_def split: sum.splits prod.splits)

lemma tseq_Inr [txn_simps]: "tseq m n s = Inr r \<longleftrightarrow> (\<exists>x s'. m s = Inr (x, s') \<and> n s' = Inr r)"
  by (simp add: tseq_def tbind_Inr)

lemma ret_Inr [txn_simps]: "ret x s = Inr (y, s') \<longleftrightarrow> y = x \<and> s' = s"
  by (auto simp: ret_def)

lemma throw_Inr [txn_simps]: "throw e s = Inr r \<longleftrightarrow> False"
  by (simp add: throw_def)

lemma tget_Inr [txn_simps]: "tget K B k s = Inr (x, s') \<longleftrightarrow> x = contents K s B k \<and> s' = s"
  by (auto simp: tget_def contents_def)

lemma tseek_Inr [txn_simps]: "tseek K B k s = Inr (x, s') \<longleftrightarrow> x = b_seek K (fst s) B k \<and> s' = s"
  by (auto simp: tseek_def)

lemma tread_Inr [txn_simps]: "tread f s = Inr (x, s') \<longleftrightarrow> x = f (fst s) \<and> s' = s"
  by (auto simp: tread_def)

lemma tcheck_Inr [txn_simps]: "tcheck eo s = Inr (x, s') \<longleftrightarrow> eo = None \<and> s' = s"
  by (auto simp: tcheck_def split: option.splits)

lemma tmod_Inr [txn_simps]: "tmod f s = Inr (x, s') \<longleftrightarrow> s' = (fst s, f (snd s))"
  by (auto simp: tmod_def)

lemma tput_Inr: "tput K B k c s = Inr (x, s') \<longleftrightarrow> (\<exists>db. b_put K (fst s) B k c = Inr db \<and> s' = (db, snd s))"
  by (auto simp: tput_def split: sum.splits)

lemma tdel_Inr: "tdel K B k s = Inr (x, s') \<longleftrightarrow> (\<exists>db. b_delete K (fst s) B k = Inr db \<and> s' = (db, snd s))"
  by (auto simp: tdel_def split: sum.splits)

lemma tnext_Inr: "tnext K B s = Inr (n, s') \<longleftrightarrow> (\<exists>db. b_next K (fst s) B = Inr (n, db) \<and> s' = (db, snd s))"
  by (auto simp: tnext_def split: sum.splits)

lemma tclear_Inr: "tclear K B s = Inr (x, s') \<longleftrightarrow> (\<exists>db. b_clear K (fst s) B = Inr db \<and> s' = (db, snd s))"
  by (auto simp: tclear_def split: sum.splits)

lemma ttry_Inr:
  "ttry m s = Inr (y, s') \<longleftrightarrow> (\<exists>e. m s = Inl e) \<and> s' = s \<or> (\<exists>x. m s = Inr (x, s'))"
  by (auto simp: ttry_def split: sum.splits)

lemma twhen_Inr [txn_simps]:
  "twhen b m s = Inr (x, s') \<longleftrightarrow> (if b then m s = Inr (x, s') else s' = s)"
  by (auto simp: twhen_def ret_def)

lemma getters_Inr [txn_simps]:
  "getObject K oid s = Inr (x, s') \<longleftrightarrow> x = json_object (contents K s BObjects oid) \<and> s' = s"
  "getUpload K oid s = Inr (y, s') \<longleftrightarrow> y = json_upload (contents K s BUploads oid) \<and> s' = s"
  "getClaim K oid s = Inr (z, s') \<longleftrightarrow> z = json_claim (contents K s BClaims oid) \<and> s' = s"
  "getTomb K oid s = Inr (w, s') \<longleftrightarrow> w = json_tomb (contents K s BTombstones oid) \<and> s' = s"
  by (auto simp: getObject_def getUpload_def getClaim_def getTomb_def txn_simps contents_def)

lemma json_Inr [simp]:
  "json_object c = Inr ob \<longleftrightarrow> c = Some (CObject ob)"
  "json_upload c = Inr u \<longleftrightarrow> c = Some (CUpload u)"
  "json_claim c = Inr cl \<longleftrightarrow> c = Some (CClaim cl)"
  "json_tomb c = Inr t \<longleftrightarrow> c = Some (CTomb t)"
  by (cases "c" rule: json_object.cases, auto)
    (cases "c" rule: json_upload.cases, auto, cases "c" rule: json_claim.cases, auto,
     cases "c" rule: json_tomb.cases, auto)

subsection \<open>Effects on the contents\<close>

lemma contents_fst [txn_simps]: "b_get K (fst s) = contents K s" "b_seq K (fst s) = seqs K s"
  by (simp_all add: contents_def seqs_def)

context bolt_laws
begin

lemma tput_eff:
  "tput K B k c s = Inr (x, s') \<Longrightarrow>
   contents K s' = upd (contents K s) B k (Some c) \<and> seqs K s' = seqs K s \<and> snd s' = snd s"
  by (auto simp: tput_Inr contents_def seqs_def put_view put_seq)

lemma tdel_eff:
  "tdel K B k s = Inr (x, s') \<Longrightarrow>
   contents K s' = upd (contents K s) B k None \<and> seqs K s' = seqs K s \<and> snd s' = snd s"
  by (auto simp: tdel_Inr contents_def seqs_def delete_view delete_seq)

lemma tnext_eff:
  "tnext K B s = Inr (n, s') \<Longrightarrow>
   contents K s' = contents K s \<and> n = Suc (seqs K s B) \<and> n < 2 ^ 64 \<and>
   seqs K s' = (seqs K s)(B := n) \<and> snd s' = snd s"
  by (auto simp: tnext_Inr contents_def seqs_def next_view dest: next_seq)

lemma tclear_eff:
  "tclear K B s = Inr (x, s') \<Longrightarrow>
   contents K s' = (contents K s)(B := Map.empty) \<and> seqs K s' = (seqs K s)(B := 0) \<and> snd s' = snd s"
  by (auto simp: tclear_Inr contents_def seqs_def clear_view clear_seq)

lemma putObject_eff:
  "putObject K ob s = Inr (x, s') \<Longrightarrow>
   contents K s' = upd (contents K s) BObjects (o_ID ob) (Some (CObject ob)) \<and>
   seqs K s' = seqs K s \<and> snd s' = snd s"
  unfolding putObject_def by (rule tput_eff)

lemma tdel_Inl: "tdel K B k s \<noteq> Inl e"
  using delete_total [of "fst s" B k] by (auto simp: tdel_def split: sum.splits)

lemma tput_Inl: "tput K B k v s = Inl e \<Longrightarrow> db_error e"
  by (auto simp: tput_def dest: put_err split: sum.splits)

lemma tnext_Inl: "tnext K B s = Inl e \<Longrightarrow> db_error e"
  by (auto simp: tnext_def dest: next_err split: sum.splits)

lemma tclear_Inl: "tclear K B s = Inl e \<Longrightarrow> db_error e"
  by (auto simp: tclear_def dest: clear_err split: sum.splits)

lemma ttry_tdel_eff:
  "ttry (tdel K B k) s = Inr (x, s') \<Longrightarrow>
   contents K s' = upd (contents K s) B k None \<and> seqs K s' = seqs K s \<and> snd s' = snd s"
  using delete_total [of "fst s" B k] 
  by (auto simp: ttry_Inr tdel_def contents_def seqs_def delete_view delete_seq split: sum.splits)

lemmas step_effs = tput_eff tdel_eff tnext_eff tclear_eff putObject_eff

end

section \<open>A reference database\<close>

text \<open>An in-memory database that satisfies the laws: association lists per bucket. The store never
  relies on it; it shows that the laws have a model, and concrete runs evaluate on it.\<close>

type_synonym mem = "(bkt \<Rightarrow> (string \<times> cell) list) \<times> (bkt \<Rightarrow> nat)"

definition mem_keys :: "(string \<times> cell) list \<Rightarrow> string list" where
  "mem_keys l = sort (remdups (map fst l))"

definition mem_bolt :: "mem bolt" where
  "mem_bolt =
     \<lparr> b_get = (\<lambda>db B k. map_of (fst db B) k),
       b_put = (\<lambda>db B k c. Inr ((fst db)(B := (k, c) # fst db B), snd db)),
       b_delete = (\<lambda>db B k. Inr ((fst db)(B := filter (\<lambda>p. fst p \<noteq> k) (fst db B)), snd db)),
       b_seq = snd,
       b_next = (\<lambda>db B. if Suc (snd db B) < 2 ^ 64
                        then Inr (Suc (snd db B), (fst db, (snd db)(B := Suc (snd db B))))
                        else Inl (ErrDB ''sequence exhausted'')),
       b_seek = (\<lambda>db B k. filter (\<lambda>p. k \<le> fst p)
                   (map (\<lambda>k'. (k', the (map_of (fst db B) k'))) (mem_keys (fst db B)))),
       b_clear = (\<lambda>db B. Inr ((fst db)(B := []), (snd db)(B := 0))),
       b_commit = (\<lambda>db. None) \<rparr>"

definition mem_empty :: mem where
  "mem_empty = ((\<lambda>_. []), (\<lambda>_. 0))"

lemma map_of_filter_ne: "map_of (filter (\<lambda>p. fst p \<noteq> k) l) = (map_of l)(k := None)"
  by (induction l) (auto simp: fun_eq_iff)

lemma mem_keys_sorted: "sorted_wrt (<) (mem_keys l)"
  by (simp add: mem_keys_def strict_sorted_iff)

interpretation mem: bolt_laws mem_bolt
proof
  show "\<exists>db'. b_delete mem_bolt db B k = Inr db'" for db B k
    by (simp add: mem_bolt_def)
  show "sorted_wrt (\<lambda>x y. fst x < fst y) (b_seek mem_bolt db B k)" for db B k
    by (simp add: mem_bolt_def sorted_wrt_map sorted_wrt_filter mem_keys_sorted)
  show "set (b_seek mem_bolt db B k) = {(k', c). b_get mem_bolt db B k' = Some c \<and> k \<le> k'}" for db B k
  proof -
    have "k' \<in> set (mem_keys (fst db B)) \<longleftrightarrow> (\<exists>c. map_of (fst db B) k' = Some c)" for k'
      using map_of_eq_None_iff [of "fst db B" k'] by (auto simp: mem_keys_def)
    then show ?thesis by (auto simp: mem_bolt_def)
  qed
qed (auto simp: mem_bolt_def upd_def fun_eq_iff map_of_filter_ne db_error_def split: if_splits)

end
