(* ===== verification/Index.thy ===== *)
theory Index
  imports Bolt
begin

text \<open>
  The index buckets of the catalog as functions of the primary records. Every index key ends in
  the identifier of the record it belongs to, so the index a bucket should hold is computed from
  the records (\<open>derived\<close>), and "the index is in step" is an equation (\<open>in_sync\<close>). The locale
  \<open>derived_index\<close> is the contract between an index and its records; its lemmas say how an index
  changes when one record is written or deleted. It is interpreted on the eight indexes of
  \<^verbatim>\<open>schema.go\<close>.
\<close>

section \<open>The contract of an index\<close>

text \<open>The identifier a cell is stored under.\<close>

fun cell_id :: "cell \<Rightarrow> string" where
  "cell_id (CObject ob) = o_ID ob"
| "cell_id (CUpload u) = u_ID u"
| "cell_id (CClaim c) = c_LeaseID c"
| "cell_id (CTomb t) = t_ObjectID t"
| "cell_id _ = []"

text \<open>Every record sits under its own identifier, and no identifier contains NUL.\<close>

definition keyed :: "(string \<Rightarrow> cell option) \<Rightarrow> bool" where
  "keyed R \<longleftrightarrow> (\<forall>k c. R k = Some c \<longrightarrow> cell_id c = k \<and> nul \<notin> set k)"

definition ins_entry :: "(string \<times> cell) option \<Rightarrow> (string \<Rightarrow> cell option) \<Rightarrow> string \<Rightarrow> cell option" where
  "ins_entry e I = (case e of None \<Rightarrow> I | Some (k, v) \<Rightarrow> I(k \<mapsto> v))"

definition del_entry :: "(string \<times> cell) option \<Rightarrow> (string \<Rightarrow> cell option) \<Rightarrow> string \<Rightarrow> cell option" where
  "del_entry e I = (case e of None \<Rightarrow> I | Some (k, v) \<Rightarrow> I(k := None))"

definition derived ::
    "(cell \<Rightarrow> (string \<times> cell) option) \<Rightarrow> (string \<Rightarrow> cell option) \<Rightarrow> string \<Rightarrow> cell option" where
  "derived f R k =
     (case R (key_tail k) of
        None \<Rightarrow> None
      | Some c \<Rightarrow> (case f c of None \<Rightarrow> None | Some (k', v) \<Rightarrow> if k' = k then Some v else None))"

lemma entry_simps [simp]:
  "ins_entry None I = I" "del_entry None I = I"
  "ins_entry (Some (k, v)) I = I(k \<mapsto> v)" "del_entry (Some (k, v)) I = I(k := None)"
  by (simp_all add: ins_entry_def del_entry_def)

lemma keyed_upd: "keyed R \<Longrightarrow> cell_id c = k \<Longrightarrow> nul \<notin> set k \<Longrightarrow> keyed (R(k \<mapsto> c))"
  by (auto simp: keyed_def)

lemma keyed_del: "keyed R \<Longrightarrow> keyed (R(k := None))"
  by (auto simp: keyed_def)

lemma keyedD: "keyed R \<Longrightarrow> R k = Some c \<Longrightarrow> cell_id c = k \<and> nul \<notin> set k"
  by (simp add: keyed_def)

locale derived_index =
  fixes f :: "cell \<Rightarrow> (string \<times> cell) option"
  assumes entry_tail: "f c = Some (k, v) \<Longrightarrow> nul \<notin> set (cell_id c) \<Longrightarrow> key_tail k = cell_id c"
begin

lemma derived_iff:
  assumes "keyed R"
  shows "derived f R k = Some v \<longleftrightarrow> (\<exists>oid c. R oid = Some c \<and> f c = Some (k, v))"
  using assms entry_tail
  by (auto simp: derived_def keyed_def split: option.splits if_splits)

lemma derived_write:
  assumes R: "keyed R" and c: "cell_id c = oid" "nul \<notin> set oid"
    and J: "J = ins_entry (f c) (del_entry (Option.bind (R oid) f) (derived f R))"
  shows "J = derived f (R(oid \<mapsto> c))"
proof
  fix k
  have old: "R oid = Some c' \<Longrightarrow> f c' = Some (k', v) \<Longrightarrow> key_tail k' = oid" for c' k' v
    using keyedD [OF R, of oid c'] entry_tail [of c' k' v] by simp
  have new: "f c = Some (k', v) \<Longrightarrow> key_tail k' = oid" for k' v
    using c entry_tail by simp
  show "J k = derived f (R(oid \<mapsto> c)) k"
  proof (cases "key_tail k = oid")
    case True
    then show ?thesis
      by (auto simp: J derived_def ins_entry_def del_entry_def split: option.splits)
  next
    case False
    then show ?thesis
      using old new
      by (auto simp: J derived_def ins_entry_def del_entry_def bind_eq_Some_conv split: option.splits)
  qed
qed

lemma derived_delete:
  assumes R: "keyed R" and J: "J = del_entry (Option.bind (R oid) f) (derived f R)"
  shows "J = derived f (R(oid := None))"
proof
  fix k
  have old: "R oid = Some c' \<Longrightarrow> f c' = Some (k', v) \<Longrightarrow> key_tail k' = oid" for c' k' v
    using keyedD [OF R, of oid c'] entry_tail [of c' k' v] by simp
  show "J k = derived f (R(oid := None)) k"
    using old
    by (cases "key_tail k = oid") (auto simp: J derived_def del_entry_def bind_eq_Some_conv split: option.splits)
qed

text \<open>A record whose entry does not change leaves the index alone.\<close>

lemma derived_keep:
  assumes R: "keyed R" and c: "cell_id c = oid" "nul \<notin> set oid"
    and same: "R oid = Some c'" "f c = f c'"
  shows "derived f R = derived f (R(oid \<mapsto> c))"
proof
  fix k
  show "derived f R k = derived f (R(oid \<mapsto> c)) k"
    using same by (cases "key_tail k = oid") (auto simp: derived_def split: option.splits)
qed

end

section \<open>The eight indexes\<close>

fun queue_entry :: "cell \<Rightarrow> (string \<times> cell) option" where
  "queue_entry (CObject ob) =
     (if o_QueueSeq ob = 0 then None
      else Some (queueKey (o_Tenant ob) (o_QueueSeq ob) (o_ID ob),
                 CRaw (queueValue (o_VisibleAt ob) (o_Path ob))))"
| "queue_entry _ = None"

fun queue_seg_entry :: "cell \<Rightarrow> (string \<times> cell) option" where
  "queue_seg_entry (CObject ob) =
     (if o_QueueSeq ob = 0 then None
      else Some (queueSegKey (o_Tenant ob) (o_Path ob) (o_QueueSeq ob) (o_ID ob),
                 CRaw (queueValue (o_VisibleAt ob) (o_Path ob))))"
| "queue_seg_entry _ = None"

fun lease_entry :: "cell \<Rightarrow> (string \<times> cell) option" where
  "lease_entry (CObject ob) =
     (if o_State ob = StateLeased then Some (timeIDKey (o_LeaseUntil ob) (o_ID ob), CRaw (o_LeaseID ob))
      else None)"
| "lease_entry _ = None"

fun held_entry :: "cell \<Rightarrow> (string \<times> cell) option" where
  "held_entry (CObject ob) =
     (if o_State ob = StateHeld then Some (timeIDKey (o_CreatedAt ob) (o_ID ob), CRaw []) else None)"
| "held_entry _ = None"

fun parked_entry :: "cell \<Rightarrow> (string \<times> cell) option" where
  "parked_entry (CObject ob) =
     (if o_State ob = StateParked then Some (parkedKey (o_Tenant ob) (o_ParkedAt ob) (o_ID ob), CRaw [])
      else None)"
| "parked_entry _ = None"

fun upload_path_entry :: "cell \<Rightarrow> (string \<times> cell) option" where
  "upload_path_entry (CUpload u) = Some (uploadPathKey (u_Tenant u) (u_Path u) (u_ID u), CRaw [])"
| "upload_path_entry _ = None"

fun stale_entry :: "cell \<Rightarrow> (string \<times> cell) option" where
  "stale_entry (CUpload u) =
     (if u_State u = StateInterrupted \<or> u_State u = StateFailed
      then Some (timeIDKey (u_UpdatedAt u) (u_ID u), CRaw []) else None)"
| "stale_entry _ = None"

fun tomb_entry :: "cell \<Rightarrow> (string \<times> cell) option" where
  "tomb_entry (CTomb t) = Some (timeIDKey (t_DeletedAt t) (t_ObjectID t), CRaw [])"
| "tomb_entry _ = None"

fun index_entry :: "bkt \<Rightarrow> cell \<Rightarrow> (string \<times> cell) option" where
  "index_entry BQueue = queue_entry"
| "index_entry BQueueSeg = queue_seg_entry"
| "index_entry BLeases = lease_entry"
| "index_entry BHeld = held_entry"
| "index_entry BParked = parked_entry"
| "index_entry BUploadPaths = upload_path_entry"
| "index_entry BStale = stale_entry"
| "index_entry BTombTimes = tomb_entry"
| "index_entry _ = (\<lambda>_. None)"

text \<open>The primary bucket an index is derived from.\<close>

fun primary_of :: "bkt \<Rightarrow> bkt" where
  "primary_of BUploadPaths = BUploads"
| "primary_of BStale = BUploads"
| "primary_of BTombTimes = BTombstones"
| "primary_of _ = BObjects"

interpretation ix: derived_index "index_entry B" for B
proof
  fix c k v
  assume "index_entry B c = Some (k, v)" "nul \<notin> set (cell_id c)"
  then show "key_tail k = cell_id c"
    by (cases B; cases c; auto simp: key_simps split: if_splits)
qed

definition in_sync :: "bkt \<Rightarrow> view \<Rightarrow> bool" where
  "in_sync B g \<longleftrightarrow> g B = derived (index_entry B) (g (primary_of B))"

definition indexes_ok :: "view \<Rightarrow> bool" where
  "indexes_ok g \<longleftrightarrow> (\<forall>B\<in>set indexBuckets. in_sync B g)"

text \<open>Which kind of record a primary bucket holds.\<close>

fun kind_ok :: "bkt \<Rightarrow> cell \<Rightarrow> bool" where
  "kind_ok BObjects c = is_CObject c"
| "kind_ok BUploads c = is_CUpload c"
| "kind_ok BClaims c = is_CClaim c"
| "kind_ok BTombstones c = is_CTomb c"
| "kind_ok _ c = True"

definition recordBuckets :: "bkt list" where
  "recordBuckets = [BObjects, BUploads, BClaims, BTombstones]"

definition records_ok :: "view \<Rightarrow> bool" where
  "records_ok g \<longleftrightarrow>
     (\<forall>B\<in>set recordBuckets. keyed (g B) \<and> (\<forall>k c. g B k = Some c \<longrightarrow> kind_ok B c))"

lemma indexes_ok_iff:
  "indexes_ok g \<longleftrightarrow>
     in_sync BQueue g \<and> in_sync BQueueSeg g \<and> in_sync BLeases g \<and> in_sync BUploadPaths g \<and>
     in_sync BStale g \<and> in_sync BHeld g \<and> in_sync BParked g \<and> in_sync BTombTimes g"
  by (simp add: indexes_ok_def indexBuckets_def)

lemma records_keyed:
  "records_ok g \<Longrightarrow> keyed (g BObjects) \<and> keyed (g BUploads) \<and> keyed (g BClaims) \<and> keyed (g BTombstones)"
  by (simp add: records_ok_def recordBuckets_def)

lemma primary_keyed: "records_ok g \<Longrightarrow> keyed (g (primary_of B))"
  using records_keyed by (cases B) auto

lemma records_D:
  assumes "records_ok g" "B \<in> set recordBuckets" "g B k = Some c"
  shows "kind_ok B c \<and> cell_id c = k \<and> nul \<notin> set k"
  using assms by (auto simp: records_ok_def keyed_def)

lemma records_okI:
  assumes "\<And>B k c. B \<in> set recordBuckets \<Longrightarrow> g B k = Some c \<Longrightarrow> kind_ok B c \<and> cell_id c = k \<and> nul \<notin> set k"
  shows "records_ok g"
  using assms by (auto simp: records_ok_def keyed_def)

lemma records_kind:
  assumes "records_ok g"
  shows "g BObjects k = Some c \<Longrightarrow> \<exists>ob. c = CObject ob \<and> o_ID ob = k \<and> nul \<notin> set k"
    "g BUploads k = Some c \<Longrightarrow> \<exists>u. c = CUpload u \<and> u_ID u = k \<and> nul \<notin> set k"
    "g BClaims k = Some c \<Longrightarrow> \<exists>cl. c = CClaim cl \<and> c_LeaseID cl = k \<and> nul \<notin> set k"
    "g BTombstones k = Some c \<Longrightarrow> \<exists>t. c = CTomb t \<and> t_ObjectID t = k \<and> nul \<notin> set k"
  by (drule records_D [OF assms, rotated], simp add: recordBuckets_def, cases c, simp_all)+

lemma records_id:
  assumes "records_ok g"
  shows "g BObjects k = Some (CObject ob) \<Longrightarrow> o_ID ob = k \<and> nul \<notin> set k"
    "g BUploads k = Some (CUpload u) \<Longrightarrow> u_ID u = k \<and> nul \<notin> set k"
    "g BClaims k = Some (CClaim cl) \<Longrightarrow> c_LeaseID cl = k \<and> nul \<notin> set k"
    "g BTombstones k = Some (CTomb t) \<Longrightarrow> t_ObjectID t = k \<and> nul \<notin> set k"
  by (drule records_kind [OF assms], force)+

text \<open>The way the operations keep an index in step: the new bucket is the old one with the entry of
  the old record removed and the entry of the new record inserted.\<close>

lemma in_sync_write:
  assumes "in_sync B g" "records_ok g" "g' (primary_of B) = (g (primary_of B))(oid \<mapsto> c)"
    and "cell_id c = oid" "nul \<notin> set oid"
    and "g' B = ins_entry (index_entry B c)
           (del_entry (Option.bind (g (primary_of B) oid) (index_entry B)) (g B))"
  shows "in_sync B g'"
  using assms ix.derived_write [OF primary_keyed [OF assms(2)] assms(4,5), of "g' B" B]
  by (simp add: in_sync_def)

lemma in_sync_delete:
  assumes "in_sync B g" "records_ok g" "g' (primary_of B) = (g (primary_of B))(oid := None)"
    and "g' B = del_entry (Option.bind (g (primary_of B) oid) (index_entry B)) (g B)"
  shows "in_sync B g'"
  using assms ix.derived_delete [OF primary_keyed [OF assms(2)], of "g' B" B oid]
  by (simp add: in_sync_def)

lemma in_sync_frame:
  "in_sync B g \<Longrightarrow> g' B = g B \<Longrightarrow> g' (primary_of B) = g (primary_of B) \<Longrightarrow> in_sync B g'"
  by (simp add: in_sync_def)

lemma records_ok_upd:
  assumes "records_ok g"
  shows "records_ok (upd g B k None)"
    and "B \<in> set recordBuckets \<Longrightarrow> cell_id c = k \<Longrightarrow> nul \<notin> set k \<Longrightarrow> kind_ok B c
         \<Longrightarrow> records_ok (upd g B k (Some c))"
    and "B \<notin> set recordBuckets \<Longrightarrow> records_ok (upd g B k (Some c))"
  using assms by (auto simp: records_ok_def upd_def keyed_upd keyed_del)

lemma index_iff:
  assumes "in_sync B g" "records_ok g"
  shows "g B k = Some v \<longleftrightarrow> (\<exists>oid c. g (primary_of B) oid = Some c \<and> index_entry B c = Some (k, v))"
  using ix.derived_iff [OF primary_keyed [OF assms(2)], of B B k v] assms(1) by (simp add: in_sync_def)

section \<open>Writing a record with its index entries\<close>

text \<open>The abstract effect the operations are refined to: a record is written (or dropped) and every
  index of its bucket follows.\<close>

definition write_rec :: "bkt \<Rightarrow> cell \<Rightarrow> view \<Rightarrow> view" where
  "write_rec P c g B =
     (if B = P then (g P)(cell_id c \<mapsto> c)
      else if B \<in> set indexBuckets \<and> primary_of B = P
      then ins_entry (index_entry B c)
             (del_entry (Option.bind (g P (cell_id c)) (index_entry B)) (g B))
      else g B)"

definition drop_rec :: "bkt \<Rightarrow> string \<Rightarrow> view \<Rightarrow> view" where
  "drop_rec P oid g B =
     (if B = P then (g P)(oid := None)
      else if B \<in> set indexBuckets \<and> primary_of B = P
      then del_entry (Option.bind (g P oid) (index_entry B)) (g B)
      else g B)"

lemma primary_not_index: "B \<in> set indexBuckets \<Longrightarrow> primary_of B \<noteq> B \<and> primary_of B' \<noteq> B"
  by (cases B; cases B') (auto simp: indexBuckets_def)

lemma write_rec_indexes:
  assumes "indexes_ok g" "records_ok g" "nul \<notin> set (cell_id c)" "P = primary_of P'"
  shows "indexes_ok (write_rec P c g)"
  unfolding indexes_ok_def
proof
  fix B assume B: "B \<in> set indexBuckets"
  then have g: "in_sync B g" using assms(1) by (simp add: indexes_ok_def)
  have ne: "primary_of B \<noteq> B" "B \<noteq> P" using primary_not_index [OF B, of P'] assms(4) by auto
  show "in_sync B (write_rec P c g)"
  proof (cases "primary_of B = P")
    case True
    then show ?thesis
      using B ne by (intro in_sync_write [OF g assms(2) _ refl assms(3)]) (simp_all add: write_rec_def)
  next
    case False
    then have "primary_of B \<noteq> P" "primary_of B \<notin> set indexBuckets"
      using B primary_not_index by auto
    with ne False show ?thesis by (intro in_sync_frame [OF g]) (auto simp: write_rec_def)
  qed
qed

lemma drop_rec_indexes:
  assumes "indexes_ok g" "records_ok g" "P = primary_of P'"
  shows "indexes_ok (drop_rec P oid g)"
  unfolding indexes_ok_def
proof
  fix B assume B: "B \<in> set indexBuckets"
  then have g: "in_sync B g" using assms(1) by (simp add: indexes_ok_def)
  have ne: "primary_of B \<noteq> B" "B \<noteq> P" using primary_not_index [OF B, of P'] assms(3) by auto
  show "in_sync B (drop_rec P oid g)"
  proof (cases "primary_of B = P")
    case True
    then show ?thesis
      using B ne by (intro in_sync_delete [OF g assms(2)]) (simp_all add: drop_rec_def)
  next
    case False
    then have "primary_of B \<notin> set indexBuckets" using B primary_not_index by auto
    with ne False show ?thesis by (intro in_sync_frame [OF g]) (auto simp: drop_rec_def)
  qed
qed

lemma primary_not_indexed [simp]: "primary_of B \<notin> set indexBuckets"
  using primary_not_index by blast

lemma write_rec_records:
  assumes "records_ok g" "kind_ok P c" "nul \<notin> set (cell_id c)"
  shows "records_ok (write_rec P c g)"
  using assms
  by (auto simp: records_ok_def recordBuckets_def write_rec_def indexBuckets_def keyed_upd)

lemma drop_rec_records: "records_ok g \<Longrightarrow> records_ok (drop_rec P oid g)"
  by (auto simp: records_ok_def recordBuckets_def drop_rec_def indexBuckets_def keyed_del)

text \<open>Writes to a bucket that is neither a record bucket nor an index.\<close>

lemma upd_indexes:
  "indexes_ok g \<Longrightarrow> B \<notin> set indexBuckets \<Longrightarrow> B \<notin> {BObjects, BUploads, BTombstones} \<Longrightarrow>
   indexes_ok (upd g B k c)"
  by (auto simp: indexes_ok_iff in_sync_def upd_def indexBuckets_def)

end
