(* ===== verification/Schema.thy ===== *)
theory Schema
  imports Index "HOL-Library.Multiset"
begin

text \<open>
  The parts of \<^verbatim>\<open>internal/store/schema.go\<close> that change the catalog, and \<open>deleteObjectTx\<close> of
  \<^verbatim>\<open>delivery.go\<close>, which the index rebuild calls. A Go function that updates the object it is given
  through a pointer returns the updated record. The clock is an argument \<open>now\<close>. The lemmas give the
  effect of every operation on the contents of the catalog in terms of \<open>write_rec\<close> and \<open>drop_rec\<close>.
\<close>

section \<open>Queue entries\<close>

definition putQueueEntries :: "'db bolt \<Rightarrow> object_version \<Rightarrow> ('db, unit) txn" where
  "putQueueEntries K ob =
     (let v = CRaw (queueValue (o_VisibleAt ob) (o_Path ob))
      in tseq (tput K BQueue (queueKey (o_Tenant ob) (o_QueueSeq ob) (o_ID ob)) v)
           (tput K BQueueSeg (queueSegKey (o_Tenant ob) (o_Path ob) (o_QueueSeq ob) (o_ID ob)) v))"

definition enqueue :: "'db bolt \<Rightarrow> object_version \<Rightarrow> gotime \<Rightarrow> ('db, object_version) txn" where
  "enqueue K ob visible =
     tbind (tnext K BQueue) (\<lambda>seq.
       let ob' = ob\<lparr>o_QueueSeq := seq, o_VisibleAt := visible\<rparr>
       in tseq (putQueueEntries K ob') (ret ob'))"

definition dequeue :: "'db bolt \<Rightarrow> object_version \<Rightarrow> ('db, object_version) txn" where
  "dequeue K ob =
     (if o_QueueSeq ob = 0 then ret ob
      else tseq (tdel K BQueue (queueKey (o_Tenant ob) (o_QueueSeq ob) (o_ID ob)))
          (tseq (tdel K BQueueSeg (queueSegKey (o_Tenant ob) (o_Path ob) (o_QueueSeq ob) (o_ID ob)))
            (ret (ob\<lparr>o_QueueSeq := 0\<rparr>))))"

section \<open>Deleting an object\<close>

text \<open>The blocks of \<open>deleteObjectTx\<close>, in order: the claim and lease entry of a leased object, the
  entry of a parked or held one, the tombstone and garbage-collection entry, the record itself.\<close>

definition delete_lease :: "'db bolt \<Rightarrow> object_version \<Rightarrow> ('db, unit) txn" where
  "delete_lease K ob =
     twhen (o_LeaseID ob \<noteq> [])
       (tbind (tget K BClaims (o_LeaseID ob)) (\<lambda>cl.
        tseq (twhen (cl \<noteq> None)
               (tseq (tdel K BClaims (o_LeaseID ob)) (tmod (\<lambda>d. d\<lparr>d_claims := d_claims d - 1\<rparr>))))
          (ttry (tdel K BLeases (timeIDKey (o_LeaseUntil ob) (o_ID ob))))))"

definition delete_state_entry :: "'db bolt \<Rightarrow> object_version \<Rightarrow> ('db, unit) txn" where
  "delete_state_entry K ob =
     (case o_State ob of
        StateParked \<Rightarrow> ttry (tdel K BParked (parkedKey (o_Tenant ob) (o_ParkedAt ob) (o_ID ob)))
      | StateHeld \<Rightarrow> ttry (tdel K BHeld (timeIDKey (o_CreatedAt ob) (o_ID ob)))
      | _ \<Rightarrow> ret ())"

definition bury :: "'db bolt \<Rightarrow> gotime \<Rightarrow> object_version \<Rightarrow> string \<Rightarrow> ('db, unit) txn" where
  "bury K now ob reason =
     tseq (tput K BTombstones (o_ID ob)
            (CTomb \<lparr>t_ObjectID = o_ID ob, t_Tenant = o_Tenant ob, t_Reason = reason, t_DeletedAt = now\<rparr>))
    (tseq (tput K BTombTimes (timeIDKey now (o_ID ob)) (CRaw []))
    (tseq (tput K BGC (o_ID ob)
            (CGC \<lparr>g_Tenant = o_Tenant ob, g_Blob = o_BlobPath ob, g_Size = o_Size ob\<rparr>))
          (tmod (\<lambda>d. d\<lparr>d_gc := d_gc d + 1\<rparr>))))"

definition delete_record :: "'db bolt \<Rightarrow> object_version \<Rightarrow> ('db, unit) txn" where
  "delete_record K ob =
     tbind (tget K BObjects (o_ID ob)) (\<lambda>stored.
       if stored = None then ret ()
       else let state = (if o_State ob = StateDeletePending then StateNone else o_State ob);
                ob' = (if o_State ob = StateDeletePending then ob\<lparr>o_Size := 0\<rparr> else ob)
            in tseq (tmod (move ob' state StateNone)) (tdel K BObjects (o_ID ob)))"

definition deleteObjectTx ::
    "'db bolt \<Rightarrow> gotime \<Rightarrow> object_version \<Rightarrow> string \<Rightarrow> ('db, unit) txn" where
  "deleteObjectTx K now ob0 reason =
     tbind (tget K BNamespace (nsKey (o_Tenant ob0) (o_Path ob0))) (\<lambda>cur.
     tseq (twhen (raw_string cur = o_ID ob0) (tdel K BNamespace (nsKey (o_Tenant ob0) (o_Path ob0))))
     (tbind (dequeue K ob0) (\<lambda>ob.
     tseq (delete_lease K ob)
    (tseq (delete_state_entry K ob)
    (tseq (bury K now ob reason)
          (delete_record K ob))))))"

section \<open>Effects\<close>

text \<open>The pieces of a deletion on the contents: the name is freed when it points at the object, the
  claim of its lease goes, a tombstone and a garbage-collection entry appear.\<close>

definition tomb_of :: "gotime \<Rightarrow> object_version \<Rightarrow> string \<Rightarrow> tombstone" where
  "tomb_of now ob reason =
     \<lparr>t_ObjectID = o_ID ob, t_Tenant = o_Tenant ob, t_Reason = reason, t_DeletedAt = now\<rparr>"

definition gc_of :: "object_version \<Rightarrow> gc_entry" where
  "gc_of ob = \<lparr>g_Tenant = o_Tenant ob, g_Blob = o_BlobPath ob, g_Size = o_Size ob\<rparr>"

definition free_name :: "object_version \<Rightarrow> view \<Rightarrow> view" where
  "free_name ob g =
     (let k = nsKey (o_Tenant ob) (o_Path ob)
      in if raw_string (g BNamespace k) = o_ID ob then upd g BNamespace k None else g)"

definition free_claim :: "object_version \<Rightarrow> view \<Rightarrow> view" where
  "free_claim ob g = (if o_LeaseID ob = [] then g else upd g BClaims (o_LeaseID ob) None)"

definition delete_view :: "gotime \<Rightarrow> string \<Rightarrow> object_version \<Rightarrow> view \<Rightarrow> view" where
  "delete_view now reason ob g =
     drop_rec BObjects (o_ID ob)
       (write_rec BTombstones (CTomb (tomb_of now ob reason))
         (upd (free_claim ob (free_name ob g)) BGC (o_ID ob) (Some (CGC (gc_of ob)))))"

definition delete_delta :: "object_version \<Rightarrow> view \<Rightarrow> delta \<Rightarrow> delta" where
  "delete_delta ob g d =
     (let d1 = (if o_LeaseID ob \<noteq> [] \<and> g BClaims (o_LeaseID ob) \<noteq> None
                then d\<lparr>d_claims := d_claims d - 1\<rparr> else d);
          d2 = d1\<lparr>d_gc := d_gc d1 + 1\<rparr>
      in if g BObjects (o_ID ob) = None then d2
         else if o_State ob = StateDeletePending then move (ob\<lparr>o_Size := 0\<rparr>) StateNone StateNone d2
         else move ob (o_State ob) StateNone d2)"

text \<open>The object handed to \<open>deleteObjectTx\<close> agrees with the stored one in everything its index
  entries are made of; a caller that has already ended the lease has removed its lease entry.\<close>

definition deletable :: "object_version \<Rightarrow> view \<Rightarrow> bool" where
  "deletable ob g \<longleftrightarrow>
     (\<exists>c. g BObjects (o_ID ob) = Some c \<and>
        queue_entry c = queue_entry (CObject ob) \<and> queue_seg_entry c = queue_seg_entry (CObject ob) \<and>
        held_entry c = held_entry (CObject ob) \<and> parked_entry c = parked_entry (CObject ob) \<and>
        (o_LeaseID ob \<noteq> [] \<longrightarrow> o_State ob = StateLeased \<and> lease_entry c = lease_entry (CObject ob)) \<and>
        (o_LeaseID ob = [] \<longrightarrow> (\<forall>k v. lease_entry c = Some (k, v) \<longrightarrow> g BLeases k = None))) \<and>
     g BTombstones (o_ID ob) = None"

lemma raw_string_None [simp]: "raw_string None = []"
  by simp

context bolt_laws
begin

lemma dequeue_eff:
  assumes "dequeue K ob s = Inr (ob', s')"
  shows "ob' = ob\<lparr>o_QueueSeq := 0\<rparr>" "seqs K s' = seqs K s" "snd s' = snd s"
    "contents K s' = (if o_QueueSeq ob = 0 then contents K s else
       upd (upd (contents K s) BQueue (queueKey (o_Tenant ob) (o_QueueSeq ob) (o_ID ob)) None)
         BQueueSeg (queueSegKey (o_Tenant ob) (o_Path ob) (o_QueueSeq ob) (o_ID ob)) None)"
  using assms by (auto simp: dequeue_def txn_simps split: if_splits dest!: step_effs)

lemma enqueue_eff:
  assumes "enqueue K ob v s = Inr (ob', s')"
  shows "ob' = ob\<lparr>o_QueueSeq := Suc (seqs K s BQueue), o_VisibleAt := v\<rparr>"
    "Suc (seqs K s BQueue) < 2 ^ 64" "seqs K s' = (seqs K s)(BQueue := Suc (seqs K s BQueue))"
    "snd s' = snd s"
    "contents K s' =
       upd (upd (contents K s) BQueue (queueKey (o_Tenant ob') (o_QueueSeq ob') (o_ID ob'))
              (Some (CRaw (queueValue (o_VisibleAt ob') (o_Path ob')))))
         BQueueSeg (queueSegKey (o_Tenant ob') (o_Path ob') (o_QueueSeq ob') (o_ID ob'))
              (Some (CRaw (queueValue (o_VisibleAt ob') (o_Path ob'))))"
  using assms
  by (auto simp: enqueue_def putQueueEntries_def Let_def txn_simps dest!: step_effs)

lemma delete_lease_eff:
  assumes "delete_lease K ob s = Inr (x, s')"
  shows "contents K s' = (if o_LeaseID ob = [] then contents K s else
       upd (upd (contents K s) BClaims (o_LeaseID ob) None)
         BLeases (timeIDKey (o_LeaseUntil ob) (o_ID ob)) None)"
    "seqs K s' = seqs K s"
    "snd s' = (if o_LeaseID ob \<noteq> [] \<and> contents K s BClaims (o_LeaseID ob) \<noteq> None
        then (snd s)\<lparr>d_claims := d_claims (snd s) - 1\<rparr> else snd s)"
  using assms
  by (cases "o_LeaseID ob = []"; cases "contents K s BClaims (o_LeaseID ob)";
      auto simp: delete_lease_def txn_simps upd_def dest!: step_effs ttry_tdel_eff split: if_splits)+

lemma delete_state_entry_eff:
  assumes "delete_state_entry K ob s = Inr (x, s')"
  shows "contents K s' = (case o_State ob of
        StateParked \<Rightarrow> upd (contents K s) BParked (parkedKey (o_Tenant ob) (o_ParkedAt ob) (o_ID ob)) None
      | StateHeld \<Rightarrow> upd (contents K s) BHeld (timeIDKey (o_CreatedAt ob) (o_ID ob)) None
      | _ \<Rightarrow> contents K s)"
    "seqs K s' = seqs K s" "snd s' = snd s"
  using assms
  by (cases "o_State ob"; auto simp: delete_state_entry_def txn_simps dest!: ttry_tdel_eff)+

lemma bury_eff:
  assumes "bury K now ob reason s = Inr (x, s')"
  shows "contents K s' = upd (upd (upd (contents K s) BTombstones (o_ID ob) (Some (CTomb (tomb_of now ob reason))))
              BTombTimes (timeIDKey now (o_ID ob)) (Some (CRaw [])))
              BGC (o_ID ob) (Some (CGC (gc_of ob)))"
    "seqs K s' = seqs K s" "snd s' = (snd s)\<lparr>d_gc := d_gc (snd s) + 1\<rparr>"
  using assms by (auto simp: bury_def tomb_of_def gc_of_def txn_simps dest!: step_effs)

lemma delete_record_eff:
  assumes "delete_record K ob s = Inr (x, s')"
  shows "contents K s' = upd (contents K s) BObjects (o_ID ob) None" "seqs K s' = seqs K s"
    "snd s' = (if contents K s BObjects (o_ID ob) = None then snd s
        else if o_State ob = StateDeletePending then move (ob\<lparr>o_Size := 0\<rparr>) StateNone StateNone (snd s)
        else move ob (o_State ob) StateNone (snd s))"
  using assms
  by (auto simp: delete_record_def txn_simps Let_def upd_def dest!: step_effs split: if_splits)

lemma deleteObjectTx_eff:
  assumes run: "deleteObjectTx K now ob reason s = Inr (x, s')"
    and del: "deletable ob (contents K s)" and oid: "o_ID ob \<noteq> []"
  shows "contents K s' = delete_view now reason ob (contents K s)"
    "seqs K s' = seqs K s" "snd s' = delete_delta ob (contents K s) (snd s)"
proof -
  let ?ob = "ob\<lparr>o_QueueSeq := 0\<rparr>"
  let ?k = "nsKey (o_Tenant ob) (o_Path ob)"
  obtain s1 ob' s2 s3 s4 s5 where
    r1: "twhen (raw_string (contents K s BNamespace ?k) = o_ID ob) (tdel K BNamespace ?k) s = Inr ((), s1)"
    and r2: "dequeue K ob s1 = Inr (ob', s2)" and r3': "delete_lease K ob' s2 = Inr ((), s3)"
    and r4': "delete_state_entry K ob' s3 = Inr ((), s4)"
    and r5': "bury K now ob' reason s4 = Inr ((), s5)" and r6': "delete_record K ob' s5 = Inr ((), s')"
    using run by (auto simp: deleteObjectTx_def txn_simps)
  note r3 = r3' [unfolded dequeue_eff(1) [OF r2]] and r4 = r4' [unfolded dequeue_eff(1) [OF r2]]
    and r5 = r5' [unfolded dequeue_eff(1) [OF r2]] and r6 = r6' [unfolded dequeue_eff(1) [OF r2]]
  have g1: "contents K s1 = free_name ob (contents K s)" "seqs K s1 = seqs K s" "snd s1 = snd s"
    using r1 by (auto simp: txn_simps free_name_def Let_def dest!: step_effs split: if_splits)
  note effs = dequeue_eff(2-) [OF r2] delete_lease_eff [OF r3] delete_state_entry_eff [OF r4]
    bury_eff [OF r5] delete_record_eff [OF r6] g1
  show "seqs K s' = seqs K s" by (simp add: effs)
  obtain c where c: "contents K s BObjects (o_ID ob) = Some c"
    and ents: "queue_entry c = queue_entry (CObject ob)" "queue_seg_entry c = queue_seg_entry (CObject ob)"
      "held_entry c = held_entry (CObject ob)" "parked_entry c = parked_entry (CObject ob)"
    and lease: "o_LeaseID ob \<noteq> [] \<longrightarrow> o_State ob = StateLeased \<and> lease_entry c = lease_entry (CObject ob)"
      "o_LeaseID ob = [] \<longrightarrow> (\<forall>k v. lease_entry c = Some (k, v) \<longrightarrow> contents K s BLeases k = None)"
    and tomb: "contents K s BTombstones (o_ID ob) = None"
    using del unfolding deletable_def by blast
  have gone: "del_entry (lease_entry c) (contents K s BLeases) = contents K s BLeases"
    if "o_LeaseID ob = []"
    using lease(2) that by (cases "lease_entry c") auto
  have frame: "free_name ob g B = g B" if "B \<noteq> BNamespace" for g B
    using that by (simp add: free_name_def Let_def)
  have s4: "contents K s4 B = contents K s3 B" if "B \<noteq> BHeld" "B \<noteq> BParked" for B
    using that delete_state_entry_eff(1) [OF r4] by (cases "o_State ob") simp_all
  have held: "contents K s4 BHeld = del_entry (held_entry (CObject ob)) (contents K s3 BHeld)"
    "contents K s4 BParked = del_entry (parked_entry (CObject ob)) (contents K s3 BParked)"
    using delete_state_entry_eff(1) [OF r4] by (cases "o_State ob"; simp)+
  note steps = bury_eff(1) [OF r5] delete_record_eff(1) [OF r6] s4 held delete_lease_eff(1) [OF r3]
    dequeue_eff(4) [OF r2] g1(1) delete_view_def drop_rec_def write_rec_def free_claim_def indexBuckets_def
    tomb_of_def gc_of_def
  show "contents K s' = delete_view now reason ob (contents K s)"
  proof
    fix B
    show "contents K s' B = delete_view now reason ob (contents K s) B"
    proof (cases "o_LeaseID ob = []"; cases "o_QueueSeq ob = 0")
    qed (use c tomb ents lease(1) frame gone in \<open>cases B; simp add: steps\<close>)+
  qed
  show "snd s' = delete_delta ob (contents K s) (snd s)"
    using c frame move_cong [of ?ob ob] move_cong [of "?ob\<lparr>o_Size := 0\<rparr>" "ob\<lparr>o_Size := 0\<rparr>"]
    by (cases "o_State ob") (simp_all add: effs delete_delta_def Let_def)
qed

end

end
