(* ===== verification/Catalog.thy ===== *)
theory Catalog
  imports Schema
begin

text \<open>
  The invariant of the catalog that every transaction keeps, and the two abstract steps the
  transactions of \<^verbatim>\<open>delivery.go\<close>, \<^verbatim>\<open>namespace.go\<close>, \<^verbatim>\<open>upload.go\<close> and \<^verbatim>\<open>maintain.go\<close> are refined to:
  an object is rewritten together with its claim (\<open>set_object\<close>), or deleted (\<open>delete_view\<close>). The
  invariant says: records sit under their own identifiers; the indexes are derived from them; an
  object is queued exactly when it is READY and leased exactly when it is LEASED; claims and
  leases match one to one; a name points at a live, unretracted object of that path; what is
  buried (tombstone, garbage-collection entry) is not alive, neither as an object nor as an upload.
\<close>

definition obj_ok :: "object_version \<Rightarrow> bool" where
  "obj_ok ob \<longleftrightarrow>
     o_ID ob \<noteq> [] \<and> clean_path (o_Path ob) \<and> nul \<notin> set (o_Tenant ob) \<and>
     o_State ob \<in> {StateReady, StateLeased, StateHeld, StateParked} \<and>
     (o_QueueSeq ob \<noteq> 0 \<longleftrightarrow> o_State ob = StateReady) \<and>
     (o_LeaseID ob \<noteq> [] \<longleftrightarrow> o_State ob = StateLeased) \<and>
     (o_Retracted ob \<longrightarrow> o_State ob = StateLeased)"

definition objects_ok :: "view \<Rightarrow> bool" where
  "objects_ok g \<longleftrightarrow> (\<forall>oid ob. g BObjects oid = Some (CObject ob) \<longrightarrow> obj_ok ob)"

definition claim_of :: "claim \<Rightarrow> object_version \<Rightarrow> bool" where
  "claim_of cl ob \<longleftrightarrow>
     c_LeaseID cl = o_LeaseID ob \<and> c_ObjectID cl = o_ID ob \<and> c_Tenant cl = o_Tenant ob \<and>
     c_LeaseUntil cl = o_LeaseUntil ob"

definition claims_ok :: "view \<Rightarrow> bool" where
  "claims_ok g \<longleftrightarrow>
     (\<forall>l cl. g BClaims l = Some (CClaim cl) \<longrightarrow>
        (\<exists>ob. g BObjects (c_ObjectID cl) = Some (CObject ob) \<and> o_State ob = StateLeased \<and> claim_of cl ob)) \<and>
     (\<forall>oid ob. g BObjects oid = Some (CObject ob) \<and> o_State ob = StateLeased \<longrightarrow>
        (\<exists>cl. g BClaims (o_LeaseID ob) = Some (CClaim cl) \<and> claim_of cl ob))"

definition names_ok :: "view \<Rightarrow> bool" where
  "names_ok g \<longleftrightarrow>
     (\<forall>k c. g BNamespace k = Some c \<longrightarrow>
        (\<exists>ob. c = CRaw (o_ID ob) \<and> g BObjects (o_ID ob) = Some (CObject ob) \<and>
              k = nsKey (o_Tenant ob) (o_Path ob) \<and> \<not> o_Retracted ob))"

definition graves_ok :: "view \<Rightarrow> bool" where
  "graves_ok g \<longleftrightarrow>
     (\<forall>oid. g BObjects oid \<noteq> None \<longrightarrow> g BTombstones oid = None \<and> g BGC oid = None \<and> g BUploads oid = None) \<and>
     (\<forall>oid. g BUploads oid \<noteq> None \<longrightarrow> g BTombstones oid = None \<and> g BGC oid = None)"

text \<open>Queue positions are handed out once: \<open>n\<close> is the bucket's sequence.\<close>

definition queue_seq_ok :: "view \<Rightarrow> nat \<Rightarrow> bool" where
  "queue_seq_ok g n \<longleftrightarrow> n < 2 ^ 64 \<and>
     (\<forall>oid ob. g BObjects oid = Some (CObject ob) \<longrightarrow> o_QueueSeq ob \<le> n) \<and>
     (\<forall>a b oa ob. g BObjects a = Some (CObject oa) \<and> g BObjects b = Some (CObject ob) \<and>
        o_QueueSeq oa = o_QueueSeq ob \<and> o_QueueSeq oa \<noteq> 0 \<longrightarrow> a = b)"

definition catalog_ok :: "view \<Rightarrow> nat \<Rightarrow> bool" where
  "catalog_ok g n \<longleftrightarrow>
     records_ok g \<and> indexes_ok g \<and> objects_ok g \<and> claims_ok g \<and> names_ok g \<and> graves_ok g \<and>
     queue_seq_ok g n"

lemma catalog_okD:
  assumes "catalog_ok g n"
  shows "records_ok g" "indexes_ok g" "objects_ok g" "claims_ok g" "names_ok g" "graves_ok g"
    "queue_seq_ok g n"
  using assms by (simp_all add: catalog_ok_def)

lemma catalog_object:
  assumes "catalog_ok g n" "g BObjects oid = Some (CObject ob)"
  shows "obj_ok ob" "o_ID ob = oid" "nul \<notin> set oid" "oid \<noteq> []" "g BTombstones oid = None" "g BGC oid = None"
    "g BUploads oid = None"
  using assms records_id(1) [OF catalog_okD(1) [OF assms(1)] assms(2)]
  by (auto simp: catalog_ok_def objects_ok_def graves_ok_def obj_ok_def)

lemma names_okI:
  assumes "\<And>k c. g BNamespace k = Some c \<Longrightarrow>
      \<exists>ob. c = CRaw (o_ID ob) \<and> g BObjects (o_ID ob) = Some (CObject ob) \<and>
           k = nsKey (o_Tenant ob) (o_Path ob) \<and> \<not> o_Retracted ob"
  shows "names_ok g"
  using assms unfolding names_ok_def by blast

lemma name_object:
  assumes "names_ok g" "g BNamespace k = Some c"
  obtains ob where "c = CRaw (o_ID ob)" "g BObjects (o_ID ob) = Some (CObject ob)"
    "k = nsKey (o_Tenant ob) (o_Path ob)" "\<not> o_Retracted ob"
  using assms unfolding names_ok_def by blast

section \<open>Rewriting an object\<close>

definition claim_upd :: "claim option \<Rightarrow> view \<Rightarrow> view" where
  "claim_upd clo g = (case clo of None \<Rightarrow> g | Some cl \<Rightarrow> upd g BClaims (c_LeaseID cl) (Some (CClaim cl)))"

definition drop_claim :: "string \<Rightarrow> view \<Rightarrow> view" where
  "drop_claim oid g =
     (case g BObjects oid of Some (CObject old) \<Rightarrow> free_claim old g | _ \<Rightarrow> g)"

definition set_object :: "object_version \<Rightarrow> claim option \<Rightarrow> view \<Rightarrow> view" where
  "set_object ob clo g = write_rec BObjects (CObject ob) (claim_upd clo (drop_claim (o_ID ob) g))"

lemma drop_claim_frame [simp]: "B \<noteq> BClaims \<Longrightarrow> drop_claim oid g B = g B"
  by (auto simp: drop_claim_def free_claim_def split: option.splits cell.splits)

lemma claim_upd_frame [simp]: "B \<noteq> BClaims \<Longrightarrow> claim_upd clo g B = g B"
  by (auto simp: claim_upd_def split: option.splits)

lemma set_object_objects: "set_object ob clo g BObjects = (g BObjects)(o_ID ob \<mapsto> CObject ob)"
  by (simp add: set_object_def write_rec_def)

lemma set_object_frame [simp]:
  "B \<notin> {BObjects, BClaims, BQueue, BQueueSeg, BLeases, BHeld, BParked} \<Longrightarrow> set_object ob clo g B = g B"
  by (cases B) (simp_all add: set_object_def write_rec_def indexBuckets_def)

lemma set_object_claims: "set_object ob clo g BClaims = claim_upd clo (drop_claim (o_ID ob) g) BClaims"
  by (simp add: set_object_def write_rec_def indexBuckets_def)

lemma drop_claim_claims:
  assumes "g BObjects oid = Some (CObject old)"
  shows "drop_claim oid g BClaims = (if o_LeaseID old = [] then g BClaims else (g BClaims)(o_LeaseID old := None))"
  using assms by (simp add: drop_claim_def free_claim_def)

lemma indexes_frame: "indexes_ok g \<Longrightarrow> (\<And>B. B \<noteq> BClaims \<Longrightarrow> g' B = g B) \<Longrightarrow> indexes_ok g'"
  by (simp add: indexes_ok_iff in_sync_def)

lemma records_frame:
  assumes "records_ok g" "\<And>B. B \<noteq> BClaims \<Longrightarrow> g' B = g B"
    and "\<And>l c. g' BClaims l = Some c \<Longrightarrow> g BClaims l = Some c \<or> kind_ok BClaims c \<and> cell_id c = l \<and> nul \<notin> set l"
  shows "records_ok g'"
proof (rule records_okI)
  fix B k c assume B: "B \<in> set recordBuckets" "g' B k = Some c"
  show "kind_ok B c \<and> cell_id c = k \<and> nul \<notin> set k"
    using records_D [OF assms(1) B(1), of k c] B assms(2) [of B] assms(3) [of k c]
    by (cases "B = BClaims") auto
qed

text \<open>What rewriting an object to \<open>ob\<close> asks for: a legal object, a claim exactly when it is leased,
  under a lease identifier no other object uses, a queue position it held or the next one, and no
  name left pointing at it under another path or after a retraction.\<close>

definition may_set :: "object_version \<Rightarrow> claim option \<Rightarrow> view \<Rightarrow> nat \<Rightarrow> nat \<Rightarrow> bool" where
  "may_set ob clo g n n' \<longleftrightarrow>
     obj_ok ob \<and> nul \<notin> set (o_ID ob) \<and>
     (case clo of None \<Rightarrow> o_State ob \<noteq> StateLeased
      | Some cl \<Rightarrow> o_State ob = StateLeased \<and> claim_of cl ob \<and> nul \<notin> set (o_LeaseID ob) \<and>
          drop_claim (o_ID ob) g BClaims (o_LeaseID ob) = None) \<and>
     g BTombstones (o_ID ob) = None \<and> g BGC (o_ID ob) = None \<and> g BUploads (o_ID ob) = None \<and>
     (\<forall>k. g BNamespace k = Some (CRaw (o_ID ob)) \<longrightarrow>
        k = nsKey (o_Tenant ob) (o_Path ob) \<and> \<not> o_Retracted ob) \<and>
     n \<le> n' \<and> n' < 2 ^ 64 \<and>
     (o_QueueSeq ob = 0 \<or> n < o_QueueSeq ob \<and> o_QueueSeq ob \<le> n' \<or>
      (\<exists>old. g BObjects (o_ID ob) = Some (CObject old) \<and> o_QueueSeq old = o_QueueSeq ob))"

lemma claim_leased:
  assumes "claims_ok g" "g BClaims l = Some (CClaim cl)"
  obtains ob where "g BObjects (c_ObjectID cl) = Some (CObject ob)" "o_State ob = StateLeased" "claim_of cl ob"
  using assms unfolding claims_ok_def by blast

lemma leased_claim:
  assumes "claims_ok g" "g BObjects oid = Some (CObject ob)" "o_State ob = StateLeased"
  obtains cl where "g BClaims (o_LeaseID ob) = Some (CClaim cl)" "claim_of cl ob"
  using assms unfolding claims_ok_def by blast

lemma claims_okI:
  assumes "\<And>l cl. g BClaims l = Some (CClaim cl) \<Longrightarrow>
      \<exists>ob. g BObjects (c_ObjectID cl) = Some (CObject ob) \<and> o_State ob = StateLeased \<and> claim_of cl ob"
    and "\<And>oid ob. g BObjects oid = Some (CObject ob) \<Longrightarrow> o_State ob = StateLeased \<Longrightarrow>
      \<exists>cl. g BClaims (o_LeaseID ob) = Some (CClaim cl) \<and> claim_of cl ob"
  shows "claims_ok g"
  using assms unfolding claims_ok_def by blast

lemma claims_other:
  assumes "claims_ok g" "g BClaims l = Some (CClaim cl)" "g BObjects oid = Some (CObject old)" "records_ok g"
  shows "c_ObjectID cl = oid \<longleftrightarrow> l = o_LeaseID old \<and> o_State old = StateLeased"
proof
  assume oid: "c_ObjectID cl = oid"
  from assms(1,2) obtain ob where
    "g BObjects (c_ObjectID cl) = Some (CObject ob)" "o_State ob = StateLeased" "claim_of cl ob"
    by (rule claim_leased)
  with assms(3) oid records_id(3) [OF assms(4,2)] show "l = o_LeaseID old \<and> o_State old = StateLeased"
    by (simp add: claim_of_def)
next
  assume l: "l = o_LeaseID old \<and> o_State old = StateLeased"
  with assms(1,3) obtain cl' where "g BClaims l = Some (CClaim cl')" "claim_of cl' old"
    using leased_claim by metis
  with assms(2) records_id(1) [OF assms(4,3)] show "c_ObjectID cl = oid"
    by (simp add: claim_of_def)
qed

lemma claims_set_object:
  assumes ok: "claims_ok g" "objects_ok g" "records_ok g" and may: "may_set ob clo g n n'"
  shows "claims_ok (set_object ob clo g)"
proof -
  let ?D = "drop_claim (o_ID ob) g BClaims" and ?C = "set_object ob clo g BClaims"
  have D: "?D l = Some c \<Longrightarrow> g BClaims l = Some c" for l c
    by (auto simp: drop_claim_def free_claim_def split: option.splits cell.splits if_splits)
  have other: "?D l = Some (CClaim cl) \<Longrightarrow> c_ObjectID cl \<noteq> o_ID ob" for l cl
  proof
    assume a: "?D l = Some (CClaim cl)" "c_ObjectID cl = o_ID ob"
    from ok(1) D [OF a(1)] obtain old where
      old: "g BObjects (o_ID ob) = Some (CObject old)" "o_State old = StateLeased" "claim_of cl old"
      by (rule claim_leased) (simp add: a(2))
    have "l = o_LeaseID old" using old(3) records_id(3) [OF ok(3) D [OF a(1)]] by (simp add: claim_of_def)
    moreover have "o_LeaseID old \<noteq> []" using old ok(2) by (auto simp: objects_ok_def obj_ok_def)
    ultimately show False using a(1) drop_claim_claims [of g "o_ID ob" old] old(1) by simp
  qed
  have kept: "g BObjects oid = Some (CObject o') \<Longrightarrow> oid \<noteq> o_ID ob \<Longrightarrow> o_State o' = StateLeased \<Longrightarrow>
      \<exists>cl. ?D (o_LeaseID o') = Some (CClaim cl) \<and> claim_of cl o'" for oid o'
  proof -
    assume a: "g BObjects oid = Some (CObject o')" "oid \<noteq> o_ID ob" "o_State o' = StateLeased"
    then obtain cl where cl: "g BClaims (o_LeaseID o') = Some (CClaim cl)" "claim_of cl o'"
      using leased_claim [OF ok(1)] by metis
    have oid: "o_ID o' = oid" using records_id(1) [OF ok(3) a(1)] by simp
    have "?D (o_LeaseID o') = g BClaims (o_LeaseID o')"
    proof (cases "\<exists>old. g BObjects (o_ID ob) = Some (CObject old)")
      case True
      then obtain old where old: "g BObjects (o_ID ob) = Some (CObject old)" by auto
      have "o_LeaseID o' = o_LeaseID old \<Longrightarrow> o_LeaseID old \<noteq> [] \<Longrightarrow> False"
        using claims_other [OF ok(1) cl(1) old ok(3)] cl(2) a(2) oid old ok(2)
        by (auto simp: claim_of_def objects_ok_def obj_ok_def)
      then show ?thesis using drop_claim_claims [of g "o_ID ob" old] old by auto
    next
      case False
      then show ?thesis by (auto simp: drop_claim_def split: option.splits cell.splits)
    qed
    with cl show "\<exists>cl. ?D (o_LeaseID o') = Some (CClaim cl) \<and> claim_of cl o'" by auto
  qed
  have obj: "set_object ob clo g BObjects = (g BObjects)(o_ID ob \<mapsto> CObject ob)"
    by (rule set_object_objects)
  have bwd: "?D l = Some (CClaim cl) \<Longrightarrow>
      \<exists>o'. set_object ob clo g BObjects (c_ObjectID cl) = Some (CObject o') \<and> o_State o' = StateLeased \<and> claim_of cl o'" for l cl
    using claim_leased [OF ok(1) D] other obj by (metis fun_upd_other)
  show ?thesis
  proof (cases clo)
    case None
    then have C: "?C = ?D" "o_State ob \<noteq> StateLeased"
      using may by (auto simp: set_object_claims claim_upd_def may_set_def)
    show ?thesis
    proof (rule claims_okI)
      fix oid o' assume a: "set_object ob clo g BObjects oid = Some (CObject o')" "o_State o' = StateLeased"
      then have "oid \<noteq> o_ID ob" "g BObjects oid = Some (CObject o')"
        using C(2) unfolding obj by (auto split: if_splits)
      then show "\<exists>cl. ?C (o_LeaseID o') = Some (CClaim cl) \<and> claim_of cl o'"
        unfolding C(1) using kept a(2) by blast
    qed (unfold C(1), rule bwd)
  next
    case (Some cl)
    then have C: "?C = ?D(o_LeaseID ob \<mapsto> CClaim cl)" "claim_of cl ob" "?D (o_LeaseID ob) = None"
      "o_State ob = StateLeased" "c_ObjectID cl = o_ID ob"
      using may by (auto simp: set_object_claims claim_upd_def may_set_def claim_of_def)
    show ?thesis
    proof (rule claims_okI)
      fix l cl' assume "?C l = Some (CClaim cl')"
      then show "\<exists>o'. set_object ob clo g BObjects (c_ObjectID cl') = Some (CObject o') \<and>
          o_State o' = StateLeased \<and> claim_of cl' o'"
        using bwd C(2,4,5) unfolding C(1) obj by (cases "l = o_LeaseID ob") (auto simp: obj)
    next
      fix oid o' assume a: "set_object ob clo g BObjects oid = Some (CObject o')" "o_State o' = StateLeased"
      show "\<exists>cl. ?C (o_LeaseID o') = Some (CClaim cl) \<and> claim_of cl o'"
      proof (cases "oid = o_ID ob")
        case False
        then obtain cl' where "?D (o_LeaseID o') = Some (CClaim cl')" "claim_of cl' o'"
          using kept [of oid o'] a unfolding obj by auto
        moreover from this C(3) have "o_LeaseID o' \<noteq> o_LeaseID ob" by auto
        ultimately show ?thesis unfolding C(1) by auto
      next
        case True
        then have "o' = ob" using a(1) unfolding obj by simp
        then show ?thesis using C(2) unfolding C(1) by auto
      qed
    qed
  qed
qed

lemma set_object_records:
  assumes "records_ok g" "may_set ob clo g n n'"
  shows "records_ok (set_object ob clo g)"
  unfolding set_object_def
proof (rule write_rec_records)
  show "records_ok (claim_upd clo (drop_claim (o_ID ob) g))"
  proof (rule records_frame [OF assms(1)])
    fix l c assume "claim_upd clo (drop_claim (o_ID ob) g) BClaims l = Some c"
    then show "g BClaims l = Some c \<or> kind_ok BClaims c \<and> cell_id c = l \<and> nul \<notin> set l"
      using assms(2)
      by (auto simp: claim_upd_def drop_claim_def free_claim_def may_set_def claim_of_def
          split: option.splits cell.splits if_splits)
  qed simp
qed (use assms(2) in \<open>simp_all add: may_set_def\<close>)

lemma set_object_indexes:
  assumes "records_ok g" "indexes_ok g" "may_set ob clo g n n'"
  shows "indexes_ok (set_object ob clo g)"
  unfolding set_object_def
proof (rule write_rec_indexes [where P' = BObjects])
  show "indexes_ok (claim_upd clo (drop_claim (o_ID ob) g))"
    by (rule indexes_frame [OF assms(2)]) simp
  show "records_ok (claim_upd clo (drop_claim (o_ID ob) g))"
  proof (rule records_frame [OF assms(1)])
    fix l c assume "claim_upd clo (drop_claim (o_ID ob) g) BClaims l = Some c"
    then show "g BClaims l = Some c \<or> kind_ok BClaims c \<and> cell_id c = l \<and> nul \<notin> set l"
      using assms(3)
      by (auto simp: claim_upd_def drop_claim_def free_claim_def may_set_def claim_of_def
          split: option.splits cell.splits if_splits)
  qed simp
qed (use assms(3) in \<open>simp_all add: may_set_def\<close>)

lemma set_object_seq:
  assumes "queue_seq_ok g n" "may_set ob clo g n n'"
  shows "queue_seq_ok (set_object ob clo g) n'"
proof -
  let ?G = "set_object ob clo g BObjects"
  have obj: "?G = (g BObjects)(o_ID ob \<mapsto> CObject ob)" by (rule set_object_objects)
  have n: "n \<le> n'" "n' < 2 ^ 64" using assms(2) by (auto simp: may_set_def)
  have le: "g BObjects a = Some (CObject o1) \<Longrightarrow> o_QueueSeq o1 \<le> n" for a o1
    using assms(1) unfolding queue_seq_ok_def by blast
  have uniq: "g BObjects a = Some (CObject o1) \<Longrightarrow> g BObjects b = Some (CObject o2) \<Longrightarrow>
      o_QueueSeq o1 = o_QueueSeq o2 \<Longrightarrow> o_QueueSeq o1 \<noteq> 0 \<Longrightarrow> a = b" for a b o1 o2
    using assms(1) unfolding queue_seq_ok_def by blast
  have new: "o_QueueSeq ob = 0 \<or> n < o_QueueSeq ob \<and> o_QueueSeq ob \<le> n' \<or>
      (\<exists>old. g BObjects (o_ID ob) = Some (CObject old) \<and> o_QueueSeq old = o_QueueSeq ob)"
    using assms(2) by (simp add: may_set_def)
  have other: "g BObjects a = Some (CObject o1) \<Longrightarrow> o_QueueSeq o1 = o_QueueSeq ob \<Longrightarrow>
      o_QueueSeq ob \<noteq> 0 \<Longrightarrow> a = o_ID ob" for a o1
    using new le uniq by (metis leD)
  have ob: "o_QueueSeq ob \<le> n'"
    using new le n(1) order_trans by (metis le0)
  show ?thesis
    unfolding queue_seq_ok_def
  proof (intro conjI allI impI)
    fix a o1 assume "?G a = Some (CObject o1)"
    then show "o_QueueSeq o1 \<le> n'"
      using ob le n(1) unfolding obj by (auto split: if_splits intro: order_trans)
  next
    fix a b o1 o2
    assume "?G a = Some (CObject o1) \<and> ?G b = Some (CObject o2) \<and> o_QueueSeq o1 = o_QueueSeq o2 \<and>
      o_QueueSeq o1 \<noteq> 0"
    then show "a = b"
      using other uniq unfolding obj by (auto split: if_splits)
  qed (rule n)
qed

theorem set_object_ok:
  assumes ok: "catalog_ok g n" and may: "may_set ob clo g n n'"
  shows "catalog_ok (set_object ob clo g) n'"
  unfolding catalog_ok_def
proof (intro conjI)
  note D = catalog_okD [OF ok]
  show "records_ok (set_object ob clo g)" by (rule set_object_records [OF D(1) may])
  show "indexes_ok (set_object ob clo g)" by (rule set_object_indexes [OF D(1,2) may])
  show "claims_ok (set_object ob clo g)" by (rule claims_set_object [OF D(4,3,1) may])
  show "queue_seq_ok (set_object ob clo g) n'" by (rule set_object_seq [OF D(7) may])
  show "objects_ok (set_object ob clo g)"
    using D(3) may by (auto simp: objects_ok_def set_object_objects may_set_def)
  show "names_ok (set_object ob clo g)"
  proof (rule names_okI)
    fix k c assume "set_object ob clo g BNamespace k = Some c"
    then have k: "g BNamespace k = Some c" by simp
    from D(5) k obtain o' where o': "c = CRaw (o_ID o')" "g BObjects (o_ID o') = Some (CObject o')"
      "k = nsKey (o_Tenant o') (o_Path o')" "\<not> o_Retracted o'"
      by (rule name_object)
    show "\<exists>o'. c = CRaw (o_ID o') \<and> set_object ob clo g BObjects (o_ID o') = Some (CObject o') \<and>
        k = nsKey (o_Tenant o') (o_Path o') \<and> \<not> o_Retracted o'"
    proof (cases "o_ID o' = o_ID ob")
      case True
      with may k o' show ?thesis
        by (intro exI [of _ ob]) (simp add: may_set_def set_object_objects)
    next
      case False
      with o' show ?thesis by (intro exI [of _ o']) (simp add: set_object_objects)
    qed
  qed
  show "graves_ok (set_object ob clo g)"
    using D(6) may by (auto simp: graves_ok_def set_object_objects may_set_def)
qed

section \<open>Deleting an object\<close>

lemma delete_view_frame:
  "delete_view now reason ob g BObjects = (g BObjects)(o_ID ob := None)"
  "delete_view now reason ob g BClaims = free_claim ob g BClaims"
  "delete_view now reason ob g BNamespace = free_name ob g BNamespace"
  "delete_view now reason ob g BTombstones = (g BTombstones)(o_ID ob \<mapsto> CTomb (tomb_of now ob reason))"
  "delete_view now reason ob g BGC = (g BGC)(o_ID ob \<mapsto> CGC (gc_of ob))"
  "delete_view now reason ob g BUploads = g BUploads"
  "delete_view now reason ob g BDirectories = g BDirectories"
  by (simp_all add: delete_view_def drop_rec_def write_rec_def free_claim_def free_name_def Let_def
      indexBuckets_def tomb_of_def)

lemma delete_view_records:
  assumes "records_ok g" "g BObjects (o_ID ob) = Some (CObject ob)"
  shows "records_ok (delete_view now reason ob g)" "indexes_ok g \<Longrightarrow> indexes_ok (delete_view now reason ob g)"
proof -
  let ?g = "upd (free_claim ob (free_name ob g)) BGC (o_ID ob) (Some (CGC (gc_of ob)))"
  have nul: "nul \<notin> set (o_ID ob)" using records_id(1) [OF assms] by simp
  have r: "records_ok ?g"
    using assms(1) by (auto simp: free_claim_def free_name_def Let_def recordBuckets_def
        intro!: records_ok_upd(1) records_ok_upd(3))
  have r': "records_ok (write_rec BTombstones (CTomb (tomb_of now ob reason)) ?g)"
    by (rule write_rec_records [OF r]) (simp_all add: tomb_of_def nul)
  then show "records_ok (delete_view now reason ob g)"
    unfolding delete_view_def by (rule drop_rec_records)
  assume "indexes_ok g"
  then have i: "indexes_ok ?g"
    by (auto simp: free_claim_def free_name_def Let_def indexBuckets_def intro!: upd_indexes)
  have "indexes_ok (write_rec BTombstones (CTomb (tomb_of now ob reason)) ?g)"
    by (rule write_rec_indexes [OF i r, where P' = BTombTimes]) (simp_all add: tomb_of_def nul)
  then show "indexes_ok (delete_view now reason ob g)"
    unfolding delete_view_def by (rule drop_rec_indexes [OF _ r', where P' = BObjects]) simp
qed

lemma delete_view_claims:
  assumes ok: "claims_ok g" "records_ok g" "objects_ok g" and ob: "g BObjects (o_ID ob) = Some (CObject ob)"
  shows "claims_ok (delete_view now reason ob g)"
proof (rule claims_okI, unfold delete_view_frame)
  have F: "free_claim ob g BClaims l = Some c \<longleftrightarrow> g BClaims l = Some c \<and> (o_LeaseID ob = [] \<or> l \<noteq> o_LeaseID ob)" for l c
    by (auto simp: free_claim_def)
  have L: "o_LeaseID ob = [] \<longleftrightarrow> o_State ob \<noteq> StateLeased"
    using ok(3) ob by (auto simp: objects_ok_def obj_ok_def)
  fix l cl assume "free_claim ob g BClaims l = Some (CClaim cl)"
  then have l: "g BClaims l = Some (CClaim cl)" "o_LeaseID ob = [] \<or> l \<noteq> o_LeaseID ob" by (auto simp: F)
  then have "c_ObjectID cl \<noteq> o_ID ob"
    using claims_other [OF ok(1) l(1) ob ok(2)] L by auto
  then show "\<exists>o'. ((g BObjects)(o_ID ob := None)) (c_ObjectID cl) = Some (CObject o') \<and>
      o_State o' = StateLeased \<and> claim_of cl o'"
    using claim_leased [OF ok(1) l(1)] by (metis fun_upd_other)
next
  fix oid o' assume a: "((g BObjects)(o_ID ob := None)) oid = Some (CObject o')" "o_State o' = StateLeased"
  then have oid: "oid \<noteq> o_ID ob" "g BObjects oid = Some (CObject o')" by (auto split: if_splits)
  then obtain cl where cl: "g BClaims (o_LeaseID o') = Some (CClaim cl)" "claim_of cl o'"
    using leased_claim [OF ok(1) oid(2) a(2)] by metis
  have "c_ObjectID cl = oid" using cl(2) records_id(1) [OF ok(2) oid(2)] by (simp add: claim_of_def)
  then have "o_LeaseID ob = [] \<or> o_LeaseID o' \<noteq> o_LeaseID ob"
    using claims_other [OF ok(1) cl(1) ob ok(2)] oid(1) ok(3) ob
    by (auto simp: objects_ok_def obj_ok_def)
  with cl show "\<exists>cl. free_claim ob g BClaims (o_LeaseID o') = Some (CClaim cl) \<and> claim_of cl o'"
    by (auto simp: free_claim_def)
qed

lemma delete_view_names:
  assumes "names_ok g" "g BObjects (o_ID ob) = Some (CObject ob)"
  shows "names_ok (delete_view now reason ob g)"
proof (rule names_okI, unfold delete_view_frame)
  fix k c assume "free_name ob g BNamespace k = Some c"
  then have k: "g BNamespace k = Some c"
    "k = nsKey (o_Tenant ob) (o_Path ob) \<longrightarrow> raw_string (g BNamespace k) \<noteq> o_ID ob"
    by (auto simp: free_name_def Let_def split: if_splits)
  from assms(1) k(1) obtain o' where o': "c = CRaw (o_ID o')" "g BObjects (o_ID o') = Some (CObject o')"
    "k = nsKey (o_Tenant o') (o_Path o')" "\<not> o_Retracted o'"
    by (rule name_object)
  moreover have "o_ID o' \<noteq> o_ID ob"
  proof
    assume "o_ID o' = o_ID ob"
    then have "Some (CObject o') = Some (CObject ob)" using o'(2) assms(2) by metis
    then have "o' = ob" by simp
    then show False using k o'(1,3) by simp
  qed
  ultimately show "\<exists>o'. c = CRaw (o_ID o') \<and> ((g BObjects)(o_ID ob := None)) (o_ID o') = Some (CObject o') \<and>
      k = nsKey (o_Tenant o') (o_Path o') \<and> \<not> o_Retracted o'"
    by (intro exI [of _ o']) simp
qed

theorem delete_view_ok:
  assumes ok: "catalog_ok g n" and ob: "g BObjects (o_ID ob) = Some (CObject ob)"
  shows "catalog_ok (delete_view now reason ob g) n"
  unfolding catalog_ok_def
proof (intro conjI)
  note D = catalog_okD [OF ok]
  show "records_ok (delete_view now reason ob g)" by (rule delete_view_records(1) [OF D(1) ob])
  show "indexes_ok (delete_view now reason ob g)" by (rule delete_view_records(2) [OF D(1) ob D(2)])
  show "claims_ok (delete_view now reason ob g)" by (rule delete_view_claims [OF D(4,1,3) ob])
  show "names_ok (delete_view now reason ob g)" by (rule delete_view_names [OF D(5) ob])
  show "objects_ok (delete_view now reason ob g)"
    using D(3) by (auto simp: objects_ok_def delete_view_frame split: if_splits)
  show "graves_ok (delete_view now reason ob g)"
    using D(6) ob by (auto simp: graves_ok_def delete_view_frame)
  show "queue_seq_ok (delete_view now reason ob g) n"
    using D(7) unfolding queue_seq_ok_def delete_view_frame by (auto split: if_splits)
qed

text \<open>A stored object can be deleted as it is.\<close>

lemma deletable_stored:
  assumes "catalog_ok g n" "g BObjects oid = Some (CObject ob)"
  shows "deletable ob g" "g BObjects (o_ID ob) = Some (CObject ob)" "o_ID ob \<noteq> []"
proof -
  note o = catalog_object [OF assms]
  show g: "g BObjects (o_ID ob) = Some (CObject ob)" "o_ID ob \<noteq> []" using o assms(2) by simp_all
  have "o_LeaseID ob \<noteq> [] \<longleftrightarrow> o_State ob = StateLeased" using o(1) by (simp add: obj_ok_def)
  then show "deletable ob g"
    unfolding deletable_def using o g by (intro conjI exI [of _ "CObject ob"]) auto
qed

section \<open>Other buckets\<close>

text \<open>Names may be removed, or pointed at a live object of that path; the buckets of directories,
  versions and meta data carry no obligation, nor does dropping a garbage-collection entry.\<close>

lemma catalog_frame:
  assumes ok: "catalog_ok g n" and names: "names_ok (upd g B k c)"
    and B: "B \<in> {BNamespace, BDirectories, BVersions, BMeta} \<or> B = BGC \<and> c = None"
  shows "catalog_ok (upd g B k c) n"
  unfolding catalog_ok_def
proof (intro conjI names)
  note D = catalog_okD [OF ok]
  show "records_ok (upd g B k c)"
    using D(1) B by (cases c) (auto simp: recordBuckets_def intro: records_ok_upd(1) records_ok_upd(3))
  show "indexes_ok (upd g B k c)" using D(2) B by (auto simp: indexBuckets_def intro!: upd_indexes)
  show "objects_ok (upd g B k c)" using D(3) B by (auto simp: objects_ok_def)
  show "claims_ok (upd g B k c)" using D(4) B by (auto simp: claims_ok_def)
  show "graves_ok (upd g B k c)" using D(6) B by (auto simp: graves_ok_def)
  show "queue_seq_ok (upd g B k c) n" using D(7) B by (auto simp: queue_seq_ok_def)
qed

lemma name_del_ok: "catalog_ok g n \<Longrightarrow> catalog_ok (upd g BNamespace k None) n"
  by (rule catalog_frame) (auto simp: catalog_ok_def names_ok_def)

lemma name_put_ok:
  assumes "catalog_ok g n" "g BObjects (o_ID ob) = Some (CObject ob)" "\<not> o_Retracted ob"
  shows "catalog_ok (upd g BNamespace (nsKey (o_Tenant ob) (o_Path ob)) (Some (CRaw (o_ID ob)))) n"
  using assms(1)
proof (rule catalog_frame)
  show "names_ok (upd g BNamespace (nsKey (o_Tenant ob) (o_Path ob)) (Some (CRaw (o_ID ob))))"
  proof (rule names_okI)
    fix k c
    assume a: "upd g BNamespace (nsKey (o_Tenant ob) (o_Path ob)) (Some (CRaw (o_ID ob))) BNamespace k = Some c"
    show "\<exists>o'. c = CRaw (o_ID o') \<and>
        upd g BNamespace (nsKey (o_Tenant ob) (o_Path ob)) (Some (CRaw (o_ID ob))) BObjects (o_ID o') = Some (CObject o') \<and>
        k = nsKey (o_Tenant o') (o_Path o') \<and> \<not> o_Retracted o'"
    proof (cases "k = nsKey (o_Tenant ob) (o_Path ob)")
      case True
      with a assms(2,3) show ?thesis by (intro exI [of _ ob]) simp
    next
      case False
      with a have "g BNamespace k = Some c" by simp
      then show ?thesis using catalog_okD(5) [OF assms(1)] by (simp add: names_ok_def)
    qed
  qed
qed simp

lemma free_name_ok: "catalog_ok g n \<Longrightarrow> catalog_ok (free_name ob g) n"
  by (simp add: free_name_def Let_def name_del_ok)

lemma free_name_none:
  assumes "catalog_ok g n" "g BObjects (o_ID ob) = Some (CObject ob)"
  shows "free_name ob g BNamespace k \<noteq> Some (CRaw (o_ID ob))"
proof
  assume a: "free_name ob g BNamespace k = Some (CRaw (o_ID ob))"
  then have k: "g BNamespace k = Some (CRaw (o_ID ob))"
    by (auto simp: free_name_def Let_def split: if_splits)
  from catalog_okD(5) [OF assms(1)] k obtain o' where o': "CRaw (o_ID ob) = CRaw (o_ID o')"
    "g BObjects (o_ID o') = Some (CObject o')" "k = nsKey (o_Tenant o') (o_Path o')" "\<not> o_Retracted o'"
    by (rule name_object)
  then have "Some (CObject o') = Some (CObject ob)" using assms(2) by (metis cell.inject(7))
  then have "k = nsKey (o_Tenant ob) (o_Path ob)" using o'(3) by simp
  with a k show False by (simp add: free_name_def)
qed

section \<open>Uploads\<close>

text \<open>An upload record is written, or dropped, together with its entries in the two upload indexes.\<close>

lemma upload_frame:
  assumes ok: "catalog_ok g n" and rec: "records_ok g'" "indexes_ok g'"
    and same: "\<And>B. B \<notin> {BUploads, BUploadPaths, BStale} \<Longrightarrow> g' B = g B"
    and fresh: "\<And>k. g' BUploads k \<noteq> None \<Longrightarrow>
      g BTombstones k = None \<and> g BGC k = None \<and> g BObjects k = None"
  shows "catalog_ok g' n"
  unfolding catalog_ok_def
proof (intro conjI rec)
  note D = catalog_okD [OF ok]
  have eqs: "g' BObjects = g BObjects" "g' BClaims = g BClaims" "g' BNamespace = g BNamespace"
    "g' BTombstones = g BTombstones" "g' BGC = g BGC"
    by (simp_all add: same)
  show "objects_ok g'" using D(3) unfolding objects_ok_def eqs .
  show "claims_ok g'" using D(4) unfolding claims_ok_def eqs .
  show "names_ok g'" using D(5) unfolding names_ok_def eqs .
  show "queue_seq_ok g' n" using D(7) unfolding queue_seq_ok_def eqs .
  show "graves_ok g'"
    using D(6) fresh unfolding graves_ok_def eqs by metis
qed

lemma upload_write_ok:
  assumes ok: "catalog_ok g n" and u: "nul \<notin> set (u_ID u)"
    and fresh: "g BTombstones (u_ID u) = None" "g BGC (u_ID u) = None" "g BObjects (u_ID u) = None"
  shows "catalog_ok (write_rec BUploads (CUpload u) g) n"
proof (rule upload_frame [OF ok])
  note D = catalog_okD [OF ok]
  show "records_ok (write_rec BUploads (CUpload u) g)"
    by (rule write_rec_records [OF D(1)]) (simp_all add: u)
  show "indexes_ok (write_rec BUploads (CUpload u) g)"
    by (rule write_rec_indexes [OF D(2,1), where P' = BStale]) (simp_all add: u)
  show "B \<notin> {BUploads, BUploadPaths, BStale} \<Longrightarrow> write_rec BUploads (CUpload u) g B = g B" for B
    by (cases B) (simp_all add: write_rec_def indexBuckets_def)
  show "write_rec BUploads (CUpload u) g BUploads k \<noteq> None \<Longrightarrow>
      g BTombstones k = None \<and> g BGC k = None \<and> g BObjects k = None" for k
    using D(6) fresh by (auto simp: write_rec_def graves_ok_def split: if_splits)
qed

lemma upload_drop_ok:
  assumes ok: "catalog_ok g n"
  shows "catalog_ok (drop_rec BUploads k g) n"
proof (rule upload_frame [OF ok])
  note D = catalog_okD [OF ok]
  show "records_ok (drop_rec BUploads k g)" by (rule drop_rec_records [OF D(1)])
  show "indexes_ok (drop_rec BUploads k g)"
    by (rule drop_rec_indexes [OF D(2,1), where P' = BStale]) simp
  show "B \<notin> {BUploads, BUploadPaths, BStale} \<Longrightarrow> drop_rec BUploads k g B = g B" for B
    by (cases B) (simp_all add: drop_rec_def indexBuckets_def)
  show "drop_rec BUploads k g BUploads k' \<noteq> None \<Longrightarrow>
      g BTombstones k' = None \<and> g BGC k' = None \<and> g BObjects k' = None" for k'
    using D(6) by (auto simp: drop_rec_def graves_ok_def split: if_splits)
qed

end
