(* ===== verification/Ledger.thy ===== *)
theory Ledger
  imports Catalog
begin

text \<open>
  The counters against the catalog. \<open>tally\<close> and the three cardinalities are what \<open>recount\<close> of
  \<^verbatim>\<open>schema.go\<close> computes by scanning; \<open>balanced\<close> says that a transaction's delta is exactly the
  difference it makes to them. The relation composes, so each transaction is checked once, and
  \<open>sound\<close> collects it with the catalog invariant into the contract every write transaction obeys.
\<close>

definition cell_stats :: "string \<Rightarrow> cell \<Rightarrow> TenantStats" where
  "cell_stats t c =
     (case c of CObject ob \<Rightarrow> if o_Tenant ob = t then state_stats ob (o_State ob) else 0 | _ \<Rightarrow> 0)"

definition tally :: "view \<Rightarrow> string \<Rightarrow> TenantStats" where
  "tally g t = (\<Sum>k\<in>dom (g BObjects). cell_stats t (the (g BObjects k)))"

definition size_of :: "view \<Rightarrow> bkt \<Rightarrow> int" where
  "size_of g B = int (card (dom (g B)))"

definition balanced :: "view \<Rightarrow> delta \<Rightarrow> view \<Rightarrow> delta \<Rightarrow> bool" where
  "balanced g d g' d' \<longleftrightarrow>
     (\<forall>t. lookup_stats (d_tenants d') t - lookup_stats (d_tenants d) t = tally g' t - tally g t) \<and>
     d_claims d' - d_claims d = size_of g' BClaims - size_of g BClaims \<and>
     d_gc d' - d_gc d = size_of g' BGC - size_of g BGC \<and>
     d_uploads d' - d_uploads d = size_of g' BUploads - size_of g BUploads \<and>
     (distinct (map fst (d_tenants d)) \<longrightarrow> distinct (map fst (d_tenants d'))) \<and> woken d d'"

definition cell_opt_stats :: "string \<Rightarrow> cell option \<Rightarrow> TenantStats" where
  "cell_opt_stats t c = (case c of None \<Rightarrow> 0 | Some c \<Rightarrow> cell_stats t c)"

lemma tally_upd:
  assumes "finite (dom (g BObjects))" "g' BObjects = (g BObjects)(k := c)"
  shows "tally g' t = tally g t - cell_opt_stats t (g BObjects k) + cell_opt_stats t c"
proof -
  let ?D = "dom (g BObjects) - {k}"
  have fin: "finite ?D" using assms(1) by simp
  have rest: "(\<Sum>x\<in>?D. cell_stats t (the (((g BObjects)(k := c)) x))) = (\<Sum>x\<in>?D. cell_stats t (the (g BObjects x)))"
    by (rule sum.cong) auto
  have old: "tally g t = cell_opt_stats t (g BObjects k) + (\<Sum>x\<in>?D. cell_stats t (the (g BObjects x)))"
  proof (cases "g BObjects k")
    case None
    then have "?D = dom (g BObjects)" by auto
    with None show ?thesis by (simp add: tally_def cell_opt_stats_def)
  next
    case (Some x)
    then have "k \<in> dom (g BObjects)" by auto
    with Some assms(1) show ?thesis
      by (simp add: tally_def cell_opt_stats_def sum.remove [where x = k])
  qed
  have new: "tally g' t = cell_opt_stats t c + (\<Sum>x\<in>?D. cell_stats t (the (g BObjects x)))"
  proof (cases c)
    case None
    then have "dom (g' BObjects) = ?D" by (auto simp: assms(2))
    with None rest show ?thesis by (simp add: tally_def cell_opt_stats_def assms(2))
  next
    case (Some x)
    then have "dom (g' BObjects) = insert k ?D" by (auto simp: assms(2))
    then have "tally g' t = cell_stats t (the (g' BObjects k)) + (\<Sum>x\<in>?D. cell_stats t (the (g' BObjects x)))"
      unfolding tally_def using sum.insert [OF fin, of k "\<lambda>x. cell_stats t (the (g' BObjects x))"] by simp
    with Some rest show ?thesis by (simp add: cell_opt_stats_def assms(2))
  qed
  from old new show ?thesis by simp
qed

lemma size_upd:
  assumes "finite (dom (g B))" "g' B = (g B)(k := c)"
  shows "size_of g' B = size_of g B - (if g B k = None then 0 else 1) + (if c = None then 0 else 1)"
proof -
  let ?D = "dom (g B) - {k}"
  have fin: "card (insert k ?D) = Suc (card ?D)"
    by (rule card_insert_disjoint) (simp_all add: assms(1))
  have "card (dom (g B)) = card ?D + (if g B k = None then 0 else 1)"
  proof (cases "g B k = None")
    case True
    then have "?D = dom (g B)" by auto
    with True show ?thesis by simp
  next
    case False
    then have "insert k ?D = dom (g B)" by auto
    with False fin show ?thesis by simp
  qed
  moreover have "card (dom (g' B)) = card ?D + (if c = None then 0 else 1)"
  proof (cases "c = None")
    case True
    then have "dom (g' B) = ?D" by (auto simp: assms(2))
    with True show ?thesis by simp
  next
    case False
    then have "dom (g' B) = insert k ?D" by (auto simp: assms(2))
    with False fin show ?thesis by simp
  qed
  ultimately show ?thesis by (simp add: size_of_def)
qed

lemma tally_frame: "g' BObjects = g BObjects \<Longrightarrow> tally g' t = tally g t"
  by (simp add: tally_def)

lemma size_frame: "g' B = g B \<Longrightarrow> size_of g' B = size_of g B"
  by (simp add: size_of_def)

lemma balanced_refl [simp]: "balanced g d g d"
  by (simp add: balanced_def)

lemma diff_chain:
  fixes x :: "'a::ab_group_add"
  assumes "x' - x = y' - y" "x'' - x' = y'' - y'"
  shows "x'' - x = y'' - y"
proof -
  have "x'' - x = (x'' - x') + (x' - x)" by simp
  also have "\<dots> = y'' - y" by (simp add: assms)
  finally show ?thesis .
qed

lemma balanced_trans:
  assumes "balanced g d g' d'" "balanced g' d' g'' d''"
  shows "balanced g d g'' d''"
  using assms unfolding balanced_def by (intro conjI allI impI; blast intro: diff_chain woken_trans)

lemma balanced_frame:
  assumes "balanced g d g' d'" "\<And>B. B \<in> {BObjects, BClaims, BGC, BUploads} \<Longrightarrow> g'' B = g' B"
  shows "balanced g d g'' d'"
  using assms(1) tally_frame [of g'' g'] size_frame [of g'' _ g'] assms(2) by (simp add: balanced_def)

section \<open>The two abstract steps\<close>

text \<open>An object moves between states with its claim: the delta is \<open>move\<close>, and the number of claims
  changes by what the claim bucket changes.\<close>

definition delta_moves :: "object_version \<Rightarrow> state \<Rightarrow> int \<Rightarrow> delta \<Rightarrow> delta \<Rightarrow> bool" where
  "delta_moves ob from n d d' \<longleftrightarrow>
     (\<forall>t. lookup_stats (d_tenants d') t =
        lookup_stats (d_tenants d) t +
        (if t = o_Tenant ob then state_stats ob (o_State ob) - state_stats ob from else 0)) \<and>
     (distinct (map fst (d_tenants d)) \<longrightarrow> distinct (map fst (d_tenants d'))) \<and>
     d_gc d' = d_gc d \<and> d_uploads d' = d_uploads d \<and> d_claims d' = d_claims d + n \<and> woken d d'"

lemma delta_moves_move:
  "from \<noteq> StateNone \<Longrightarrow> to = o_State ob \<Longrightarrow> delta_moves ob from 0 d (move ob from to d)"
  by (simp add: delta_moves_def move_lookup woken_move)

lemma delta_moves_new: "to = o_State ob \<Longrightarrow> delta_moves ob StateNone 0 d (move ob StateNone to d)"
  by (simp add: delta_moves_def move_lookup woken_move)

lemma delta_moves_same: "from = o_State ob \<Longrightarrow> delta_moves ob from 0 d d"
  by (simp add: delta_moves_def)

lemma delta_moves_claims:
  "delta_moves ob from n d d' \<Longrightarrow> delta_moves ob from (n + m) d (d'\<lparr>d_claims := d_claims d' + m\<rparr>)"
  by (simp add: delta_moves_def woken_frame)

lemma delta_moves_claims':
  "delta_moves ob from n (d\<lparr>d_claims := d_claims d + m\<rparr>) d' \<Longrightarrow> delta_moves ob from (n + m) d d'"
  by (simp add: delta_moves_def woken_frame)

lemma set_object_balanced:
  assumes fin: "\<And>B. finite (dom (g B))"
    and old: "cell_opt_stats (o_Tenant ob) (g BObjects (o_ID ob)) = state_stats ob from"
      "\<And>t. t \<noteq> o_Tenant ob \<Longrightarrow> cell_opt_stats t (g BObjects (o_ID ob)) = 0"
    and d': "delta_moves ob from (size_of (set_object ob clo g) BClaims - size_of g BClaims) d d'"
  shows "balanced g d (set_object ob clo g) d'"
  unfolding balanced_def
proof (intro conjI allI)
  fix t
  have "tally (set_object ob clo g) t =
      tally g t - cell_opt_stats t (g BObjects (o_ID ob)) + cell_opt_stats t (Some (CObject ob))"
    by (rule tally_upd) (simp_all add: fin set_object_objects)
  then show "lookup_stats (d_tenants d') t - lookup_stats (d_tenants d) t =
      tally (set_object ob clo g) t - tally g t"
    using old d' by (cases "t = o_Tenant ob") (simp_all add: delta_moves_def cell_opt_stats_def cell_stats_def)
  have "set_object ob clo g BGC = g BGC" "set_object ob clo g BUploads = g BUploads" by simp_all
  then show "d_gc d' - d_gc d = size_of (set_object ob clo g) BGC - size_of g BGC"
    "d_uploads d' - d_uploads d = size_of (set_object ob clo g) BUploads - size_of g BUploads"
    using d' by (simp_all add: size_of_def delta_moves_def)
  show "distinct (map fst (d_tenants d)) \<longrightarrow> distinct (map fst (d_tenants d'))"
    using d' by (simp add: delta_moves_def)
  show "d_claims d' - d_claims d = size_of (set_object ob clo g) BClaims - size_of g BClaims" "woken d d'"
    using d' by (simp_all add: delta_moves_def)
qed

lemma set_object_size:
  assumes fin: "finite (dom (g BClaims))" and old: "g BObjects (o_ID ob) = Some (CObject old)"
    and has: "o_LeaseID old \<noteq> [] \<Longrightarrow> g BClaims (o_LeaseID old) \<noteq> None"
    and new: "\<And>cl. clo = Some cl \<Longrightarrow> drop_claim (o_ID ob) g BClaims (c_LeaseID cl) = None"
  shows "size_of (set_object ob clo g) BClaims =
    size_of g BClaims - (if o_LeaseID old = [] then 0 else 1) + (if clo = None then 0 else 1)"
proof -
  let ?D = "drop_claim (o_ID ob) g"
  note claims = drop_claim_claims [of g "o_ID ob" old, OF old]
  have D: "size_of ?D BClaims = size_of g BClaims - (if o_LeaseID old = [] then 0 else 1)"
  proof (cases "o_LeaseID old = []")
    case True
    then show ?thesis by (simp add: size_of_def claims)
  next
    case False
    with has size_upd [of g BClaims ?D "o_LeaseID old" None, OF fin] show ?thesis
      by (simp add: claims)
  qed
  have fin': "finite (dom (?D BClaims))" using fin by (simp add: claims)
  show ?thesis
  proof (cases clo)
    case None
    then show ?thesis using D by (simp add: size_of_def set_object_claims claim_upd_def)
  next
    case (Some cl)
    then have "set_object ob clo g BClaims = (?D BClaims)(c_LeaseID cl := Some (CClaim cl))"
      by (simp add: set_object_claims claim_upd_def)
    from size_upd [of ?D BClaims "set_object ob clo g", OF fin' this] Some D new show ?thesis by simp
  qed
qed

lemma delete_view_balanced:
  assumes fin: "\<And>B. finite (dom (g B))" and ob: "g BObjects (o_ID ob) = Some (CObject ob)"
    and ok: "obj_ok ob" "g BGC (o_ID ob) = None"
  shows "balanced g d (delete_view now reason ob g) (delete_delta ob g d)"
  unfolding balanced_def
proof (intro conjI allI)
  let ?g = "delete_view now reason ob g"
  have st: "o_State ob \<noteq> StateNone" "o_State ob \<noteq> StateDeletePending" using ok by (auto simp: obj_ok_def)
  fix t
  have "tally ?g t = tally g t - cell_opt_stats t (g BObjects (o_ID ob)) + cell_opt_stats t None"
    by (rule tally_upd) (simp_all add: fin delete_view_frame)
  then show "lookup_stats (d_tenants (delete_delta ob g d)) t - lookup_stats (d_tenants d) t =
      tally ?g t - tally g t"
    using ob st
    by (simp add: delete_delta_def Let_def move_lookup cell_opt_stats_def cell_stats_def state_stats_def)
  have "size_of ?g BClaims = size_of g BClaims -
      (if o_LeaseID ob \<noteq> [] \<and> g BClaims (o_LeaseID ob) \<noteq> None then 1 else 0)"
  proof (cases "o_LeaseID ob = []")
    case True
    then show ?thesis by (simp add: size_of_def delete_view_frame free_claim_def)
  next
    case False
    then have "?g BClaims = (g BClaims)(o_LeaseID ob := None)"
      by (simp add: delete_view_frame free_claim_def)
    from size_upd [of g BClaims ?g, OF fin [of BClaims] this] False show ?thesis by simp
  qed
  then show "d_claims (delete_delta ob g d) - d_claims d = size_of ?g BClaims - size_of g BClaims"
    using ob st by (auto simp: delete_delta_def Let_def)
  have "size_of ?g BGC = size_of g BGC + 1"
    using size_upd [of g BGC ?g "o_ID ob"] fin [of BGC] ok(2) by (simp add: delete_view_frame)
  then show "d_gc (delete_delta ob g d) - d_gc d = size_of ?g BGC - size_of g BGC"
    using ob st by (auto simp: delete_delta_def Let_def)
  show "d_uploads (delete_delta ob g d) - d_uploads d = size_of ?g BUploads - size_of g BUploads"
    using ob st by (simp add: delete_delta_def Let_def size_of_def delete_view_frame)
  show "distinct (map fst (d_tenants d)) \<longrightarrow> distinct (map fst (d_tenants (delete_delta ob g d)))"
    using ob st by (auto simp: delete_delta_def Let_def)
  show "woken d (delete_delta ob g d)"
    using woken_move [of "d\<lparr>d_claims := d_claims d - 1, d_gc := d_gc d + 1\<rparr>"] woken_move [of "d\<lparr>d_gc := d_gc d + 1\<rparr>"]
    by (auto simp: delete_delta_def Let_def woken_frame)
qed

section \<open>The contract of a write transaction\<close>

definition cat :: "'db bolt \<Rightarrow> 'db \<times> delta \<Rightarrow> bool" where
  "cat K s \<longleftrightarrow> catalog_ok (contents K s) (seqs K s BQueue)"

definition good :: "'db bolt \<Rightarrow> 'db \<times> delta \<Rightarrow> 'db \<times> delta \<Rightarrow> bool" where
  "good K s s' \<longleftrightarrow> cat K s' \<and> balanced (contents K s) (snd s) (contents K s') (snd s')"

text \<open>\<open>sound K m\<close>: a run of \<open>m\<close> that succeeds on a well-formed catalog leaves it well-formed and
  accounts for every change in its delta.\<close>

definition sound :: "'db bolt \<Rightarrow> ('db, 'a) txn \<Rightarrow> bool" where
  "sound K m \<longleftrightarrow> (\<forall>s x s'. cat K s \<longrightarrow> m s = Inr (x, s') \<longrightarrow> good K s s')"

lemma good_trans: "good K s s' \<Longrightarrow> good K s' s'' \<Longrightarrow> good K s s''"
  unfolding good_def using balanced_trans by blast

lemma good_refl: "cat K s \<Longrightarrow> good K s s"
  by (simp add: good_def)

lemma good_cat: "good K s s' \<Longrightarrow> cat K s'"
  by (simp add: good_def)

lemma soundI: "(\<And>s x s'. cat K s \<Longrightarrow> m s = Inr (x, s') \<Longrightarrow> good K s s') \<Longrightarrow> sound K m"
  by (simp add: sound_def)

lemma soundD: "sound K m \<Longrightarrow> cat K s \<Longrightarrow> m s = Inr (x, s') \<Longrightarrow> good K s s'"
  unfolding sound_def by blast

lemma sound_ret [simp]: "sound K (ret x)"
  by (auto simp: sound_def ret_Inr good_refl)

lemma sound_throw [simp]: "sound K (throw e)"
  by (auto simp: sound_def throw_Inr)

lemma sound_bind: "sound K m \<Longrightarrow> (\<And>x. sound K (f x)) \<Longrightarrow> sound K (tbind m f)"
  by (auto simp: sound_def tbind_Inr) (meson good_cat good_trans)

lemma sound_seq: "sound K m \<Longrightarrow> sound K n \<Longrightarrow> sound K (tseq m n)"
  by (auto simp: sound_def tseq_Inr) (meson good_cat good_trans)

lemma sound_get [simp]: "sound K (tget K' B k)" "sound K (tseek K' B k)"
  by (auto simp: sound_def tget_def tseek_def good_refl)

lemma sound_read [simp]: "sound K (tread f)" "sound K (tcheck eo)"
  by (auto simp: sound_def tread_def tcheck_def good_refl split: option.splits)

lemma sound_for: "(\<And>x. x \<in> set xs \<Longrightarrow> sound K (f x)) \<Longrightarrow> sound K (tfor xs f)"
  by (induction xs) (auto intro: sound_seq)

lemma sound_fold: "(\<And>x a. x \<in> set xs \<Longrightarrow> sound K (f x a)) \<Longrightarrow> sound K (tfold xs acc f)"
  by (induction xs arbitrary: acc) (auto intro: sound_bind)

lemma sound_when: "sound K m \<Longrightarrow> sound K (twhen b m)"
  by (simp add: twhen_def)

context bolt_laws
begin

lemma finite_contents: "finite (dom (contents K s B))"
  by (simp add: contents_def finite_dom)

lemma delete_good:
  assumes cat: "cat K s" and ob: "contents K s BObjects oid = Some (CObject ob)"
    and run: "deleteObjectTx K now ob reason s = Inr (x, s')"
  shows "good K s s'"
proof -
  note ok = cat [unfolded cat_def]
  note o = catalog_object [OF ok ob] and d = deletable_stored [OF ok ob]
  note eff = deleteObjectTx_eff [OF run d(1,3)]
  show ?thesis
    unfolding good_def cat_def eff
  proof
    show "catalog_ok (delete_view now reason ob (contents K s)) (seqs K s BQueue)"
      by (rule delete_view_ok [OF ok d(2)])
    show "balanced (contents K s) (snd s) (delete_view now reason ob (contents K s))
        (delete_delta ob (contents K s) (snd s))"
      using d(2) o by (intro delete_view_balanced finite_contents) simp_all
  qed
qed

text \<open>A step that touches neither records nor claims.\<close>

lemma frame_good:
  assumes "catalog_ok (contents K s') (seqs K s' BQueue)" "snd s' = snd s"
    and "\<And>B. B \<in> {BObjects, BClaims, BGC, BUploads} \<Longrightarrow> contents K s' B = contents K s B"
  shows "good K s s'"
  unfolding good_def cat_def
  using assms(1) balanced_frame [of "contents K s" "snd s" "contents K s" "snd s" "contents K s'"] assms(2,3)
  by simp

text \<open>Rewriting a stored object: its tenant and size stay, its claim goes with its lease.\<close>

lemma rewrite_good:
  assumes cat: "cat K s" and old: "contents K s BObjects (o_ID ob) = Some (CObject old)"
    and same: "o_Tenant ob = o_Tenant old" "o_Size ob = o_Size old"
    and view: "contents K s' = set_object ob clo (contents K s)"
    and may: "may_set ob clo (contents K s) (seqs K s BQueue) (seqs K s' BQueue)"
    and moves: "delta_moves ob (o_State old)
      ((if clo = None then 0 else 1) - (if o_LeaseID old = [] then 0 else 1)) (snd s) (snd s')"
  shows "good K s s'"
proof -
  let ?g = "contents K s"
  note ok = cat [unfolded cat_def]
  note o = catalog_object [OF ok old]
  have st: "state_stats ob (o_State old) = state_stats old (o_State old)"
    using same by (simp add: state_stats_def)
  have has: "?g BClaims (o_LeaseID old) \<noteq> None" if "o_LeaseID old \<noteq> []"
  proof -
    have "o_State old = StateLeased" using that o(1) by (simp add: obj_ok_def)
    from leased_claim [OF catalog_okD(4) [OF ok] old this] show ?thesis by auto
  qed
  have "drop_claim (o_ID ob) ?g BClaims (c_LeaseID cl) = None" if "clo = Some cl" for cl
    using may that by (simp add: may_set_def claim_of_def)
  note size = set_object_size [of ?g ob old clo, OF finite_contents old has this]
  have "balanced ?g (snd s) (set_object ob clo ?g) (snd s')"
  proof (rule set_object_balanced)
    show "delta_moves ob (o_State old) (size_of (set_object ob clo ?g) BClaims - size_of ?g BClaims)
        (snd s) (snd s')"
      using moves by (simp add: size)
  qed (use finite_contents same st old in \<open>simp_all add: cell_opt_stats_def cell_stats_def\<close>)
  with set_object_ok [OF ok may] show ?thesis
    by (simp add: good_def cat_def view)
qed

end

end
