(* ===== verification/Store.thy ===== *)
theory Store
  imports Ledger
begin

text \<open>
  The running store of \<^verbatim>\<open>internal/store/store.go\<close>: the open catalog, the in-memory counters, the
  notifier of the long pollers, the list of blobs already unlinked, and the blob files. \<open>update\<close>
  runs a write transaction: it commits or leaves everything as it was, and only a committed
  transaction's delta reaches the counters and wakes the pollers. The theorems say that a sound
  transaction keeps the counters equal to a recount of the catalog, and that no wake-up is lost.
\<close>

section \<open>The notifier\<close>

text \<open>A channel is a number; \<open>n_closed\<close> collects the channels that were closed.\<close>

record notifier =
  n_chans :: "(string \<times> nat) list"
  n_closed :: "nat list"
  n_fresh :: nat

definition notifier_init :: notifier where
  "notifier_init = \<lparr>n_chans = [], n_closed = [], n_fresh = 0\<rparr>"

definition notifier_wait :: "string \<Rightarrow> notifier \<Rightarrow> nat \<times> notifier" where
  "notifier_wait tenant n =
     (case map_of (n_chans n) tenant of
        Some ch \<Rightarrow> (ch, n)
      | None \<Rightarrow> (n_fresh n, n\<lparr>n_chans := (tenant, n_fresh n) # n_chans n, n_fresh := Suc (n_fresh n)\<rparr>))"

definition notifier_signal :: "string \<Rightarrow> notifier \<Rightarrow> notifier" where
  "notifier_signal tenant n =
     (case map_of (n_chans n) tenant of
        None \<Rightarrow> n
      | Some ch \<Rightarrow> n\<lparr>n_chans := AList.delete tenant (n_chans n), n_closed := ch # n_closed n\<rparr>)"

definition notifier_signalAll :: "notifier \<Rightarrow> notifier" where
  "notifier_signalAll n = n\<lparr>n_chans := [], n_closed := map snd (n_chans n) @ n_closed n\<rparr>"

text \<open>A channel handed to a poller of a tenant is either still registered for it or closed.\<close>

definition pending :: "string \<Rightarrow> nat \<Rightarrow> notifier \<Rightarrow> bool" where
  "pending tenant ch n \<longleftrightarrow> map_of (n_chans n) tenant = Some ch \<or> ch \<in> set (n_closed n)"

lemma wait_pending: "notifier_wait tenant n = (ch, n') \<Longrightarrow> pending tenant ch n'"
  by (auto simp: notifier_wait_def pending_def split: option.splits)

lemma signal_pending: "pending tenant ch n \<Longrightarrow> pending tenant ch (notifier_signal t n)"
  by (auto simp: notifier_signal_def pending_def delete_conv' split: option.splits)

lemma signal_closes: "pending tenant ch n \<Longrightarrow> ch \<in> set (n_closed (notifier_signal tenant n))"
  by (auto simp: notifier_signal_def pending_def split: option.splits)

lemma signal_closed: "ch \<in> set (n_closed n) \<Longrightarrow> ch \<in> set (n_closed (notifier_signal t n))"
  by (auto simp: notifier_signal_def split: option.splits)

lemma wait_keeps: "pending tenant ch n \<Longrightarrow> pending tenant ch (snd (notifier_wait t n))"
  by (auto simp: notifier_wait_def pending_def split: option.splits)

lemma signalAll_closes: "pending tenant ch n \<Longrightarrow> ch \<in> set (n_closed (notifier_signalAll n))"
  by (auto simp: notifier_signalAll_def pending_def dest: map_of_SomeD intro: rev_image_eqI)

lemma fold_signal_pending: "pending tenant ch n \<Longrightarrow> pending tenant ch (fold notifier_signal ts n)"
  by (induction ts arbitrary: n) (auto intro: signal_pending)

lemma fold_signal_closed: "ch \<in> set (n_closed n) \<Longrightarrow> ch \<in> set (n_closed (fold notifier_signal ts n))"
  by (induction ts arbitrary: n) (auto intro: signal_closed)

lemma fold_signal_closes:
  "pending tenant ch n \<Longrightarrow> tenant \<in> set ts \<Longrightarrow> ch \<in> set (n_closed (fold notifier_signal ts n))"
  by (induction ts arbitrary: n) (auto intro: signal_pending fold_signal_closed signal_closes)

section \<open>The store and its write transactions\<close>

record 'db store =
  v_db :: 'db
  v_count :: counters
  v_notify :: notifier
  v_gcDone :: "string list"
  v_files :: "string \<Rightarrow> string option"
  v_draining :: bool
  v_observed :: "int list"       \<comment> \<open>the sizes reported to the capacity gate\<close>
  v_inflight :: int
  v_slots :: int                 \<comment> \<open>upload slots taken from the gate and not released\<close>
  v_reserved :: int              \<comment> \<open>bytes reserved with the gate and not released\<close>

text \<open>\<open>update\<close>: the transaction runs on the committed contents with an empty delta; an error of the
  closure or of the commit rolls it back. Joining a batch changes neither.\<close>

definition update :: "'db bolt \<Rightarrow> ('db, 'a) txn \<Rightarrow> 'db store \<Rightarrow> (error + 'a) \<times> 'db store" where
  "update K fn st =
     (case fn (v_db st, delta0) of
        Inl e \<Rightarrow> (Inl e, st)
      | Inr (x, (db, d)) \<Rightarrow>
          (case b_commit K db of
             Some e \<Rightarrow> (Inl e, st)
           | None \<Rightarrow> (Inr x, st\<lparr>v_db := db, v_count := apply_delta d (v_count st),
                               v_notify := fold notifier_signal (d_touched d) (v_notify st)\<rparr>)))"

text \<open>The capacity gate as the store sees it: the answers of the interface \<open>Gate\<close> at the moment of a
  call. \<open>ObserveDelete\<close> and the releases it hands out are recorded in the store.\<close>

record gate =
  ga_AdmitUpload :: "error option"
  ga_AcquireUpload :: "string \<Rightarrow> error option"
  ga_WaitN :: "string \<Rightarrow> nat \<Rightarrow> error option"
  ga_Reserve :: "int \<Rightarrow> bool"
  ga_CheckCritical :: "error option"

text \<open>Admission; here \<open>gate\<close> is only the gate's answer to \<open>AdmitUpload\<close>, or nothing when the store has
  no gate.\<close>

definition AdmitUpload ::
    "(string \<Rightarrow> policy) option \<Rightarrow> error option option \<Rightarrow> 'db store \<Rightarrow> string \<Rightarrow> error option" where
  "AdmitUpload src gate st tenant =
     (if v_draining st then Some ErrDraining
      else case gate of
        Some (Some e) \<Rightarrow> Some (ErrUploadBlocked e)
      | _ \<Rightarrow>
          (let limit = p_MaxStoredBytes (policyFor src tenant)
           in if 0 < limit \<and> limit \<le> ts_Bytes (counters_tenant (v_count st) tenant) then Some ErrQuota
              else None))"

definition AllowNewUpload :: "error option option \<Rightarrow> 'db store \<Rightarrow> bool" where
  "AllowNewUpload gate st = (\<not> v_draining st \<and> (case gate of Some (Some e) \<Rightarrow> False | _ \<Rightarrow> True))"

text \<open>The release functions of Go are values of the model: whether a slot is to be given back, and how
  many bytes of headroom.\<close>

definition AcquireSlot :: "gate option \<Rightarrow> string \<Rightarrow> 'db store \<Rightarrow> (error + bool) \<times> 'db store" where
  "AcquireSlot gate tenant st =
     (if v_draining st then (Inl ErrDraining, st)
      else case gate of
        None \<Rightarrow> (Inr False, st)
      | Some g \<Rightarrow>
          (case ga_AcquireUpload g tenant of
             Some e \<Rightarrow> (Inl e, st)
           | None \<Rightarrow> (Inr True, st\<lparr>v_slots := v_slots st + 1\<rparr>)))"

definition WaitUpload :: "gate option \<Rightarrow> string \<Rightarrow> nat \<Rightarrow> error option" where
  "WaitUpload gate tenant n = (case gate of None \<Rightarrow> None | Some g \<Rightarrow> ga_WaitN g tenant n)"

definition Reserve :: "gate option \<Rightarrow> int \<Rightarrow> 'db store \<Rightarrow> int option \<times> 'db store" where
  "Reserve gate n st =
     (case gate of
        None \<Rightarrow> (Some 0, st)
      | Some g \<Rightarrow> if ga_Reserve g n then (Some n, st\<lparr>v_reserved := v_reserved st + n\<rparr>) else (None, st))"

definition release_reserved :: "int \<Rightarrow> 'db store \<Rightarrow> 'db store" where
  "release_reserved n st = st\<lparr>v_reserved := v_reserved st - n\<rparr>"

definition HasRoomFor :: "gate option \<Rightarrow> int \<Rightarrow> 'db store \<Rightarrow> bool \<times> 'db store" where
  "HasRoomFor gate n st =
     (case Reserve gate n st of
        (Some r, st') \<Rightarrow> (True, release_reserved r st')
      | (None, st') \<Rightarrow> (False, st'))"

definition Drain :: "'db store \<Rightarrow> 'db store" where
  "Drain st = st\<lparr>v_draining := True, v_notify := notifier_signalAll (v_notify st)\<rparr>"

section \<open>The invariant of the store\<close>

definition counts_ok :: "view \<Rightarrow> counters \<Rightarrow> bool" where
  "counts_ok g c \<longleftrightarrow>
     counters_ok c \<and> (\<forall>t. counters_tenant c t = tally g t) \<and>
     s_Uploads (k_stats c) = size_of g BUploads \<and> s_Claims (k_stats c) = size_of g BClaims \<and>
     s_DeletePending (k_stats c) = size_of g BGC"

definition store_ok :: "'db bolt \<Rightarrow> 'db store \<Rightarrow> bool" where
  "store_ok K st \<longleftrightarrow>
     catalog_ok (b_get K (v_db st)) (b_seq K (v_db st) BQueue) \<and> counts_ok (b_get K (v_db st)) (v_count st)"

lemma update_cases:
  obtains (fail) e where "update K fn st = (Inl e, st)"
  | (commit) x db d where "fn (v_db st, delta0) = Inr (x, (db, d))"
      "update K fn st = (Inr x, st\<lparr>v_db := db, v_count := apply_delta d (v_count st),
         v_notify := fold notifier_signal (d_touched d) (v_notify st)\<rparr>)"
proof (cases "fn (v_db st, delta0)")
  case (Inl e)
  then show thesis by (intro fail) (simp add: update_def)
next
  case (Inr r)
  obtain x db d where r: "r = (x, (db, d))" by (cases r) auto
  show thesis
  proof (cases "b_commit K db")
    case None
    with Inr r show thesis by (intro commit) (simp_all add: update_def)
  next
    case (Some e)
    with Inr r show thesis by (intro fail) (simp add: update_def)
  qed
qed

lemma balanced_counts:
  assumes "balanced g delta0 g' d" "counts_ok g c"
  shows "counts_ok g' (apply_delta d c)"
proof -
  have d: "distinct (map fst (d_tenants d))" using assms(1) by (simp add: balanced_def delta0_def)
  have l: "lookup_stats (d_tenants d) t = tally g' t - tally g t" for t
    using assms(1) by (simp add: balanced_def delta0_def lookup_stats_def)
  from assms d l show ?thesis
    by (simp add: counts_ok_def apply_totals apply_delta_lookup apply_delta_frame balanced_def delta0_def)
qed

lemma update_good:
  assumes "store_ok K st" "\<And>x s'. cat K (v_db st, delta0) \<Longrightarrow> fn (v_db st, delta0) = Inr (x, s') \<Longrightarrow> good K (v_db st, delta0) s'"
  shows "store_ok K (snd (update K fn st))"
proof (cases rule: update_cases [of K fn st])
  case (commit x db d)
  from assms(1) have "cat K (v_db st, delta0)" by (simp add: store_ok_def cat_def)
  from assms(2) [OF this commit(1)]
  have g: "catalog_ok (b_get K db) (b_seq K db BQueue)"
    "balanced (b_get K (v_db st)) delta0 (b_get K db) d"
    by (simp_all add: good_def cat_def)
  have "counts_ok (b_get K db) (apply_delta d (v_count st))"
    using balanced_counts [OF g(2)] assms(1) by (simp add: store_ok_def)
  with g(1) commit(2) show ?thesis by (auto simp: store_ok_def)
qed (use assms in simp)

lemma update_ok: "sound K fn \<Longrightarrow> store_ok K st \<Longrightarrow> store_ok K (snd (update K fn st))"
  by (rule update_good) (auto intro: soundD)

lemma update_Inl: "update K fn st = (Inl e, st') \<Longrightarrow> st' = st"
  by (cases rule: update_cases [of K fn st]) auto

lemma update_Inr:
  assumes "update K fn st = (Inr x, st')"
  obtains db d where "fn (v_db st, delta0) = Inr (x, (db, d))" "v_db st' = db"
    "v_count st' = apply_delta d (v_count st)" "v_notify st' = fold notifier_signal (d_touched d) (v_notify st)"
    "v_files st' = v_files st" "v_gcDone st' = v_gcDone st" "v_observed st' = v_observed st" "v_draining st' = v_draining st"
  using assms by (cases rule: update_cases [of K fn st]) auto

end
