(* ===== verification/Delivery.thy ===== *)
theory Delivery
  imports Store
begin

text \<open>
  Delivery, \<^verbatim>\<open>internal/store/delivery.go\<close>: claiming objects from the queue under a lease, renewing
  and releasing leases, dead-lettering, committing, deleting, and the garbage collection of blobs.
  Write operations are transactions; the store-level operations run them with \<open>update\<close>. The clock
  reading of an operation is the argument \<open>now\<close>, random bytes come from \<open>rand\<close>. Logging is left out.
\<close>

section \<open>Finding candidates\<close>

record ClaimOptions =
  co_ClientID :: string
  co_Prefix :: string
  co_TTL :: duration
  co_Max :: int

type_synonym candidate = "nat \<times> string"       \<comment> \<open>seq and id\<close>

definition maxClaimScan :: nat where
  "maxClaimScan = 20000"

fun scan_queue ::
    "gotime \<Rightarrow> string \<Rightarrow> int \<Rightarrow> string \<Rightarrow> nat \<Rightarrow> candidate list \<Rightarrow> (string \<times> cell) list \<Rightarrow> candidate list" where
  "scan_queue now pre mx seek scanned out [] = out"
| "scan_queue now pre mx seek scanned out ((k, v) # rest) =
     (if \<not> hasPrefix k seek then out
      else if maxClaimScan < Suc scanned then out
      else case parseQueueValue (raw_string (Some v)) of (visible, p) \<Rightarrow>
        if now < visible then scan_queue now pre mx seek (Suc scanned) out rest
        else if pre \<noteq> [] \<and> \<not> pathHasPrefix p pre then scan_queue now pre mx seek (Suc scanned) out rest
        else let out' = out @ [parseTailKey k]
             in if mx \<le> int (length out') then out'
                else scan_queue now pre mx seek (Suc scanned) out' rest)"

text \<open>\<open>sortCandidates\<close>: the inner loop moves an element to the left past larger ones; \<open>ins_cand\<close> works
  on the reversed prefix.\<close>

fun ins_cand :: "candidate \<Rightarrow> candidate list \<Rightarrow> candidate list" where
  "ins_cand c [] = [c]"
| "ins_cand c (x # xs) = (if fst c < fst x then x # ins_cand c xs else c # x # xs)"

definition sortCandidates :: "candidate list \<Rightarrow> candidate list" where
  "sortCandidates cs = rev (fold ins_cand cs [])"

definition findCandidates ::
    "'db bolt \<Rightarrow> 'db \<Rightarrow> string \<Rightarrow> string \<Rightarrow> int \<Rightarrow> gotime \<Rightarrow> candidate list" where
  "findCandidates K db tenant pre mx now =
     (let (B, seek) = (if pre = [] then (BQueue, tenant @ [nul])
                       else (BQueueSeg, tenant @ [nul] @ firstSegment pre @ [nul]));
          out = scan_queue now pre mx seek 0 [] (b_seek K db B seek)
      in if pre \<noteq> [] \<and> 1 < length out then sortCandidates out else out)"

section \<open>Random identifiers\<close>

definition randomID :: "error + string \<Rightarrow> error + string" where
  "randomID rand = (case rand of Inl e \<Rightarrow> Inl e | Inr b \<Rightarrow> Inr (hex_encode b))"

section \<open>Claiming\<close>

definition leased_object :: "ClaimOptions \<Rightarrow> gotime \<Rightarrow> string \<Rightarrow> object_version \<Rightarrow> object_version" where
  "leased_object opts now lease ob =
     ob\<lparr>o_State := StateLeased, o_LeaseID := lease, o_LeaseClient := co_ClientID opts,
        o_LeaseUntil := now + co_TTL opts, o_UpdatedAt := now, o_Attempts := o_Attempts ob + 1\<rparr>"

definition new_claim :: "string \<Rightarrow> ClaimOptions \<Rightarrow> string \<Rightarrow> object_version \<Rightarrow> claim" where
  "new_claim tenant opts lease ob =
     \<lparr>c_LeaseID = lease, c_ObjectID = o_ID ob, c_Tenant = tenant, c_ClientID = co_ClientID opts,
      c_Path = o_Path ob, c_Size = o_Size ob, c_SHA256 = o_SHA256 ob, c_Version = o_Version ob,
      c_Attempts = o_Attempts ob, c_LeaseUntil = o_LeaseUntil ob,
      c_LeaseSeconds = co_TTL opts div second\<rparr>"

fun claim_cands ::
    "'db bolt \<Rightarrow> string \<Rightarrow> ClaimOptions \<Rightarrow> gotime \<Rightarrow> (nat \<Rightarrow> error + string) \<Rightarrow> nat \<Rightarrow> claim list \<Rightarrow>
     candidate list \<Rightarrow> ('db, claim list) txn" where
  "claim_cands K tenant opts now rand n claims [] = ret claims"
| "claim_cands K tenant opts now rand n claims ((seq, oid) # cs) =
     tbind (getObject K oid) (\<lambda>r. case r of
       Inl _ \<Rightarrow> claim_cands K tenant opts now rand n claims cs
     | Inr ob0 \<Rightarrow>
         if o_State ob0 \<noteq> StateReady \<or> o_QueueSeq ob0 \<noteq> seq
         then claim_cands K tenant opts now rand n claims cs
         else case randomID (rand n) of
           Inl e \<Rightarrow> throw e
         | Inr lease \<Rightarrow>
             tbind (dequeue K ob0) (\<lambda>ob1.
             let ob = leased_object opts now lease ob1; claim = new_claim tenant opts lease ob
             in tseq (putObject K ob)
               (tseq (tput K BClaims lease (CClaim claim))
               (tseq (tput K BLeases (timeIDKey (o_LeaseUntil ob) (o_ID ob)) (CRaw lease))
               (tseq (tmod (move ob StateReady StateLeased))
               (tseq (tmod (\<lambda>d. d\<lparr>d_claims := d_claims d + 1\<rparr>))
                 (claim_cands K tenant opts now rand (Suc n) (claims @ [claim]) cs)))))))"

text \<open>The loop of \<open>Claim\<close>. Between the read transaction that finds candidates and the write
  transaction that claims them other transactions may run: \<open>env i\<close> is what they do to the store in
  attempt \<open>i\<close>, \<open>clock i\<close> the time, \<open>rand i\<close> the random bytes.\<close>

fun claim_attempts ::
    "'db bolt \<Rightarrow> string \<Rightarrow> ClaimOptions \<Rightarrow> string \<Rightarrow> (nat \<Rightarrow> gotime) \<Rightarrow> (nat \<Rightarrow> nat \<Rightarrow> error + string) \<Rightarrow>
     (nat \<Rightarrow> 'db store \<Rightarrow> 'db store) \<Rightarrow> nat \<Rightarrow> nat \<Rightarrow> 'db store \<Rightarrow> (error + claim list) \<times> 'db store" where
  "claim_attempts K tenant opts pre clock rand env i 0 st = (Inl ErrNotFound, st)"
| "claim_attempts K tenant opts pre clock rand env i (Suc n) st =
     (let cands = findCandidates K (v_db st) tenant pre (co_Max opts) (clock i)
      in if cands = [] then (Inl ErrNotFound, st)
         else case update K (claim_cands K tenant opts (clock i) (rand i) 0 [] cands) (env i st) of
           (Inl e, st') \<Rightarrow> (Inl e, st')
         | (Inr claims, st') \<Rightarrow>
             if claims \<noteq> [] then (Inr claims, st')
             else claim_attempts K tenant opts pre clock rand env (Suc i) n st')"

definition claim_opts :: "ClaimOptions \<Rightarrow> ClaimOptions" where
  "claim_opts opts =
     opts\<lparr>co_TTL := (if co_TTL opts \<le> 0 then 2 * minute else co_TTL opts),
          co_Max := (if co_Max opts \<le> 0 then 1 else co_Max opts)\<rparr>"

definition Claim ::
    "'db bolt \<Rightarrow> (nat \<Rightarrow> gotime) \<Rightarrow> (nat \<Rightarrow> nat \<Rightarrow> error + string) \<Rightarrow> (nat \<Rightarrow> 'db store \<Rightarrow> 'db store) \<Rightarrow>
     string \<Rightarrow> ClaimOptions \<Rightarrow> 'db store \<Rightarrow> (error + claim list) \<times> 'db store" where
  "Claim K clock rand env tenant opts st =
     (let opts' = claim_opts opts
      in case CleanPath (co_Prefix opts') of
           Inl e \<Rightarrow> (Inl ErrInvalidPath, st)
         | Inr pre \<Rightarrow> claim_attempts K tenant opts' pre clock rand env 0 4 st)"

definition ClaimNext ::
    "'db bolt \<Rightarrow> (nat \<Rightarrow> gotime) \<Rightarrow> (nat \<Rightarrow> nat \<Rightarrow> error + string) \<Rightarrow> (nat \<Rightarrow> 'db store \<Rightarrow> 'db store) \<Rightarrow>
     string \<Rightarrow> string \<Rightarrow> string \<Rightarrow> duration \<Rightarrow> 'db store \<Rightarrow> (error + claim) \<times> 'db store" where
  "ClaimNext K clock rand env tenant clientID pre ttl st =
     (case Claim K clock rand env tenant
             \<lparr>co_ClientID = clientID, co_Prefix = pre, co_TTL = ttl, co_Max = 1\<rparr> st of
        (Inl e, st') \<Rightarrow> (Inl e, st')
      | (Inr claims, st') \<Rightarrow> (Inr (claims ! 0), st'))"

section \<open>Waiting for work\<close>

fun next_visible ::
    "gotime \<Rightarrow> string \<Rightarrow> nat \<Rightarrow> gotime option \<Rightarrow> (string \<times> cell) list \<Rightarrow> gotime option" where
  "next_visible now seek n found [] = found"
| "next_visible now seek n found ((k, v) # rest) =
     (if \<not> hasPrefix k seek \<or> \<not> n < 1000 then found
      else let visible = fst (parseQueueValue (raw_string (Some v)));
               found' = (if now < visible \<and> (case found of None \<Rightarrow> True | Some t \<Rightarrow> visible < t)
                         then Some visible else found)
           in next_visible now seek (Suc n) found' rest)"

definition NextVisible :: "'db bolt \<Rightarrow> gotime \<Rightarrow> string \<Rightarrow> 'db \<Rightarrow> gotime option" where
  "NextVisible K now tenant db =
     next_visible now (tenant @ [nul]) 0 None (b_seek K db BQueue (tenant @ [nul]))"

section \<open>Leases\<close>

definition renew_tx ::
    "'db bolt \<Rightarrow> gotime \<Rightarrow> string \<Rightarrow> string \<Rightarrow> duration \<Rightarrow> ('db, claim) txn" where
  "renew_tx K now tenant leaseID ttl =
     tbind (getClaim K leaseID) (\<lambda>r. case r of
       Inl e \<Rightarrow> throw e
     | Inr claim \<Rightarrow>
         if c_Tenant claim \<noteq> tenant then throw ErrLeaseMismatch
         else tbind (getObject K (c_ObjectID claim)) (\<lambda>r. case r of
           Inl _ \<Rightarrow> throw ErrLeaseMismatch
         | Inr ob \<Rightarrow>
             if o_LeaseID ob \<noteq> leaseID \<or> o_State ob \<noteq> StateLeased \<or> \<not> now < o_LeaseUntil ob
             then throw ErrLeaseMismatch
             else
               let extend0 = (if ttl \<le> 0 then wrap64 (c_LeaseSeconds claim * second) else ttl);
                   extend = (if extend0 \<le> 0 then 2 * minute else extend0);
                   claim' = claim\<lparr>c_LeaseUntil := now + extend\<rparr>;
                   ob' = ob\<lparr>o_LeaseUntil := now + extend, o_UpdatedAt := now\<rparr>
               in tseq (tdel K BLeases (timeIDKey (o_LeaseUntil ob) (o_ID ob)))
                 (tseq (tput K BLeases (timeIDKey (o_LeaseUntil ob') (o_ID ob')) (CRaw leaseID))
                 (tseq (tput K BClaims leaseID (CClaim claim'))
                 (tseq (putObject K ob') (ret claim'))))))"

definition Renew ::
    "'db bolt \<Rightarrow> gotime \<Rightarrow> string \<Rightarrow> string \<Rightarrow> duration \<Rightarrow> 'db store \<Rightarrow> (error + claim) \<times> 'db store" where
  "Renew K now tenant leaseID ttl st = update K (renew_tx K now tenant leaseID ttl) st"

record ReleaseOptions =
  ro_Reason :: string
  ro_RetryAfter :: duration
  ro_Permanent :: bool
  ro_Uncounted :: bool

definition no_release_options :: ReleaseOptions where
  "no_release_options = \<lparr>ro_Reason = [], ro_RetryAfter = 0, ro_Permanent = False, ro_Uncounted = False\<rparr>"

definition truncate :: "string \<Rightarrow> nat \<Rightarrow> string" where
  "truncate s n = (if length s \<le> n then s else take n s)"

definition afterDelivery ::
    "'db bolt \<Rightarrow> (string \<Rightarrow> policy) option \<Rightarrow> gotime \<Rightarrow> object_version \<Rightarrow> ReleaseOptions \<Rightarrow> ('db, unit) txn" where
  "afterDelivery K src now ob0 opts =
     (let ob1 = ob0\<lparr>o_LeaseID := [], o_LeaseClient := [], o_LeaseUntil := zero_time, o_UpdatedAt := now\<rparr>;
          ob = (if ro_Reason opts \<noteq> [] then ob1\<lparr>o_LastError := truncate (ro_Reason opts) 512\<rparr> else ob1)
      in if o_Retracted ob then deleteObjectTx K now ob ''retracted''
         else if ro_Permanent opts \<or> p_MaxAttempts (policyFor src (o_Tenant ob)) \<le> o_Attempts ob then
           let ob' = ob\<lparr>o_LastError := (if o_LastError ob = [] then ''delivery attempts exhausted''
                                         else o_LastError ob),
                        o_State := StateParked, o_ParkedAt := now\<rparr>
           in tseq (tmod (move ob' StateLeased StateParked))
             (tseq (tput K BParked (parkedKey (o_Tenant ob') (o_ParkedAt ob') (o_ID ob')) (CRaw []))
                (putObject K ob'))
         else
           tbind (enqueue K (ob\<lparr>o_State := StateReady\<rparr>) (now + ro_RetryAfter opts)) (\<lambda>ob'.
           tseq (tmod (move ob' StateLeased StateReady)) (putObject K ob')))"

definition release_tx ::
    "'db bolt \<Rightarrow> (string \<Rightarrow> policy) option \<Rightarrow> gotime \<Rightarrow> string \<Rightarrow> string \<Rightarrow> ReleaseOptions \<Rightarrow> ('db, unit) txn" where
  "release_tx K src now tenant leaseID opts =
     tbind (getClaim K leaseID) (\<lambda>r. case r of
       Inl e \<Rightarrow> throw e
     | Inr claim \<Rightarrow>
         if c_Tenant claim \<noteq> tenant then throw ErrLeaseMismatch
         else tseq (tdel K BClaims leaseID)
           (tseq (tmod (\<lambda>d. d\<lparr>d_claims := d_claims d - 1\<rparr>))
           (tbind (getObject K (c_ObjectID claim)) (\<lambda>r. case r of
              Inl _ \<Rightarrow> ret ()
            | Inr ob \<Rightarrow>
                if o_LeaseID ob \<noteq> leaseID \<or> o_State ob \<noteq> StateLeased then ret ()
                else tseq (tdel K BLeases (timeIDKey (o_LeaseUntil ob) (o_ID ob)))
                  (afterDelivery K src now
                     (if ro_Uncounted opts \<and> 0 < o_Attempts ob
                      then ob\<lparr>o_Attempts := o_Attempts ob - 1\<rparr> else ob) opts)))))"

definition ReleaseWith ::
    "'db bolt \<Rightarrow> (string \<Rightarrow> policy) option \<Rightarrow> gotime \<Rightarrow> string \<Rightarrow> string \<Rightarrow> ReleaseOptions \<Rightarrow> 'db store \<Rightarrow>
     (error + unit) \<times> 'db store" where
  "ReleaseWith K src now tenant leaseID opts st = update K (release_tx K src now tenant leaseID opts) st"

definition Release ::
    "'db bolt \<Rightarrow> (string \<Rightarrow> policy) option \<Rightarrow> gotime \<Rightarrow> string \<Rightarrow> string \<Rightarrow> 'db store \<Rightarrow>
     (error + unit) \<times> 'db store" where
  "Release K src now tenant leaseID st = ReleaseWith K src now tenant leaseID no_release_options st"

definition requeue_tx :: "'db bolt \<Rightarrow> gotime \<Rightarrow> string \<Rightarrow> string \<Rightarrow> ('db, unit) txn" where
  "requeue_tx K now tenant objectID =
     tbind (getObject K objectID) (\<lambda>r. case r of
       Inl _ \<Rightarrow> throw ErrNotFound
     | Inr ob \<Rightarrow>
         if o_Tenant ob \<noteq> tenant then throw ErrNotFound
         else if o_State ob \<noteq> StateParked then throw ErrConflict
         else tseq (tdel K BParked (parkedKey (o_Tenant ob) (o_ParkedAt ob) (o_ID ob)))
           (tbind (enqueue K (ob\<lparr>o_State := StateReady, o_Attempts := 0, o_ParkedAt := zero_time,
                                 o_UpdatedAt := now\<rparr>) now) (\<lambda>ob'.
            tseq (tmod (move ob' StateParked StateReady)) (putObject K ob'))))"

definition Requeue ::
    "'db bolt \<Rightarrow> gotime \<Rightarrow> string \<Rightarrow> string \<Rightarrow> 'db store \<Rightarrow> (error + unit) \<times> 'db store" where
  "Requeue K now tenant objectID st = update K (requeue_tx K now tenant objectID) st"

section \<open>Deleting and committing\<close>

text \<open>The blob of an object, and its removal. \<open>rm\<close> says which removals the file system refuses.\<close>

definition filepath_Join :: "string list \<Rightarrow> string" where
  "filepath_Join es =
     (let es' = filter (\<lambda>e. e \<noteq> []) es in if es' = [] then [] else path_Clean (join_with slash es'))"

definition blobPath :: "string \<Rightarrow> string \<Rightarrow> string \<Rightarrow> string" where
  "blobPath root tenant oid = filepath_Join [root, ''objects'', tenant, oid @ ''.blob'']"

definition collect ::
    "string \<Rightarrow> (string \<Rightarrow> bool) \<Rightarrow> bool \<Rightarrow> string \<Rightarrow> string \<Rightarrow> string \<Rightarrow> int \<Rightarrow> 'db store \<Rightarrow> 'db store" where
  "collect root rm gated oid tenant blob0 sz st =
     (let blob = (if blob0 = [] then blobPath root tenant oid else blob0)
      in if v_files st blob \<noteq> None \<and> rm blob then st
         else st\<lparr>v_files := (v_files st)(blob := None),
                 v_observed := (if gated then v_observed st @ [sz] else v_observed st),
                 v_gcDone := v_gcDone st @ [oid]\<rparr>)"

fun flush_ids :: "'db bolt \<Rightarrow> string list \<Rightarrow> ('db, unit) txn" where
  "flush_ids K [] = ret ()"
| "flush_ids K (oid # ids) =
     tbind (tget K BGC oid) (\<lambda>c.
     tseq (twhen (c \<noteq> None) (tseq (tdel K BGC oid) (tmod (\<lambda>d. d\<lparr>d_gc := d_gc d - 1\<rparr>))))
       (flush_ids K ids))"

definition flushGC :: "'db bolt \<Rightarrow> 'db store \<Rightarrow> 'db store" where
  "flushGC K st =
     (let dn = v_gcDone st; st' = st\<lparr>v_gcDone := []\<rparr>
      in if dn = [] then st'
         else case update K (tseq (tmod (\<lambda>d. d\<lparr>d_gc := 0\<rparr>)) (flush_ids K dn)) st' of
           (Inl e, st'') \<Rightarrow> st''\<lparr>v_gcDone := v_gcDone st'' @ dn\<rparr>
         | (Inr _, st'') \<Rightarrow> st'')"

definition delete_tx ::
    "'db bolt \<Rightarrow> gotime \<Rightarrow> string \<Rightarrow> string \<Rightarrow> string \<Rightarrow> ('db, object_version option) txn" where
  "delete_tx K now tenant objectID reason =
     tbind (getObject K objectID) (\<lambda>r. case r of
       Inl _ \<Rightarrow> throw ErrNotFound
     | Inr ob \<Rightarrow>
         if o_Tenant ob \<noteq> tenant then throw ErrNotFound
         else if o_State ob = StateLeased then
           tbind (tget K BNamespace (nsKey (o_Tenant ob) (o_Path ob))) (\<lambda>cur.
           tseq (twhen (raw_string cur = o_ID ob) (tdel K BNamespace (nsKey (o_Tenant ob) (o_Path ob))))
          (tseq (putObject K (ob\<lparr>o_Retracted := True\<rparr>)) (ret None)))
         else tseq (deleteObjectTx K now ob reason) (ret (Some ob)))"

definition DeleteObject ::
    "'db bolt \<Rightarrow> string \<Rightarrow> (string \<Rightarrow> bool) \<Rightarrow> bool \<Rightarrow> gotime \<Rightarrow> string \<Rightarrow> string \<Rightarrow> string \<Rightarrow> 'db store \<Rightarrow>
     (error + unit) \<times> 'db store" where
  "DeleteObject K root rm gated now tenant objectID reason st =
     (case update K (delete_tx K now tenant objectID reason) st of
        (Inl e, st') \<Rightarrow> (Inl e, st')
      | (Inr None, st') \<Rightarrow> (Inr (), st')
      | (Inr (Some ob), st') \<Rightarrow>
          (Inr (), collect root rm gated (o_ID ob) (o_Tenant ob) (o_BlobPath ob) (o_Size ob) st'))"

text \<open>\<open>strings.EqualFold\<close>. A digest consists of hexadecimal digits, for which Unicode case folding is
  ASCII case folding.\<close>

definition EqualFold :: "string \<Rightarrow> string \<Rightarrow> bool" where
  "EqualFold s t = (map ascii_lower s = map ascii_lower t)"

datatype commit_outcome =
    Committed object_version
  | AlreadyDeleted
  | Refused error

definition commit_tx ::
    "'db bolt \<Rightarrow> gotime \<Rightarrow> string \<Rightarrow> string \<Rightarrow> string \<Rightarrow> string \<Rightarrow> int \<Rightarrow> ('db, commit_outcome) txn" where
  "commit_tx K now tenant objectID leaseID digest sz =
     tbind (getTomb K objectID) (\<lambda>r. case r of
       Inr tomb \<Rightarrow> ret (if t_Tenant tomb \<noteq> tenant then Refused ErrNotFound else AlreadyDeleted)
     | Inl _ \<Rightarrow>
         tbind (getObject K objectID) (\<lambda>r. case r of
           Inl _ \<Rightarrow> ret (Refused ErrNotFound)
         | Inr ob \<Rightarrow>
             if o_Tenant ob \<noteq> tenant then ret (Refused ErrNotFound)
             else if o_LeaseID ob \<noteq> leaseID \<or> o_State ob \<noteq> StateLeased then ret (Refused ErrLeaseMismatch)
             else if o_Size ob \<noteq> sz \<or> \<not> EqualFold (o_SHA256 ob) digest then ret (Refused ErrConflict)
             else tseq (deleteObjectTx K now ob ''committed'') (ret (Committed ob))))"

definition Commit ::
    "'db bolt \<Rightarrow> string \<Rightarrow> (string \<Rightarrow> bool) \<Rightarrow> bool \<Rightarrow> gotime \<Rightarrow> string \<Rightarrow> string \<Rightarrow> string \<Rightarrow> string \<Rightarrow> int \<Rightarrow>
     'db store \<Rightarrow> (error + bool) \<times> 'db store" where
  "Commit K root rm gated now tenant objectID leaseID digest sz st =
     (case update K (commit_tx K now tenant objectID leaseID digest sz) st of
        (Inl e, st') \<Rightarrow> (Inl e, st')
      | (Inr (Refused e), st') \<Rightarrow> (Inl e, st')
      | (Inr AlreadyDeleted, st') \<Rightarrow> (Inr False, st')
      | (Inr (Committed ob), st') \<Rightarrow>
          (Inr True, collect root rm gated (o_ID ob) (o_Tenant ob) (o_BlobPath ob) (o_Size ob) st'))"

section \<open>Reading\<close>

definition Object :: "'db bolt \<Rightarrow> 'db store \<Rightarrow> string \<Rightarrow> error + object_version" where
  "Object K st oid = json_object (b_get K (v_db st) BObjects oid)"

definition OpenClaim ::
    "'db bolt \<Rightarrow> gotime \<Rightarrow> string \<Rightarrow> string \<Rightarrow> string \<Rightarrow> 'db store \<Rightarrow> error + (string \<times> object_version)" where
  "OpenClaim K now tenant objectID leaseID st =
     (case Object K st objectID of
        Inl e \<Rightarrow> Inl e
      | Inr ob \<Rightarrow>
          if o_Tenant ob \<noteq> tenant then Inl ErrNotFound
          else if o_State ob \<noteq> StateLeased \<or> o_LeaseID ob \<noteq> leaseID \<or> \<not> now < o_LeaseUntil ob
          then Inl ErrLeaseMismatch
          else case v_files st (o_BlobPath ob) of
                 None \<Rightarrow> Inl (ErrIO ''no such file'')
               | Some content \<Rightarrow> Inr (content, ob))"

fun list_parked ::
    "'db bolt \<Rightarrow> 'db \<Rightarrow> string \<Rightarrow> nat \<Rightarrow> object_version list \<Rightarrow> (string \<times> cell) list \<Rightarrow> object_version list" where
  "list_parked K db seek limit out [] = out"
| "list_parked K db seek limit out ((k, v) # rest) =
     (if \<not> hasPrefix k seek \<or> \<not> length out < limit then out
      else case json_object (b_get K db BObjects (snd (parseTailKey k))) of
             Inl _ \<Rightarrow> list_parked K db seek limit out rest
           | Inr ob \<Rightarrow> list_parked K db seek limit (out @ [ob]) rest)"

definition ListParked :: "'db bolt \<Rightarrow> string \<Rightarrow> int \<Rightarrow> 'db \<Rightarrow> object_version list" where
  "ListParked K tenant limit0 db =
     (let limit = (if limit0 \<le> 0 \<or> 1000 < limit0 then 1000 else limit0)
      in list_parked K db (tenant @ [nul]) (nat limit) [] (b_seek K db BParked (tenant @ [nul])))"

definition update_object_tx ::
    "'db bolt \<Rightarrow> gotime \<Rightarrow> string \<Rightarrow> (object_version \<Rightarrow> error + object_version) \<Rightarrow> ('db, unit) txn" where
  "update_object_tx K now oid f =
     tbind (getObject K oid) (\<lambda>r. case r of
       Inl e \<Rightarrow> throw e
     | Inr ob \<Rightarrow>
         (case f ob of
            Inl e \<Rightarrow> throw e
          | Inr ob' \<Rightarrow>
              if o_State ob' \<noteq> o_State ob \<or> o_Path ob' \<noteq> o_Path ob
              then throw (ErrOther ''UpdateObject cannot change state or path'')
              else tput K BObjects oid (CObject (ob'\<lparr>o_UpdatedAt := now\<rparr>))))"

definition UpdateObject ::
    "'db bolt \<Rightarrow> gotime \<Rightarrow> string \<Rightarrow> (object_version \<Rightarrow> error + object_version) \<Rightarrow> 'db store \<Rightarrow>
     (error + unit) \<times> 'db store" where
  "UpdateObject K now oid f st = update K (update_object_tx K now oid f) st"

definition OldestReady :: "'db bolt \<Rightarrow> string \<Rightarrow> 'db \<Rightarrow> gotime option" where
  "OldestReady K tenant db =
     (case b_seek K db BQueue (tenant @ [nul]) of
        [] \<Rightarrow> None
      | (k, _) # _ \<Rightarrow>
          if \<not> hasPrefix k (tenant @ [nul]) then None
          else case json_object (b_get K db BObjects (snd (parseTailKey k))) of
                 Inl _ \<Rightarrow> None
               | Inr ob \<Rightarrow> Some (o_CreatedAt ob))"

end
