(* ===== verification/Delivery_Correct.thy ===== *)
theory Delivery_Correct
  imports Delivery
begin

text \<open>
  Correctness of delivery. Every transaction of \<^verbatim>\<open>delivery.go\<close> is shown to refine one of the
  abstract steps of theory \<open>Catalog\<close> and therefore to be \<open>sound\<close>: it keeps the catalog invariant and
  its delta balances. On top of that: a claim takes only READY objects at the queue position that
  was found, in queue order, and gives each a claim of its own; a lease can be renewed, released or
  committed only by its holder; a commit deletes exactly once and is idempotent.
\<close>

section \<open>The steps on the contents\<close>

lemmas view_defs = set_object_def write_rec_def claim_upd_def drop_claim_def free_claim_def indexBuckets_def

lemma claim_view:
  assumes "g BObjects (o_ID ob0) = Some (CObject ob0)" "o_State ob0 = StateReady" "o_LeaseID ob0 = []"
    "o_QueueSeq ob0 \<noteq> 0" "ob = leased_object opts now lease (ob0\<lparr>o_QueueSeq := 0\<rparr>)" "c_LeaseID cl = lease"
  shows "upd (upd (upd
      (upd (upd g BQueue (queueKey (o_Tenant ob0) (o_QueueSeq ob0) (o_ID ob0)) None)
         BQueueSeg (queueSegKey (o_Tenant ob0) (o_Path ob0) (o_QueueSeq ob0) (o_ID ob0)) None)
      BObjects (o_ID ob) (Some (CObject ob))) BClaims lease (Some (CClaim cl)))
      BLeases (timeIDKey (o_LeaseUntil ob) (o_ID ob)) (Some (CRaw lease)) = set_object ob (Some cl) g"
    (is "?v = _")
proof
  fix B
  show "?v B = set_object ob (Some cl) g B"
    using assms by (cases B) (simp_all add: view_defs leased_object_def)
qed

lemma release_view:
  assumes "g BObjects (o_ID ob0) = Some (CObject ob0)" "o_State ob0 = StateLeased" "o_LeaseID ob0 \<noteq> []"
    "o_QueueSeq ob0 = 0" "o_ID ob = o_ID ob0" "o_State ob = StateReady" "o_QueueSeq ob \<noteq> 0" "o_Tenant ob = o_Tenant ob0"
  shows "upd (upd (upd
      (upd (upd g BClaims (o_LeaseID ob0) None) BLeases (timeIDKey (o_LeaseUntil ob0) (o_ID ob0)) None)
        BQueue (queueKey (o_Tenant ob) (o_QueueSeq ob) (o_ID ob)) (Some (CRaw (queueValue (o_VisibleAt ob) (o_Path ob)))))
        BQueueSeg (queueSegKey (o_Tenant ob) (o_Path ob) (o_QueueSeq ob) (o_ID ob)) (Some (CRaw (queueValue (o_VisibleAt ob) (o_Path ob)))))
        BObjects (o_ID ob) (Some (CObject ob)) = set_object ob None g"
    (is "?v = _")
proof
  fix B
  show "?v B = set_object ob None g B"
    using assms by (cases B) (simp_all add: view_defs)
qed

lemma park_view:
  assumes "g BObjects (o_ID ob0) = Some (CObject ob0)" "o_State ob0 = StateLeased" "o_LeaseID ob0 \<noteq> []"
    "o_QueueSeq ob0 = 0" "o_ID ob = o_ID ob0" "o_State ob = StateParked" "o_QueueSeq ob = 0"
  shows "upd (upd
      (upd (upd g BClaims (o_LeaseID ob0) None) BLeases (timeIDKey (o_LeaseUntil ob0) (o_ID ob0)) None)
        BParked (parkedKey (o_Tenant ob) (o_ParkedAt ob) (o_ID ob)) (Some (CRaw [])))
        BObjects (o_ID ob) (Some (CObject ob)) = set_object ob None g"
    (is "?v = _")
proof
  fix B
  show "?v B = set_object ob None g B"
    using assms by (cases B) (simp_all add: view_defs)
qed

lemma requeue_view:
  assumes "g BObjects (o_ID ob0) = Some (CObject ob0)" "o_State ob0 = StateParked" "o_LeaseID ob0 = []"
    "o_QueueSeq ob0 = 0" "o_ID ob = o_ID ob0" "o_State ob = StateReady" "o_QueueSeq ob \<noteq> 0"
  shows "upd (upd (upd
      (upd g BParked (parkedKey (o_Tenant ob0) (o_ParkedAt ob0) (o_ID ob0)) None)
        BQueue (queueKey (o_Tenant ob) (o_QueueSeq ob) (o_ID ob)) (Some (CRaw (queueValue (o_VisibleAt ob) (o_Path ob)))))
        BQueueSeg (queueSegKey (o_Tenant ob) (o_Path ob) (o_QueueSeq ob) (o_ID ob)) (Some (CRaw (queueValue (o_VisibleAt ob) (o_Path ob)))))
        BObjects (o_ID ob) (Some (CObject ob)) = set_object ob None g"
    (is "?v = _")
proof
  fix B
  show "?v B = set_object ob None g B"
    using assms by (cases B) (simp_all add: view_defs)
qed

lemma renew_view:
  assumes "g BObjects (o_ID ob0) = Some (CObject ob0)" "o_State ob0 = StateLeased" "o_LeaseID ob0 \<noteq> []"
    "o_QueueSeq ob0 = 0" "o_QueueSeq ob = 0" "o_ID ob = o_ID ob0" "o_State ob = StateLeased"
    "o_LeaseID ob = o_LeaseID ob0" "c_LeaseID cl = o_LeaseID ob0"
  shows "upd (upd (upd
      (upd g BLeases (timeIDKey (o_LeaseUntil ob0) (o_ID ob0)) None)
        BLeases (timeIDKey (o_LeaseUntil ob) (o_ID ob)) (Some (CRaw (o_LeaseID ob0))))
        BClaims (o_LeaseID ob0) (Some (CClaim cl)))
        BObjects (o_ID ob) (Some (CObject ob)) = set_object ob (Some cl) g"
    (is "?v = _")
proof
  fix B
  show "?v B = set_object ob (Some cl) g B"
    using assms by (cases B) (simp_all add: view_defs)
qed

section \<open>Soundness of the transactions\<close>

text \<open>Lease identifiers are fresh: 16 random bytes that give no lease in use and no lease twice.\<close>

definition fresh_leases :: "(nat \<Rightarrow> error + string) \<Rightarrow> nat \<Rightarrow> view \<Rightarrow> bool" where
  "fresh_leases rand n g \<longleftrightarrow>
     (\<forall>i b. n \<le> i \<and> rand i = Inr b \<longrightarrow> length b = 16 \<and> g BClaims (hex_encode b) = None) \<and>
     (\<forall>i j b c. rand i = Inr b \<and> rand j = Inr c \<and> hex_encode b = hex_encode c \<longrightarrow> i = j)"

definition cands_of :: "string \<Rightarrow> candidate list \<Rightarrow> view \<Rightarrow> bool" where
  "cands_of tenant cs g \<longleftrightarrow>
     (\<forall>(seq, oid)\<in>set cs. \<forall>ob. g BObjects oid = Some (CObject ob) \<longrightarrow> o_Tenant ob = tenant)"

text \<open>The outcome of a claim over the candidates \<open>cs\<close>: in their order and without repetition, exactly
  the candidates that are still READY at the position found are leased, each under a new claim of
  its own; no other object and no other claim changes.\<close>

definition leases_taken ::
    "ClaimOptions \<Rightarrow> gotime \<Rightarrow> view \<Rightarrow> view \<Rightarrow> candidate list \<Rightarrow> claim list \<Rightarrow> bool" where
  "leases_taken opts now g g' cs cls \<longleftrightarrow>
     (\<forall>cl\<in>set cls. \<exists>ob. g BObjects (c_ObjectID cl) = Some (CObject ob) \<and> o_State ob = StateReady \<and>
        (o_QueueSeq ob, c_ObjectID cl) \<in> set cs \<and> g BClaims (c_LeaseID cl) = None \<and>
        g' BClaims (c_LeaseID cl) = Some (CClaim cl) \<and>
        g' BObjects (c_ObjectID cl) =
          Some (CObject (leased_object opts now (c_LeaseID cl) (ob\<lparr>o_QueueSeq := 0\<rparr>))))"

definition claimed ::
    "ClaimOptions \<Rightarrow> gotime \<Rightarrow> view \<Rightarrow> view \<Rightarrow> candidate list \<Rightarrow> claim list \<Rightarrow> bool" where
  "claimed opts now g g' cs cls \<longleftrightarrow>
     subseq (map c_ObjectID cls) (map snd cs) \<and> distinct (map c_ObjectID cls) \<and>
     leases_taken opts now g g' cs cls \<and>
     (\<forall>oid. oid \<notin> c_ObjectID ` set cls \<longrightarrow> g' BObjects oid = g BObjects oid) \<and>
     (\<forall>seq oid ob. (seq, oid) \<in> set cs \<and> g BObjects oid = Some (CObject ob) \<and> o_State ob = StateReady \<and>
        o_QueueSeq ob = seq \<longrightarrow> oid \<in> c_ObjectID ` set cls) \<and>
     (\<forall>l. l \<notin> c_LeaseID ` set cls \<longrightarrow> g' BClaims l = g BClaims l)"

lemma hex_digit_no_nul: "hex_digit n \<noteq> nul"
proof -
  have "\<forall>i<16. ''0123456789abcdef'' ! i \<noteq> nul" by code_simp
  then show ?thesis by (simp add: hex_digit_def)
qed

lemma hex_encode_no_nul: "nul \<notin> set (hex_encode b)"
  using hex_digit_no_nul by (induction b rule: hex_encode.induct) (auto simp: eq_commute [of nul])

lemma hex_encode_ne: "length b = 16 \<Longrightarrow> hex_encode b \<noteq> []"
  by (cases b) auto

text \<open>A name that points at an object points at it under its own path, and never at a retracted one.\<close>

lemma names_of:
  assumes "catalog_ok g n" "g BObjects oid = Some (CObject ob)" "g BNamespace k = Some (CRaw oid)"
  shows "k = nsKey (o_Tenant ob) (o_Path ob)" "\<not> o_Retracted ob"
proof -
  from catalog_okD(5) [OF assms(1)] assms(3) obtain o' where o': "CRaw oid = CRaw (o_ID o')"
    "g BObjects (o_ID o') = Some (CObject o')" "k = nsKey (o_Tenant o') (o_Path o')" "\<not> o_Retracted o'"
    by (rule name_object)
  then have "Some (CObject o') = Some (CObject ob)" using assms(2) by (metis cell.inject(7))
  then have "o' = ob" by simp
  with o' show "k = nsKey (o_Tenant ob) (o_Path ob)" "\<not> o_Retracted ob" by simp_all
qed

text \<open>The branches of \<open>afterDelivery\<close>, for the object with its lease fields cleared.\<close>

definition unleased :: "gotime \<Rightarrow> ReleaseOptions \<Rightarrow> int \<Rightarrow> object_version \<Rightarrow> object_version" where
  "unleased now opts a ob =
     (let o1 = ob\<lparr>o_Attempts := a, o_LeaseID := [], o_LeaseClient := [], o_LeaseUntil := zero_time, o_UpdatedAt := now\<rparr>
      in if ro_Reason opts \<noteq> [] then o1\<lparr>o_LastError := truncate (ro_Reason opts) 512\<rparr> else o1)"

lemma unleased_simps [simp]:
  "o_ID (unleased now opts a ob) = o_ID ob" "o_Tenant (unleased now opts a ob) = o_Tenant ob"
  "o_Path (unleased now opts a ob) = o_Path ob" "o_BlobPath (unleased now opts a ob) = o_BlobPath ob"
  "o_Size (unleased now opts a ob) = o_Size ob" "o_State (unleased now opts a ob) = o_State ob"
  "o_QueueSeq (unleased now opts a ob) = o_QueueSeq ob" "o_LeaseID (unleased now opts a ob) = []"
  "o_Retracted (unleased now opts a ob) = o_Retracted ob" "o_Attempts (unleased now opts a ob) = a"
  by (simp_all add: unleased_def Let_def)

definition park_error :: "object_version \<Rightarrow> string" where
  "park_error ob = (if o_LastError ob = [] then ''delivery attempts exhausted'' else o_LastError ob)"

lemma afterDelivery_eq:
  "afterDelivery K src now (ob\<lparr>o_Attempts := a\<rparr>) opts =
     (let ob1 = unleased now opts a ob
      in if o_Retracted ob then deleteObjectTx K now ob1 ''retracted''
         else if ro_Permanent opts \<or> p_MaxAttempts (policyFor src (o_Tenant ob)) \<le> a then
           (let ob2 = ob1\<lparr>o_LastError := park_error ob1, o_State := StateParked, o_ParkedAt := now\<rparr>
            in tseq (tmod (move ob2 StateLeased StateParked))
              (tseq (tput K BParked (parkedKey (o_Tenant ob) now (o_ID ob)) (CRaw [])) (putObject K ob2)))
         else tbind (enqueue K (ob1\<lparr>o_State := StateReady\<rparr>) (now + ro_RetryAfter opts))
           (\<lambda>ob2. tseq (tmod (move ob2 StateLeased StateReady)) (putObject K ob2)))"
  unfolding afterDelivery_def unleased_def park_error_def by (simp add: Let_def)

text \<open>\<open>UpdateObject\<close> is for protocol meta data: its callback must leave alone what the delivery state
  is made of.\<close>

definition metadata_only :: "(object_version \<Rightarrow> error + object_version) \<Rightarrow> bool" where
  "metadata_only f \<longleftrightarrow>
     (\<forall>ob ob'. f ob = Inr ob' \<longrightarrow>
        ob' = ob\<lparr>o_SHA256 := o_SHA256 ob', o_ETag := o_ETag ob', o_Metadata := o_Metadata ob', o_Tags := o_Tags ob'\<rparr>)"

context bolt_laws
begin

text \<open>What a stored object needs to be rewritten in place.\<close>

lemma may_rewrite:
  assumes cat: "cat K s" and old: "contents K s BObjects (o_ID ob) = Some (CObject old)"
    and ok: "obj_ok ob" and same: "o_Tenant ob = o_Tenant old" "o_Path ob = o_Path old"
    and retr: "o_Retracted ob \<longrightarrow> o_Retracted old \<or> (\<forall>k. contents K s BNamespace k \<noteq> Some (CRaw (o_ID ob)))"
    and clo: "case clo of None \<Rightarrow> o_State ob \<noteq> StateLeased
      | Some cl \<Rightarrow> o_State ob = StateLeased \<and> claim_of cl ob \<and> nul \<notin> set (o_LeaseID ob) \<and>
          (contents K s BClaims (o_LeaseID ob) = None \<or> o_LeaseID old = o_LeaseID ob)"
    and seq: "o_QueueSeq ob = 0 \<and> n' = seqs K s BQueue \<or>
      o_QueueSeq ob = Suc (seqs K s BQueue) \<and> n' = Suc (seqs K s BQueue) \<and> n' < 2 ^ 64 \<or>
      o_QueueSeq ob = o_QueueSeq old \<and> n' = seqs K s BQueue"
  shows "may_set ob clo (contents K s) (seqs K s BQueue) n'"
proof -
  let ?g = "contents K s"
  note c = cat [unfolded cat_def]
  note o = catalog_object [OF c old]
  have n: "seqs K s BQueue < 2 ^ 64" using catalog_okD(7) [OF c] by (simp add: queue_seq_ok_def)
  have clo': "case clo of None \<Rightarrow> o_State ob \<noteq> StateLeased
      | Some cl \<Rightarrow> o_State ob = StateLeased \<and> claim_of cl ob \<and> nul \<notin> set (o_LeaseID ob) \<and>
          drop_claim (o_ID ob) ?g BClaims (o_LeaseID ob) = None"
  proof (cases clo)
    case None
    then show ?thesis using clo by simp
  next
    case (Some cl)
    have "o_LeaseID ob \<noteq> []" using clo ok Some by (simp add: obj_ok_def)
    then show ?thesis using clo Some
      by (cases "o_LeaseID old = o_LeaseID ob") (simp_all add: drop_claim_claims [of ?g "o_ID ob" old, OF old])
  qed
  have "k = nsKey (o_Tenant ob) (o_Path ob) \<and> \<not> o_Retracted ob"
    if "?g BNamespace k = Some (CRaw (o_ID ob))" for k
    using names_of [OF c old that] same retr that by auto
  with clo' ok o n seq old show ?thesis
    by (auto simp: may_set_def)
qed

lemma claim_step_good:
  assumes cat: "cat K s" and ob0: "contents K s BObjects oid = Some (CObject ob0)"
    and ready: "o_State ob0 = StateReady" and tenant: "o_Tenant ob0 = tenant"
    and lease: "contents K s BClaims lease = None" "lease \<noteq> []" "nul \<notin> set lease"
    and ob: "ob = leased_object opts now lease (ob0\<lparr>o_QueueSeq := 0\<rparr>)"
    and view: "contents K s' = set_object ob (Some (new_claim tenant opts lease ob)) (contents K s)"
    and rest: "seqs K s' = seqs K s"
      "snd s' = (move ob StateReady StateLeased (snd s))\<lparr>d_claims := d_claims (snd s) + 1\<rparr>"
  shows "good K s s'"
proof -
  note c = cat [unfolded cat_def]
  note o = catalog_object [OF c ob0]
  have lid: "o_LeaseID ob0 = []" "\<not> o_Retracted ob0" using o(1) ready by (auto simp: obj_ok_def)
  have ob_ok: "obj_ok ob" using o(1) ready lease lid by (simp add: ob leased_object_def obj_ok_def)
  have stored: "contents K s BObjects (o_ID ob) = Some (CObject ob0)"
    using ob0 o(2) by (simp add: ob leased_object_def)
  show ?thesis
  proof (rule rewrite_good [OF cat stored _ _ view])
    show "may_set ob (Some (new_claim tenant opts lease ob)) (contents K s) (seqs K s BQueue) (seqs K s' BQueue)"
      using lease tenant lid
      by (intro may_rewrite [OF cat stored ob_ok])
        (simp_all add: ob leased_object_def new_claim_def claim_of_def rest)
    show "delta_moves ob (o_State ob0)
        ((if Some (new_claim tenant opts lease ob) = None then 0 else 1) - (if o_LeaseID ob0 = [] then 0 else 1))
        (snd s) (snd s')"
      using delta_moves_claims [OF delta_moves_move [of StateReady StateLeased ob "snd s"], of 1] lid
      by (simp add: rest ready) (simp add: ob leased_object_def)
  qed (simp_all add: ob leased_object_def)
qed

text \<open>One turn of the loop of \<open>Claim\<close>: either the candidate is skipped, or it is leased.\<close>

lemma claim_turn:
  assumes run: "claim_cands K tenant opts now rand n acc ((seq, oid) # cs) s = Inr (r, s')"
    and cat: "cat K s"
  obtains (skip) "claim_cands K tenant opts now rand n acc cs s = Inr (r, s')"
      "\<forall>ob. contents K s BObjects oid = Some (CObject ob) \<longrightarrow> o_State ob \<noteq> StateReady \<or> o_QueueSeq ob \<noteq> seq"
  | (take) ob0 b lease ob s1 where "contents K s BObjects oid = Some (CObject ob0)" "o_State ob0 = StateReady"
      "o_QueueSeq ob0 = seq" "rand n = Inr b" "lease = hex_encode b"
      "ob = leased_object opts now lease (ob0\<lparr>o_QueueSeq := 0\<rparr>)"
      "contents K s1 = set_object ob (Some (new_claim tenant opts lease ob)) (contents K s)"
      "seqs K s1 = seqs K s"
      "snd s1 = (move ob StateReady StateLeased (snd s))\<lparr>d_claims := d_claims (snd s) + 1\<rparr>"
      "claim_cands K tenant opts now rand (Suc n) (acc @ [new_claim tenant opts lease ob]) cs s1 = Inr (r, s')"
proof (cases "\<exists>ob0. contents K s BObjects oid = Some (CObject ob0) \<and> o_State ob0 = StateReady \<and> o_QueueSeq ob0 = seq")
  case False
  have "claim_cands K tenant opts now rand n acc cs s = Inr (r, s')"
    using run False
    by (cases "json_object (contents K s BObjects oid)") (auto simp: txn_simps split: if_splits)
  with False show thesis by (intro skip) auto
next
  case True
  then obtain ob0 where ob0: "contents K s BObjects oid = Some (CObject ob0)" "o_State ob0 = StateReady"
    "o_QueueSeq ob0 = seq" by auto
  note o = catalog_object [OF cat [unfolded cat_def] ob0(1)]
  have q: "o_QueueSeq ob0 \<noteq> 0" "o_LeaseID ob0 = []" using o(1) ob0(2) by (auto simp: obj_ok_def)
  from run ob0 obtain b where b: "rand n = Inr b"
    by (cases "rand n") (auto simp: txn_simps randomID_def)
  define ob where "ob = leased_object opts now (hex_encode b) (ob0\<lparr>o_QueueSeq := 0\<rparr>)"
  let ?cl = "new_claim tenant opts (hex_encode b) ob"
  from run ob0 b obtain ob1 s1 s2 s3 s4 where
    d: "dequeue K ob0 s = Inr (ob1, s1)"
    and p: "putObject K (leased_object opts now (hex_encode b) ob1) s1 = Inr ((), s2)"
      "tput K BClaims (hex_encode b) (CClaim (new_claim tenant opts (hex_encode b) (leased_object opts now (hex_encode b) ob1))) s2 = Inr ((), s3)"
      "tput K BLeases (timeIDKey (o_LeaseUntil (leased_object opts now (hex_encode b) ob1))
         (o_ID (leased_object opts now (hex_encode b) ob1))) (CRaw (hex_encode b)) s3 = Inr ((), s4)"
    and rest: "claim_cands K tenant opts now rand (Suc n)
        (acc @ [new_claim tenant opts (hex_encode b) (leased_object opts now (hex_encode b) ob1)]) cs
        (fst s4, (move (leased_object opts now (hex_encode b) ob1) StateReady StateLeased (snd s4))
           \<lparr>d_claims := d_claims (move (leased_object opts now (hex_encode b) ob1) StateReady StateLeased (snd s4)) + 1\<rparr>)
        = Inr (r, s')"
    by (auto simp: txn_simps randomID_def Let_def)
  note dq = dequeue_eff [OF d]
  have ob1: "leased_object opts now (hex_encode b) ob1 = ob" by (simp add: dq(1) ob_def)
  note effs = putObject_eff [OF p(1), unfolded ob1] tput_eff [OF p(2), unfolded ob1]
    tput_eff [OF p(3), unfolded ob1]
  have id: "o_ID ob0 = oid" "o_ID ob = oid" using o by (simp_all add: ob_def leased_object_def)
  let ?s = "(fst s4, (move ob StateReady StateLeased (snd s4))\<lparr>d_claims := d_claims (snd s4) + 1\<rparr>)"
  show thesis
  proof (rule take [OF ob0 b refl ob_def])
    have "contents K s4 = set_object ob (Some ?cl) (contents K s)"
      using claim_view [OF _ ob0(2) q(2,1) ob_def, of "contents K s" ?cl] ob0(1) q(1)
      by (simp only: effs dq id) (simp add: new_claim_def)
    then show "contents K ?s = set_object ob (Some ?cl) (contents K s)" by (simp add: txn_simps)
  qed (use effs dq(2,3) rest [unfolded ob1] in \<open>simp_all add: txn_simps\<close>)
qed

lemma claimed_take:
  assumes ob0: "g BObjects oid = Some (CObject ob0)" "o_State ob0 = StateReady" "o_QueueSeq ob0 = seq"
      "o_LeaseID ob0 = []" "o_ID ob0 = oid"
    and lease: "g BClaims lease = None"
    and ob: "ob = leased_object opts now lease (ob0\<lparr>o_QueueSeq := 0\<rparr>)"
    and cl: "cl = new_claim tenant opts lease ob"
    and g1: "g1 = set_object ob (Some cl) g" and IH: "claimed opts now g1 g' cs cls"
  shows "claimed opts now g g' ((seq, oid) # cs) (cl # cls)"
proof -
  have id: "o_ID ob = oid" "c_ObjectID cl = oid" "c_LeaseID cl = lease"
    using ob0(5) by (simp_all add: ob leased_object_def cl new_claim_def)
  have objs: "g1 BObjects = (g BObjects)(oid \<mapsto> CObject ob)" using id by (simp add: g1 set_object_objects)
  have clms: "g1 BClaims = (g BClaims)(lease \<mapsto> CClaim cl)"
    using id ob0(1,4) drop_claim_claims [of g oid ob0] by (simp add: g1 set_object_claims claim_upd_def)
  have lst: "o_State ob = StateLeased" by (simp add: ob leased_object_def)
  note IH' = IH [unfolded claimed_def]
  have taken: "leases_taken opts now g1 g' cs cls" using IH' by blast
  have notin: "oid \<notin> c_ObjectID ` set cls"
  proof
    assume "oid \<in> c_ObjectID ` set cls"
    then obtain c where c: "c \<in> set cls" "c_ObjectID c = oid" by auto
    with taken obtain o1 where "g1 BObjects oid = Some (CObject o1)" "o_State o1 = StateReady"
      unfolding leases_taken_def by metis
    then show False using objs lst by simp
  qed
  have g'oid: "g' BObjects oid = Some (CObject ob)"
    using IH' notin objs by (metis fun_upd_same)
  have "lease \<notin> c_LeaseID ` set cls"
    using taken clms unfolding leases_taken_def by (metis fun_upd_same imageE option.distinct(1))
  then have g'l: "g' BClaims lease = Some (CClaim cl)"
    using IH' clms by (metis fun_upd_same)
  have old: "leases_taken opts now g g' ((seq, oid) # cs) cls"
    unfolding leases_taken_def
  proof
    fix c assume c: "c \<in> set cls"
    then have ne: "c_ObjectID c \<noteq> oid" using notin by auto
    obtain o1 where o1: "g1 BObjects (c_ObjectID c) = Some (CObject o1)" "o_State o1 = StateReady"
        "(o_QueueSeq o1, c_ObjectID c) \<in> set cs" "g1 BClaims (c_LeaseID c) = None"
        "g' BClaims (c_LeaseID c) = Some (CClaim c)"
        "g' BObjects (c_ObjectID c) = Some (CObject (leased_object opts now (c_LeaseID c) (o1\<lparr>o_QueueSeq := 0\<rparr>)))"
      using taken c unfolding leases_taken_def by blast
    moreover have "g BClaims (c_LeaseID c) = None" using o1(4) clms by (auto split: if_splits)
    ultimately show "\<exists>ob. g BObjects (c_ObjectID c) = Some (CObject ob) \<and> o_State ob = StateReady \<and>
        (o_QueueSeq ob, c_ObjectID c) \<in> set ((seq, oid) # cs) \<and> g BClaims (c_LeaseID c) = None \<and>
        g' BClaims (c_LeaseID c) = Some (CClaim c) \<and>
        g' BObjects (c_ObjectID c) = Some (CObject (leased_object opts now (c_LeaseID c) (ob\<lparr>o_QueueSeq := 0\<rparr>)))"
      using ne objs by (intro exI [of _ o1]) simp
  qed
  have new: "leases_taken opts now g g' ((seq, oid) # cs) (cl # cls)"
    unfolding leases_taken_def
  proof
    fix c assume "c \<in> set (cl # cls)"
    then show "\<exists>ob. g BObjects (c_ObjectID c) = Some (CObject ob) \<and> o_State ob = StateReady \<and>
        (o_QueueSeq ob, c_ObjectID c) \<in> set ((seq, oid) # cs) \<and> g BClaims (c_LeaseID c) = None \<and>
        g' BClaims (c_LeaseID c) = Some (CClaim c) \<and>
        g' BObjects (c_ObjectID c) = Some (CObject (leased_object opts now (c_LeaseID c) (ob\<lparr>o_QueueSeq := 0\<rparr>)))"
    proof (cases "c = cl")
      case True
      then show ?thesis using ob0 lease g'oid g'l id ob by (intro exI [of _ ob0]) simp
    next
      case False
      then have "c \<in> set cls" using \<open>c \<in> set (cl # cls)\<close> by simp
      then show ?thesis using old unfolding leases_taken_def by blast
    qed
  qed
  have frame: "\<forall>i. i \<notin> c_ObjectID ` set (cl # cls) \<longrightarrow> g' BObjects i = g BObjects i"
    using IH' objs id by simp
  have complete: "\<forall>q i o1. (q, i) \<in> set ((seq, oid) # cs) \<and> g BObjects i = Some (CObject o1) \<and>
      o_State o1 = StateReady \<and> o_QueueSeq o1 = q \<longrightarrow> i \<in> c_ObjectID ` set (cl # cls)"
  proof (intro allI impI)
    fix q i o1 assume a: "(q, i) \<in> set ((seq, oid) # cs) \<and> g BObjects i = Some (CObject o1) \<and>
      o_State o1 = StateReady \<and> o_QueueSeq o1 = q"
    show "i \<in> c_ObjectID ` set (cl # cls)"
    proof (cases "i = oid")
      case False
      then have "(q, i) \<in> set cs" "g1 BObjects i = Some (CObject o1)" using a objs by auto
      then show ?thesis using IH' a by auto
    qed (use id in simp)
  qed
  have keep: "\<forall>l. l \<notin> c_LeaseID ` set (cl # cls) \<longrightarrow> g' BClaims l = g BClaims l"
    using IH' clms id(3) by simp
  show ?thesis
    unfolding claimed_def using IH' notin new frame complete keep id by simp
qed

lemma claimed_skip:
  assumes "claimed opts now g g' cs cls"
    and "\<forall>ob. g BObjects oid = Some (CObject ob) \<longrightarrow> o_State ob \<noteq> StateReady \<or> o_QueueSeq ob \<noteq> seq"
  shows "claimed opts now g g' ((seq, oid) # cs) cls"
  using assms unfolding claimed_def leases_taken_def
  by (auto intro: list_emb_Cons)

lemma claim_cands_spec:
  assumes "claim_cands K tenant opts now rand n acc cs s = Inr (r, s')" "cat K s"
    "fresh_leases rand n (contents K s)" "cands_of tenant cs (contents K s)"
  shows "good K s s' \<and> (\<exists>cls. r = acc @ cls \<and> claimed opts now (contents K s) (contents K s') cs cls \<and>
    (\<forall>cl\<in>set cls. \<exists>i b. rand i = Inr b \<and> c_LeaseID cl = hex_encode b))"
  using assms
proof (induction cs arbitrary: n acc s)
  case Nil
  then show ?case by (auto simp: txn_simps claimed_def leases_taken_def good_refl)
next
  case (Cons c cs)
  obtain seq oid where c: "c = (seq, oid)" by (cases c)
  have cands: "cands_of tenant cs (contents K s)" using Cons.prems(4) by (simp add: cands_of_def)
  from Cons.prems(1)[unfolded c] Cons.prems(2) show ?case
  proof (cases rule: claim_turn)
    case skip
    from Cons.IH [OF skip(1) Cons.prems(2,3) cands] skip(2) show ?thesis
      by (auto simp: c intro: claimed_skip)
  next
    case (take ob0 b lease ob s1)
    note o = catalog_object [OF Cons.prems(2) [unfolded cat_def] take(1)]
    have b: "length b = 16" "contents K s BClaims lease = None"
      using Cons.prems(3) take(4,5) by (auto simp: fresh_leases_def)
    have lid: "o_LeaseID ob0 = []" using o(1) take(2) by (auto simp: obj_ok_def)
    have tnt: "o_Tenant ob0 = tenant" using Cons.prems(4) take(1) by (auto simp: cands_of_def c)
    have lease: "lease \<noteq> []" "nul \<notin> set lease"
      using hex_encode_ne [OF b(1)] hex_encode_no_nul take(5) by auto
    have good1: "good K s s1"
      by (rule claim_step_good [OF Cons.prems(2) take(1,2) tnt b(2) lease take(6-9)])
    have id: "o_ID ob = oid" using o(2) by (simp add: take(6) leased_object_def)
    have objs: "contents K s1 BObjects = (contents K s BObjects)(oid \<mapsto> CObject ob)"
      using id by (simp add: take(7) set_object_objects)
    have clms: "contents K s1 BClaims = (contents K s BClaims)(lease \<mapsto> CClaim (new_claim tenant opts lease ob))"
      using id take(1) lid drop_claim_claims [of "contents K s" oid ob0]
      by (simp add: take(7) set_object_claims claim_upd_def new_claim_def)
    have fresh: "fresh_leases rand (Suc n) (contents K s1)"
      unfolding fresh_leases_def
    proof (intro conjI allI impI; elim conjE)
      fix i c assume i: "Suc n \<le> i" "rand i = Inr c"
      have "hex_encode c \<noteq> lease"
      proof
        assume "hex_encode c = lease"
        with i(2) take(4,5) Cons.prems(3) have "i = n" unfolding fresh_leases_def by blast
        with i(1) show False by simp
      qed
      moreover have "n \<le> i" using i(1) by simp
      then have "length c = 16 \<and> contents K s BClaims (hex_encode c) = None"
        using i(2) Cons.prems(3) unfolding fresh_leases_def by blast
      ultimately show "length c = 16" "contents K s1 BClaims (hex_encode c) = None"
        by (simp_all add: clms)
    qed (use Cons.prems(3) in \<open>auto simp: fresh_leases_def\<close>)
    have cands1: "cands_of tenant cs (contents K s1)"
      using cands tnt by (auto simp: cands_of_def objs take(6) leased_object_def)
    from Cons.IH [OF take(10) good_cat [OF good1] fresh cands1] obtain cls where
      IH: "good K s1 s'" "r = (acc @ [new_claim tenant opts lease ob]) @ cls"
        "claimed opts now (contents K s1) (contents K s') cs cls"
        "\<forall>cl\<in>set cls. \<exists>i b. rand i = Inr b \<and> c_LeaseID cl = hex_encode b" by blast
    moreover have "c_LeaseID (new_claim tenant opts lease ob) = hex_encode b" by (simp add: new_claim_def take(5))
    ultimately have src: "\<forall>cl\<in>set (new_claim tenant opts lease ob # cls). \<exists>i b. rand i = Inr b \<and> c_LeaseID cl = hex_encode b"
      using take(4) by auto
    have "claimed opts now (contents K s) (contents K s') ((seq, oid) # cs) (new_claim tenant opts lease ob # cls)"
      by (rule claimed_take [OF take(1-3) lid o(2) b(2) take(6) refl take(7) IH(3)])
    with IH(2) src good_trans [OF good1 IH(1)] show ?thesis unfolding c by (metis append.assoc append_Cons append_Nil)
  qed
qed

subsection \<open>The end of a lease\<close>

text \<open>A deletion at the end of a lease: the claim and the lease entry are already gone, and the object
  handed over has no lease any more. The outcome is that of deleting the leased object.\<close>

lemma delete_released:
  assumes "catalog_ok g n" and ob: "g BObjects (o_ID ob) = Some (CObject ob)" "o_State ob = StateLeased"
    and g1: "g1 = upd (upd g BClaims (o_LeaseID ob) None) BLeases (timeIDKey (o_LeaseUntil ob) (o_ID ob)) None"
    and ob': "o_ID ob' = o_ID ob" "o_Tenant ob' = o_Tenant ob" "o_Path ob' = o_Path ob" "o_BlobPath ob' = o_BlobPath ob"
      "o_Size ob' = o_Size ob" "o_State ob' = o_State ob" "o_QueueSeq ob' = o_QueueSeq ob" "o_LeaseID ob' = []"
    and d1: "d1 = d\<lparr>d_claims := d_claims d - 1\<rparr>"
  shows "deletable ob' g1" "delete_view now reason ob' g1 = delete_view now reason ob g"
    "delete_delta ob' g1 d1 = delete_delta ob g d"
proof -
  note o = catalog_object [OF assms(1) ob(1)]
  have l: "o_LeaseID ob \<noteq> []" "o_QueueSeq ob = 0" using o(1) ob(2) by (auto simp: obj_ok_def)
  from leased_claim [OF catalog_okD(4) [OF assms(1)] ob] obtain cl where cl: "g BClaims (o_LeaseID ob) = Some (CClaim cl)"
    by blast
  show "deletable ob' g1"
    unfolding deletable_def using o ob ob' l by (intro conjI exI [of _ "CObject ob"]) (simp_all add: g1)
  have names: "free_name ob' g1 = free_name ob g1" using ob' by (simp add: free_name_def)
  show "delete_view now reason ob' g1 = delete_view now reason ob g"
  proof
    fix B
    show "delete_view now reason ob' g1 B = delete_view now reason ob g B"
      using ob ob' l
      by (cases B) (simp_all add: delete_view_def drop_rec_def write_rec_def free_claim_def free_name_def
          Let_def indexBuckets_def tomb_of_def gc_of_def g1)
  qed
  have "move ob' = move ob" using ob' by (intro move_cong) simp_all
  then show "delete_delta ob' g1 d1 = delete_delta ob g d"
    using ob ob' l cl by (simp add: delete_delta_def g1 d1)
qed

text \<open>An object leaves its state for one without a lease.\<close>

lemma settle_good:
  assumes cat: "cat K s0" and ob: "contents K s0 BObjects (o_ID ob) = Some (CObject ob)"
    and same: "o_ID ob2 = o_ID ob" "o_Tenant ob2 = o_Tenant ob" "o_Size ob2 = o_Size ob" "o_Path ob2 = o_Path ob"
    and ok: "obj_ok ob2" "o_State ob2 \<noteq> StateLeased"
    and seq: "o_QueueSeq ob2 = 0 \<and> seqs K s' BQueue = seqs K s0 BQueue \<or>
      o_QueueSeq ob2 = Suc (seqs K s0 BQueue) \<and> seqs K s' BQueue = Suc (seqs K s0 BQueue) \<and>
      Suc (seqs K s0 BQueue) < 2 ^ 64"
    and view: "contents K s' = set_object ob2 None (contents K s0)"
    and moved: "snd s' = move ob2 (o_State ob) (o_State ob2)
      (if o_LeaseID ob = [] then snd s0 else (snd s0)\<lparr>d_claims := d_claims (snd s0) - 1\<rparr>)"
  shows "good K s0 s'"
proof (rule rewrite_good [OF cat _ same(2,3) view])
  show st: "contents K s0 BObjects (o_ID ob2) = Some (CObject ob)" using ob same(1) by simp
  have "\<not> o_Retracted ob2" using ok by (simp add: obj_ok_def)
  then show "may_set ob2 None (contents K s0) (seqs K s0 BQueue) (seqs K s' BQueue)"
    using same ok seq by (intro may_rewrite [OF cat st]) auto
  have "o_State ob \<noteq> StateNone"
    using catalog_object(1) [OF cat [unfolded cat_def] ob] by (auto simp: obj_ok_def)
  then show "delta_moves ob2 (o_State ob)
      ((if (None :: claim option) = None then 0 else 1) - (if o_LeaseID ob = [] then 0 else 1)) (snd s0) (snd s')"
    using delta_moves_claims' [of ob2 "o_State ob" 0 "snd s0" "-1", OF delta_moves_move]
      delta_moves_move [of "o_State ob" "o_State ob2" ob2 "snd s0"]
    by (simp add: moved)
qed

lemma park_good:
  assumes cat: "cat K s0" and ob: "contents K s0 BObjects (o_ID ob) = Some (CObject ob)" "o_State ob = StateLeased"
    and s: "contents K s = upd (upd (contents K s0) BClaims (o_LeaseID ob) None)
        BLeases (timeIDKey (o_LeaseUntil ob) (o_ID ob)) None"
      "seqs K s = seqs K s0" "snd s = (snd s0)\<lparr>d_claims := d_claims (snd s0) - 1\<rparr>"
    and ob2: "ob2 = (unleased now opts a ob)\<lparr>o_LastError := e, o_State := StateParked, o_ParkedAt := now\<rparr>"
      "\<not> o_Retracted ob"
    and run: "tseq (tmod (move ob2 StateLeased StateParked))
              (tseq (tput K BParked (parkedKey (o_Tenant ob) now (o_ID ob)) (CRaw [])) (putObject K ob2)) s = Inr (x, s')"
  shows "good K s0 s'"
proof -
  note o = catalog_object [OF cat [unfolded cat_def] ob(1)]
  have l: "o_LeaseID ob \<noteq> []" "o_QueueSeq ob = 0" using o(1) ob(2) by (auto simp: obj_ok_def)
  have f: "o_ID ob2 = o_ID ob" "o_State ob2 = StateParked" "o_QueueSeq ob2 = 0"
    using l by (simp_all add: ob2)
  from run have s': "contents K s' = upd (upd (contents K s) BParked
        (parkedKey (o_Tenant ob2) (o_ParkedAt ob2) (o_ID ob2)) (Some (CRaw []))) BObjects (o_ID ob2) (Some (CObject ob2))"
      "seqs K s' = seqs K s" "snd s' = move ob2 StateLeased StateParked (snd s)"
    by (auto simp: txn_simps ob2 dest!: step_effs)
  show ?thesis
  proof (rule settle_good [OF cat ob(1) f(1)])
    show "obj_ok ob2" using o(1) l ob2 by (simp add: obj_ok_def)
    show "contents K s' = set_object ob2 None (contents K s0)"
      unfolding s' s(1) by (rule park_view [of "contents K s0", OF ob l f])
  qed (use l s s' ob in \<open>simp_all add: ob2\<close>)
qed

lemma ready_again_good:
  assumes cat: "cat K s0" and ob: "contents K s0 BObjects (o_ID ob) = Some (CObject ob)" "o_State ob = StateLeased"
    and s: "contents K s = upd (upd (contents K s0) BClaims (o_LeaseID ob) None)
        BLeases (timeIDKey (o_LeaseUntil ob) (o_ID ob)) None"
      "seqs K s = seqs K s0" "snd s = (snd s0)\<lparr>d_claims := d_claims (snd s0) - 1\<rparr>"
    and run: "tbind (enqueue K ((unleased now opts a ob)\<lparr>o_State := StateReady\<rparr>) visible)
           (\<lambda>ob2. tseq (tmod (move ob2 StateLeased StateReady)) (putObject K ob2)) s = Inr (x, s')"
      "\<not> o_Retracted ob"
  shows "good K s0 s'"
proof -
  note o = catalog_object [OF cat [unfolded cat_def] ob(1)]
  have l: "o_LeaseID ob \<noteq> []" "o_QueueSeq ob = 0" using o(1) ob(2) by (auto simp: obj_ok_def)
  from run(1) obtain ob2 s1 where e: "enqueue K ((unleased now opts a ob)\<lparr>o_State := StateReady\<rparr>) visible s = Inr (ob2, s1)"
    and s': "contents K s' = upd (contents K s1) BObjects (o_ID ob2) (Some (CObject ob2))"
      "seqs K s' = seqs K s1" "snd s' = move ob2 StateLeased StateReady (snd s1)"
    by (auto simp: txn_simps dest!: putObject_eff)
  note e' = enqueue_eff [OF e]
  have f: "o_ID ob2 = o_ID ob" "o_State ob2 = StateReady" "o_QueueSeq ob2 \<noteq> 0" "o_Tenant ob2 = o_Tenant ob"
    by (simp_all add: e'(1))
  show ?thesis
  proof (rule settle_good [OF cat ob(1) f(1)])
    show "obj_ok ob2" using o(1) l run(2) by (simp add: obj_ok_def e'(1))
    show "contents K s' = set_object ob2 None (contents K s0)"
      unfolding s' e'(5) s(1) by (rule release_view [of "contents K s0", OF ob l f])
    show "o_QueueSeq ob2 = 0 \<and> seqs K s' BQueue = seqs K s0 BQueue \<or>
      o_QueueSeq ob2 = Suc (seqs K s0 BQueue) \<and> seqs K s' BQueue = Suc (seqs K s0 BQueue) \<and>
      Suc (seqs K s0 BQueue) < 2 ^ 64"
      using e'(2,3) s(2) s'(2) by (simp add: e'(1))
  qed (use l s s' ob e'(4) in \<open>simp_all add: e'(1)\<close>)
qed

lemma afterDelivery_good:
  assumes cat: "cat K s0" and ob: "contents K s0 BObjects (o_ID ob) = Some (CObject ob)" "o_State ob = StateLeased"
    and s: "contents K s = upd (upd (contents K s0) BClaims (o_LeaseID ob) None)
        BLeases (timeIDKey (o_LeaseUntil ob) (o_ID ob)) None"
      "seqs K s = seqs K s0" "snd s = (snd s0)\<lparr>d_claims := d_claims (snd s0) - 1\<rparr>"
    and run: "afterDelivery K src now (ob\<lparr>o_Attempts := a\<rparr>) opts s = Inr (x, s')"
  shows "good K s0 s'"
proof -
  note c = cat [unfolded cat_def]
  note o = catalog_object [OF c ob(1)]
  note run' = run [unfolded afterDelivery_eq Let_def]
  show ?thesis
  proof (cases "o_Retracted ob")
    case True
    let ?ob1 = "unleased now opts a ob"
    have r: "deleteObjectTx K now ?ob1 ''retracted'' s = Inr (x, s')" using True run' by simp
    note d = delete_released [of "contents K s0", OF c ob s(1), of ?ob1, OF _ _ _ _ _ _ _ _ s(3)]
    note eff = deleteObjectTx_eff [OF r]
    show ?thesis
      using delete_view_ok [OF c ob(1)] eff d o(4)
        delete_view_balanced [of "contents K s0" ob "snd s0", OF finite_contents ob(1) o(1) o(6)]
      by (simp add: good_def cat_def s(2))
  next
    case False
    then show ?thesis
      using run' park_good [OF cat ob s refl False] ready_again_good [OF cat ob s _ False]
      by (simp split: if_splits)
  qed
qed

subsection \<open>The transactions\<close>

lemma release_sound: "sound K (release_tx K src now tenant leaseID opts)"
proof (rule soundI)
  fix s x s'
  assume cat: "cat K s" and run: "release_tx K src now tenant leaseID opts s = Inr (x, s')"
  note c = cat [unfolded cat_def]
  from run obtain cl where cl: "contents K s BClaims leaseID = Some (CClaim cl)"
    by (cases "json_claim (contents K s BClaims leaseID)") (auto simp: release_tx_def txn_simps)
  from catalog_okD(4) [OF c] cl obtain ob where ob: "contents K s BObjects (c_ObjectID cl) = Some (CObject ob)"
    "o_State ob = StateLeased" "claim_of cl ob" by (rule claim_leased)
  have l: "o_LeaseID ob = leaseID" "o_ID ob = c_ObjectID cl"
    using ob(3) records_id(3) [OF catalog_okD(1) [OF c] cl] by (simp_all add: claim_of_def)
  define a where "a = (if ro_Uncounted opts \<and> 0 < o_Attempts ob then o_Attempts ob - 1 else o_Attempts ob)"
  have eq: "(if ro_Uncounted opts \<and> 0 < o_Attempts ob then ob\<lparr>o_Attempts := o_Attempts ob - 1\<rparr> else ob) =
      ob\<lparr>o_Attempts := a\<rparr>" by (simp add: a_def)
  from run cl obtain s0 where s0: "tdel K BClaims leaseID s = Inr ((), s0)"
    by (auto simp: release_tx_def txn_simps split: if_splits)
  have get: "json_object (contents K s0 BObjects (c_ObjectID cl)) = Inr ob" using tdel_eff [OF s0] ob(1) by simp
  obtain s1 where s1: "tdel K BLeases (timeIDKey (o_LeaseUntil ob) (o_ID ob))
        (fst s0, (snd s0)\<lparr>d_claims := d_claims (snd s0) - 1\<rparr>) = Inr ((), s1)"
    and after: "afterDelivery K src now (ob\<lparr>o_Attempts := a\<rparr>) opts s1 = Inr (x, s')"
    using run cl ob(2) l get s0
    by (auto simp: release_tx_def txn_simps eq split: if_splits)
  show "good K s s'"
    by (rule afterDelivery_good [OF cat _ ob(2) _ _ _ after])
      (use tdel_eff [OF s0] tdel_eff [OF s1] ob(1) l in \<open>simp_all add: txn_simps\<close>)
qed

lemma requeue_sound: "sound K (requeue_tx K now tenant objectID)"
proof (rule soundI)
  fix s x s'
  assume cat: "cat K s" and run: "requeue_tx K now tenant objectID s = Inr (x, s')"
  note c = cat [unfolded cat_def]
  from run obtain ob where ob: "contents K s BObjects objectID = Some (CObject ob)" "o_State ob = StateParked"
    by (cases "json_object (contents K s BObjects objectID)")
      (auto simp: requeue_tx_def txn_simps split: if_splits)
  note o = catalog_object [OF c ob(1)]
  have l: "o_LeaseID ob = []" "o_QueueSeq ob = 0" "\<not> o_Retracted ob" using o(1) ob(2) by (auto simp: obj_ok_def)
  let ?ob1 = "ob\<lparr>o_State := StateReady, o_Attempts := 0, o_ParkedAt := zero_time, o_UpdatedAt := now\<rparr>"
  from run ob obtain s1 ob2 s2 where
    s1: "tdel K BParked (parkedKey (o_Tenant ob) (o_ParkedAt ob) (o_ID ob)) s = Inr ((), s1)"
    and e: "enqueue K ?ob1 now s1 = Inr (ob2, s2)"
    and p: "putObject K ob2 (fst s2, move ob2 StateParked StateReady (snd s2)) = Inr (x, s')"
    by (auto simp: requeue_tx_def txn_simps split: if_splits)
  note effs = tdel_eff [OF s1] and e' = enqueue_eff [OF e] and p' = putObject_eff [OF p]
  have f: "o_ID ob2 = o_ID ob" "o_State ob2 = StateReady" "o_QueueSeq ob2 \<noteq> 0" by (simp_all add: e'(1))
  show "good K s s'"
  proof (rule settle_good [OF cat _ f(1)])
    show "contents K s BObjects (o_ID ob) = Some (CObject ob)" using ob o by simp
    show "obj_ok ob2" using o(1) l by (simp add: obj_ok_def e'(1))
    show "contents K s' = set_object ob2 None (contents K s)"
      using requeue_view [of "contents K s", OF _ ob(2) l(1,2) f] ob(1) o(2) p' e'(5) effs
      by (simp add: txn_simps)
    show "o_QueueSeq ob2 = 0 \<and> seqs K s' BQueue = seqs K s BQueue \<or>
      o_QueueSeq ob2 = Suc (seqs K s BQueue) \<and> seqs K s' BQueue = Suc (seqs K s BQueue) \<and>
      Suc (seqs K s BQueue) < 2 ^ 64"
      using e'(1-3) effs p' by (simp add: txn_simps)
  qed (use l ob p' e' effs in \<open>simp_all add: txn_simps\<close>)
qed

lemma renew_run:
  assumes run: "renew_tx K now tenant leaseID ttl s = Inr (cl', s')" and cat: "cat K s"
  obtains ob cl until where "contents K s BObjects (o_ID ob) = Some (CObject ob)" "o_State ob = StateLeased"
    "o_LeaseID ob = leaseID" "o_Tenant ob = tenant" "now < o_LeaseUntil ob" "now < until"
    "contents K s BClaims leaseID = Some (CClaim cl)" "claim_of cl ob"
    "cl' = cl\<lparr>c_LeaseUntil := until\<rparr>"
    "contents K s' = set_object (ob\<lparr>o_LeaseUntil := until, o_UpdatedAt := now\<rparr>) (Some cl') (contents K s)"
    "seqs K s' = seqs K s" "snd s' = snd s"
proof -
  note c = cat [unfolded cat_def]
  from run obtain cl where cl: "contents K s BClaims leaseID = Some (CClaim cl)" "c_Tenant cl = tenant"
    by (cases "json_claim (contents K s BClaims leaseID)") (auto simp: renew_tx_def txn_simps split: if_splits)
  from catalog_okD(4) [OF c] cl(1) obtain ob where ob: "contents K s BObjects (c_ObjectID cl) = Some (CObject ob)"
    "o_State ob = StateLeased" "claim_of cl ob" by (rule claim_leased)
  have l: "o_LeaseID ob = leaseID" "o_ID ob = c_ObjectID cl" "o_Tenant ob = tenant" "c_LeaseID cl = leaseID"
    using ob(3) records_id(3) [OF catalog_okD(1) [OF c] cl(1)] cl(2) by (simp_all add: claim_of_def)
  define e0 where "e0 = (if ttl \<le> 0 then wrap64 (c_LeaseSeconds cl * second) else ttl)"
  define until where "until = now + (if e0 \<le> 0 then 2 * minute else e0)"
  have gt: "now < until" by (simp add: until_def)
  define ob' where "ob' = ob\<lparr>o_LeaseUntil := until, o_UpdatedAt := now\<rparr>"
  from run cl ob l obtain s1 s2 s3 where
    alive: "now < o_LeaseUntil ob" and cl': "cl' = cl\<lparr>c_LeaseUntil := until\<rparr>"
    and s1: "tdel K BLeases (timeIDKey (o_LeaseUntil ob) (o_ID ob)) s = Inr ((), s1)"
    and s2: "tput K BLeases (timeIDKey (o_LeaseUntil ob') (o_ID ob')) (CRaw leaseID) s1 = Inr ((), s2)"
    and s3: "tput K BClaims leaseID (CClaim cl') s2 = Inr ((), s3)"
    and s': "putObject K ob' s3 = Inr ((), s')"
    by (auto simp: renew_tx_def txn_simps Let_def ob'_def until_def e0_def split: if_splits)
  have o: "o_QueueSeq ob = 0" "o_LeaseID ob \<noteq> []"
    using catalog_object(1) [OF c ob(1)] ob(2) by (auto simp: obj_ok_def)
  have stored: "contents K s BObjects (o_ID ob) = Some (CObject ob)" using ob(1) l by simp
  have view: "contents K s' = set_object ob' (Some cl') (contents K s)"
    using renew_view [of "contents K s" ob ob' cl'] tdel_eff [OF s1] tput_eff [OF s2] tput_eff [OF s3]
      putObject_eff [OF s'] stored ob(2) o l
    by (simp add: ob'_def cl')
  show thesis
    by (rule that [OF stored ob(2) l(1,3) alive gt cl(1) ob(3) cl' view [unfolded ob'_def]])
      (use tdel_eff [OF s1] tput_eff [OF s2] tput_eff [OF s3] putObject_eff [OF s'] in simp_all)
qed

lemma renew_sound: "sound K (renew_tx K now tenant leaseID ttl)"
proof (rule soundI)
  fix s cl' s'
  assume cat: "cat K s" and run: "renew_tx K now tenant leaseID ttl s = Inr (cl', s')"
  from run cat show "good K s s'"
  proof (rule renew_run)
    fix ob cl until
    assume ob: "contents K s BObjects (o_ID ob) = Some (CObject ob)" "o_State ob = StateLeased"
      "o_LeaseID ob = leaseID" and cl: "contents K s BClaims leaseID = Some (CClaim cl)" "claim_of cl ob"
      "cl' = cl\<lparr>c_LeaseUntil := until\<rparr>"
      and view: "contents K s' = set_object (ob\<lparr>o_LeaseUntil := until, o_UpdatedAt := now\<rparr>) (Some cl') (contents K s)"
      and rest: "seqs K s' = seqs K s" "snd s' = snd s"
    let ?ob = "ob\<lparr>o_LeaseUntil := until, o_UpdatedAt := now\<rparr>"
    note c = cat [unfolded cat_def]
    note o = catalog_object [OF c ob(1)]
    have st: "contents K s BObjects (o_ID ?ob) = Some (CObject ob)" using ob(1) by simp
    have nul: "nul \<notin> set leaseID" using records_id(3) [OF catalog_okD(1) [OF c] cl(1)] by simp
    show "good K s s'"
    proof (rule rewrite_good [OF cat st _ _ view])
      show "may_set ?ob (Some cl') (contents K s) (seqs K s BQueue) (seqs K s' BQueue)"
        using o(1) ob cl nul rest
        by (intro may_rewrite [OF cat st]) (simp_all add: obj_ok_def claim_of_def)
      have "o_LeaseID ob \<noteq> []" using o(1) ob(2) by (simp add: obj_ok_def)
      then show "delta_moves ?ob (o_State ob) ((if Some cl' = None then 0 else 1) - (if o_LeaseID ob = [] then 0 else 1))
          (snd s) (snd s')"
        using delta_moves_same [of "o_State ob" ?ob "snd s"] by (simp add: rest)
    qed simp_all
  qed
qed

text \<open>Rewriting a leased object under its claim, without touching lease or state.\<close>

lemma keep_claim_view:
  assumes "g BObjects (o_ID ob) = Some (CObject old)" "index_entry BQueue (CObject ob) = index_entry BQueue (CObject old)"
    "index_entry BQueueSeg (CObject ob) = index_entry BQueueSeg (CObject old)"
    "index_entry BLeases (CObject ob) = index_entry BLeases (CObject old)"
    "index_entry BHeld (CObject ob) = index_entry BHeld (CObject old)"
    "index_entry BParked (CObject ob) = index_entry BParked (CObject old)"
    "case clo of None \<Rightarrow> o_LeaseID old = [] | Some cl \<Rightarrow> o_LeaseID old = c_LeaseID cl \<and> g BClaims (c_LeaseID cl) = Some (CClaim cl)"
    "indexes_ok g" "records_ok g"
  shows "upd g BObjects (o_ID ob) (Some (CObject ob)) = set_object ob clo g"
proof
  fix B
  have e: "ins_entry (index_entry B (CObject old)) (del_entry (index_entry B (CObject old)) (g B)) = g B"
    if "B \<in> set indexBuckets" "primary_of B = BObjects"
  proof (cases "index_entry B (CObject old)")
    case (Some p)
    obtain k v where p: "p = (k, v)" by (cases p)
    have "in_sync B g" using assms(8) that(1) by (simp add: indexes_ok_def)
    from index_iff [OF this assms(9)] Some p that(2) assms(1) have "g B k = Some v" by auto
    with Some p show ?thesis by (auto simp: fun_eq_iff)
  qed simp
  show "upd g BObjects (o_ID ob) (Some (CObject ob)) B = set_object ob clo g B"
    using assms(1-7) e
    by (cases B; cases clo) (auto simp: view_defs fun_eq_iff simp del: queue_entry.simps queue_seg_entry.simps
        lease_entry.simps held_entry.simps parked_entry.simps)
qed

text \<open>An object rewritten in place, keeping everything its indexes and its claim depend on.\<close>

lemma touch_good:
  assumes cat: "cat K s" and old: "contents K s BObjects (o_ID ob) = Some (CObject old)"
    and same: "o_Tenant ob = o_Tenant old" "o_Path ob = o_Path old" "o_Size ob = o_Size old" "o_State ob = o_State old"
      "o_QueueSeq ob = o_QueueSeq old" "o_VisibleAt ob = o_VisibleAt old" "o_LeaseID ob = o_LeaseID old"
      "o_LeaseUntil ob = o_LeaseUntil old" "o_CreatedAt ob = o_CreatedAt old" "o_ParkedAt ob = o_ParkedAt old"
    and retr: "o_Retracted ob \<longrightarrow> o_State old = StateLeased \<and>
        (o_Retracted old \<or> (\<forall>k. contents K s BNamespace k \<noteq> Some (CRaw (o_ID ob))))"
    and s': "contents K s' = upd (contents K s) BObjects (o_ID ob) (Some (CObject ob))" "seqs K s' = seqs K s" "snd s' = snd s"
  shows "good K s s'"
proof -
  let ?g = "contents K s"
  note c = cat [unfolded cat_def]
  note o = catalog_object [OF c old]
  note id = o(2)
  have ok: "obj_ok ob" using o(1,2,4) same retr by (auto simp: obj_ok_def)
  obtain clo where clo: "case clo of None \<Rightarrow> o_LeaseID old = [] \<and> o_State old \<noteq> StateLeased
      | Some cl \<Rightarrow> o_State old = StateLeased \<and> o_LeaseID old = c_LeaseID cl \<and> ?g BClaims (c_LeaseID cl) = Some (CClaim cl) \<and> claim_of cl old"
  proof (cases "o_State old = StateLeased")
    case True
    from leased_claim [OF catalog_okD(4) [OF c] old True] obtain cl where
      "?g BClaims (o_LeaseID old) = Some (CClaim cl)" "claim_of cl old" .
    with True show thesis by (intro that [of "Some cl"]) (simp add: claim_of_def)
  next
    case False
    then show thesis using o(1) by (intro that [of None]) (simp add: obj_ok_def)
  qed
  have "upd ?g BObjects (o_ID ob) (Some (CObject ob)) = set_object ob clo ?g"
    using old same id clo catalog_okD(1,2) [OF c] by (intro keep_claim_view [of ?g ob old clo]) (auto split: option.splits)
  then have view: "contents K s' = set_object ob clo ?g" using s'(1) by simp
  show ?thesis
  proof (rule rewrite_good [OF cat old same(1,3) view])
    have nul: "nul \<notin> set (o_LeaseID ob)" if "clo = Some cl" for cl
      using clo that records_id(3) [OF catalog_okD(1) [OF c], of "c_LeaseID cl" cl] same by simp
    have co: "claim_of cl ob" if "claim_of cl old" for cl
      using that same id by (simp add: claim_of_def)
    have clo': "case clo of None \<Rightarrow> o_State ob \<noteq> StateLeased
      | Some cl \<Rightarrow> o_State ob = StateLeased \<and> claim_of cl ob \<and> nul \<notin> set (o_LeaseID ob) \<and>
          (contents K s BClaims (o_LeaseID ob) = None \<or> o_LeaseID old = o_LeaseID ob)"
      using clo co same(4,7) nul by (cases clo) simp_all
    show "may_set ob clo ?g (seqs K s BQueue) (seqs K s' BQueue)"
      by (rule may_rewrite [OF cat old ok same(1,2) _ clo']) (use retr same s'(2) in auto)
    have "(if clo = None then 0 else 1) - (if o_LeaseID old = [] then 0 else (1::int)) = 0"
      using clo o(1) by (auto simp: obj_ok_def split: option.splits)
    then show "delta_moves ob (o_State old) ((if clo = None then 0 else 1) - (if o_LeaseID old = [] then 0 else 1)) (snd s) (snd s')"
      using delta_moves_same [of "o_State old" ob "snd s"] same by (simp add: s'(3))
  qed
qed

lemma delete_sound: "sound K (delete_tx K now tenant objectID reason)"
proof (rule soundI)
  fix s x s'
  assume cat: "cat K s" and run: "delete_tx K now tenant objectID reason s = Inr (x, s')"
  note c = cat [unfolded cat_def]
  from run obtain ob where ob: "contents K s BObjects objectID = Some (CObject ob)" "o_Tenant ob = tenant"
    by (cases "json_object (contents K s BObjects objectID)") (auto simp: delete_tx_def txn_simps split: if_splits)
  note o = catalog_object [OF c ob(1)]
  let ?k = "nsKey (o_Tenant ob) (o_Path ob)"
  show "good K s s'"
  proof (cases "o_State ob = StateLeased")
    case False
    with run ob have "deleteObjectTx K now ob reason s = Inr ((), s')"
      by (auto simp: delete_tx_def txn_simps split: if_splits)
    then show ?thesis by (rule delete_good [OF cat ob(1)])
  next
    case True
    with run ob obtain s1 where
      s1: "twhen (raw_string (contents K s BNamespace ?k) = o_ID ob) (tdel K BNamespace ?k) s = Inr ((), s1)"
      and p: "putObject K (ob\<lparr>o_Retracted := True\<rparr>) s1 = Inr ((), s')"
      by (auto simp: delete_tx_def tbind_Inr tseq_Inr getters_Inr ret_Inr tget_Inr split: if_splits)
    have g1: "contents K s1 = free_name ob (contents K s)" "seqs K s1 = seqs K s" "snd s1 = snd s"
      using s1 by (auto simp: txn_simps free_name_def Let_def dest!: step_effs split: if_splits)
    have st: "contents K s BObjects (o_ID ob) = Some (CObject ob)" using ob(1) o(2) by simp
    have good1: "good K s s1"
    proof (rule frame_good)
      show "catalog_ok (contents K s1) (seqs K s1 BQueue)" using free_name_ok [OF c, of ob] by (simp add: g1)
      show "B \<in> {BObjects, BClaims, BGC, BUploads} \<Longrightarrow> contents K s1 B = contents K s B" for B
        by (auto simp: g1 free_name_def Let_def)
    qed (rule g1)
    have st1: "contents K s1 BObjects (o_ID (ob\<lparr>o_Retracted := True\<rparr>)) = Some (CObject ob)"
      using st by (simp add: g1 free_name_def Let_def)
    have "good K s1 s'"
      by (rule touch_good [OF good_cat [OF good1] st1])
        (use putObject_eff [OF p] True free_name_none [OF c st] in \<open>simp_all add: g1\<close>)
    with good1 show ?thesis by (rule good_trans)
  qed
qed

lemma commit_sound: "sound K (commit_tx K now tenant objectID leaseID digest sz)"
proof (rule soundI)
  fix s x s'
  assume cat: "cat K s" and run: "commit_tx K now tenant objectID leaseID digest sz s = Inr (x, s')"
  then consider "s' = s"
    | ob where "contents K s BObjects objectID = Some (CObject ob)" "deleteObjectTx K now ob ''committed'' s = Inr ((), s')"
    by (auto simp: commit_tx_def txn_simps split: if_splits sum.splits)
  then show "good K s s'"
    using good_refl [OF cat] delete_good [OF cat] by cases auto
qed

lemma update_object_sound:
  assumes "metadata_only f"
  shows "sound K (update_object_tx K now oid f)"
proof (rule soundI)
  fix s x s'
  assume cat: "cat K s" and run: "update_object_tx K now oid f s = Inr (x, s')"
  note c = cat [unfolded cat_def]
  from run obtain ob where ob: "contents K s BObjects oid = Some (CObject ob)"
    by (cases "json_object (contents K s BObjects oid)") (auto simp: update_object_tx_def txn_simps)
  from run ob obtain ob1 where ob1: "f ob = Inr ob1"
    by (cases "f ob") (auto simp: update_object_tx_def txn_simps)
  define ob' where "ob' = ob1\<lparr>o_UpdatedAt := now\<rparr>"
  from run ob ob1 have p: "tput K BObjects oid (CObject ob') s = Inr ((), s')"
    by (auto simp: update_object_tx_def txn_simps ob'_def split: if_splits)
  have "ob1 = ob\<lparr>o_SHA256 := o_SHA256 ob1, o_ETag := o_ETag ob1, o_Metadata := o_Metadata ob1, o_Tags := o_Tags ob1\<rparr>"
    using assms ob1 by (simp add: metadata_only_def)
  then obtain a b m t where eq: "ob' = ob\<lparr>o_SHA256 := a, o_ETag := b, o_Metadata := m, o_Tags := t, o_UpdatedAt := now\<rparr>"
    using ob'_def by metis
  note o = catalog_object [OF c ob]
  have st: "contents K s BObjects (o_ID ob') = Some (CObject ob)" "o_ID ob' = oid" using ob o(2) by (simp_all add: eq)
  have "o_Retracted ob \<longrightarrow> o_State ob = StateLeased" using o(1) by (simp add: obj_ok_def)
  then show "good K s s'"
    by (intro touch_good [OF cat st(1)]) (use tput_eff [OF p] st(2) in \<open>simp_all add: eq\<close>)
qed

lemma flush_ids_sound: "sound K (flush_ids K ids)"
proof (induction ids)
  case (Cons oid ids)
  show ?case
  proof (rule soundI)
    fix s x s'
    assume cat: "cat K s" and run: "flush_ids K (oid # ids) s = Inr (x, s')"
    then obtain s1 where
      s1: "twhen (contents K s BGC oid \<noteq> None) (tseq (tdel K BGC oid) (tmod (\<lambda>d. d\<lparr>d_gc := d_gc d - 1\<rparr>))) s = Inr ((), s1)"
      and rest: "flush_ids K ids s1 = Inr (x, s')"
      by (auto simp: tbind_Inr tseq_Inr tget_Inr)
    have "good K s s1"
    proof (cases "contents K s BGC oid = None")
      case True
      then show ?thesis using s1 good_refl [OF cat] by (simp add: twhen_Inr)
    next
      case False
      then have e: "contents K s1 = upd (contents K s) BGC oid None" "seqs K s1 = seqs K s"
        "snd s1 = (snd s)\<lparr>d_gc := d_gc (snd s) - 1\<rparr>"
        using s1 by (auto simp: txn_simps dest!: step_effs)
      have "size_of (contents K s1) BGC = size_of (contents K s) BGC - 1"
        using size_upd [of "contents K s" BGC "contents K s1" oid None] finite_contents False e(1) by simp
      moreover have "catalog_ok (contents K s1) (seqs K s1 BQueue)"
        unfolding e using cat [unfolded cat_def]
        by (intro catalog_frame) (auto simp: catalog_ok_def names_ok_def)
      ultimately show ?thesis
        by (simp add: good_def cat_def balanced_def e tally_def size_of_def woken_frame)
    qed
    then show "good K s s'" using soundD [OF Cons good_cat rest] good_trans by blast
  qed
qed simp

end

lemma collect_ok: "store_ok K (collect root rm gated oid tenant blob sz st) \<longleftrightarrow> store_ok K st"
  by (simp add: collect_def store_ok_def Let_def)

context bolt_laws
begin

lemma flushGC_keeps:
  assumes "store_ok K st"
  shows "store_ok K (flushGC K st)"
proof -
  let ?st = "st\<lparr>v_gcDone := []\<rparr>"
  let ?m = "tseq (tmod (\<lambda>d. d\<lparr>d_gc := 0\<rparr>)) (flush_ids K (v_gcDone st))"
  have ok: "store_ok K ?st" using assms by (simp add: store_ok_def)
  have "store_ok K (snd (update K ?m ?st))"
  proof (rule update_good [OF ok])
    fix x s' assume cat: "cat K (v_db ?st, delta0)" and run: "?m (v_db ?st, delta0) = Inr (x, s')"
    then have "flush_ids K (v_gcDone st) (v_db ?st, delta0) = Inr (x, s')"
      by (simp add: tseq_Inr tmod_Inr delta0_def)
    then show "good K (v_db ?st, delta0) s'" by (rule soundD [OF flush_ids_sound cat])
  qed
  then show ?thesis using ok
    by (auto simp: flushGC_def Let_def store_ok_def split: prod.splits sum.splits)
qed

end

end
