(* ===== verification/Queue_Order.thy ===== *)
theory Queue_Order
  imports Delivery_Correct
begin

text \<open>
  The queue as the claimers see it. The scan of \<open>findCandidates\<close> is equal to a pipeline of list
  functions (\<open>scan_queue_eq\<close>), its result is in queue order, and it consists of READY objects of the
  tenant that are visible and under the prefix; when the scan limit is not reached it misses none
  that is older than the ones it returns.
\<close>

section \<open>The scan as a pipeline\<close>

definition eligible_entry :: "gotime \<Rightarrow> string \<Rightarrow> string \<times> cell \<Rightarrow> bool" where
  "eligible_entry now pre e =
     (case parseQueueValue (raw_string (Some (snd e))) of (visible, p) \<Rightarrow>
        visible \<le> now \<and> (pre = [] \<or> pathHasPrefix p pre))"

lemma scan_queue_eq:
  assumes "int (length out) < mx"
  shows "scan_queue now pre mx seek n out l =
    out @ take (nat mx - length out) (map (parseTailKey \<circ> fst)
      (filter (eligible_entry now pre) (take (maxClaimScan - n) (takeWhile (\<lambda>e. hasPrefix (fst e) seek) l))))"
  using assms
proof (induction now pre mx seek n out l rule: scan_queue.induct)
  case (2 now pre mx seek n out k v rest)
  obtain visible p where vp: "parseQueueValue (raw_string (Some v)) = (visible, p)"
    by (cases "parseQueueValue (raw_string (Some v))")
  show ?case
  proof (cases "hasPrefix k seek \<and> n < maxClaimScan")
    case False
    then show ?thesis by auto
  next
    case True
    then have n: "maxClaimScan - n = Suc (maxClaimScan - Suc n)" by linarith
    have elig: "eligible_entry now pre (k, v) \<longleftrightarrow> visible \<le> now \<and> (pre = [] \<or> pathHasPrefix p pre)"
      by (simp add: eligible_entry_def vp)
    show ?thesis
    proof (cases "eligible_entry now pre (k, v)")
      case False
      with True elig vp 2(1,2) [OF _ _ vp [symmetric]] 2(4) n show ?thesis
        by (cases "now < visible") auto
    next
      case e: True
      show ?thesis
      proof (cases "mx \<le> int (length out) + 1")
        case full: True
        with 2(4) have "nat mx - length out = 1" by linarith
        with full e True elig vp n show ?thesis by auto
      next
        case False
        then have m: "nat mx - length out = Suc (nat mx - Suc (length out))" by linarith
        from False e True elig vp 2(3) [OF _ _ vp [symmetric] _ _ refl] n show ?thesis
          by (auto simp: m Let_def)
      qed
    qed
  qed
qed simp

section \<open>sortCandidates\<close>

lemma ins_cand_sorted:
  assumes "sorted (map fst (rev xs))"
  shows "sorted (map fst (rev (ins_cand c xs)))"
  using assms
proof (induction xs)
  case (Cons x xs)
  have "set (ins_cand c xs) = insert c (set xs)" by (induction xs) auto
  with Cons show ?case by (auto simp: sorted_append)
qed simp

lemma mset_ins_cand: "mset (ins_cand c xs) = add_mset c (mset xs)"
  by (induction xs) auto

lemma fold_ins_cand:
  "sorted (map fst (rev acc)) \<Longrightarrow>
   sorted (map fst (rev (fold ins_cand cs acc))) \<and> mset (fold ins_cand cs acc) = mset acc + mset cs"
  by (induction cs arbitrary: acc) (simp_all add: ins_cand_sorted mset_ins_cand)

lemma sortCandidates_sorted:
  "sorted (map fst (sortCandidates cs))" "mset (sortCandidates cs) = mset cs"
  using fold_ins_cand [of "[]" cs] by (simp_all add: sortCandidates_def)

lemma fold_ins_cand_id:
  "sorted (map fst (rev acc @ cs)) \<Longrightarrow> fold ins_cand cs acc = rev cs @ acc"
proof (induction cs arbitrary: acc)
  case (Cons c cs)
  have "ins_cand c acc = c # acc"
    using Cons.prems by (cases acc) (auto simp: sorted_append)
  with Cons.IH [of "c # acc"] Cons.prems show ?case by simp
qed simp

lemma sortCandidates_id: "sorted (map fst cs) \<Longrightarrow> sortCandidates cs = cs"
  using fold_ins_cand_id [of "[]" cs] by (simp add: sortCandidates_def)

section \<open>What the scan finds\<close>

definition queue_bucket :: "string \<Rightarrow> bkt" where
  "queue_bucket pre = (if pre = [] then BQueue else BQueueSeg)"

definition queue_prefix :: "string \<Rightarrow> string \<Rightarrow> string" where
  "queue_prefix tenant pre = (if pre = [] then tenant @ [nul] else tenant @ [nul] @ firstSegment pre @ [nul])"

text \<open>An object a claimer of the tenant may get: READY, visible (times before the epoch count as 0),
  under the prefix.\<close>

definition deliverable :: "gotime \<Rightarrow> string \<Rightarrow> string \<Rightarrow> object_version \<Rightarrow> bool" where
  "deliverable now tenant pre ob \<longleftrightarrow>
     o_Tenant ob = tenant \<and> o_State ob = StateReady \<and> max 0 (wrap64 (o_VisibleAt ob)) \<le> now \<and>
     (pre = [] \<or> pathHasPrefix (o_Path ob) pre)"

text \<open>The READY objects whose entries the scan walks over.\<close>

definition queued :: "view \<Rightarrow> string \<Rightarrow> string \<Rightarrow> object_version \<Rightarrow> bool" where
  "queued g tenant pre ob \<longleftrightarrow>
     g BObjects (o_ID ob) = Some (CObject ob) \<and> o_State ob = StateReady \<and> o_Tenant ob = tenant \<and>
     (pre = [] \<or> firstSegment (o_Path ob) = firstSegment pre)"

lemma firstSegment_no_nul: "nul \<notin> set p \<Longrightarrow> nul \<notin> set (firstSegment p)"
proof -
  have "set (fst (cut_at slash p)) \<subseteq> set p" by (induction p) (auto split: prod.splits)
  then show "nul \<notin> set p \<Longrightarrow> nul \<notin> set (firstSegment p)" by (auto simp: firstSegment_def split: prod.splits)
qed

lemma prefix_queue_keys:
  assumes "nul \<notin> set tenant" "nul \<notin> set t"
  shows "prefix (tenant @ [nul]) (queueKey t n oid) \<longleftrightarrow> t = tenant"
    and "nul \<notin> set p \<Longrightarrow> nul \<notin> set q \<Longrightarrow>
      prefix (tenant @ [nul] @ firstSegment p @ [nul]) (queueSegKey t q n oid) \<longleftrightarrow> t = tenant \<and> firstSegment q = firstSegment p"
proof -
  show "prefix (tenant @ [nul]) (queueKey t n oid) \<longleftrightarrow> t = tenant"
    using prefix_tenant [OF assms] by (auto simp: queueKey_def)
  assume pq: "nul \<notin> set p" "nul \<notin> set q"
  have seg: "nul \<notin> set (firstSegment p)" "nul \<notin> set (firstSegment q)" using pq firstSegment_no_nul by auto
  show "prefix (tenant @ [nul] @ firstSegment p @ [nul]) (queueSegKey t q n oid) \<longleftrightarrow> t = tenant \<and> firstSegment q = firstSegment p"
    using assms seg by (auto simp: queueSegKey_def prefix_def nul_split_eq)
qed

lemma queued_key_less:
  assumes "queued g tenant pre a" "queued g tenant pre b" "o_QueueSeq a < o_QueueSeq b" "o_QueueSeq b < 2 ^ 64"
    and "index_entry (queue_bucket pre) (CObject a) = Some (ka, va)"
      "index_entry (queue_bucket pre) (CObject b) = Some (kb, vb)"
  shows "ka < kb"
proof (cases "pre = []")
  case True
  then show ?thesis
    using assms queueKey_less [of "o_QueueSeq a" "o_QueueSeq b" tenant "o_ID a" "o_ID b"]
    by (auto simp: queue_bucket_def queued_def split: if_splits)
next
  case False
  then have seg: "firstSegment (o_Path a) = firstSegment (o_Path b)" using assms(1,2) by (simp add: queued_def)
  have "u64key (o_QueueSeq a) @ nul # o_ID a < u64key (o_QueueSeq b) @ nul # o_ID b"
    using assms(3,4) by (subst append_less_iff) (simp_all add: length_u64key u64key_less)
  then show ?thesis
    using False assms seg
    by (auto simp: queue_bucket_def queued_def queueSegKey_def append_cancel_less split: if_splits)
qed

context bolt_laws
begin

abbreviation scan_list :: "'db \<Rightarrow> string \<Rightarrow> string \<Rightarrow> (string \<times> cell) list" where
  "scan_list db tenant pre \<equiv> takeWhile (\<lambda>e. hasPrefix (fst e) (queue_prefix tenant pre))
     (b_seek K db (queue_bucket pre) (queue_prefix tenant pre))"

lemma scan_list_iff:
  assumes ok: "catalog_ok (b_get K db) n" and t: "nul \<notin> set tenant" and p: "pre = [] \<or> clean_path pre"
  shows "(k, v) \<in> set (scan_list db tenant pre) \<longleftrightarrow>
    (\<exists>ob. queued (b_get K db) tenant pre ob \<and> index_entry (queue_bucket pre) (CObject ob) = Some (k, v))"
proof -
  let ?B = "queue_bucket pre" and ?g = "b_get K db"
  have B: "primary_of ?B = BObjects" "?B \<in> set indexBuckets"
    by (simp_all add: queue_bucket_def indexBuckets_def)
  have sync: "in_sync ?B ?g" using catalog_okD(2) [OF ok] B(2) by (simp add: indexes_ok_def)
  have "(k, v) \<in> set (scan_list db tenant pre) \<longleftrightarrow> ?g ?B k = Some v \<and> prefix (queue_prefix tenant pre) k"
    using seek_prefix [of "queue_prefix tenant pre" db ?B] by auto
  also have "\<dots> \<longleftrightarrow> (\<exists>oid c. ?g BObjects oid = Some c \<and> index_entry ?B c = Some (k, v) \<and> prefix (queue_prefix tenant pre) k)"
    using index_iff [OF sync catalog_okD(1) [OF ok], of k v] B(1) by auto
  also have "\<dots> \<longleftrightarrow> (\<exists>ob. ?g BObjects (o_ID ob) = Some (CObject ob) \<and> index_entry ?B (CObject ob) = Some (k, v)
      \<and> prefix (queue_prefix tenant pre) k)"
    using records_kind(1) [OF catalog_okD(1) [OF ok]] by metis
  also have "\<dots> \<longleftrightarrow> (\<exists>ob. queued ?g tenant pre ob \<and> index_entry ?B (CObject ob) = Some (k, v))"
  proof (rule ex_cong1)
    fix ob
    show "(?g BObjects (o_ID ob) = Some (CObject ob) \<and> index_entry ?B (CObject ob) = Some (k, v) \<and> prefix (queue_prefix tenant pre) k)
      \<longleftrightarrow> (queued ?g tenant pre ob \<and> index_entry ?B (CObject ob) = Some (k, v))"
    proof (cases "?g BObjects (o_ID ob) = Some (CObject ob) \<and> index_entry ?B (CObject ob) = Some (k, v)")
      case True
      then have o: "obj_ok ob" using catalog_object(1) [OF ok] by blast
      then have st: "nul \<notin> set (o_Tenant ob)" "nul \<notin> set (o_Path ob)" "o_QueueSeq ob \<noteq> 0 \<longleftrightarrow> o_State ob = StateReady"
        by (simp_all add: obj_ok_def clean_path_nul)
      have "nul \<notin> set pre" using p clean_path_nul by auto
      with True st prefix_queue_keys [OF t st(1)] show ?thesis
        by (auto simp: queue_bucket_def queue_prefix_def queued_def split: if_splits)
    qed (auto simp: queued_def)
  qed
  finally show ?thesis .
qed

lemma scan_list_parse:
  assumes ok: "catalog_ok (b_get K db) n" and ob: "queued (b_get K db) tenant pre ob"
    and e: "index_entry (queue_bucket pre) (CObject ob) = Some (k, v)"
  shows "parseTailKey k = (o_QueueSeq ob, o_ID ob)" "o_QueueSeq ob \<noteq> 0" "o_QueueSeq ob < 2 ^ 64"
    "(pre = [] \<or> firstSegment (o_Path ob) = firstSegment pre) \<and>
     eligible_entry now pre (k, v) \<longleftrightarrow> deliverable now tenant pre ob"
proof -
  have g: "b_get K db BObjects (o_ID ob) = Some (CObject ob)" using ob by (simp add: queued_def)
  note o = catalog_object [OF ok g]
  show seq: "o_QueueSeq ob \<noteq> 0" using o(1) ob by (simp add: obj_ok_def queued_def)
  show lt: "o_QueueSeq ob < 2 ^ 64"
    using catalog_okD(7) [OF ok] g unfolding queue_seq_ok_def by (meson le_less_trans)
  show "parseTailKey k = (o_QueueSeq ob, o_ID ob)"
    using e seq parse_queueKey [OF o(3) lt] parse_queueSegKey [OF o(3) lt]
    by (auto simp: queue_bucket_def split: if_splits)
  have v: "v = CRaw (queueValue (o_VisibleAt ob) (o_Path ob))"
    using e seq by (auto simp: queue_bucket_def split: if_splits)
  show "(pre = [] \<or> firstSegment (o_Path ob) = firstSegment pre) \<and> eligible_entry now pre (k, v) \<longleftrightarrow> deliverable now tenant pre ob"
    using ob firstSegment_prefix [of "o_Path ob" pre]
    by (auto simp: eligible_entry_def v parse_queueValue deliverable_def queued_def)
qed

lemma scan_list_sorted:
  assumes ok: "catalog_ok (b_get K db) n" and t: "nul \<notin> set tenant" and p: "pre = [] \<or> clean_path pre"
  shows "sorted_wrt (<) (map (fst \<circ> parseTailKey \<circ> fst) (scan_list db tenant pre))"
proof -
  let ?L = "scan_list db tenant pre" and ?g = "b_get K db"
  have keys: "sorted_wrt (\<lambda>x y. fst x < fst y) ?L"
    using seek_sorted by (metis sorted_wrt_append takeWhile_dropWhile_id)
  have mono: "fst (parseTailKey (fst x)) < fst (parseTailKey (fst y))"
    if xy: "x \<in> set ?L" "y \<in> set ?L" "fst x < fst y" for x y
  proof -
    obtain a where a: "queued ?g tenant pre a" "index_entry (queue_bucket pre) (CObject a) = Some (fst x, snd x)"
      using scan_list_iff [OF assms, of "fst x" "snd x"] xy(1) by auto
    obtain b where b: "queued ?g tenant pre b" "index_entry (queue_bucket pre) (CObject b) = Some (fst y, snd y)"
      using scan_list_iff [OF assms, of "fst y" "snd y"] xy(2) by auto
    note pa = scan_list_parse [OF ok a] and pb = scan_list_parse [OF ok b]
    have "o_QueueSeq a \<noteq> o_QueueSeq b"
    proof
      assume "o_QueueSeq a = o_QueueSeq b"
      then have "o_ID a = o_ID b"
        using catalog_okD(7) [OF ok] a(1) b(1) pa(2) unfolding queue_seq_ok_def queued_def by blast
      then have "CObject a = CObject b" using a(1) b(1) unfolding queued_def by (metis option.inject)
      with a(2) b(2) xy(3) show False by simp
    qed
    moreover have "\<not> o_QueueSeq b < o_QueueSeq a"
      using queued_key_less [OF b(1) a(1) _ pa(3) b(2) a(2)] xy(3) by auto
    ultimately show ?thesis using pa(1) pb(1) by simp
  qed
  have "sorted_wrt (\<lambda>x y. fst (parseTailKey (fst x)) < fst (parseTailKey (fst y))) ?L"
    by (rule sorted_wrt_mono_rel [OF mono keys])
  then show ?thesis by (simp add: sorted_wrt_map)
qed

lemma findCandidates_eq:
  assumes ok: "catalog_ok (b_get K db) n" and t: "nul \<notin> set tenant" and p: "pre = [] \<or> clean_path pre"
    and mx: "0 < mx"
  shows "findCandidates K db tenant pre mx now =
    take (nat mx) (map (parseTailKey \<circ> fst) (filter (eligible_entry now pre) (take maxClaimScan (scan_list db tenant pre))))"
    (is "_ = ?R")
    and "sorted_wrt (<) (map fst (findCandidates K db tenant pre mx now))"
proof -
  have "sorted_wrt (<) (map (fst \<circ> parseTailKey \<circ> fst) (filter (eligible_entry now pre) (take maxClaimScan (scan_list db tenant pre))))"
    using scan_list_sorted [OF ok t p] unfolding sorted_wrt_map
    by (intro sorted_wrt_filter sorted_wrt_take)
  then have sorted: "sorted_wrt (<) (map fst ?R)"
    by (simp add: take_map [symmetric] sorted_wrt_map sorted_wrt_take comp_def)
  then have "sorted (map fst ?R)" by (rule strict_sorted_imp_sorted)
  then have "sortCandidates ?R = ?R" by (rule sortCandidates_id)
  with mx show eq: "findCandidates K db tenant pre mx now = ?R"
    by (auto simp: findCandidates_def scan_queue_eq queue_bucket_def queue_prefix_def Let_def)
  show "sorted_wrt (<) (map fst (findCandidates K db tenant pre mx now))"
    unfolding eq by (rule sorted)
qed

lemma findCandidates_sound:
  assumes "catalog_ok (b_get K db) n" "nul \<notin> set tenant" "pre = [] \<or> clean_path pre" "0 < mx"
    and "(seq, oid) \<in> set (findCandidates K db tenant pre mx now)"
  shows "\<exists>ob. b_get K db BObjects oid = Some (CObject ob) \<and> o_QueueSeq ob = seq \<and> deliverable now tenant pre ob"
proof -
  from assms(5) obtain k v where kv: "(k, v) \<in> set (scan_list db tenant pre)" "eligible_entry now pre (k, v)"
    "parseTailKey k = (seq, oid)"
    unfolding findCandidates_eq(1) [OF assms(1-4)] by (auto dest!: in_set_takeD)
  then obtain ob where ob: "queued (b_get K db) tenant pre ob" "index_entry (queue_bucket pre) (CObject ob) = Some (k, v)"
    using scan_list_iff [OF assms(1-3)] by blast
  from scan_list_parse [OF assms(1) ob] kv ob(1) show ?thesis
    by (intro exI [of _ ob]) (auto simp: queued_def)
qed

lemma length_scan_list: "length (scan_list db tenant pre) \<le> card (dom (b_get K db (queue_bucket pre)))"
proof -
  let ?L = "scan_list db tenant pre"
  have "distinct (map fst ?L)"
    using seek_distinct by (metis distinct_append map_append takeWhile_dropWhile_id)
  moreover have "fst ` set ?L \<subseteq> dom (b_get K db (queue_bucket pre))"
    by (auto dest!: set_takeWhileD simp: seek_set)
  ultimately show ?thesis
    using card_mono [OF finite_dom, of "fst ` set ?L" db] distinct_card [of "map fst ?L"] by simp
qed

lemma findCandidates_complete:
  assumes ok: "catalog_ok (b_get K db) n" and t: "nul \<notin> set tenant" and p: "pre = [] \<or> clean_path pre"
    and mx: "0 < mx" and lim: "card (dom (b_get K db (queue_bucket pre))) \<le> maxClaimScan"
    and ob: "b_get K db BObjects oid = Some (CObject ob)" "deliverable now tenant pre ob"
  shows "(o_QueueSeq ob, oid) \<in> set (findCandidates K db tenant pre mx now) \<or>
    length (findCandidates K db tenant pre mx now) = nat mx \<and>
    (\<forall>(seq, i)\<in>set (findCandidates K db tenant pre mx now). seq < o_QueueSeq ob)"
proof -
  let ?all = "map (parseTailKey \<circ> fst) (filter (eligible_entry now pre) (scan_list db tenant pre))"
  have eq: "findCandidates K db tenant pre mx now = take (nat mx) ?all"
    using findCandidates_eq(1) [OF ok t p mx] lim length_scan_list [of tenant pre db] by simp
  have sorted: "sorted_wrt (<) (map fst ?all)"
    using sorted_wrt_filter [OF scan_list_sorted [OF ok t p, unfolded sorted_wrt_map], of "eligible_entry now pre"]
    by (simp add: sorted_wrt_map comp_def)
  note o = catalog_object [OF ok ob(1)]
  have q: "queued (b_get K db) tenant pre ob"
    using ob o(2) firstSegment_prefix [of "o_Path ob" pre] by (auto simp: queued_def deliverable_def)
  have "o_QueueSeq ob \<noteq> 0" using o(1) q by (simp add: obj_ok_def queued_def)
  then obtain k v where e: "index_entry (queue_bucket pre) (CObject ob) = Some (k, v)"
    by (cases "pre = []") (auto simp: queue_bucket_def)
  note parse = scan_list_parse(1) [OF ok q e] scan_list_parse(4) [OF ok q e, of now]
  have "(k, v) \<in> set (scan_list db tenant pre)" using scan_list_iff [OF ok t p] q e by blast
  then have mem: "(o_QueueSeq ob, oid) \<in> set ?all"
    using parse ob(2) o(2) by (force simp: image_iff)
  show ?thesis
  proof (cases "(o_QueueSeq ob, oid) \<in> set (take (nat mx) ?all)")
    case False
    then have late: "(o_QueueSeq ob, oid) \<in> set (drop (nat mx) ?all)"
      using mem by (metis Un_iff append_take_drop_id set_append)
    then have len: "length (take (nat mx) ?all) = nat mx" by (cases "nat mx \<le> length ?all") auto
    have "sorted_wrt (<) (map fst (take (nat mx) ?all) @ map fst (drop (nat mx) ?all))"
      using sorted by (metis append_take_drop_id map_append)
    then have "\<forall>x\<in>set (take (nat mx) ?all). fst x < o_QueueSeq ob"
      using late by (force simp: sorted_wrt_append)
    with len show ?thesis unfolding eq by auto
  qed (simp add: eq)
qed

end

end
