(* ===== verification/Demo.thy ===== *)
theory Demo
  imports Store "HOL-Library.Code_Target_Nat"
begin

text \<open>
  A small concrete store on the reference database, on which the theorems are exercised: tenant
  \<open>t\<close> has a READY object (queue position 1), a LEASED one under lease \<open>l2\<close>, and a PARKED one.
\<close>

definition demo_ob1 :: object_version where
  "demo_ob1 =
     \<lparr>o_ID = ''o1'', o_Tenant = ''t'', o_Path = ''a/b'', o_BlobPath = ''/d/objects/t/o1.blob'', o_Size = 3,
      o_SHA256 = ''aa'', o_ETag = [], o_Metadata = [], o_Tags = [], o_Version = 1, o_State = StateReady,
      o_QueueSeq = 1, o_QueueKey = [], o_VisibleAt = 10, o_CreatedAt = 10, o_UpdatedAt = 10, o_LeaseID = [],
      o_LeaseClient = [], o_LeaseUntil = zero_time, o_Attempts = 0, o_LastError = [], o_ParkedAt = zero_time,
      o_Retracted = False\<rparr>"

definition demo_ob2 :: object_version where
  "demo_ob2 = demo_ob1\<lparr>o_ID := ''o2'', o_Path := ''c'', o_BlobPath := ''/d/objects/t/o2.blob'', o_Size := 4,
      o_SHA256 := ''bb'', o_Version := 2, o_State := StateLeased, o_QueueSeq := 0, o_LeaseID := ''l2'',
      o_LeaseClient := ''w'', o_LeaseUntil := 1000, o_Attempts := 1\<rparr>"

definition demo_ob3 :: object_version where
  "demo_ob3 = demo_ob1\<lparr>o_ID := ''o3'', o_Path := ''e'', o_BlobPath := ''/d/objects/t/o3.blob'', o_Size := 5,
      o_SHA256 := ''cc'', o_Version := 3, o_State := StateParked, o_QueueSeq := 0, o_ParkedAt := 20,
      o_Attempts := 10, o_LastError := ''bad''\<rparr>"

definition demo_claim :: claim where
  "demo_claim =
     \<lparr>c_LeaseID = ''l2'', c_ObjectID = ''o2'', c_Tenant = ''t'', c_ClientID = ''w'', c_Path = ''c'', c_Size = 4,
      c_SHA256 = ''bb'', c_Version = 2, c_Attempts = 1, c_LeaseUntil = 1000, c_LeaseSeconds = 60\<rparr>"

definition demo_cells :: "bkt \<Rightarrow> (string \<times> cell) list" where
  "demo_cells B =
     (case B of
        BObjects \<Rightarrow> [(''o3'', CObject demo_ob3), (''o2'', CObject demo_ob2), (''o1'', CObject demo_ob1)]
      | BClaims \<Rightarrow> [(''l2'', CClaim demo_claim)]
      | BNamespace \<Rightarrow> [(nsKey ''t'' ''e'', CRaw ''o3''), (nsKey ''t'' ''c'', CRaw ''o2''), (nsKey ''t'' ''a/b'', CRaw ''o1'')]
      | BQueue \<Rightarrow> [(queueKey ''t'' 1 ''o1'', CRaw (queueValue 10 ''a/b''))]
      | BQueueSeg \<Rightarrow> [(queueSegKey ''t'' ''a/b'' 1 ''o1'', CRaw (queueValue 10 ''a/b''))]
      | BLeases \<Rightarrow> [(timeIDKey 1000 ''o2'', CRaw ''l2'')]
      | BParked \<Rightarrow> [(parkedKey ''t'' 20 ''o3'', CRaw [])]
      | _ \<Rightarrow> [])"

definition demo_seqs :: "bkt \<Rightarrow> nat" where
  "demo_seqs B = (if B = BQueue then 1 else 0)"

definition demo_stats :: TenantStats where
  "demo_stats = TenantStats 3 1 1 0 1 12"

definition demo_store :: "mem store" where
  "demo_store =
     \<lparr>v_db = (demo_cells, demo_seqs),
      v_count = \<lparr>k_stats = \<lparr>s_objects = demo_stats, s_DeletePending = 0, s_Uploads = 0, s_Claims = 1\<rparr>,
                 k_tenants = [(''t'', demo_stats)]\<rparr>,
      v_notify = notifier_init, v_gcDone = [],
      v_files = [''/d/objects/t/o1.blob'' \<mapsto> ''abc'', ''/d/objects/t/o2.blob'' \<mapsto> ''defg'', ''/d/objects/t/o3.blob'' \<mapsto> ''hijkl''],
      v_draining = False, v_observed = [], v_inflight = 0, v_slots = 0, v_reserved = 0\<rparr>"

lemmas demo_obs = demo_ob1_def demo_ob2_def demo_ob3_def

definition empty_view :: view where
  "empty_view B k = None"

lemma empty_view_ok: "catalog_ok empty_view 0"
  by (simp add: catalog_ok_def records_ok_def keyed_def empty_view_def indexes_ok_def in_sync_def
      objects_ok_def claims_ok_def names_ok_def graves_ok_def queue_seq_ok_def derived_def fun_eq_iff)

definition demo_records :: view where
  "demo_records = set_object demo_ob3 None (set_object demo_ob2 (Some demo_claim) (set_object demo_ob1 None empty_view))"

lemma demo_path_ok: "clean_path ''a/b''" "clean_path ''c''" "clean_path ''e''"
  by code_simp+

lemma demo_records_ok: "catalog_ok demo_records 1"
proof -
  have 1: "catalog_ok (set_object demo_ob1 None empty_view) 1"
    by (rule set_object_ok [OF empty_view_ok])
      (simp add: may_set_def obj_ok_def demo_obs demo_path_ok empty_view_def)
  have 2: "catalog_ok (set_object demo_ob2 (Some demo_claim) (set_object demo_ob1 None empty_view)) 1"
    by (rule set_object_ok [OF 1])
      (simp add: may_set_def obj_ok_def demo_obs demo_path_ok empty_view_def demo_claim_def claim_of_def
        drop_claim_def set_object_objects set_object_claims claim_upd_def)
  show ?thesis
    unfolding demo_records_def
    by (rule set_object_ok [OF 2])
      (simp add: may_set_def obj_ok_def demo_obs demo_path_ok empty_view_def)
qed

lemma demo_objects: "demo_records BObjects = [''o1'' \<mapsto> CObject demo_ob1, ''o2'' \<mapsto> CObject demo_ob2, ''o3'' \<mapsto> CObject demo_ob3]"
  by (simp add: demo_records_def set_object_objects empty_view_def [abs_def] demo_obs)

lemma demo_catalog: "catalog_ok (b_get mem_bolt (demo_cells, demo_seqs)) 1"
proof -
  let ?n1 = "upd demo_records BNamespace (nsKey ''t'' ''a/b'') (Some (CRaw ''o1''))"
  let ?n2 = "upd ?n1 BNamespace (nsKey ''t'' ''c'') (Some (CRaw ''o2''))"
  let ?n3 = "upd ?n2 BNamespace (nsKey ''t'' ''e'') (Some (CRaw ''o3''))"
  have 1: "catalog_ok ?n1 1"
    using name_put_ok [OF demo_records_ok, of demo_ob1] by (simp add: demo_objects) (simp add: demo_obs)
  have 2: "catalog_ok ?n2 1"
    using name_put_ok [OF 1, of demo_ob2] by (simp add: demo_objects) (simp add: demo_obs)
  have 3: "catalog_ok ?n3 1"
    using name_put_ok [OF 2, of demo_ob3] by (simp add: demo_objects) (simp add: demo_obs)
  have "b_get mem_bolt (demo_cells, demo_seqs) = ?n3"
  proof
    fix B
    show "b_get mem_bolt (demo_cells, demo_seqs) B = ?n3 B"
      by (cases B) (simp_all add: mem_bolt_def demo_cells_def demo_records_def set_object_def write_rec_def
          claim_upd_def drop_claim_def free_claim_def indexBuckets_def empty_view_def [abs_def] demo_obs demo_claim_def)
  qed
  with 3 show ?thesis by simp
qed

lemma demo_ok: "store_ok mem_bolt demo_store"
proof -
  have objs: "b_get mem_bolt (demo_cells, demo_seqs) BObjects =
      [''o1'' \<mapsto> CObject demo_ob1, ''o2'' \<mapsto> CObject demo_ob2, ''o3'' \<mapsto> CObject demo_ob3]"
    by (simp add: mem_bolt_def demo_cells_def)
  have dom: "dom (b_get mem_bolt (demo_cells, demo_seqs) BObjects) = {''o1'', ''o2'', ''o3''}"
    unfolding objs by auto
  have tally: "tally (b_get mem_bolt (demo_cells, demo_seqs)) t = (if t = ''t'' then demo_stats else 0)" for t
    unfolding tally_def dom unfolding objs
    by (simp add: cell_stats_def demo_obs state_stats_def bump_def demo_stats_def stats_defs)
  have sizes: "size_of (b_get mem_bolt (demo_cells, demo_seqs)) BUploads = 0"
    "size_of (b_get mem_bolt (demo_cells, demo_seqs)) BClaims = 1"
    "size_of (b_get mem_bolt (demo_cells, demo_seqs)) BGC = 0"
    by (simp_all add: size_of_def mem_bolt_def demo_cells_def)
  have seq: "b_seq mem_bolt (demo_cells, demo_seqs) BQueue = 1"
    by (simp add: mem_bolt_def demo_seqs_def)
  show ?thesis
    using demo_catalog tally sizes seq
    by (simp add: store_ok_def demo_store_def counts_ok_def counters_ok_def counters_tenant_def lookup_stats_def
        total_stats_def)
qed

section \<open>A full disk\<close>

text \<open>The reference database on a full disk: nothing can be committed.\<close>

definition full_bolt :: "mem bolt" where
  "full_bolt = mem_bolt\<lparr>b_commit := (\<lambda>_. Some (ErrDB ''no space left on device''))\<rparr>"

lemma full_bolt_sel [simp]:
  "b_get full_bolt = b_get mem_bolt" "b_put full_bolt = b_put mem_bolt" "b_delete full_bolt = b_delete mem_bolt"
  "b_seq full_bolt = b_seq mem_bolt" "b_next full_bolt = b_next mem_bolt" "b_seek full_bolt = b_seek mem_bolt"
  "b_clear full_bolt = b_clear mem_bolt"
  by (simp_all add: full_bolt_def)

interpretation full: bolt_laws full_bolt
proof (unfold_locales, unfold full_bolt_sel)
  show "b_commit full_bolt db = Some e \<Longrightarrow> db_error e" for db e
    by (auto simp: full_bolt_def db_error_def)
qed (fact mem.put_view mem.put_seq mem.delete_total mem.delete_view mem.delete_seq mem.next_view mem.next_seq
    mem.clear_view mem.clear_seq mem.put_err mem.next_err mem.clear_err mem.seek_sorted mem.seek_set)+

lemma full_ok: "store_ok full_bolt demo_store"
  using demo_ok by (simp add: store_ok_def)

end
