(* ===== verification/Delivery_Theorems.thy ===== *)
theory Delivery_Theorems
  imports Queue_Order Demo
begin

text \<open>
  The properties of delivery at the level of the store operations, over an arbitrary database that
  satisfies the laws of bbolt.
\<close>

section \<open>Claiming under concurrency\<close>

text \<open>The lease identifiers in use by anyone are in \<open>L\<close>; the other transactions \<open>env\<close> keep the store
  well-formed and never change the tenant of an object; the random source gives 16 bytes, no
  identifier twice and none of \<open>L\<close>.\<close>

definition leases_in :: "'db bolt \<Rightarrow> string set \<Rightarrow> 'db store \<Rightarrow> bool" where
  "leases_in K L st \<longleftrightarrow> dom (b_get K (v_db st) BClaims) \<subseteq> L"

definition env_ok :: "'db bolt \<Rightarrow> string set \<Rightarrow> (nat \<Rightarrow> 'db store \<Rightarrow> 'db store) \<Rightarrow> bool" where
  "env_ok K L env \<longleftrightarrow>
     (\<forall>i st. store_ok K st \<and> leases_in K L st \<longrightarrow>
        store_ok K (env i st) \<and> leases_in K L (env i st) \<and>
        (\<forall>oid ob ob'. b_get K (v_db st) BObjects oid = Some (CObject ob) \<and>
           b_get K (v_db (env i st)) BObjects oid = Some (CObject ob') \<longrightarrow> o_Tenant ob' = o_Tenant ob))"

definition rand_ok :: "string set \<Rightarrow> (nat \<Rightarrow> nat \<Rightarrow> error + string) \<Rightarrow> bool" where
  "rand_ok L rand \<longleftrightarrow>
     (\<forall>a i b. rand a i = Inr b \<longrightarrow> length b = 16 \<and> hex_encode b \<notin> L) \<and>
     (\<forall>a i j b c. rand a i = Inr b \<and> rand a j = Inr c \<and> hex_encode b = hex_encode c \<longrightarrow> i = j)"

text \<open>A claim that is in force: it is stored, and its object is leased under it.\<close>

definition in_force :: "view \<Rightarrow> string \<Rightarrow> claim \<Rightarrow> bool" where
  "in_force g tenant cl \<longleftrightarrow>
     g BClaims (c_LeaseID cl) = Some (CClaim cl) \<and> c_Tenant cl = tenant \<and>
     (\<exists>ob. g BObjects (c_ObjectID cl) = Some (CObject ob) \<and> o_State ob = StateLeased \<and>
        o_LeaseID ob = c_LeaseID cl \<and> o_Tenant ob = tenant)"

lemma claimed_distinct:
  assumes "claimed opts now g g' cs cls"
  shows "distinct (map c_LeaseID cls)"
proof -
  have "distinct (map c_ObjectID cls)" "leases_taken opts now g g' cs cls" using assms by (simp_all add: claimed_def)
  then show ?thesis
    unfolding distinct_map leases_taken_def inj_on_def by (metis cell.inject(3) option.inject)
qed

context bolt_laws
begin

text \<open>One write transaction of \<open>Claim\<close>, run on a store that may have changed since the search.\<close>

lemma claim_update:
  assumes ok: "store_ok K st" and run: "update K (claim_cands K tenant opts now rand 0 [] cs) st = (Inr cls, st')"
    and fresh: "fresh_leases rand 0 (b_get K (v_db st))" and cands: "cands_of tenant cs (b_get K (v_db st))"
  shows "store_ok K st'" "claimed opts now (b_get K (v_db st)) (b_get K (v_db st')) cs cls"
    "\<forall>cl\<in>set cls. \<exists>i b. rand i = Inr b \<and> c_LeaseID cl = hex_encode b"
proof -
  have cat: "cat K (v_db st, delta0)" using ok by (simp add: store_ok_def cat_def)
  have spec: "good K (v_db st, delta0) s' \<and> claimed opts now (b_get K (v_db st)) (contents K s') cs r \<and>
      (\<forall>cl\<in>set r. \<exists>i b. rand i = Inr b \<and> c_LeaseID cl = hex_encode b)"
    if "claim_cands K tenant opts now rand 0 [] cs (v_db st, delta0) = Inr (r, s')" for r s'
    using claim_cands_spec [OF that cat] fresh cands by simp
  have "store_ok K (snd (update K (claim_cands K tenant opts now rand 0 [] cs) st))"
    using ok spec by (intro update_good) auto
  then show "store_ok K st'" by (simp add: run)
  from run obtain db d where "claim_cands K tenant opts now rand 0 [] cs (v_db st, delta0) = Inr (cls, (db, d))"
    "v_db st' = db" by (rule update_Inr)
  then show "claimed opts now (b_get K (v_db st)) (b_get K (v_db st')) cs cls"
    "\<forall>cl\<in>set cls. \<exists>i b. rand i = Inr b \<and> c_LeaseID cl = hex_encode b" using spec by force+
qed

lemma claimed_in_force:
  assumes ok: "store_ok K st'" and taken: "claimed opts now g (b_get K (v_db st')) cs cls"
    and cands: "cands_of tenant cs g" and cl: "cl \<in> set cls"
  shows "in_force (b_get K (v_db st')) tenant cl"
proof -
  let ?g = "b_get K (v_db st')"
  from taken cl obtain ob where ob: "g BObjects (c_ObjectID cl) = Some (CObject ob)"
    "(o_QueueSeq ob, c_ObjectID cl) \<in> set cs" "?g BClaims (c_LeaseID cl) = Some (CClaim cl)"
    "?g BObjects (c_ObjectID cl) = Some (CObject (leased_object opts now (c_LeaseID cl) (ob\<lparr>o_QueueSeq := 0\<rparr>)))"
    unfolding claimed_def leases_taken_def by blast
  have t: "o_Tenant ob = tenant" using cands ob(1,2) by (auto simp: cands_of_def)
  have "catalog_ok ?g (b_seq K (v_db st') BQueue)" using ok by (simp add: store_ok_def)
  from catalog_okD(4) [OF this] ob(3) obtain o' where "?g BObjects (c_ObjectID cl) = Some (CObject o')" "claim_of cl o'"
    by (rule claim_leased)
  with ob(4) t have "c_Tenant cl = tenant" by (simp add: claim_of_def leased_object_def)
  with ob t show ?thesis by (simp add: in_force_def leased_object_def)
qed

lemma claim_attempts_correct:
  assumes "claim_attempts K tenant opts pre clock rand env i n st = (Inr cls, st')"
    and t: "nul \<notin> set tenant" and p: "pre = [] \<or> clean_path pre" and mx: "0 < co_Max opts"
    and ok: "store_ok K st" "leases_in K L st" and env: "env_ok K L env" and rand: "rand_ok L rand"
  shows "store_ok K st' \<and> cls \<noteq> [] \<and> int (length cls) \<le> co_Max opts \<and> distinct (map c_ObjectID cls) \<and>
    distinct (map c_LeaseID cls) \<and> (\<forall>cl\<in>set cls. c_LeaseID cl \<notin> L \<and> in_force (b_get K (v_db st')) tenant cl)"
  using assms(1) ok
proof (induction n arbitrary: i st)
  case (Suc n)
  let ?cs = "findCandidates K (v_db st) tenant pre (co_Max opts) (clock i)"
  let ?m = "claim_cands K tenant opts (clock i) (rand i) 0 [] ?cs"
  have cat: "catalog_ok (b_get K (v_db st)) (b_seq K (v_db st) BQueue)" using Suc.prems(2) by (simp add: store_ok_def)
  have e: "store_ok K (env i st)" "leases_in K L (env i st)"
    using env Suc.prems(2,3) by (auto simp: env_ok_def)
  have fresh: "fresh_leases (rand i) 0 (b_get K (v_db (env i st)))"
    using rand e(2) unfolding rand_ok_def fresh_leases_def leases_in_def by blast
  have cands: "cands_of tenant ?cs (b_get K (v_db (env i st)))"
    unfolding cands_of_def
  proof (clarify)
    fix seq oid ob assume a: "(seq, oid) \<in> set ?cs" "b_get K (v_db (env i st)) BObjects oid = Some (CObject ob)"
    from findCandidates_sound [OF cat t p mx a(1)] obtain ob0 where
      "b_get K (v_db st) BObjects oid = Some (CObject ob0)" "o_Tenant ob0 = tenant"
      by (auto simp: deliverable_def)
    with env Suc.prems(2,3) a(2) show "o_Tenant ob = tenant" unfolding env_ok_def by blast
  qed
  obtain r st1 where r: "update K ?m (env i st) = (r, st1)" by (cases "update K ?m (env i st)")
  from Suc.prems(1) r obtain cls1 where cls1: "r = Inr cls1" "?cs \<noteq> []"
    by (cases r) (auto simp: Let_def split: if_splits)
  note u = claim_update [OF e(1) r [unfolded cls1(1)] fresh cands]
  show ?case
  proof (cases "cls1 = []")
    case True
    with Suc.prems(1) r cls1 have "claim_attempts K tenant opts pre clock rand env (Suc i) n st1 = (Inr cls, st')"
      by (auto simp: Let_def)
    moreover have "leases_in K L st1" using u(2) e(2) True by (auto simp: claimed_def leases_in_def dom_def)
    ultimately show ?thesis using Suc.IH u(1) by blast
  next
    case False
    with Suc.prems(1) r cls1 have eq: "cls1 = cls" "st1 = st'" by (auto simp: Let_def)
    note u' = u [unfolded eq]
    have len: "int (length cls) \<le> co_Max opts"
    proof -
      have "length cls \<le> length ?cs"
        using u'(2) list_emb_length unfolding claimed_def by (metis length_map)
      then show ?thesis using findCandidates_eq(1) [OF cat t p mx, of "clock i"] mx by auto
    qed
    have "c_LeaseID cl \<notin> L \<and> in_force (b_get K (v_db st')) tenant cl" if "cl \<in> set cls" for cl
    proof
      from u'(3) that obtain j b where "rand i j = Inr b" "c_LeaseID cl = hex_encode b" by blast
      with rand show "c_LeaseID cl \<notin> L" unfolding rand_ok_def by metis
      show "in_force (b_get K (v_db st')) tenant cl"
        by (rule claimed_in_force [OF u'(1,2) cands that])
    qed
    with u' False eq len claimed_distinct [OF u'(2)] show ?thesis by (simp add: claimed_def)
  qed
qed simp

subsection \<open>A claimer alone\<close>

lemma claim_cands_err:
  assumes "claim_cands K tenant opts now rand n acc cs s = Inl e"
  shows "db_error e \<or> (\<exists>i. rand i = Inl e)"
  using assms
proof (induction cs arbitrary: n acc s)
  case (Cons c cs)
  obtain seq oid where c: "c = (seq, oid)" by (cases c)
  show ?case
  proof (cases "\<exists>ob. contents K s BObjects oid = Some (CObject ob) \<and> o_State ob = StateReady \<and> o_QueueSeq ob = seq")
    case False
    then have "claim_cands K tenant opts now rand n acc cs s = Inl e"
      using Cons.prems
      by (cases "json_object (contents K s BObjects oid)")
        (auto simp: c tbind_def getObject_def tget_def ret_def contents_def split: if_splits)
    then show ?thesis by (rule Cons.IH)
  next
    case True
    then obtain ob where ob: "contents K s BObjects oid = Some (CObject ob)" "o_State ob = StateReady" "o_QueueSeq ob = seq"
      by auto
    have get: "getObject K oid s = Inr (Inr ob, s)"
      using ob(1) by (simp add: getObject_def tbind_def tget_def ret_def contents_def)
    show ?thesis
    proof (cases "rand n")
      case (Inl x)
      then show ?thesis using Cons.prems get ob(2,3)
        by (auto simp: c tbind_def randomID_def throw_def)
    next
      case (Inr b)
      then show ?thesis
        using Cons.prems get ob(2,3) Cons.IH
        by (auto simp: c tbind_def tseq_def randomID_def Let_def dequeue_def putObject_def tmod_def ret_def
            tdel_Inl dest: tput_Inl split: sum.splits prod.splits if_splits)
    qed
  qed
qed (simp add: ret_def)

end

lemma subseq_full:
  assumes "subseq xs ys" "set ys \<subseteq> set xs" "distinct ys"
  shows "xs = ys"
proof -
  have "length ys \<le> length xs"
    using assms(2,3) by (metis card_length card_mono distinct_card le_trans List.finite_set)
  then show ?thesis using assms(1) by (metis list_emb_length order_antisym subseq_same_length)
qed

context bolt_laws
begin

lemma claim_all:
  assumes ok: "store_ok K st" and t: "nul \<notin> set tenant" and p: "pre = [] \<or> clean_path pre" and mx: "0 < co_Max opts"
    and cs: "cs = findCandidates K (v_db st) tenant pre (co_Max opts) now"
    and taken: "claimed opts now (b_get K (v_db st)) g' cs cls"
  shows "map c_ObjectID cls = map snd cs"
proof (rule subseq_full)
  let ?g = "b_get K (v_db st)"
  have cat: "catalog_ok ?g (b_seq K (v_db st) BQueue)" using ok by (simp add: store_ok_def)
  show "subseq (map c_ObjectID cls) (map snd cs)" using taken by (simp add: claimed_def)
  have live: "\<exists>ob. ?g BObjects oid = Some (CObject ob) \<and> o_QueueSeq ob = seq \<and> o_State ob = StateReady"
    if "(seq, oid) \<in> set cs" for seq oid
    using findCandidates_sound [OF cat t p mx that [unfolded cs]] by (auto simp: deliverable_def)
  show "set (map snd cs) \<subseteq> set (map c_ObjectID cls)"
  proof
    fix oid assume "oid \<in> set (map snd cs)"
    then obtain seq where "(seq, oid) \<in> set cs" by auto
    with live taken show "oid \<in> set (map c_ObjectID cls)" by (fastforce simp: claimed_def)
  qed
  have "distinct (map fst cs)"
    using findCandidates_eq(2) [OF cat t p mx, of now] by (simp add: cs strict_sorted_iff)
  moreover have "inj_on snd (set cs)"
  proof (rule inj_onI)
    fix x y assume a: "x \<in> set cs" "y \<in> set cs" "snd x = snd y"
    obtain sx ox where x: "x = (sx, ox)" by (cases x)
    obtain sy oy where y: "y = (sy, oy)" by (cases y)
    from live [of sx ox] live [of sy oy] a show "x = y" by (auto simp: x y)
  qed
  ultimately show "distinct (map snd cs)" by (simp add: distinct_map)
qed

end

context bolt_laws
begin

text \<open>Alone, the first attempt decides: it claims every candidate found.\<close>

lemma claim_first_attempt:
  assumes t: "nul \<notin> set tenant" and p: "pre = [] \<or> clean_path pre" and mx: "0 < co_Max opts"
    and ok: "store_ok K st" "leases_in K L st" and rand: "rand_ok L rand"
    and run: "claim_attempts K tenant opts pre clock rand (\<lambda>_ st. st) 0 (Suc n) st = (r, st')"
  defines "cs \<equiv> findCandidates K (v_db st) tenant pre (co_Max opts) (clock 0)"
  shows "r = Inl ErrNotFound \<and> cs = [] \<or> (\<exists>e. r = Inl e \<and> cs \<noteq> [] \<and> (db_error e \<or> (\<exists>i. rand 0 i = Inl e))) \<or>
    (\<exists>cls. r = Inr cls \<and> map c_ObjectID cls = map snd cs)"
proof (cases "cs = []")
  case True
  then show ?thesis using run by (simp add: cs_def Let_def)
next
  case False
  let ?m = "claim_cands K tenant opts (clock 0) (rand 0) 0 [] cs"
  have cat: "catalog_ok (b_get K (v_db st)) (b_seq K (v_db st) BQueue)" using ok(1) by (simp add: store_ok_def)
  have fresh: "fresh_leases (rand 0) 0 (b_get K (v_db st))"
    using rand ok(2) unfolding rand_ok_def fresh_leases_def leases_in_def by blast
  have cands: "cands_of tenant cs (b_get K (v_db st))"
    using findCandidates_sound [OF cat t p mx] unfolding cands_of_def cs_def by (fastforce simp: deliverable_def)
  obtain x st1 where x: "update K ?m st = (x, st1)" by (cases "update K ?m st")
  show ?thesis
  proof (cases x)
    case (Inl e)
    have "db_error e \<or> (\<exists>i. rand 0 i = Inl e)"
    proof (cases "?m (v_db st, delta0)")
      case 1: (Inl e')
      then have "e' = e" using x Inl by (simp add: update_def)
      then show ?thesis using claim_cands_err [OF 1] by simp
    next
      case 2: (Inr y)
      then show ?thesis using x Inl commit_err by (auto simp: update_def split: prod.splits option.splits)
    qed
    moreover have "r = Inl e" using run False x Inl by (simp add: cs_def Let_def)
    ultimately show ?thesis using False by blast
  next
    case (Inr cls)
    note u = claim_update [OF ok(1) x [unfolded Inr] fresh cands]
    have eq: "map c_ObjectID cls = map snd cs"
      using claim_all [OF ok(1) t p mx _ u(2)] by (simp add: cs_def)
    then have "cls \<noteq> []" using False by auto
    then have "r = Inr cls" using run False x Inr by (simp add: cs_def Let_def)
    with eq show ?thesis by blast
  qed
qed

lemma claim_in_order:
  assumes "store_ok K st" "leases_in K L st" "rand_ok L rand" "nul \<notin> set tenant"
    and pre: "CleanPath (co_Prefix opts) = Inr pre"
    and run: "Claim K clock rand (\<lambda>_ st. st) tenant opts st = (Inr cls, st')"
    and lim: "card (dom (b_get K (v_db st) (queue_bucket pre))) \<le> maxClaimScan"
    and ob: "b_get K (v_db st) BObjects oid = Some (CObject ob)" "deliverable (clock 0) tenant pre ob"
  shows "\<exists>cs. map c_ObjectID cls = map snd cs \<and> sorted_wrt (<) (map fst cs) \<and>
    (\<forall>(seq, i)\<in>set cs. \<exists>o'. b_get K (v_db st) BObjects i = Some (CObject o') \<and> o_QueueSeq o' = seq \<and>
        deliverable (clock 0) tenant pre o') \<and>
    (oid \<in> set (map c_ObjectID cls) \<or>
     int (length cls) = co_Max (claim_opts opts) \<and> (\<forall>(seq, i)\<in>set cs. seq < o_QueueSeq ob))"
proof -
  let ?cs = "findCandidates K (v_db st) tenant pre (co_Max (claim_opts opts)) (clock 0)"
  have p: "pre = [] \<or> clean_path pre" using pre CleanPath_Inr by blast
  have mx: "0 < co_Max (claim_opts opts)" by (simp add: claim_opts_def)
  have cat: "catalog_ok (b_get K (v_db st)) (b_seq K (v_db st) BQueue)" using assms(1) by (simp add: store_ok_def)
  have four: "4 = Suc 3" by simp
  have "claim_attempts K tenant (claim_opts opts) pre clock rand (\<lambda>_ st. st) 0 (Suc 3) st = (Inr cls, st')"
    using run pre unfolding Claim_def four by (simp add: claim_opts_def Let_def del: claim_attempts.simps)
  from claim_first_attempt [OF assms(4) p mx assms(1-3) this]
  have map: "map c_ObjectID cls = map snd ?cs" by auto
  have len: "length cls = length ?cs" using map by (metis length_map)
  have "oid \<in> set (map c_ObjectID cls) \<or>
     int (length cls) = co_Max (claim_opts opts) \<and> (\<forall>(seq, i)\<in>set ?cs. seq < o_QueueSeq ob)"
    using findCandidates_complete [OF cat assms(4) p mx lim ob] mx unfolding map len by force
  moreover have "\<forall>(seq, i)\<in>set ?cs. \<exists>o'. b_get K (v_db st) BObjects i = Some (CObject o') \<and> o_QueueSeq o' = seq \<and>
        deliverable (clock 0) tenant pre o'"
    using findCandidates_sound [OF cat assms(4) p mx] by blast
  ultimately show ?thesis
    using map findCandidates_eq(2) [OF cat assms(4) p mx, of "clock 0"] by blast
qed

text \<open>\<open>ErrNotFound\<close> means there was nothing to deliver.\<close>

lemma claim_not_found:
  assumes "store_ok K st" "leases_in K L st" "rand_ok L rand" "nul \<notin> set tenant"
    and "\<forall>i. rand 0 i \<noteq> Inl ErrNotFound"
    and pre: "CleanPath (co_Prefix opts) = Inr pre"
    and run: "Claim K clock rand (\<lambda>_ st. st) tenant opts st = (Inl ErrNotFound, st')"
    and lim: "card (dom (b_get K (v_db st) (queue_bucket pre))) \<le> maxClaimScan"
    and ob: "b_get K (v_db st) BObjects oid = Some (CObject ob)"
  shows "\<not> deliverable (clock 0) tenant pre ob"
proof
  assume d: "deliverable (clock 0) tenant pre ob"
  have p: "pre = [] \<or> clean_path pre" using pre CleanPath_Inr by blast
  have mx: "0 < co_Max (claim_opts opts)" by (simp add: claim_opts_def)
  have cat: "catalog_ok (b_get K (v_db st)) (b_seq K (v_db st) BQueue)" using assms(1) by (simp add: store_ok_def)
  have four: "4 = Suc 3" by simp
  have "claim_attempts K tenant (claim_opts opts) pre clock rand (\<lambda>_ st. st) 0 (Suc 3) st = (Inl ErrNotFound, st')"
    using run pre unfolding Claim_def four by (simp add: claim_opts_def Let_def del: claim_attempts.simps)
  from claim_first_attempt [OF assms(4) p mx assms(1-3) this] assms(5)
  have "findCandidates K (v_db st) tenant pre (co_Max (claim_opts opts)) (clock 0) = []"
    by (auto simp: db_error_def)
  with findCandidates_complete [OF cat assms(4) p mx lim ob d] mx show False by simp
qed

end

context bolt_laws
begin

lemma delete_keeps: "store_ok K st \<Longrightarrow> store_ok K (snd (DeleteObject K root rm gated now tenant objectID reason st))"
  using update_ok [OF delete_sound, of st now tenant objectID reason]
  by (auto simp: DeleteObject_def collect_ok split: prod.splits sum.splits option.splits)

lemma commit_keeps: "store_ok K st \<Longrightarrow> store_ok K (snd (Commit K root rm gated now tenant objectID leaseID digest sz st))"
  using update_ok [OF commit_sound, of st now tenant objectID leaseID digest sz]
  by (auto simp: Commit_def collect_ok split: prod.splits sum.splits commit_outcome.splits)

subsection \<open>Commit\<close>

lemma commit_effect:
  assumes ok: "store_ok K st" and run: "Commit K root rm gated now tenant objectID leaseID digest sz st = (r, st')"
  shows "if r = Inr True
    then (\<exists>ob. b_get K (v_db st) BObjects objectID = Some (CObject ob) \<and> o_Tenant ob = tenant \<and> o_LeaseID ob = leaseID \<and>
           o_State ob = StateLeased \<and> o_Size ob = sz \<and> EqualFold (o_SHA256 ob) digest) \<and>
         b_get K (v_db st') BObjects = (b_get K (v_db st) BObjects)(objectID := None) \<and>
         b_get K (v_db st') BClaims = (b_get K (v_db st) BClaims)(leaseID := None) \<and>
         (\<exists>t. b_get K (v_db st') BTombstones objectID = Some (CTomb t) \<and> t_Tenant t = tenant) \<and>
         b_get K (v_db st') BGC objectID \<noteq> None
    else b_get K (v_db st') = b_get K (v_db st) \<and> v_files st' = v_files st"
proof -
  let ?m = "commit_tx K now tenant objectID leaseID digest sz"
  have cat: "cat K (v_db st, delta0)" using ok by (simp add: store_ok_def cat_def)
  note c = cat [unfolded cat_def]
  obtain x st1 where x: "update K ?m st = (x, st1)" by (cases "update K ?m st")
  show ?thesis
  proof (cases "\<exists>ob. x = Inr (Committed ob)")
    case True
    then obtain ob where ob: "x = Inr (Committed ob)" by auto
    with x obtain db d where run1: "?m (v_db st, delta0) = Inr (Committed ob, (db, d))" and st1: "v_db st1 = db"
      by (auto elim: update_Inr)
    from run1 have g: "b_get K (v_db st) BObjects objectID = Some (CObject ob)" "o_Tenant ob = tenant" "o_LeaseID ob = leaseID"
      "o_State ob = StateLeased" "o_Size ob = sz" "EqualFold (o_SHA256 ob) digest"
      and del: "deleteObjectTx K now ob ''committed'' (v_db st, delta0) = Inr ((), (db, d))"
      by (auto simp: commit_tx_def txn_simps split: sum.splits if_splits)
    note o = catalog_object [OF c [unfolded contents_pair] g(1)]
    have stored: "contents K (v_db st, delta0) BObjects objectID = Some (CObject ob)" using g(1) by simp
    note d = deletable_stored [OF c stored]
    note eff = deleteObjectTx_eff [OF del d(1,3)]
    have v: "b_get K db = delete_view now ''committed'' ob (b_get K (v_db st))" using eff(1) by simp
    have "o_LeaseID ob \<noteq> []" using o(1) g(4) by (simp add: obj_ok_def)
    moreover have "r = Inr True" "v_db st' = db"
      using run x ob st1 by (auto simp: Commit_def collect_def Let_def)
    ultimately show ?thesis
      using g o(2) by (simp add: v delete_view_frame free_claim_def tomb_of_def)
  next
    case False
    have same: "b_get K (v_db st1) = b_get K (v_db st)" "v_files st1 = v_files st"
    proof -
      show "v_files st1 = v_files st" using x by (cases rule: update_cases [of K ?m st]) auto
      show "b_get K (v_db st1) = b_get K (v_db st)"
      proof (cases rule: update_cases [of K ?m st])
        case (commit y db d)
        then have "db = v_db st"
          using False x by (auto simp: commit_tx_def txn_simps split: sum.splits if_splits)
        then show ?thesis using commit(2) x by auto
      qed (use x in auto)
    qed
    moreover have "r \<noteq> Inr True" "st' = st1"
      using run x False by (auto simp: Commit_def split: sum.splits commit_outcome.splits)
    ultimately show ?thesis by simp
  qed
qed

lemma commit_again:
  assumes ok: "store_ok K st" and run: "Commit K root rm gated now tenant objectID leaseID digest sz st = (Inr True, st')"
    and run2: "Commit K root rm' gated now' tenant objectID leaseID' digest' sz' st' = (r, st'')"
  shows "(r = Inr False \<or> (\<exists>e. r = Inl e \<and> db_error e)) \<and> b_get K (v_db st'') = b_get K (v_db st') \<and>
    v_files st'' = v_files st'"
proof -
  obtain t where t: "b_get K (v_db st') BTombstones objectID = Some (CTomb t)" "t_Tenant t = tenant"
    using commit_effect [OF ok run] by auto
  have tx: "commit_tx K now' tenant objectID leaseID' digest' sz' (v_db st', delta0) = Inr (AlreadyDeleted, (v_db st', delta0))"
    using t by (simp add: commit_tx_def getTomb_def tbind_def tget_def ret_def)
  show ?thesis
  proof (cases "b_commit K (v_db st')")
    case None
    then show ?thesis using run2 tx by (auto simp: Commit_def update_def)
  next
    case (Some e)
    then show ?thesis using run2 tx commit_err by (auto simp: Commit_def update_def)
  qed
qed

end

section \<open>The theorems\<close>

lemma CleanPath_prefix: "CleanPath name = Inr pre \<Longrightarrow> pre = [] \<or> clean_path pre"
  using CleanPath_Inr by blast

lemma claim_opts_pos: "0 < co_Max (claim_opts opts)" "0 < co_TTL (claim_opts opts)"
  by (simp_all add: claim_opts_def)

text \<open>C1: claiming is safe under concurrency. Whatever other transactions do between the search and
  the write (as long as they keep the store well-formed), the claims returned are for distinct
  objects under distinct new leases, at most as many as asked for, each in force in the resulting
  store, which is well-formed: no object is ever leased to two claimers.\<close>

theorem Claim_exclusive:
  assumes "bolt_laws K" "store_ok K st" "leases_in K L st" "env_ok K L env" "rand_ok L rand" "nul \<notin> set tenant"
    and "Claim K clock rand env tenant opts st = (Inr cls, st')"
  shows "store_ok K st' \<and> cls \<noteq> [] \<and> int (length cls) \<le> co_Max (claim_opts opts) \<and>
    distinct (map c_ObjectID cls) \<and> distinct (map c_LeaseID cls) \<and>
    (\<forall>cl\<in>set cls. c_LeaseID cl \<notin> L \<and> in_force (b_get K (v_db st')) tenant cl)"
proof -
  from assms(7) obtain pre where pre: "CleanPath (co_Prefix (claim_opts opts)) = Inr pre"
    "claim_attempts K tenant (claim_opts opts) pre clock rand env 0 4 st = (Inr cls, st')"
    by (auto simp: Claim_def Let_def split: sum.splits)
  show ?thesis
    by (rule bolt_laws.claim_attempts_correct [OF assms(1) pre(2) assms(6) CleanPath_prefix [OF pre(1)]
        claim_opts_pos(1) assms(2-5)])
qed

definition demo_opts :: ClaimOptions where
  "demo_opts = \<lparr>co_ClientID = ''w2'', co_Prefix = ''/a'', co_TTL = 30, co_Max = 5\<rparr>"

definition demo_rand :: "nat \<Rightarrow> nat \<Rightarrow> error + string" where
  "demo_rand i j = (if j = 0 then Inr (replicate 16 CHR ''x'') else Inl (ErrIO ''entropy''))"

lemma demo_rand_ok: "rand_ok {''l2''} demo_rand"
proof -
  have "hex_encode (replicate 16 CHR ''x'') \<noteq> ''l2''" by code_simp
  then show ?thesis by (auto simp: rand_ok_def demo_rand_def split: if_splits)
qed

lemma demo_leases: "leases_in mem_bolt {''l2''} demo_store"
  by (auto simp: leases_in_def demo_store_def mem_bolt_def demo_cells_def split: if_splits)

lemma demo_claim_run:
  "fst (Claim mem_bolt (\<lambda>_. 50) demo_rand (\<lambda>_ st. st) ''t'' demo_opts demo_store) =
     Inr [\<lparr>c_LeaseID = hex_encode (replicate 16 CHR ''x''), c_ObjectID = ''o1'', c_Tenant = ''t'', c_ClientID = ''w2'',
           c_Path = ''a/b'', c_Size = 3, c_SHA256 = ''aa'', c_Version = 1, c_Attempts = 1,
           c_LeaseUntil = 80, c_LeaseSeconds = 0\<rparr>]"
  by code_simp

theorem Claim_exclusive_witness:
  "\<exists>cl st'. Claim mem_bolt (\<lambda>_. 50) demo_rand (\<lambda>_ st. st) ''t'' demo_opts demo_store = (Inr [cl], st') \<and>
     c_ObjectID cl = ''o1'' \<and> store_ok mem_bolt st' \<and> in_force (b_get mem_bolt (v_db st')) ''t'' cl"
proof -
  let ?r = "Claim mem_bolt (\<lambda>_. 50) demo_rand (\<lambda>_ st. st) ''t'' demo_opts demo_store"
  obtain cl where cl: "fst ?r = Inr [cl]" "c_ObjectID cl = ''o1''" using demo_claim_run by simp
  then have run: "?r = (Inr [cl], snd ?r)" by (metis prod.collapse)
  have env: "env_ok mem_bolt {''l2''} (\<lambda>_ st. st)" by (auto simp: env_ok_def)
  have t: "nul \<notin> set ''t''" by simp
  from Claim_exclusive [OF mem.bolt_laws_axioms demo_ok demo_leases env demo_rand_ok t run] run cl
  show ?thesis by (metis list.set_intros(1))
qed

text \<open>C2: claiming is first-in first-out and misses nothing. On a store no one else writes to, the
  claims are for exactly the candidates found, in increasing queue position; every candidate is a
  READY object of the tenant, visible and under the prefix; and such an object that is not
  claimed is younger than every claimed one, with as many claimed as asked for (as long as the
  queue is within the scan limit).\<close>

theorem Claim_fifo:
  assumes "bolt_laws K" "store_ok K st" "leases_in K L st" "rand_ok L rand" "nul \<notin> set tenant"
    and pre: "CleanPath (co_Prefix opts) = Inr pre"
    and run: "Claim K clock rand (\<lambda>_ st. st) tenant opts st = (Inr cls, st')"
    and lim: "card (dom (b_get K (v_db st) (queue_bucket pre))) \<le> maxClaimScan"
    and ob: "b_get K (v_db st) BObjects oid = Some (CObject ob)" "deliverable (clock 0) tenant pre ob"
  shows "\<exists>cs. map c_ObjectID cls = map snd cs \<and> sorted_wrt (<) (map fst cs) \<and>
    (\<forall>(seq, i)\<in>set cs. \<exists>o'. b_get K (v_db st) BObjects i = Some (CObject o') \<and> o_QueueSeq o' = seq \<and>
        deliverable (clock 0) tenant pre o') \<and>
    (oid \<in> set (map c_ObjectID cls) \<or>
     int (length cls) = co_Max (claim_opts opts) \<and> (\<forall>(seq, i)\<in>set cs. seq < o_QueueSeq ob))"
  by (rule bolt_laws.claim_in_order [OF assms])

theorem Claim_fifo_witness:
  "\<exists>cls st'. Claim mem_bolt (\<lambda>_. 50) demo_rand (\<lambda>_ st. st) ''t'' demo_opts demo_store = (Inr cls, st') \<and>
     ''o1'' \<in> set (map c_ObjectID cls)"
proof -
  let ?r = "Claim mem_bolt (\<lambda>_. 50) demo_rand (\<lambda>_ st. st) ''t'' demo_opts demo_store"
  obtain cl where cl: "fst ?r = Inr [cl]" using demo_claim_run by simp
  then have run: "?r = (Inr [cl], snd ?r)" by (metis prod.collapse)
  have pre: "CleanPath (co_Prefix demo_opts) = Inr ''a''" by code_simp
  have lim: "card (dom (b_get mem_bolt (v_db demo_store) (queue_bucket ''a''))) \<le> maxClaimScan"
    by (simp add: queue_bucket_def demo_store_def mem_bolt_def demo_cells_def maxClaimScan_def)
  have ob: "b_get mem_bolt (v_db demo_store) BObjects ''o1'' = Some (CObject demo_ob1)"
    "deliverable 50 ''t'' ''a'' demo_ob1" by code_simp+
  have t: "nul \<notin> set ''t''" by simp
  have "int (length [cl]) \<noteq> co_Max (claim_opts demo_opts)" by (simp add: claim_opts_def demo_opts_def)
  with Claim_fifo [OF mem.bolt_laws_axioms demo_ok demo_leases demo_rand_ok t pre run lim ob] run
  show ?thesis by blast
qed



text \<open>C4: every delivery operation keeps the store well-formed, whatever it returns: the catalog
  invariant (indexes derived from the records, claims matching leases, names pointing at live
  objects, nothing both alive and buried) and the counters equal to a recount.\<close>

theorem delivery_keeps_store_ok:
  assumes "bolt_laws K" "store_ok K st" "metadata_only f"
  shows "store_ok K (snd (Renew K now tenant leaseID ttl st)) \<and>
    store_ok K (snd (ReleaseWith K src now tenant leaseID opts st)) \<and>
    store_ok K (snd (Requeue K now tenant objectID st)) \<and>
    store_ok K (snd (DeleteObject K root rm gated now tenant objectID reason st)) \<and>
    store_ok K (snd (Commit K root rm gated now tenant objectID leaseID digest sz st)) \<and>
    store_ok K (snd (UpdateObject K now objectID f st)) \<and>
    store_ok K (flushGC K st)"
  unfolding Renew_def ReleaseWith_def Requeue_def UpdateObject_def
  by (intro conjI update_ok [OF _ assms(2)] bolt_laws.renew_sound bolt_laws.release_sound bolt_laws.requeue_sound
      bolt_laws.update_object_sound bolt_laws.delete_keeps bolt_laws.commit_keeps bolt_laws.flushGC_keeps assms)

theorem delivery_keeps_store_ok_witness:
  "store_ok mem_bolt (snd (Renew mem_bolt 50 ''t'' ''l2'' 100 demo_store)) \<and>
   store_ok mem_bolt (snd (Commit mem_bolt ''/d'' (\<lambda>_. False) True 50 ''t'' ''o2'' ''l2'' ''BB'' 4 demo_store)) \<and>
   fst (Commit mem_bolt ''/d'' (\<lambda>_. False) True 50 ''t'' ''o2'' ''l2'' ''BB'' 4 demo_store) = Inr True"
proof -
  have "fst (Commit mem_bolt ''/d'' (\<lambda>_. False) True 50 ''t'' ''o2'' ''l2'' ''BB'' 4 demo_store) = Inr True" by code_simp
  moreover have "metadata_only Inr" by (simp add: metadata_only_def)
  ultimately show ?thesis using delivery_keeps_store_ok [OF mem.bolt_laws_axioms demo_ok, of Inr] by blast
qed

text \<open>C5: a commit succeeds only for the holder of the lease with the right size and digest, and then
  deletes the object and its claim, leaving the tombstone; every other answer leaves the store
  as it was.\<close>

theorem Commit_deletes:
  assumes "bolt_laws K" "store_ok K st" "Commit K root rm gated now tenant objectID leaseID digest sz st = (r, st')"
  shows "if r = Inr True
    then (\<exists>ob. b_get K (v_db st) BObjects objectID = Some (CObject ob) \<and> o_Tenant ob = tenant \<and> o_LeaseID ob = leaseID \<and>
           o_State ob = StateLeased \<and> o_Size ob = sz \<and> EqualFold (o_SHA256 ob) digest) \<and>
         b_get K (v_db st') BObjects = (b_get K (v_db st) BObjects)(objectID := None) \<and>
         b_get K (v_db st') BClaims = (b_get K (v_db st) BClaims)(leaseID := None) \<and>
         (\<exists>t. b_get K (v_db st') BTombstones objectID = Some (CTomb t) \<and> t_Tenant t = tenant) \<and>
         b_get K (v_db st') BGC objectID \<noteq> None
    else b_get K (v_db st') = b_get K (v_db st) \<and> v_files st' = v_files st"
  by (rule bolt_laws.commit_effect [OF assms])

theorem Commit_deletes_witness:
  "\<exists>st'. Commit mem_bolt ''/d'' (\<lambda>_. False) True 50 ''t'' ''o2'' ''l2'' ''BB'' 4 demo_store = (Inr True, st') \<and>
     b_get mem_bolt (v_db st') BObjects = (b_get mem_bolt (v_db demo_store) BObjects)(''o2'' := None)"
proof -
  let ?r = "Commit mem_bolt ''/d'' (\<lambda>_. False) True 50 ''t'' ''o2'' ''l2'' ''BB'' 4 demo_store"
  have "fst ?r = Inr True" by code_simp
  then have run: "?r = (Inr True, snd ?r)" by (metis prod.collapse)
  from Commit_deletes [OF mem.bolt_laws_axioms demo_ok run] run show ?thesis by auto
qed

text \<open>C6: a commit is idempotent: once it has succeeded, repeating it (with whatever lease, digest and
  size) reports \<open>(false, nil)\<close> and changes nothing, unless the database itself fails.\<close>

theorem Commit_idempotent:
  assumes "bolt_laws K" "store_ok K st" "Commit K root rm gated now tenant objectID leaseID digest sz st = (Inr True, st')"
    and "Commit K root rm' gated now' tenant objectID leaseID' digest' sz' st' = (r, st'')"
  shows "(r = Inr False \<or> (\<exists>e. r = Inl e \<and> db_error e)) \<and> b_get K (v_db st'') = b_get K (v_db st') \<and>
    v_files st'' = v_files st'"
  by (rule bolt_laws.commit_again [OF assms])

theorem Commit_idempotent_witness:
  "\<exists>st'. Commit mem_bolt ''/d'' (\<lambda>_. False) True 50 ''t'' ''o2'' ''l2'' ''BB'' 4 demo_store = (Inr True, st') \<and>
     (fst (Commit mem_bolt ''/d'' (\<lambda>_. False) True 60 ''t'' ''o2'' ''zz'' [] 0 st') = Inr False \<or>
      (\<exists>e. fst (Commit mem_bolt ''/d'' (\<lambda>_. False) True 60 ''t'' ''o2'' ''zz'' [] 0 st') = Inl e \<and> db_error e))"
proof -
  let ?r = "Commit mem_bolt ''/d'' (\<lambda>_. False) True 50 ''t'' ''o2'' ''l2'' ''BB'' 4 demo_store"
  let ?q = "Commit mem_bolt ''/d'' (\<lambda>_. False) True 60 ''t'' ''o2'' ''zz'' [] 0 (snd ?r)"
  have "fst ?r = Inr True" by code_simp
  then have run: "?r = (Inr True, snd ?r)" by (metis prod.collapse)
  have again: "?q = (fst ?q, snd ?q)" by simp
  from Commit_idempotent [OF mem.bolt_laws_axioms demo_ok run again] run show ?thesis by auto
qed

end
