(* ===== verification/Glob.thy ===== *)
theory Glob
  imports Model
begin

text \<open>
  The hold patterns of a tenant are file-name globs matched with Go's \<open>path.Match\<close> against
  \<open>path.Base\<close> of an object's path (\<open>Held\<close> in \<^verbatim>\<open>internal/store/upload.go\<close>). This theory follows the
  standard library's algorithm (\<open>scanChunk\<close>, \<open>matchChunk\<close>, \<open>getEsc\<close>, UTF-8 decoding), with
  \<open>None\<close> for \<open>ErrBadPattern\<close>.
\<close>

section \<open>UTF-8\<close>

text \<open>\<open>utf8.DecodeRuneInString\<close>: the rune and its width; a malformed sequence is \<open>RuneError\<close> (65533)
  of width 1.\<close>

definition cont_byte :: "nat \<Rightarrow> bool" where
  "cont_byte b \<longleftrightarrow> 128 \<le> b \<and> b < 192"

definition rune_error :: "nat \<times> nat" where
  "rune_error = (65533, 1)"

definition DecodeRune :: "string \<Rightarrow> nat \<times> nat" where
  "DecodeRune s =
     (case map (of_char :: char \<Rightarrow> nat) (take 4 s) of
        [] \<Rightarrow> (65533, 0)
      | b0 # bs \<Rightarrow>
          if b0 < 128 then (b0, 1)
          else if 194 \<le> b0 \<and> b0 < 224 then
            (case bs of b1 # _ \<Rightarrow>
               if cont_byte b1 then ((b0 - 192) * 64 + (b1 - 128), 2) else rune_error
             | _ \<Rightarrow> rune_error)
          else if 224 \<le> b0 \<and> b0 < 240 then
            (case bs of b1 # b2 # _ \<Rightarrow>
               if cont_byte b1 \<and> cont_byte b2 \<and> (b0 = 224 \<longrightarrow> 160 \<le> b1) \<and> (b0 = 237 \<longrightarrow> b1 < 160)
               then ((b0 - 224) * 4096 + (b1 - 128) * 64 + (b2 - 128), 3) else rune_error
             | _ \<Rightarrow> rune_error)
          else if 240 \<le> b0 \<and> b0 < 245 then
            (case bs of b1 # b2 # b3 # _ \<Rightarrow>
               if cont_byte b1 \<and> cont_byte b2 \<and> cont_byte b3 \<and> (b0 = 240 \<longrightarrow> 144 \<le> b1)
                  \<and> (b0 = 244 \<longrightarrow> b1 < 144)
               then ((b0 - 240) * 262144 + (b1 - 128) * 4096 + (b2 - 128) * 64 + (b3 - 128), 4)
               else rune_error
             | _ \<Rightarrow> rune_error)
          else rune_error)"

lemma DecodeRune_width: "s \<noteq> [] \<Longrightarrow> 0 < snd (DecodeRune s)"
  by (cases s) (auto simp: DecodeRune_def rune_error_def split: list.splits)

section \<open>path.Match\<close>

fun scan_stars :: "string \<Rightarrow> bool \<times> string" where
  "scan_stars [] = (False, [])"
| "scan_stars (c # cs) = (if c = CHR ''*'' then (True, snd (scan_stars cs)) else (False, c # cs))"

fun scan_body :: "bool \<Rightarrow> string \<Rightarrow> string \<times> string" where
  "scan_body inrange [] = ([], [])"
| "scan_body inrange (c # cs) =
     (if c = backslash then
        (case cs of
           [] \<Rightarrow> ([c], [])
         | d # ds \<Rightarrow> (case scan_body inrange ds of (a, b) \<Rightarrow> (c # d # a, b)))
      else if c = CHR ''*'' \<and> \<not> inrange then ([], c # cs)
      else (case scan_body (if c = CHR ''['' then True else if c = CHR '']'' then False else inrange) cs of
              (a, b) \<Rightarrow> (c # a, b)))"

definition scanChunk :: "string \<Rightarrow> bool \<times> string \<times> string" where
  "scanChunk pat = (case scan_stars pat of (star, p) \<Rightarrow> (case scan_body False p of (c, r) \<Rightarrow> (star, c, r)))"

definition getEsc :: "string \<Rightarrow> (nat \<times> string) option" where
  "getEsc chunk =
     (if chunk = [] \<or> hd chunk = CHR ''-'' \<or> hd chunk = CHR '']'' then None
      else let ch = (if hd chunk = backslash then tl chunk else chunk)
           in if ch = [] then None
              else (case DecodeRune ch of (r, n) \<Rightarrow>
                      if r = 65533 \<and> n = 1 \<or> drop n ch = [] then None else Some (r, drop n ch)))"

lemma getEsc_shorter: "getEsc chunk = Some (r, rest) \<Longrightarrow> length rest < length chunk"
proof -
  assume a: "getEsc chunk = Some (r, rest)"
  then have ne: "chunk \<noteq> []" by (auto simp: getEsc_def)
  define ch where "ch = (if hd chunk = backslash then tl chunk else chunk)"
  have len: "length ch \<le> length chunk" using ne by (auto simp: ch_def)
  from a have "ch \<noteq> []" "rest = drop (snd (DecodeRune ch)) ch"
    using ne by (cases chunk; auto simp: getEsc_def ch_def Let_def split: if_splits prod.splits)+
  with len DecodeRune_width [of ch] show ?thesis by (cases ch) auto
qed

text \<open>The ranges of a character class: whether one contains the rune, and the pattern after the
  closing bracket.\<close>

function match_ranges :: "nat \<Rightarrow> bool \<Rightarrow> bool \<Rightarrow> string \<Rightarrow> (bool \<times> string) option" where
  "match_ranges r matched first chunk =
     (if chunk \<noteq> [] \<and> hd chunk = CHR '']'' \<and> \<not> first then Some (matched, tl chunk)
      else case getEsc chunk of
        None \<Rightarrow> None
      | Some (lo, c1) \<Rightarrow>
          if hd c1 = CHR ''-'' then
            (case getEsc (tl c1) of
               None \<Rightarrow> None
             | Some (hi, c2) \<Rightarrow> match_ranges r (matched \<or> lo \<le> r \<and> r \<le> hi) False c2)
          else match_ranges r (matched \<or> r = lo) False c1)"
  by pat_completeness auto
termination
proof (relation "measure (\<lambda>(r, m, f, c). length c)", goal_cases)
  case (2 r matched first chunk x lo c1 y hi c2)
  then have "length c1 < length chunk" "length c2 < length (tl c1)"
    by (auto dest: getEsc_shorter)
  then show ?case by (cases c1) auto
next
  case (3 r matched first chunk x lo c1)
  then show ?case by (auto dest: getEsc_shorter)
qed simp

declare match_ranges.simps [simp del]

lemma match_ranges_shorter:
  "match_ranges r m f chunk = Some (m', rest) \<Longrightarrow> length rest < length chunk"
proof (induction r m f chunk arbitrary: m' rest rule: match_ranges.induct)
  case (1 r matched first chunk)
  show ?case
  proof (cases "chunk \<noteq> [] \<and> hd chunk = CHR '']'' \<and> \<not> first")
    case True
    with "1.prems" show ?thesis
      unfolding match_ranges.simps [of r matched first chunk] by (cases chunk) auto
  next
    case False
    with "1.prems" obtain lo c1 where g1: "getEsc chunk = Some (lo, c1)"
      unfolding match_ranges.simps [of r matched first chunk] by (auto split: option.splits)
    have l1: "length c1 < length chunk" using g1 by (rule getEsc_shorter)
    show ?thesis
    proof (cases "hd c1 = CHR ''-''")
      case True
      with "1.prems" False g1 obtain hi c2 where g2: "getEsc (tl c1) = Some (hi, c2)"
        and r: "match_ranges r (matched \<or> lo \<le> r \<and> r \<le> hi) False c2 = Some (m', rest)"
        unfolding match_ranges.simps [of r matched first chunk] by (auto split: option.splits)
      have "length rest < length c2"
        using "1.IH"(1) [OF False g1 refl True g2 refl r] .
      with l1 getEsc_shorter [OF g2] show ?thesis by (cases c1) auto
    next
      case nd: False
      with "1.prems" False g1 have r: "match_ranges r (matched \<or> r = lo) False c1 = Some (m', rest)"
        unfolding match_ranges.simps [of r matched first chunk] by auto
      have "length rest < length c1"
        using "1.IH"(2) [OF False g1 refl nd r] .
      with l1 show ?thesis by simp
    qed
  qed
qed

text \<open>\<open>matchChunk\<close>: \<open>None\<close> for a malformed chunk, \<open>Some None\<close> for no match, \<open>Some (Some rest)\<close>
  for a match. \<open>failed\<close> is the source's flag: after a mismatch the rest is only parsed.\<close>

function matchChunk :: "bool \<Rightarrow> string \<Rightarrow> string \<Rightarrow> string option option" where
  "matchChunk failed0 chunk s =
     (case chunk of
        [] \<Rightarrow> if failed0 then Some None else Some (Some s)
      | c # cs \<Rightarrow>
          let failed = (failed0 \<or> s = []) in
          if c = CHR ''['' then
            (let r = (if failed then 0 else fst (DecodeRune s));
                 s' = (if failed then s else drop (snd (DecodeRune s)) s);
                 negated = (cs \<noteq> [] \<and> hd cs = CHR ''^'');
                 cs' = (if negated then tl cs else cs)
             in case match_ranges r False True cs' of
                  None \<Rightarrow> None
                | Some (m, rest) \<Rightarrow> matchChunk (failed \<or> m = negated) rest s')
          else if c = CHR ''?'' then
            matchChunk (failed \<or> hd s = slash) cs (if failed then s else drop (snd (DecodeRune s)) s)
          else if c = backslash then
            (case cs of
               [] \<Rightarrow> None
             | d # ds \<Rightarrow> matchChunk (failed \<or> d \<noteq> hd s) ds (if failed then s else tl s))
          else matchChunk (failed \<or> c \<noteq> hd s) cs (if failed then s else tl s))"
  by pat_completeness auto
termination
proof (relation "measure (\<lambda>(f, c, s). length c)", goal_cases)
  case (2 failed0 chunk s c cs failed r s' negated cs' p m rest)
  then have "length rest < length cs'" by (auto dest: match_ranges_shorter)
  moreover have "length cs' \<le> length cs" using 2 by auto
  ultimately show ?case using 2 by auto
qed auto

declare matchChunk.simps [simp del]

text \<open>\<open>path.Match\<close>. The inner loop over \<open>name[i+1:]\<close> is \<open>star_match\<close>.\<close>

fun star_match :: "bool \<Rightarrow> string \<Rightarrow> string \<Rightarrow> string option option" where
  "star_match atEnd chunk [] = Some None"
| "star_match atEnd chunk (c # cs) =
     (if c = slash then Some None
      else case matchChunk False chunk cs of
             None \<Rightarrow> None
           | Some (Some t) \<Rightarrow> if atEnd \<and> t \<noteq> [] then star_match atEnd chunk cs else Some (Some t)
           | Some None \<Rightarrow> star_match atEnd chunk cs)"

lemma scan_stars_le: "length (snd (scan_stars p)) \<le> length p"
  by (induction p) auto

lemma scan_stars_dec: "fst (scan_stars p) \<Longrightarrow> length (snd (scan_stars p)) < length p"
proof (cases p)
  case (Cons c cs)
  assume "fst (scan_stars p)"
  with Cons have "c = CHR ''*''" by (cases "c = CHR ''*''") simp_all
  with Cons scan_stars_le [of cs] show ?thesis by simp
qed simp

declare scan_body.simps(2) [simp del]

lemma snd_scan_body:
  "snd (scan_body f (c # cs)) =
     (if c = backslash then snd (scan_body f (tl cs))
      else if c = CHR ''*'' \<and> \<not> f then c # cs
      else snd (scan_body (if c = CHR ''['' then True else if c = CHR '']'' then False else f) cs))"
  by (cases cs) (simp_all add: scan_body.simps(2) [of f c] case_prod_unfold)

lemma scan_body_le: "length (snd (scan_body f p)) \<le> length p"
proof (induction "length p" arbitrary: f p rule: less_induct)
  case less
  show ?case
  proof (cases p)
    case (Cons c cs)
    have "length (snd (scan_body g q)) \<le> length p" if "length q < length p" for g q
      using less [OF that, of g] that by simp
    with Cons show ?thesis by (simp add: snd_scan_body)
  qed simp
qed

lemma scan_body_dec:
  assumes "p \<noteq> []" "hd p \<noteq> CHR ''*''"
  shows "length (snd (scan_body f p)) < length p"
proof (cases p)
  case (Cons c cs)
  have "length (snd (scan_body g q)) < length p" if "length q \<le> length cs" for g q
    using scan_body_le [of g q] that Cons by simp
  with Cons assms show ?thesis by (simp add: snd_scan_body)
qed (use assms in simp)

lemma scan_stars_hd: "\<not> fst (scan_stars p) \<Longrightarrow> p \<noteq> [] \<Longrightarrow> hd p \<noteq> CHR ''*'' \<and> snd (scan_stars p) = p"
  by (cases p) (auto split: if_splits)

lemma scanChunk_shorter: "pat \<noteq> [] \<Longrightarrow> scanChunk pat = (star, chunk, rest) \<Longrightarrow> length rest < length pat"
proof -
  assume ne: "pat \<noteq> []" and s: "scanChunk pat = (star, chunk, rest)"
  then have rest: "rest = snd (scan_body False (snd (scan_stars pat)))"
    by (auto simp: scanChunk_def split: prod.splits)
  show ?thesis
  proof (cases "fst (scan_stars pat)")
    case True
    show ?thesis
      using scan_body_le [of False "snd (scan_stars pat)"] scan_stars_dec [OF True]
      by (simp add: rest)
  next
    case False
    then show ?thesis using scan_stars_hd [OF False ne] scan_body_dec [OF ne] rest by simp
  qed
qed

text \<open>After a mismatch the rest of the pattern is still checked for syntax errors.\<close>

function rest_ok :: "string \<Rightarrow> bool" where
  "rest_ok pat =
     (if pat = [] then True
      else case scanChunk pat of (star, chunk, rest) \<Rightarrow>
        matchChunk False chunk [] \<noteq> None \<and> rest_ok rest)"
  by pat_completeness auto
termination
  by (relation "measure length") (auto dest: scanChunk_shorter [OF _ sym])

declare rest_ok.simps [simp del]

function path_Match :: "string \<Rightarrow> string \<Rightarrow> bool option" where
  "path_Match pat name =
     (if pat = [] then Some (name = [])
      else case scanChunk pat of (star, chunk, rest) \<Rightarrow>
        if star \<and> chunk = [] then Some (slash \<notin> set name)
        else case matchChunk False chunk name of
          None \<Rightarrow> None
        | Some mt \<Rightarrow>
            (case (case mt of
                     Some t \<Rightarrow> if t = [] \<or> rest \<noteq> [] then Some (Some t)
                               else if star then star_match (rest = []) chunk name else Some None
                   | None \<Rightarrow> if star then star_match (rest = []) chunk name else Some None) of
               None \<Rightarrow> None
             | Some (Some t) \<Rightarrow> path_Match rest t
             | Some None \<Rightarrow> if rest_ok rest then Some False else None))"
  by pat_completeness auto
termination
  by (relation "measure (\<lambda>(p, n). length p)") (auto dest: scanChunk_shorter [OF _ sym])

declare path_Match.simps [simp del]

section \<open>path.Base and Held\<close>

definition path_Base :: "string \<Rightarrow> string" where
  "path_Base p =
     (if p = [] then ''.''
      else let q = rev (dropWhile (\<lambda>c. c = slash) (rev p));
               b = (case last_index slash q of None \<Rightarrow> q | Some i \<Rightarrow> drop (Suc i) q)
           in if b = [] then ''/'' else b)"

text \<open>\<open>Held\<close> of \<^verbatim>\<open>internal/store/upload.go\<close>: a malformed pattern holds nothing.\<close>

definition Held :: "string list \<Rightarrow> string \<Rightarrow> bool" where
  "Held patterns p = (let name = path_Base p in list_ex (\<lambda>pat. path_Match pat name = Some True) patterns)"

lemma Held_default_examples:
  "Held [''*.filepart'', ''*.partial'', ''*.tmp''] ''in/report.csv.filepart''"
  "\<not> Held [''*.filepart'', ''*.partial'', ''*.tmp''] ''in/report.tmp/final.csv''"
  by code_simp+

end
