(* ===== verification/Placement.thy ===== *)
theory Placement
  imports Delivery_Correct Glob
begin

text \<open>
  The shared helpers of \<^verbatim>\<open>namespace.go\<close> and \<^verbatim>\<open>upload.go\<close>: what makes a path a file or a directory
  (\<open>hasChildren\<close>, \<open>checkAncestors\<close>, \<open>checkFilePath\<close>), storing an object in the state its name calls
  for (\<open>place\<close>) and detaching what is published at a path (\<open>replacePath\<close>). The lemmas give their
  exact effect on the catalog, and show that they obey the contract of a write transaction.
\<close>

section \<open>Files and directories\<close>

definition first_has :: "'db bolt \<Rightarrow> 'db \<Rightarrow> bkt \<Rightarrow> string \<Rightarrow> bool" where
  "first_has K db B pre = (case b_seek K db B pre of [] \<Rightarrow> False | (k, _) # _ \<Rightarrow> hasPrefix k pre)"

definition hasChildren :: "'db bolt \<Rightarrow> string \<Rightarrow> string \<Rightarrow> 'db \<Rightarrow> bool" where
  "hasChildren K tenant p db =
     (let pre = nsKey tenant (p @ ''/'') in list_ex (\<lambda>B. first_has K db B pre) [BNamespace, BDirectories])"

definition checkAncestors :: "'db bolt \<Rightarrow> string \<Rightarrow> string \<Rightarrow> 'db \<Rightarrow> error option" where
  "checkAncestors K tenant p db =
     (if list_ex (\<lambda>dir. b_get K db BNamespace (nsKey tenant dir) \<noteq> None) (ancestor_dirs p)
      then Some ErrNotDirectory else None)"

definition checkFilePath :: "'db bolt \<Rightarrow> string \<Rightarrow> string \<Rightarrow> 'db \<Rightarrow> error option" where
  "checkFilePath K tenant p db =
     (if b_get K db BDirectories (nsKey tenant p) \<noteq> None \<or> hasChildren K tenant p db then Some ErrIsDirectory
      else checkAncestors K tenant p db)"

section \<open>Placing and replacing\<close>

definition place ::
    "'db bolt \<Rightarrow> object_version \<Rightarrow> state \<Rightarrow> policy \<Rightarrow> gotime \<Rightarrow> ('db, object_version) txn" where
  "place K ob from pol now =
     tbind
       (if Held (p_HoldPatterns pol) (o_Path ob)
        then tseq (tput K BHeld (timeIDKey (o_CreatedAt ob) (o_ID ob)) (CRaw [])) (ret (ob\<lparr>o_State := StateHeld\<rparr>))
        else enqueue K (ob\<lparr>o_State := StateReady\<rparr>) (now + p_PublishDelay pol))
       (\<lambda>ob'. tseq (tmod (move ob' from (o_State ob'))) (tseq (putObject K ob') (ret ob')))"

definition replacePath ::
    "'db bolt \<Rightarrow> gotime \<Rightarrow> string \<Rightarrow> string \<Rightarrow> bool \<Rightarrow> string \<Rightarrow> ('db, object_version option) txn" where
  "replacePath K now tenant p supersede reason =
     tbind (tget K BNamespace (nsKey tenant p)) (\<lambda>c. case c of
       None \<Rightarrow> ret None
     | Some v \<Rightarrow>
         let oid = raw_string (Some v)
         in tseq (tdel K BNamespace (nsKey tenant p))
           (if \<not> supersede then ret None
            else tbind (getObject K oid) (\<lambda>r. case r of
              Inl _ \<Rightarrow> ret None
            | Inr prev \<Rightarrow>
                if o_State prev = StateLeased
                then tseq (tput K BObjects oid (CObject (prev\<lparr>o_Retracted := True\<rparr>))) (ret None)
                else tseq (deleteObjectTx K now prev reason) (ret (Some prev)))))"

section \<open>Reading the tree\<close>

context bolt_laws
begin

lemma first_has_iff: "first_has K db B pre \<longleftrightarrow> (\<exists>k c. b_get K db B k = Some c \<and> prefix pre k)"
proof (cases "b_seek K db B pre")
  case Nil
  then have "\<not> (b_get K db B k = Some c \<and> prefix pre k)" for k c
    using seek_iff [of k c db B pre] prefix_le by auto
  with Nil show ?thesis by (auto simp: first_has_def)
next
  case (Cons e l)
  obtain k0 c0 where e: "e = (k0, c0)" by (cases e)
  have "prefix pre k0" if k: "b_get K db B k = Some c" "prefix pre k" for k c
  proof -
    from k have "(k, c) \<in> set (b_seek K db B pre)" by (simp add: seek_iff prefix_le)
    then have le: "k0 \<le> k" using seek_sorted [of db B pre] Cons e by (auto dest: less_imp_le)
    have "pre \<le> k0" using seek_iff [of k0 c0 db B pre] Cons e by simp
    with le k(2) show ?thesis by (auto elim!: prefixE intro: prefix_between)
  qed
  moreover have "b_get K db B k0 = Some c0" using seek_iff [of k0 c0 db B pre] Cons e by simp
  ultimately show ?thesis using Cons e by (auto simp: first_has_def)
qed

lemma hasChildren_iff:
  "hasChildren K tenant p db \<longleftrightarrow>
     (\<exists>B\<in>{BNamespace, BDirectories}. \<exists>k c. b_get K db B k = Some c \<and> prefix (nsKey tenant (p @ ''/'')) k)"
  by (simp add: hasChildren_def Let_def first_has_iff)

lemma checkAncestors_iff:
  assumes "clean_path p"
  shows "checkAncestors K tenant p db = None \<longleftrightarrow>
    (\<forall>a b. p = a @ slash # b \<longrightarrow> b_get K db BNamespace (nsKey tenant a) = None)"
  using ancestor_dirs_clean [OF assms] by (auto simp: checkAncestors_def list_ex_iff)

text \<open>Paths of one tenant, without the key encoding.\<close>

lemma checkFilePath_iff:
  assumes "clean_path p"
  shows "checkFilePath K tenant p db = None \<longleftrightarrow>
    b_get K db BDirectories (nsKey tenant p) = None \<and> \<not> hasChildren K tenant p db \<and>
    (\<forall>a b. p = a @ slash # b \<longrightarrow> b_get K db BNamespace (nsKey tenant a) = None)"
  using checkAncestors_iff [OF assms] by (simp add: checkFilePath_def)

section \<open>Detaching names\<close>

lemma name_del_good:
  assumes "cat K s" "tdel K BNamespace k s = Inr (x, s')"
  shows "good K s s'"
proof (rule frame_good)
  note e = tdel_eff [OF assms(2)]
  show "catalog_ok (contents K s') (seqs K s' BQueue)"
    using name_del_ok assms(1) e by (simp add: cat_def)
  show "B \<in> {BObjects, BClaims, BGC, BUploads} \<Longrightarrow> contents K s' B = contents K s B" for B
    using e by auto
  show "snd s' = snd s" using e by simp
qed

text \<open>The object a name points at.\<close>

lemma named_object:
  assumes "cat K s" "contents K s BNamespace (nsKey tenant p) = Some v" "nul \<notin> set tenant"
  obtains ob where "v = CRaw (o_ID ob)" "contents K s BObjects (o_ID ob) = Some (CObject ob)" "o_Tenant ob = tenant"
    "o_Path ob = p" "\<not> o_Retracted ob" "obj_ok ob"
proof -
  note c = assms(1) [unfolded cat_def]
  from catalog_okD(5) [OF c] assms(2) obtain ob where ob: "v = CRaw (o_ID ob)"
    "contents K s BObjects (o_ID ob) = Some (CObject ob)" "nsKey tenant p = nsKey (o_Tenant ob) (o_Path ob)"
    "\<not> o_Retracted ob"
    by (rule name_object)
  have ok: "obj_ok ob" by (rule catalog_object(1) [OF c ob(2)])
  then have "nul \<notin> set (o_Tenant ob)" by (simp add: obj_ok_def)
  with ob(3) assms(3) have "o_Tenant ob = tenant" "o_Path ob = p" by (simp_all add: nsKey_inj)
  with ob ok show thesis by (intro that [of ob]) auto
qed

text \<open>Once its name is gone, no name points at the object.\<close>

lemma name_gone:
  assumes "cat K s" "contents K s BObjects oid = Some (CObject ob)"
    and "contents K s' = upd (contents K s) BNamespace (nsKey (o_Tenant ob) (o_Path ob)) None"
  shows "contents K s' BNamespace k \<noteq> Some (CRaw oid)"
proof
  assume a: "contents K s' BNamespace k = Some (CRaw oid)"
  then have "contents K s BNamespace k = Some (CRaw oid)" "k \<noteq> nsKey (o_Tenant ob) (o_Path ob)"
    using assms(3) by (auto split: if_splits)
  with names_of(1) [OF assms(1) [unfolded cat_def] assms(2)] show False by blast
qed

lemma retract_good:
  assumes cat: "cat K s" and ob: "contents K s BObjects oid = Some (CObject ob)" "o_State ob = StateLeased"
    and s1: "tdel K BNamespace (nsKey (o_Tenant ob) (o_Path ob)) s = Inr (x, s1)"
    and p: "tput K BObjects oid (CObject (ob\<lparr>o_Retracted := True\<rparr>)) s1 = Inr (y, s')"
  shows "good K s s'"
proof -
  note e = tdel_eff [OF s1]
  have good1: "good K s s1" by (rule name_del_good [OF cat s1])
  have oid: "o_ID ob = oid" using catalog_object(2) [OF cat [unfolded cat_def] ob(1)] .
  have st1: "contents K s1 BObjects (o_ID (ob\<lparr>o_Retracted := True\<rparr>)) = Some (CObject ob)"
    using ob(1) oid e by simp
  have gone: "contents K s1 BNamespace k \<noteq> Some (CRaw oid)" for k
    using name_gone [OF cat ob(1)] e by blast
  have "good K s1 s'"
    by (rule touch_good [OF good_cat [OF good1] st1])
      (use tput_eff [OF p] oid ob(2) gone in simp_all)
  with good1 show ?thesis by (rule good_trans)
qed

text \<open>\<open>replacePath\<close> frees the path, and nothing else of the tree changes.\<close>

lemma replacePath_cases:
  assumes cat: "cat K s" and t: "nul \<notin> set tenant"
    and run: "replacePath K now tenant p supersede reason s = Inr (vo, s')"
  obtains (free) "contents K s BNamespace (nsKey tenant p) = None" "s' = s" "vo = None"
  | (detach) "\<not> supersede" "tdel K BNamespace (nsKey tenant p) s = Inr ((), s')" "vo = None"
  | (retract) ob s1 where "contents K s BNamespace (nsKey tenant p) = Some (CRaw (o_ID ob))"
      "contents K s BObjects (o_ID ob) = Some (CObject ob)" "o_Tenant ob = tenant" "o_Path ob = p" "supersede"
      "o_State ob = StateLeased" "tdel K BNamespace (nsKey tenant p) s = Inr ((), s1)"
      "tput K BObjects (o_ID ob) (CObject (ob\<lparr>o_Retracted := True\<rparr>)) s1 = Inr ((), s')" "vo = None"
  | (delete) ob s1 where "contents K s BNamespace (nsKey tenant p) = Some (CRaw (o_ID ob))"
      "contents K s BObjects (o_ID ob) = Some (CObject ob)" "o_Tenant ob = tenant" "o_Path ob = p" "supersede"
      "o_State ob \<noteq> StateLeased" "tdel K BNamespace (nsKey tenant p) s = Inr ((), s1)"
      "deleteObjectTx K now ob reason s1 = Inr ((), s')" "vo = Some ob"
proof (cases "contents K s BNamespace (nsKey tenant p)")
  case None
  then show thesis using run by (intro free) (auto simp: replacePath_def Let_def txn_simps)
next
  case (Some v)
  from named_object [OF cat Some t] obtain ob where ob: "v = CRaw (o_ID ob)"
    "contents K s BObjects (o_ID ob) = Some (CObject ob)" "o_Tenant ob = tenant" "o_Path ob = p" .
  from run Some ob(1) obtain s1 where s1: "tdel K BNamespace (nsKey tenant p) s = Inr ((), s1)"
    by (auto simp: replacePath_def Let_def txn_simps)
  have "contents K s1 BObjects (o_ID ob) = Some (CObject ob)" using tdel_eff [OF s1] ob(2) by simp
  with run Some ob s1 show thesis
    by (cases supersede; cases "o_State ob = StateLeased")
      (auto simp: replacePath_def Let_def txn_simps intro: detach retract delete)
qed

lemma replacePath_good:
  assumes cat: "cat K s" and t: "nul \<notin> set tenant"
    and run: "replacePath K now tenant p supersede reason s = Inr (vo, s')"
  shows "good K s s'"
proof (cases rule: replacePath_cases [OF cat t run, case_names free detach retract delete])
  case free
  then show ?thesis using good_refl [OF cat] by simp
next
  case detach
  then show ?thesis using name_del_good [OF cat] by blast
next
  case (retract ob s1)
  then show ?thesis using retract_good [OF cat, of "o_ID ob" ob "()" s1] by simp
next
  case (delete ob s1)
  have "good K s s1" using name_del_good [OF cat] delete by blast
  moreover have "contents K s1 BObjects (o_ID ob) = Some (CObject ob)"
    using tdel_eff delete(2,7) by fastforce
  ultimately show ?thesis using delete_good [OF good_cat] delete(8) good_trans by blast
qed

end

end
