(* ===== verification/Namespace.thy ===== *)
theory Namespace
  imports Placement
begin

text \<open>
  The uploader-facing file tree of \<^verbatim>\<open>internal/store/namespace.go\<close>: looking up, listing, removing and
  renaming files and directories. Names live in the bucket of names (path to object), explicit
  directories in the bucket of directories; a directory also exists as the parent of something.
  The listing loops move their cursor with \<open>Seek\<close>, so they are partial functions whose value is
  \<open>None\<close> when they do not return.
\<close>

section \<open>Looking up\<close>

definition current_tx :: "'db bolt \<Rightarrow> string \<Rightarrow> string \<Rightarrow> 'db \<Rightarrow> error + object_version" where
  "current_tx K tenant clean db =
     (case b_get K db BNamespace (nsKey tenant clean) of
        None \<Rightarrow> Inl ErrNotFound
      | Some v \<Rightarrow> json_object (b_get K db BObjects (raw_string (Some v))))"

definition Current :: "'db bolt \<Rightarrow> string \<Rightarrow> string \<Rightarrow> 'db store \<Rightarrow> error + object_version" where
  "Current K tenant name st =
     (case CleanPath name of Inl e \<Rightarrow> Inl e | Inr clean \<Rightarrow> current_tx K tenant clean (v_db st))"

definition OpenCurrent ::
    "'db bolt \<Rightarrow> string \<Rightarrow> string \<Rightarrow> 'db store \<Rightarrow> error + (string \<times> object_version)" where
  "OpenCurrent K tenant name st =
     (case Current K tenant name st of
        Inl e \<Rightarrow> Inl e
      | Inr ob \<Rightarrow> (case v_files st (o_BlobPath ob) of
                      None \<Rightarrow> Inl (ErrIO ''no such file'')
                    | Some content \<Rightarrow> Inr (content, ob)))"

record FileInfo =
  fi_Path :: string
  fi_Size :: int
  fi_ModTime :: gotime
  fi_Directory :: bool
  fi_Partial :: bool

text \<open>\<open>newestInterrupted\<close> of \<^verbatim>\<open>upload.go\<close>.\<close>

fun newest_loop ::
    "'db bolt \<Rightarrow> 'db \<Rightarrow> string \<Rightarrow> upload option \<Rightarrow> (string \<times> cell) list \<Rightarrow> upload option" where
  "newest_loop K db pre best [] = best"
| "newest_loop K db pre best ((k, v) # rest) =
     (if \<not> hasPrefix k pre then best
      else case json_upload (b_get K db BUploads (drop (length pre) k)) of
        Inl _ \<Rightarrow> newest_loop K db pre best rest
      | Inr u \<Rightarrow>
          if u_State u \<noteq> StateInterrupted then newest_loop K db pre best rest
          else newest_loop K db pre
                 (case best of
                    None \<Rightarrow> Some u
                  | Some b \<Rightarrow> if u_UpdatedAt b < u_UpdatedAt u then Some u else best) rest)"

definition newestInterrupted :: "'db bolt \<Rightarrow> string \<Rightarrow> string \<Rightarrow> 'db \<Rightarrow> upload option" where
  "newestInterrupted K tenant name db =
     (let pre = tenant @ [nul] @ name @ [nul] in newest_loop K db pre None (b_seek K db BUploadPaths pre))"

definition stat_tx ::
    "'db bolt \<Rightarrow> gotime \<Rightarrow> (string \<Rightarrow> string option) \<Rightarrow> string \<Rightarrow> string \<Rightarrow> 'db \<Rightarrow> error + FileInfo" where
  "stat_tx K now files tenant clean db =
     (let cur = (case current_tx K tenant clean db of Inl _ \<Rightarrow> None | Inr ob \<Rightarrow> Some ob);
          partial = (case newestInterrupted K tenant clean db of
             None \<Rightarrow> None
           | Some u \<Rightarrow>
               if (case cur of None \<Rightarrow> True | Some ob \<Rightarrow> o_CreatedAt ob < u_UpdatedAt u)
               then (case files (u_StagingPath u) of None \<Rightarrow> None | Some content \<Rightarrow> Some (u, content))
               else None)
      in case partial of
           Some (u, content) \<Rightarrow>
             Inr \<lparr>fi_Path = clean, fi_Size = int (length content), fi_ModTime = u_UpdatedAt u,
                  fi_Directory = False, fi_Partial = True\<rparr>
         | None \<Rightarrow>
             (case cur of
                Some ob \<Rightarrow> Inr \<lparr>fi_Path = clean, fi_Size = o_Size ob, fi_ModTime = o_CreatedAt ob,
                                fi_Directory = False, fi_Partial = False\<rparr>
              | None \<Rightarrow>
                  if b_get K db BDirectories (nsKey tenant clean) \<noteq> None \<or> hasChildren K tenant clean db
                  then Inr \<lparr>fi_Path = clean, fi_Size = 0, fi_ModTime = now, fi_Directory = True, fi_Partial = False\<rparr>
                  else Inl ErrNotFound))"

definition Stat :: "'db bolt \<Rightarrow> gotime \<Rightarrow> string \<Rightarrow> string \<Rightarrow> 'db store \<Rightarrow> error + FileInfo" where
  "Stat K now tenant name st =
     (case CleanPath name of
        Inl e \<Rightarrow> Inl e
      | Inr clean \<Rightarrow>
          if clean = [] then Inr \<lparr>fi_Path = [], fi_Size = 0, fi_ModTime = now, fi_Directory = True, fi_Partial = False\<rparr>
          else stat_tx K now (v_files st) tenant clean (v_db st))"

section \<open>Removing\<close>

definition remove_tx ::
    "'db bolt \<Rightarrow> gotime \<Rightarrow> string \<Rightarrow> string \<Rightarrow> ('db, object_version option) txn" where
  "remove_tx K now tenant clean =
     (let key = nsKey tenant clean
      in tbind (tget K BNamespace key) (\<lambda>c. case c of
        None \<Rightarrow>
          tbind (tread (\<lambda>db. b_get K db BDirectories key \<noteq> None \<or> hasChildren K tenant clean db)) (\<lambda>isdir.
            throw (if isdir then ErrIsDirectory else ErrNotFound))
      | Some v \<Rightarrow>
          let oid = raw_string (Some v)
          in tbind (getObject K oid) (\<lambda>r. case r of
            Inl _ \<Rightarrow> tseq (tdel K BNamespace key) (ret None)
          | Inr ob \<Rightarrow>
              if o_State ob = StateLeased
              then tseq (tdel K BNamespace key)
                  (tseq (tput K BObjects oid (CObject (ob\<lparr>o_Retracted := True\<rparr>))) (ret None))
              else tseq (deleteObjectTx K now ob ''removed'') (ret (Some ob)))))"

definition Remove ::
    "'db bolt \<Rightarrow> string \<Rightarrow> (string \<Rightarrow> bool) \<Rightarrow> bool \<Rightarrow> gotime \<Rightarrow> string \<Rightarrow> string \<Rightarrow> 'db store \<Rightarrow>
     (error + unit) \<times> 'db store" where
  "Remove K root rm gated now tenant name st =
     (case CleanPath name of
        Inl e \<Rightarrow> (Inl e, st)
      | Inr clean \<Rightarrow>
          (case update K (remove_tx K now tenant clean) st of
             (Inl e, st') \<Rightarrow> (Inl e, st')
           | (Inr None, st') \<Rightarrow> (Inr (), st')
           | (Inr (Some ob), st') \<Rightarrow>
               (Inr (), collect root rm gated (o_ID ob) (o_Tenant ob) (o_BlobPath ob) (o_Size ob) st')))"

section \<open>Renaming\<close>

definition moveObject ::
    "'db bolt \<Rightarrow> gotime \<Rightarrow> object_version \<Rightarrow> string \<Rightarrow> policy \<Rightarrow> ('db, unit) txn" where
  "moveObject K now ob0 newPath pol =
     (let wasQueued = (o_QueueSeq ob0 \<noteq> 0); seq = o_QueueSeq ob0; visible = o_VisibleAt ob0
      in tbind (dequeue K ob0) (\<lambda>ob1.
         let ob = ob1\<lparr>o_Path := newPath, o_UpdatedAt := now\<rparr>;
             nowHeld = Held (p_HoldPatterns pol) newPath
         in if o_State ob = StateHeld \<and> \<not> nowHeld
            then tseq (tdel K BHeld (timeIDKey (o_CreatedAt ob) (o_ID ob)))
                (tseq (place K ob StateHeld pol now) (ret ()))
            else if o_State ob = StateReady \<and> nowHeld then tseq (place K ob StateReady pol now) (ret ())
            else if wasQueued
            then let ob' = ob\<lparr>o_QueueSeq := seq, o_VisibleAt := visible\<rparr>
                 in tseq (putQueueEntries K ob') (putObject K ob')
            else putObject K ob))"

definition renameInPlace :: "'db bolt \<Rightarrow> string \<Rightarrow> string \<Rightarrow> bool \<Rightarrow> 'db \<Rightarrow> error option" where
  "renameInPlace K tenant p isFile db =
     (if isFile \<or> b_get K db BDirectories (nsKey tenant p) \<noteq> None \<or> hasChildren K tenant p db then None
      else Some ErrNotFound)"

text \<open>\<open>renameFile\<close> up to and including the replacement of the destination, which yields the object
  and the victims whose blobs the caller unlinks; then the move itself.\<close>

definition rename_prepare ::
    "'db bolt \<Rightarrow> gotime \<Rightarrow> string \<Rightarrow> string \<Rightarrow> string \<Rightarrow> bool \<Rightarrow> policy \<Rightarrow>
     ('db, object_version \<times> object_version list) txn" where
  "rename_prepare K now tenant newPath oid overwrite pol =
     tbind (getObject K oid) (\<lambda>r. case r of
       Inl e \<Rightarrow> throw e
     | Inr ob \<Rightarrow>
         if o_State ob = StateLeased then throw ErrBusy
         else let key = nsKey tenant newPath
         in tbind (tread (\<lambda>db. b_get K db BDirectories key \<noteq> None \<or> hasChildren K tenant newPath db)) (\<lambda>isdir.
            if isdir then throw ErrConflict
            else tbind (tread (checkAncestors K tenant newPath)) (\<lambda>eo.
              tseq (tcheck eo)
             (tbind (tget K BNamespace key) (\<lambda>dest.
              if dest = None then ret (ob, [])
              else if \<not> overwrite then throw ErrConflict
              else tbind (replacePath K now tenant newPath (p_Supersede pol) ''superseded'') (\<lambda>vo.
                   ret (ob, case vo of None \<Rightarrow> [] | Some v \<Rightarrow> [v])))))))"

definition rename_finish ::
    "'db bolt \<Rightarrow> gotime \<Rightarrow> string \<Rightarrow> string \<Rightarrow> string \<Rightarrow> string \<Rightarrow> policy \<Rightarrow> object_version \<Rightarrow> ('db, unit) txn" where
  "rename_finish K now tenant oldPath newPath oid pol ob =
     tseq (moveObject K now ob newPath pol)
    (tseq (tput K BNamespace (nsKey tenant newPath) (CRaw oid))
          (tdel K BNamespace (nsKey tenant oldPath)))"

definition renameFile ::
    "'db bolt \<Rightarrow> gotime \<Rightarrow> string \<Rightarrow> string \<Rightarrow> string \<Rightarrow> string \<Rightarrow> bool \<Rightarrow> policy \<Rightarrow> ('db, unit) txn" where
  "renameFile K now tenant oldPath newPath oid overwrite pol =
     tbind (rename_prepare K now tenant newPath oid overwrite pol) (\<lambda>(ob, victims).
       rename_finish K now tenant oldPath newPath oid pol ob)"

record treeMove =
  m_oldKey :: string
  m_newKey :: string
  m_objectID :: string
  m_directory :: bool

text \<open>The two loops of \<open>collectTreeMoves\<close> stop at the first key outside what they look for.\<close>

definition collectTreeMoves :: "'db bolt \<Rightarrow> string \<Rightarrow> string \<Rightarrow> string \<Rightarrow> 'db \<Rightarrow> treeMove list" where
  "collectTreeMoves K tenant oldPath newPath db =
     (let filePrefix = nsKey tenant (oldPath @ ''/'');
          dirKey = nsKey tenant oldPath;
          dirPrefix = dirKey @ ''/''
      in map (\<lambda>(k, v). \<lparr>m_oldKey = k, m_newKey = nsKey tenant (newPath @ ''/'' @ trim_prefix k filePrefix),
                        m_objectID = raw_string (Some v), m_directory = False\<rparr>)
           (takeWhile (\<lambda>(k, v). prefix filePrefix k) (b_seek K db BNamespace filePrefix)) @
         map (\<lambda>(k, v). \<lparr>m_oldKey = k,
                        m_newKey = nsKey tenant (newPath @ trim_prefix (trim_prefix k (tenant @ [nul])) oldPath),
                        m_objectID = [], m_directory = True\<rparr>)
           (takeWhile (\<lambda>(k, v). k = dirKey \<or> prefix dirPrefix k) (b_seek K db BDirectories dirKey)))"

definition applyTreeMove ::
    "'db bolt \<Rightarrow> gotime \<Rightarrow> string \<Rightarrow> policy \<Rightarrow> treeMove \<Rightarrow> ('db, unit) txn" where
  "applyTreeMove K now tenant pol m =
     (let newPath = trim_prefix (m_newKey m) (tenant @ [nul])
      in if m_directory m
         then tseq (tput K BDirectories (m_newKey m)
                     (CDir \<lparr>e_Path = newPath, e_Directory = True, e_UpdatedAt = now\<rparr>))
                (tdel K BDirectories (m_oldKey m))
         else tbind (getObject K (m_objectID m)) (\<lambda>r. case r of
             Inl e \<Rightarrow> throw e
           | Inr ob \<Rightarrow>
               tseq (moveObject K now ob newPath pol)
              (tseq (tput K BNamespace (m_newKey m) (CRaw (m_objectID m)))
                    (tdel K BNamespace (m_oldKey m)))))"

definition busy_move :: "'db bolt \<Rightarrow> 'db \<Rightarrow> treeMove \<Rightarrow> bool" where
  "busy_move K db m =
     (\<not> m_directory m \<and>
      (case json_object (b_get K db BObjects (m_objectID m)) of
         Inl _ \<Rightarrow> False | Inr ob \<Rightarrow> o_State ob = StateLeased))"

definition renameTree ::
    "'db bolt \<Rightarrow> gotime \<Rightarrow> string \<Rightarrow> string \<Rightarrow> string \<Rightarrow> policy \<Rightarrow> ('db, unit) txn" where
  "renameTree K now tenant oldPath newPath pol =
     (if prefix (oldPath @ ''/'') newPath then throw ErrConflict
      else let key = nsKey tenant newPath
      in tbind (tread (\<lambda>db. b_get K db BNamespace key \<noteq> None \<or> b_get K db BDirectories key \<noteq> None \<or>
                          hasChildren K tenant newPath db)) (\<lambda>taken.
         if taken then throw ErrConflict
         else tbind (tread (checkAncestors K tenant newPath)) (\<lambda>eo.
           tseq (tcheck eo)
          (tbind (tread (collectTreeMoves K tenant oldPath newPath)) (\<lambda>moves.
             if moves = [] then throw ErrNotFound
             else tbind (tread (\<lambda>db. list_ex (busy_move K db) moves)) (\<lambda>busy.
               if busy then throw ErrBusy
               else tfor moves (applyTreeMove K now tenant pol)))))))"

text \<open>\<open>RenameWith\<close>. The closure appends to \<open>victims\<close> as soon as it has replaced the destination, and
  the loop after the transaction unlinks the blobs of \<open>victims\<close> whatever the transaction returned.\<close>

definition rename_tx ::
    "'db bolt \<Rightarrow> gotime \<Rightarrow> string \<Rightarrow> string \<Rightarrow> string \<Rightarrow> bool \<Rightarrow> policy \<Rightarrow> ('db, unit) txn" where
  "rename_tx K now tenant oldPath newPath overwrite pol =
     tbind (tget K BNamespace (nsKey tenant oldPath)) (\<lambda>c.
       if oldPath = newPath
       then tbind (tread (renameInPlace K tenant oldPath (c \<noteq> None))) tcheck
       else case c of
         Some v \<Rightarrow> renameFile K now tenant oldPath newPath (raw_string (Some v)) overwrite pol
       | None \<Rightarrow> renameTree K now tenant oldPath newPath pol)"

definition rename_victims ::
    "'db bolt \<Rightarrow> gotime \<Rightarrow> string \<Rightarrow> string \<Rightarrow> string \<Rightarrow> bool \<Rightarrow> policy \<Rightarrow> 'db \<Rightarrow> object_version list" where
  "rename_victims K now tenant oldPath newPath overwrite pol db =
     (case b_get K db BNamespace (nsKey tenant oldPath) of
        None \<Rightarrow> []
      | Some v \<Rightarrow>
          if oldPath = newPath then []
          else case rename_prepare K now tenant newPath (raw_string (Some v)) overwrite pol (db, delta0) of
                 Inl _ \<Rightarrow> []
               | Inr ((ob, victims), _) \<Rightarrow> victims)"

definition RenameWith ::
    "'db bolt \<Rightarrow> string \<Rightarrow> (string \<Rightarrow> bool) \<Rightarrow> bool \<Rightarrow> (string \<Rightarrow> policy) option \<Rightarrow> gotime \<Rightarrow> string \<Rightarrow> string \<Rightarrow> string \<Rightarrow>
     bool \<Rightarrow> 'db store \<Rightarrow> (error + unit) \<times> 'db store" where
  "RenameWith K root rm gated src now tenant oldName newName overwrite st =
     (case CleanPath oldName of
        Inl e \<Rightarrow> (Inl e, st)
      | Inr oldPath \<Rightarrow>
          (case CleanPath newName of
             Inl e \<Rightarrow> (Inl e, st)
           | Inr newPath \<Rightarrow>
               if newPath = [] then (Inl (ErrOther ''invalid destination: empty path''), st)
               else if oldPath = [] then (Inl ErrInvalidPath, st)
               else let pol = policyFor src tenant;
                        victims = rename_victims K now tenant oldPath newPath overwrite pol (v_db st)
                    in case update K (rename_tx K now tenant oldPath newPath overwrite pol) st of
                         (r, st') \<Rightarrow>
                           (r, fold (\<lambda>v. collect root rm gated (o_ID v) (o_Tenant v) (o_BlobPath v) (o_Size v))
                                 victims st')))"

definition Rename ::
    "'db bolt \<Rightarrow> string \<Rightarrow> (string \<Rightarrow> bool) \<Rightarrow> bool \<Rightarrow> (string \<Rightarrow> policy) option \<Rightarrow> gotime \<Rightarrow> string \<Rightarrow> string \<Rightarrow> string \<Rightarrow>
     'db store \<Rightarrow> (error + unit) \<times> 'db store" where
  "Rename K root rm gated src now tenant oldName newName st =
     RenameWith K root rm gated src now tenant oldName newName False st"

section \<open>Directories\<close>

definition DirectoryExists :: "'db bolt \<Rightarrow> string \<Rightarrow> string \<Rightarrow> 'db store \<Rightarrow> error + bool" where
  "DirectoryExists K tenant name st =
     (case CleanPath name of
        Inl e \<Rightarrow> Inl e
      | Inr clean \<Rightarrow>
          if clean = [] then Inr True
          else Inr (b_get K (v_db st) BDirectories (nsKey tenant clean) \<noteq> None \<or> hasChildren K tenant clean (v_db st)))"

definition remove_dir_tx :: "'db bolt \<Rightarrow> string \<Rightarrow> string \<Rightarrow> ('db, unit) txn" where
  "remove_dir_tx K tenant clean =
     tbind (tread (hasChildren K tenant clean)) (\<lambda>children.
       if children then throw ErrConflict
       else tbind (tget K BDirectories (nsKey tenant clean)) (\<lambda>c.
         if c = None then throw ErrNotFound else tdel K BDirectories (nsKey tenant clean)))"

definition RemoveDir :: "'db bolt \<Rightarrow> string \<Rightarrow> string \<Rightarrow> 'db store \<Rightarrow> (error + unit) \<times> 'db store" where
  "RemoveDir K tenant name st =
     (case CleanPath name of
        Inl e \<Rightarrow> (Inl e, st)
      | Inr clean \<Rightarrow> if clean = [] then (Inl ErrConflict, st) else update K (remove_dir_tx K tenant clean) st)"

definition mkdir_tx :: "'db bolt \<Rightarrow> gotime \<Rightarrow> string \<Rightarrow> string \<Rightarrow> ('db, unit) txn" where
  "mkdir_tx K now tenant clean =
     tbind (tget K BNamespace (nsKey tenant clean)) (\<lambda>c.
       if c \<noteq> None then throw ErrConflict
       else tbind (tread (checkAncestors K tenant clean)) (\<lambda>eo.
         tseq (tcheck eo)
           (tput K BDirectories (nsKey tenant clean)
              (CDir \<lparr>e_Path = clean, e_Directory = True, e_UpdatedAt = now\<rparr>))))"

definition Mkdir :: "'db bolt \<Rightarrow> gotime \<Rightarrow> string \<Rightarrow> string \<Rightarrow> 'db store \<Rightarrow> (error + unit) \<times> 'db store" where
  "Mkdir K now tenant name st =
     (case CleanPath name of
        Inl e \<Rightarrow> (Inl e, st)
      | Inr clean \<Rightarrow> if clean = [] then (Inr (), st) else update K (mkdir_tx K now tenant clean) st)"

end
