(* ===== verification/Namespace_Correct.thy ===== *)
theory Namespace_Correct
  imports Namespace
begin

text \<open>
  The write transactions of \<^verbatim>\<open>namespace.go\<close> obey the contract of a write transaction: the catalog stays
  well-formed and the delta accounts for every change. The heart is \<open>moveObject\<close>: whatever branch
  it takes, it is one abstract rewrite of the object under its new path (\<open>moveObject_eff\<close>).
\<close>

lemma clean_path_append: "clean_path a \<Longrightarrow> clean_path b \<Longrightarrow> clean_path (a @ slash # b)"
proof -
  have "split_on slash (a @ slash # b) = split_on slash a @ split_on slash b"
    by (induction a) (auto split: list.splits)
  then show "clean_path a \<Longrightarrow> clean_path b \<Longrightarrow> clean_path (a @ slash # b)"
    by (simp add: clean_path_def)
qed

text \<open>What a collected move of a file promises: it is the name of an object without a lease, and
  its new key is under the new path.\<close>

definition file_move_ok :: "view \<Rightarrow> string \<Rightarrow> string \<Rightarrow> string \<Rightarrow> treeMove \<Rightarrow> bool" where
  "file_move_ok g tenant oldPath newPath m \<longleftrightarrow>
     (\<exists>sfx ob. m_oldKey m = nsKey tenant (oldPath @ slash # sfx) \<and> m_newKey m = nsKey tenant (newPath @ slash # sfx) \<and>
        clean_path (newPath @ slash # sfx) \<and> g BNamespace (m_oldKey m) = Some (CRaw (m_objectID m)) \<and>
        g BObjects (m_objectID m) = Some (CObject ob) \<and> o_State ob \<noteq> StateLeased)"

definition tree_moves_ok :: "view \<Rightarrow> string \<Rightarrow> string \<Rightarrow> string \<Rightarrow> treeMove list \<Rightarrow> bool" where
  "tree_moves_ok g tenant oldPath newPath ms \<longleftrightarrow>
     (\<forall>m\<in>set ms. \<not> m_directory m \<longrightarrow> file_move_ok g tenant oldPath newPath m) \<and>
     distinct (map m_oldKey (filter (\<lambda>m. \<not> m_directory m) ms)) \<and>
     (\<forall>m\<in>set ms. \<forall>m'\<in>set ms. \<not> m_directory m \<longrightarrow> \<not> m_directory m' \<longrightarrow> m_newKey m \<noteq> m_oldKey m')"

lemma dir_upd_ok:
  assumes "catalog_ok g n"
  shows "catalog_ok (upd g BDirectories k c) n"
proof (rule catalog_frame [OF assms])
  show "names_ok (upd g BDirectories k c)" using catalog_okD(5) [OF assms] by (simp add: names_ok_def)
qed simp

context bolt_laws
begin

section \<open>Placing an object\<close>

lemma place_cases:
  assumes run: "place K ob from pol now s = Inr (ob', s')"
  obtains (held) "Held (p_HoldPatterns pol) (o_Path ob)" "ob' = ob\<lparr>o_State := StateHeld\<rparr>"
      "contents K s' = upd (upd (contents K s) BHeld (timeIDKey (o_CreatedAt ob) (o_ID ob)) (Some (CRaw [])))
         BObjects (o_ID ob) (Some (CObject ob'))"
      "seqs K s' = seqs K s" "snd s' = move ob' from StateHeld (snd s)"
  | (ready) "\<not> Held (p_HoldPatterns pol) (o_Path ob)"
      "ob' = ob\<lparr>o_State := StateReady, o_QueueSeq := Suc (seqs K s BQueue), o_VisibleAt := now + p_PublishDelay pol\<rparr>"
      "Suc (seqs K s BQueue) < 2 ^ 64" "seqs K s' = (seqs K s)(BQueue := Suc (seqs K s BQueue))"
      "contents K s' = upd (upd (upd (contents K s)
           BQueue (queueKey (o_Tenant ob') (o_QueueSeq ob') (o_ID ob')) (Some (CRaw (queueValue (o_VisibleAt ob') (o_Path ob')))))
           BQueueSeg (queueSegKey (o_Tenant ob') (o_Path ob') (o_QueueSeq ob') (o_ID ob'))
             (Some (CRaw (queueValue (o_VisibleAt ob') (o_Path ob')))))
           BObjects (o_ID ob) (Some (CObject ob'))"
      "snd s' = move ob' from StateReady (snd s)"
proof (cases "Held (p_HoldPatterns pol) (o_Path ob)")
  case True
  with run show thesis by (intro held) (auto simp: place_def txn_simps dest!: step_effs)
next
  case False
  with run obtain s1 where e: "enqueue K (ob\<lparr>o_State := StateReady\<rparr>) (now + p_PublishDelay pol) s = Inr (ob', s1)"
    and s': "contents K s' = upd (contents K s1) BObjects (o_ID ob') (Some (CObject ob'))" "seqs K s' = seqs K s1"
      "snd s' = move ob' from (o_State ob') (snd s1)"
    by (auto simp: place_def txn_simps dest!: putObject_eff)
  note e' = enqueue_eff [OF e]
  show thesis
    by (rule ready) (use False e' s' in \<open>simp_all add: e'(1)\<close>)
qed

section \<open>Moving an object\<close>

text \<open>The object a rename leaves behind.\<close>

definition moved_to :: "object_version \<Rightarrow> string \<Rightarrow> nat \<Rightarrow> nat \<Rightarrow> object_version \<Rightarrow> bool" where
  "moved_to ob newPath n n' ob' \<longleftrightarrow>
     o_ID ob' = o_ID ob \<and> o_Tenant ob' = o_Tenant ob \<and> o_Size ob' = o_Size ob \<and> o_Path ob' = newPath \<and>
     o_Retracted ob' = o_Retracted ob \<and> o_LeaseID ob' = o_LeaseID ob \<and>
     o_State ob' \<in> {StateReady, StateHeld, StateParked} \<and>
     (o_QueueSeq ob' \<noteq> 0 \<longleftrightarrow> o_State ob' = StateReady) \<and>
     (n' = n \<and> (o_QueueSeq ob' = 0 \<or> o_QueueSeq ob' = o_QueueSeq ob) \<or>
      n' = Suc n \<and> Suc n < 2 ^ 64 \<and> o_QueueSeq ob' = Suc n)"

lemma unleased_states:
  "obj_ok ob \<Longrightarrow> o_State ob \<noteq> StateLeased \<Longrightarrow>
   o_State ob \<in> {StateReady, StateHeld, StateParked} \<and> o_LeaseID ob = [] \<and> \<not> o_Retracted ob \<and>
   (o_QueueSeq ob \<noteq> 0 \<longleftrightarrow> o_State ob = StateReady)"
  by (auto simp: obj_ok_def)

lemma moveObject_eff:
  assumes cat: "cat K s" and ob: "contents K s BObjects (o_ID ob) = Some (CObject ob)" "o_State ob \<noteq> StateLeased"
    and run: "moveObject K now ob newPath pol s = Inr (x, s')"
  obtains ob' where "contents K s' = set_object ob' None (contents K s)"
    "moved_to ob newPath (seqs K s BQueue) (seqs K s' BQueue) ob'"
    "delta_moves ob' (o_State ob) 0 (snd s) (snd s')"
proof -
  let ?g = "contents K s"
  note c = cat [unfolded cat_def]
  note st = unleased_states [OF catalog_object(1) [OF c ob(1)] ob(2)]
  let ?o1 = "ob\<lparr>o_QueueSeq := 0, o_Path := newPath, o_UpdatedAt := now\<rparr>"
  from run obtain ob1 s1 where d: "dequeue K ob s = Inr (ob1, s1)"
    by (auto simp: moveObject_def Let_def tbind_Inr)
  have "(if o_State ob = StateHeld \<and> \<not> Held (p_HoldPatterns pol) newPath
            then tseq (tdel K BHeld (timeIDKey (o_CreatedAt ob) (o_ID ob)))
                (tseq (place K ?o1 StateHeld pol now) (ret ()))
            else if o_State ob = StateReady \<and> Held (p_HoldPatterns pol) newPath
            then tseq (place K ?o1 StateReady pol now) (ret ())
            else if o_QueueSeq ob \<noteq> 0
            then tseq (putQueueEntries K (?o1\<lparr>o_QueueSeq := o_QueueSeq ob, o_VisibleAt := o_VisibleAt ob\<rparr>))
                  (putObject K (?o1\<lparr>o_QueueSeq := o_QueueSeq ob, o_VisibleAt := o_VisibleAt ob\<rparr>))
            else putObject K ?o1) s1 = Inr (x, s')"
    using run d dequeue_eff(1) [OF d] by (auto simp: moveObject_def Let_def tbind_def split: if_splits)
  note r = this and d' = dequeue_eff(2-) [OF d]
  consider (release) "o_State ob = StateHeld" "\<not> Held (p_HoldPatterns pol) newPath"
    | (hold) "o_State ob = StateReady" "Held (p_HoldPatterns pol) newPath"
    | (queued) "o_State ob = StateReady" "\<not> Held (p_HoldPatterns pol) newPath"
    | (keep) "o_State ob = StateHeld \<or> o_State ob = StateParked" "o_State ob = StateHeld \<longrightarrow> Held (p_HoldPatterns pol) newPath"
    using st by auto
  then show thesis
  proof cases
    case release
    with r st obtain s2 ob' where s2: "tdel K BHeld (timeIDKey (o_CreatedAt ob) (o_ID ob)) s1 = Inr ((), s2)"
      and p: "place K ?o1 StateHeld pol now s2 = Inr (ob', s')"
      by (auto simp: txn_simps)
    note s2' = tdel_eff [OF s2]
    show thesis
    proof (cases rule: place_cases [OF p, case_names held ready])
      case ready
      show thesis
      proof (rule that [of ob'])
        show "contents K s' = set_object ob' None ?g"
        proof
          fix B
          show "contents K s' B = set_object ob' None ?g B"
            using ob st release by (cases B) (simp_all add: ready(2,5) s2' d'(3) view_defs)
        qed
        show "moved_to ob newPath (seqs K s BQueue) (seqs K s' BQueue) ob'"
          using st ready(3,4) s2' d'(1) by (simp add: moved_to_def ready(2))
        show "delta_moves ob' (o_State ob) 0 (snd s) (snd s')"
          using delta_moves_move [of StateHeld StateReady ob' "snd s"] release ready(2,6) s2' d'(2) by simp
      qed
    qed (use release in simp)
  next
    case hold
    with r obtain ob' where p: "place K ?o1 StateReady pol now s1 = Inr (ob', s')"
      by (auto simp: txn_simps)
    show thesis
    proof (cases rule: place_cases [OF p, case_names held ready])
      case held
      show thesis
      proof (rule that [of ob'])
        show "contents K s' = set_object ob' None ?g"
        proof
          fix B
          show "contents K s' B = set_object ob' None ?g B"
            using ob st hold by (cases B) (simp_all add: held(2,3) d'(3) view_defs)
        qed
        show "moved_to ob newPath (seqs K s BQueue) (seqs K s' BQueue) ob'"
          using st held(4) d'(1) by (simp add: moved_to_def held(2))
        show "delta_moves ob' (o_State ob) 0 (snd s) (snd s')"
          using delta_moves_move [of StateReady StateHeld ob' "snd s"] hold held(2,5) d'(2) by simp
      qed
    qed (use hold in simp)
  next
    case queued
    let ?o2 = "?o1\<lparr>o_QueueSeq := o_QueueSeq ob, o_VisibleAt := o_VisibleAt ob\<rparr>"
    from r queued st have p: "tseq (putQueueEntries K ?o2) (putObject K ?o2) s1 = Inr (x, s')" by simp
    then have e: "contents K s' = upd (upd (upd (contents K s1)
           BQueue (queueKey (o_Tenant ob) (o_QueueSeq ob) (o_ID ob)) (Some (CRaw (queueValue (o_VisibleAt ob) newPath))))
           BQueueSeg (queueSegKey (o_Tenant ob) newPath (o_QueueSeq ob) (o_ID ob)) (Some (CRaw (queueValue (o_VisibleAt ob) newPath))))
           BObjects (o_ID ob) (Some (CObject ?o2))" "seqs K s' = seqs K s1" "snd s' = snd s1"
      by (auto simp: putQueueEntries_def Let_def txn_simps dest!: step_effs)
    show thesis
    proof (rule that [of ?o2])
      show "contents K s' = set_object ?o2 None ?g"
      proof
        fix B
        show "contents K s' B = set_object ?o2 None ?g B"
          using ob st queued by (cases B) (simp_all add: e d'(3) view_defs)
      qed
      show "moved_to ob newPath (seqs K s BQueue) (seqs K s' BQueue) ?o2"
        using st d'(1) e(2) by (simp add: moved_to_def)
      show "delta_moves ?o2 (o_State ob) 0 (snd s) (snd s')"
        using delta_moves_same [of "o_State ob" ?o2 "snd s"] d'(2) e(3) by simp
    qed
  next
    case keep
    with r st have p: "putObject K ?o1 s1 = Inr (x, s')" by auto
    have q: "o_QueueSeq ob = 0" using keep st by auto
    note e = putObject_eff [OF p]
    show thesis
    proof (rule that [of ?o1])
      have "upd ?g BObjects (o_ID ?o1) (Some (CObject ?o1)) = set_object ?o1 None ?g"
        using ob st q catalog_okD(1,2) [OF c] by (intro keep_claim_view [of ?g ?o1 ob None]) auto
      then show "contents K s' = set_object ?o1 None ?g" using e d'(3) q by simp
      show "moved_to ob newPath (seqs K s BQueue) (seqs K s' BQueue) ?o1"
        using st d'(1) e keep by (auto simp: moved_to_def)
      show "delta_moves ?o1 (o_State ob) 0 (snd s) (snd s')"
        using delta_moves_same [of "o_State ob" ?o1 "snd s"] d'(2) e by simp
    qed
  qed
qed

section \<open>Renaming one object\<close>

text \<open>Rewriting an object that holds no lease, without a claim, is accounted for by its move.\<close>

lemma rewrite_balanced:
  assumes cat: "cat K s" and old: "contents K s BObjects (o_ID ob) = Some (CObject old)" "o_LeaseID old = []"
    and same: "o_Tenant ob = o_Tenant old" "o_Size ob = o_Size old"
    and moves: "delta_moves ob (o_State old) 0 (snd s) d'"
  shows "balanced (contents K s) (snd s) (set_object ob None (contents K s)) d'"
proof -
  let ?g = "contents K s"
  note size = set_object_size [of ?g ob old None, OF finite_contents old(1)]
  have "state_stats ob (o_State old) = state_stats old (o_State old)"
    using same by (simp add: state_stats_def)
  with finite_contents same old moves size show ?thesis
    by (intro set_object_balanced [of ?g ob "o_State old"]) (simp_all add: cell_opt_stats_def cell_stats_def)
qed

lemma move_view:
  assumes "g BNamespace k \<noteq> None \<Longrightarrow> k \<noteq> k'"
  shows "upd (upd (set_object ob clo g) BNamespace k' v) BNamespace k None =
    upd (set_object ob clo (upd g BNamespace k None)) BNamespace k' (if k' = k then None else v)"
proof
  fix B
  show "upd (upd (set_object ob clo g) BNamespace k' v) BNamespace k None B =
    upd (set_object ob clo (upd g BNamespace k None)) BNamespace k' (if k' = k then None else v) B"
    by (cases B) (auto simp: view_defs fun_eq_iff split: option.splits cell.splits)
qed

lemma rename_step_good:
  assumes cat: "cat K s" and t: "nul \<notin> set tenant" and new: "clean_path newPath" "newPath \<noteq> oldPath"
    and name: "contents K s BNamespace (nsKey tenant oldPath) = Some (CRaw oid)"
    and ob: "contents K s BObjects oid = Some (CObject ob)" "o_State ob \<noteq> StateLeased"
    and run: "moveObject K now ob newPath pol s = Inr (x, s1)"
      "tput K BNamespace (nsKey tenant newPath) (CRaw oid) s1 = Inr (y, s2)"
      "tdel K BNamespace (nsKey tenant oldPath) s2 = Inr (z, s')"
  shows "good K s s'"
proof -
  let ?g = "contents K s" and ?k = "nsKey tenant oldPath" and ?k' = "nsKey tenant newPath"
  note c = cat [unfolded cat_def]
  note o = catalog_object [OF c ob(1)] and n = names_of [OF c ob(1) name]
  note st = unleased_states [OF o(1) ob(2)]
  have ob': "?g BObjects (o_ID ob) = Some (CObject ob)" using ob(1) o(2) by simp
  have tn: "o_Tenant ob = tenant" "o_Path ob = oldPath"
    using n(1) t o(1) by (auto simp: nsKey_inj obj_ok_def)
  from moveObject_eff [OF cat ob' ob(2) run(1)] obtain ob2 where
    s1: "contents K s1 = set_object ob2 None ?g"
    and mv: "moved_to ob newPath (seqs K s BQueue) (seqs K s1 BQueue) ob2"
    and dm: "delta_moves ob2 (o_State ob) 0 (snd s) (snd s1)" .
  note e = tput_eff [OF run(2)] tdel_eff [OF run(3)]
  let ?g1 = "upd ?g BNamespace ?k None"
  have view: "contents K s' = upd (set_object ob2 None ?g1) BNamespace ?k' (Some (CRaw oid))"
    using e s1 move_view [of ?g ?k ?k' ob2 None "Some (CRaw oid)"] new(2) by simp
  have idx: "o_ID ob2 = oid" "o_Tenant ob2 = tenant" "o_Path ob2 = newPath" "\<not> o_Retracted ob2"
    using mv o(2) tn st by (auto simp: moved_to_def)
  have c1: "catalog_ok ?g1 (seqs K s BQueue)" by (rule name_del_ok [OF c])
  have ng: "?g1 BNamespace k \<noteq> Some (CRaw oid)" for k
    using names_of(1) [OF c ob(1), of k] n(1) by auto
  have ok2: "obj_ok ob2" using mv o(1) st new(1) by (auto simp: obj_ok_def moved_to_def)
  have n64: "seqs K s BQueue < 2 ^ 64" using catalog_okD(7) [OF c] by (simp add: queue_seq_ok_def)
  have "may_set ob2 None ?g1 (seqs K s BQueue) (seqs K s1 BQueue)"
    using ok2 o idx ng mv ob(1) n64 by (auto simp: may_set_def moved_to_def)
  from set_object_ok [OF c1 this] have c2: "catalog_ok (set_object ob2 None ?g1) (seqs K s1 BQueue)" .
  have "catalog_ok (contents K s') (seqs K s' BQueue)"
    using name_put_ok [OF c2, of ob2] idx e view by (simp add: set_object_objects)
  moreover have "balanced ?g (snd s) (contents K s') (snd s')"
  proof (rule balanced_frame)
    show "balanced ?g (snd s) (set_object ob2 None ?g) (snd s')"
      using mv ob' st dm e by (intro rewrite_balanced [OF cat, of ob2 ob]) (auto simp: moved_to_def)
    show "B \<in> {BObjects, BClaims, BGC, BUploads} \<Longrightarrow> contents K s' B = set_object ob2 None ?g B" for B
      using e s1 by auto
  qed
  ultimately show ?thesis by (simp add: good_def cat_def)
qed

lemma renameFile_good:
  assumes cat: "cat K s" and t: "nul \<notin> set tenant" and new: "clean_path newPath" "newPath \<noteq> oldPath"
    and name: "contents K s BNamespace (nsKey tenant oldPath) = Some (CRaw oid)"
    and run: "renameFile K now tenant oldPath newPath oid overwrite pol s = Inr (x, s')"
  shows "good K s s'"
proof -
  from run obtain ob vs s1 where p: "rename_prepare K now tenant newPath oid overwrite pol s = Inr ((ob, vs), s1)"
    and f: "rename_finish K now tenant oldPath newPath oid pol ob s1 = Inr (x, s')"
    by (auto simp: renameFile_def tbind_Inr)
  from p have ob: "contents K s BObjects oid = Some (CObject ob)" "o_State ob \<noteq> StateLeased"
    by (auto simp: rename_prepare_def Let_def txn_simps split: if_splits sum.splits)
  from p consider "s1 = s" "contents K s BNamespace (nsKey tenant newPath) = None"
    | vo where "replacePath K now tenant newPath (p_Supersede pol) ''superseded'' s = Inr (vo, s1)"
    by (auto simp: rename_prepare_def Let_def txn_simps split: if_splits sum.splits)
  then have "good K s s1 \<and> contents K s1 BNamespace (nsKey tenant oldPath) = Some (CRaw oid) \<and>
      contents K s1 BObjects oid = Some (CObject ob)"
  proof cases
    case 1
    then show ?thesis using good_refl [OF cat] name ob by simp
  next
    case (2 vo)
    note g = replacePath_good [OF cat t 2]
    have ne: "nsKey tenant oldPath \<noteq> nsKey tenant newPath" using new(2) by simp
    have other: "o_ID v \<noteq> oid" if "contents K s BNamespace (nsKey tenant newPath) = Some (CRaw (o_ID v))" for v
      using names_of(1) [OF cat [unfolded cat_def] ob(1)] name that ne by metis
    show ?thesis
    proof (cases rule: replacePath_cases [OF cat t 2, case_names free detach retract delete])
      case free
      then show ?thesis using g name ob by simp
    next
      case detach
      then show ?thesis using g name ob ne tdel_eff [OF detach(2)] by simp
    next
      case (retract v sa)
      then show ?thesis
        using g name ob ne other [OF retract(1)] tdel_eff [OF retract(7)] tput_eff [OF retract(8)] by simp
    next
      case (delete v sa)
      note ea = tdel_eff [OF delete(7)]
      have ca: "cat K sa" using name_del_good [OF cat delete(7)] by (rule good_cat)
      have va: "contents K sa BObjects (o_ID v) = Some (CObject v)" using delete(2) ea by simp
      note dd = deletable_stored [OF ca [unfolded cat_def] va]
      note ed = deleteObjectTx_eff [OF delete(8) dd(1,3)]
      show ?thesis
        using g name ob ne other [OF delete(1)] ea delete(3,4)
        by (simp add: ed(1) delete_view_frame free_name_def Let_def)
    qed
  qed
  then have g1: "good K s s1" and n1: "contents K s1 BNamespace (nsKey tenant oldPath) = Some (CRaw oid)"
    and o1: "contents K s1 BObjects oid = Some (CObject ob)" by auto
  from f obtain sa sb where "moveObject K now ob newPath pol s1 = Inr ((), sa)"
    "tput K BNamespace (nsKey tenant newPath) (CRaw oid) sa = Inr ((), sb)"
    "tdel K BNamespace (nsKey tenant oldPath) sb = Inr (x, s')"
    by (auto simp: rename_finish_def tseq_Inr)
  from rename_step_good [OF good_cat [OF g1] t new n1 o1 ob(2) this] g1 show ?thesis
    by (blast intro: good_trans)
qed

section \<open>Removing and directories\<close>

lemma remove_sound:
  assumes t: "nul \<notin> set tenant"
  shows "sound K (remove_tx K now tenant clean)"
proof (rule soundI)
  fix s x s'
  assume cat: "cat K s" and run: "remove_tx K now tenant clean s = Inr (x, s')"
  let ?k = "nsKey tenant clean"
  from run obtain v where v: "contents K s BNamespace ?k = Some v"
    by (cases "contents K s BNamespace ?k") (auto simp: remove_tx_def Let_def txn_simps)
  from named_object [OF cat v t] obtain ob where ob: "v = CRaw (o_ID ob)"
    "contents K s BObjects (o_ID ob) = Some (CObject ob)" "o_Tenant ob = tenant" "o_Path ob = clean" .
  show "good K s s'"
  proof (cases "o_State ob = StateLeased")
    case True
    with run v ob obtain s1 where "tdel K BNamespace ?k s = Inr ((), s1)"
      "tput K BObjects (o_ID ob) (CObject (ob\<lparr>o_Retracted := True\<rparr>)) s1 = Inr ((), s')"
      by (auto simp: remove_tx_def Let_def txn_simps)
    then show ?thesis using retract_good [OF cat ob(2) True] ob(3,4) by simp
  next
    case False
    with run v ob have "deleteObjectTx K now ob ''removed'' s = Inr ((), s')"
      by (auto simp: remove_tx_def Let_def txn_simps)
    then show ?thesis by (rule delete_good [OF cat ob(2)])
  qed
qed

lemma directory_good:
  assumes cat: "cat K s" and s': "contents K s' = upd (contents K s) BDirectories k c" "seqs K s' = seqs K s" "snd s' = snd s"
  shows "good K s s'"
proof (rule frame_good)
  show "catalog_ok (contents K s') (seqs K s' BQueue)"
    using cat s' dir_upd_ok by (simp add: cat_def)
qed (use s' in auto)

lemma mkdir_sound: "sound K (mkdir_tx K now tenant clean)"
  by (rule soundI) (auto simp: mkdir_tx_def txn_simps split: if_splits dest!: tput_eff intro: directory_good)

lemma remove_dir_sound: "sound K (remove_dir_tx K tenant clean)"
  by (rule soundI) (auto simp: remove_dir_tx_def txn_simps split: if_splits dest!: tdel_eff intro: directory_good)

section \<open>Renaming a tree\<close>

lemma moveObject_frame:
  assumes "moveObject K now ob newPath pol s = Inr (x, s')" "o_State ob \<noteq> StateLeased"
    "cat K s" "contents K s BObjects (o_ID ob) = Some (CObject ob)"
  shows "contents K s' BNamespace = contents K s BNamespace" "contents K s' BDirectories = contents K s BDirectories"
    "oid \<noteq> o_ID ob \<Longrightarrow> contents K s' BObjects oid = contents K s BObjects oid"
proof -
  from moveObject_eff [OF assms(3,4,2,1)] obtain ob' where s': "contents K s' = set_object ob' None (contents K s)"
    and "moved_to ob newPath (seqs K s BQueue) (seqs K s' BQueue) ob'" .
  then have "o_ID ob' = o_ID ob" by (simp add: moved_to_def)
  then show "contents K s' BNamespace = contents K s BNamespace" "contents K s' BDirectories = contents K s BDirectories"
    "oid \<noteq> o_ID ob \<Longrightarrow> contents K s' BObjects oid = contents K s BObjects oid"
    by (simp_all add: s' set_object_objects)
qed

lemma file_move_good:
  assumes cat: "cat K s" and t: "nul \<notin> set tenant" and m: "\<not> m_directory m" "file_move_ok (contents K s) tenant oldPath newPath m"
    and ne: "m_newKey m \<noteq> m_oldKey m"
    and run: "applyTreeMove K now tenant pol m s = Inr (x, s')"
  shows "good K s s'"
    and "contents K s' BNamespace = (contents K s BNamespace)(m_newKey m \<mapsto> CRaw (m_objectID m), m_oldKey m := None)"
    and "contents K s' BDirectories = contents K s BDirectories"
    and "oid \<noteq> m_objectID m \<Longrightarrow> contents K s' BObjects oid = contents K s BObjects oid"
proof -
  from m(2) obtain sfx ob where k: "m_oldKey m = nsKey tenant (oldPath @ slash # sfx)"
      "m_newKey m = nsKey tenant (newPath @ slash # sfx)" "clean_path (newPath @ slash # sfx)"
    and name: "contents K s BNamespace (m_oldKey m) = Some (CRaw (m_objectID m))"
    and ob: "contents K s BObjects (m_objectID m) = Some (CObject ob)" "o_State ob \<noteq> StateLeased"
    unfolding file_move_ok_def by blast
  have np: "trim_prefix (m_newKey m) (tenant @ [nul]) = newPath @ slash # sfx"
    by (simp add: k(2) nsKey_def trim_prefix_def)
  from run m(1) ob(1) np obtain sa sb where r: "moveObject K now ob (newPath @ slash # sfx) pol s = Inr ((), sa)"
    "tput K BNamespace (m_newKey m) (CRaw (m_objectID m)) sa = Inr ((), sb)" "tdel K BNamespace (m_oldKey m) sb = Inr (x, s')"
    by (auto simp: applyTreeMove_def Let_def txn_simps)
  have oid: "o_ID ob = m_objectID m" using catalog_object(2) [OF cat [unfolded cat_def] ob(1)] .
  note f = moveObject_frame [OF r(1) ob(2) cat] and e = tput_eff [OF r(2)] tdel_eff [OF r(3)]
  have ne': "newPath @ slash # sfx \<noteq> oldPath @ slash # sfx" using ne k(1,2) by auto
  show "good K s s'"
    by (rule rename_step_good [OF cat t k(3) ne' name [unfolded k(1)] ob r(1) r(2) [unfolded k(2)] r(3) [unfolded k(1)]])
  show "contents K s' BNamespace = (contents K s BNamespace)(m_newKey m \<mapsto> CRaw (m_objectID m), m_oldKey m := None)"
    "contents K s' BDirectories = contents K s BDirectories"
    "oid \<noteq> m_objectID m \<Longrightarrow> contents K s' BObjects oid = contents K s BObjects oid"
    using f ob(1) oid e by auto
qed

lemma dir_move_eff:
  assumes "m_directory m" "applyTreeMove K now tenant pol m s = Inr (x, s')"
  shows "contents K s' = upd (upd (contents K s) BDirectories (m_newKey m)
      (Some (CDir \<lparr>e_Path = trim_prefix (m_newKey m) (tenant @ [nul]), e_Directory = True, e_UpdatedAt = now\<rparr>)))
      BDirectories (m_oldKey m) None" "seqs K s' = seqs K s" "snd s' = snd s"
  using assms by (auto simp: applyTreeMove_def Let_def txn_simps dest!: step_effs)

lemma dir_move_good:
  assumes cat: "cat K s" and m: "m_directory m" and run: "applyTreeMove K now tenant pol m s = Inr (x, s')"
  shows "good K s s'"
proof (rule frame_good)
  note e = dir_move_eff [OF m run]
  show "catalog_ok (contents K s') (seqs K s' BQueue)"
    unfolding e using cat by (intro dir_upd_ok) (simp add: cat_def)
  show "snd s' = snd s" by (rule e)
  show "B \<in> {BObjects, BClaims, BGC, BUploads} \<Longrightarrow> contents K s' B = contents K s B" for B
    by (auto simp: e)
qed

lemma tree_moves_step:
  assumes cat: "cat K s" and t: "nul \<notin> set tenant" and ok: "tree_moves_ok (contents K s) tenant oldPath newPath (m # ms)"
    and run: "applyTreeMove K now tenant pol m s = Inr (x, s')"
  shows "good K s s' \<and> tree_moves_ok (contents K s') tenant oldPath newPath ms"
proof (cases "m_directory m")
  case True
  note e = dir_move_eff [OF True run]
  have "file_move_ok (contents K s') tenant oldPath newPath m' = file_move_ok (contents K s) tenant oldPath newPath m'" for m'
    by (simp add: file_move_ok_def e)
  with ok dir_move_good [OF cat True run] True show ?thesis by (simp add: tree_moves_ok_def)
next
  case False
  have fm: "file_move_ok (contents K s) tenant oldPath newPath m" and ne: "m_newKey m \<noteq> m_oldKey m"
    using ok False by (auto simp: tree_moves_ok_def)
  note e = file_move_good [OF cat t False fm ne run]
  have "file_move_ok (contents K s') tenant oldPath newPath m'" if m': "m' \<in> set ms" "\<not> m_directory m'" for m'
  proof -
    have f': "file_move_ok (contents K s) tenant oldPath newPath m'"
      and k: "m_oldKey m' \<noteq> m_oldKey m" "m_oldKey m' \<noteq> m_newKey m"
      using ok m' False unfolding tree_moves_ok_def by (auto simp: image_iff)
    from f' obtain ob' where ob': "contents K s BNamespace (m_oldKey m') = Some (CRaw (m_objectID m'))"
      "contents K s BObjects (m_objectID m') = Some (CObject ob')"
      by (auto simp: file_move_ok_def)
    have "contents K s BNamespace (m_oldKey m) = Some (CRaw (m_objectID m))" using fm by (auto simp: file_move_ok_def)
    then have "m_objectID m' \<noteq> m_objectID m"
      using names_of(1) [OF cat [unfolded cat_def] ob'(2)] ob'(1) k(1) by metis
    with f' k e show ?thesis by (simp add: file_move_ok_def)
  qed
  with ok e(1) False show ?thesis by (simp add: tree_moves_ok_def)
qed

lemma tree_moves_good:
  assumes "cat K s" "nul \<notin> set tenant" "tree_moves_ok (contents K s) tenant oldPath newPath ms"
    and "tfor ms (applyTreeMove K now tenant pol) s = Inr (x, s')"
  shows "good K s s'"
  using assms
proof (induction ms arbitrary: s)
  case Nil
  then show ?case using good_refl [OF Nil(1)] by (simp add: ret_Inr)
next
  case (Cons m ms)
  from Cons.prems(4) obtain s1 where s1: "applyTreeMove K now tenant pol m s = Inr ((), s1)"
    and rest: "tfor ms (applyTreeMove K now tenant pol) s1 = Inr (x, s')"
    by (auto simp: tseq_Inr)
  from tree_moves_step [OF Cons.prems(1-3) s1] have "good K s s1" "tree_moves_ok (contents K s1) tenant oldPath newPath ms"
    by auto
  with Cons.IH [OF good_cat _ _ rest] Cons.prems(2) show ?case by (blast intro: good_trans)
qed

lemma collected_moves:
  assumes cat: "cat K s" and t: "nul \<notin> set tenant" and new: "clean_path newPath"
    and none: "\<not> hasChildren K tenant newPath (fst s)"
    and ms: "ms = collectTreeMoves K tenant oldPath newPath (fst s)" "\<not> list_ex (busy_move K (fst s)) ms"
  shows "tree_moves_ok (contents K s) tenant oldPath newPath ms"
proof -
  let ?g = "contents K s" and ?pre = "nsKey tenant (oldPath @ ''/'')"
  let ?l = "takeWhile (\<lambda>(k, v). prefix ?pre k) (b_seek K (fst s) BNamespace ?pre)"
  have l: "(k, v) \<in> set ?l \<longleftrightarrow> ?g BNamespace k = Some v \<and> prefix ?pre k" for k v
    using seek_prefix [of ?pre "fst s" BNamespace] by (simp add: case_prod_unfold contents_def)
  have dist: "distinct (map fst ?l)"
    using seek_distinct [of "fst s" BNamespace ?pre]
    by (auto simp: distinct_map intro: inj_on_subset dest: set_takeWhileD)
  let ?f = "\<lambda>(k, v). \<lparr>m_oldKey = k, m_newKey = nsKey tenant (newPath @ ''/'' @ trim_prefix k ?pre),
      m_objectID = raw_string (Some v), m_directory = False\<rparr>"
  have files: "filter (\<lambda>m. \<not> m_directory m) ms = map ?f ?l"
    by (simp add: ms(1) collectTreeMoves_def Let_def filter_map comp_def case_prod_unfold)
  have fm: "m \<in> set ms \<and> \<not> m_directory m \<longleftrightarrow> (\<exists>k v. (k, v) \<in> set ?l \<and> m = ?f (k, v))" for m
  proof -
    have "m \<in> set ms \<and> \<not> m_directory m \<longleftrightarrow> m \<in> ?f ` set ?l"
      using arg_cong [OF files, of set] unfolding set_map set_filter by blast
    then show ?thesis by (simp only: image_iff Bex_def split_paired_Ex)
  qed
  have ok: "file_move_ok ?g tenant oldPath newPath m" if m: "m \<in> set ms" "\<not> m_directory m" for m
  proof -
    from m fm obtain k v where kv: "(k, v) \<in> set ?l" "m = ?f (k, v)" by blast
    then have v: "?g BNamespace k = Some v" "prefix ?pre k" using l by auto
    then obtain sfx where k: "k = nsKey tenant (oldPath @ slash # sfx)" by (auto simp: prefix_def nsKey_def)
    from named_object [OF cat v(1) [unfolded k] t] obtain ob where ob: "v = CRaw (o_ID ob)"
      "?g BObjects (o_ID ob) = Some (CObject ob)" "o_Path ob = oldPath @ slash # sfx" "obj_ok ob" .
    have "clean_path (oldPath @ slash # sfx)" using ob(3,4) by (simp add: obj_ok_def)
    then have cp: "clean_path (newPath @ slash # sfx)" using clean_path_split(2) clean_path_append [OF new] by blast
    have tp: "trim_prefix k ?pre = sfx" by (simp add: k trim_prefix_def nsKey_def)
    have "o_State ob \<noteq> StateLeased"
      using ms(2) m kv(2) ob(1,2) by (auto simp: list_ex_iff busy_move_def contents_def)
    with ob(1,2) v(1) cp tp k kv(2) show ?thesis by (auto simp: file_move_ok_def)
  qed
  have apart: "m_newKey m \<noteq> m_oldKey m'" if m: "m \<in> set ms" "\<not> m_directory m" "m' \<in> set ms" "\<not> m_directory m'" for m m'
  proof
    assume e: "m_newKey m = m_oldKey m'"
    from ok [OF m(3,4)] obtain c where c: "?g BNamespace (m_oldKey m') = Some c" by (auto simp: file_move_ok_def)
    have "prefix (nsKey tenant (newPath @ ''/'')) (m_newKey m)"
      using ok [OF m(1,2)] by (auto simp: file_move_ok_def)
    with e c none show False unfolding hasChildren_iff contents_def by (metis insertI1)
  qed
  have d: "map m_oldKey (map ?f ?l) = map fst ?l" by auto
  show ?thesis
    unfolding tree_moves_ok_def files d using ok apart dist by blast
qed

lemma renameTree_good:
  assumes cat: "cat K s" and t: "nul \<notin> set tenant" and new: "clean_path newPath"
    and run: "renameTree K now tenant oldPath newPath pol s = Inr (x, s')"
  shows "good K s s'"
proof -
  let ?ms = "collectTreeMoves K tenant oldPath newPath (fst s)"
  from run have c: "\<not> hasChildren K tenant newPath (fst s)" "\<not> list_ex (busy_move K (fst s)) ?ms"
    and loop: "tfor ?ms (applyTreeMove K now tenant pol) s = Inr (x, s')"
    by (auto simp: renameTree_def Let_def tbind_Inr tseq_Inr tread_Inr tcheck_Inr throw_Inr split: if_splits)
  show ?thesis
    by (rule tree_moves_good [OF cat t collected_moves [OF cat t new c(1) refl c(2)] loop])
qed

lemma rename_sound:
  assumes t: "nul \<notin> set tenant" and new: "clean_path newPath"
  shows "sound K (rename_tx K now tenant oldPath newPath overwrite pol)"
proof (rule soundI)
  fix s x s'
  assume cat: "cat K s" and run: "rename_tx K now tenant oldPath newPath overwrite pol s = Inr (x, s')"
  show "good K s s'"
  proof (cases "oldPath = newPath")
    case True
    with run have "s' = s" by (auto simp: rename_tx_def txn_simps)
    then show ?thesis using good_refl [OF cat] by simp
  next
    case False
    show ?thesis
    proof (cases "contents K s BNamespace (nsKey tenant oldPath)")
      case None
      with False run have "renameTree K now tenant oldPath newPath pol s = Inr (x, s')"
        by (auto simp: rename_tx_def txn_simps)
      then show ?thesis by (rule renameTree_good [OF cat t new])
    next
      case (Some v)
      from named_object [OF cat Some t] obtain oid where oid: "v = CRaw oid" by metis
      with False run Some have "renameFile K now tenant oldPath newPath oid overwrite pol s = Inr (x, s')"
        by (auto simp: rename_tx_def txn_simps)
      with renameFile_good [OF cat t new] False Some oid show ?thesis by metis
    qed
  qed
qed

end

section \<open>The operations keep the store well-formed\<close>

lemma collect_store_ok [simp]: "store_ok K (collect root rm gated oid tenant blob sz st) = store_ok K st"
  by (auto simp: collect_def store_ok_def Let_def)

lemma collects_store_ok [simp]:
  "store_ok K (fold (\<lambda>v. collect root rm gated (o_ID v) (o_Tenant v) (o_BlobPath v) (o_Size v)) vs st) = store_ok K st"
  by (induction vs arbitrary: st) simp_all

lemma CleanPath_ne: "CleanPath name = Inr p \<Longrightarrow> p \<noteq> [] \<Longrightarrow> clean_path p"
  using CleanPath_Inr by blast

context bolt_laws
begin

lemma namespace_ok:
  assumes ok: "store_ok K st" and t: "nul \<notin> set tenant"
  shows "store_ok K (snd (Remove K root rm gated now tenant name st))"
    "store_ok K (snd (RenameWith K root rm gated src now tenant oldName newName overwrite st))"
    "store_ok K (snd (Mkdir K now tenant name st))" "store_ok K (snd (RemoveDir K tenant name st))"
proof -
  show "store_ok K (snd (Remove K root rm gated now tenant name st))"
    using update_ok [OF remove_sound [OF t] ok]
    by (auto simp: Remove_def ok split: sum.splits prod.splits option.splits)
      (metis snd_conv)+
  show "store_ok K (snd (Mkdir K now tenant name st))" "store_ok K (snd (RemoveDir K tenant name st))"
    using update_ok [OF mkdir_sound ok] update_ok [OF remove_dir_sound ok]
    by (auto simp: Mkdir_def RemoveDir_def ok split: sum.splits)
  show "store_ok K (snd (RenameWith K root rm gated src now tenant oldName newName overwrite st))"
  proof (cases "CleanPath oldName")
    case (Inr oldPath)
    show ?thesis
    proof (cases "CleanPath newName")
      case Inr': (Inr newPath)
      show ?thesis
      proof (cases "newPath = []")
        case False
        have "clean_path newPath" using CleanPath_ne Inr' False by blast
        then show ?thesis
          using update_ok [OF rename_sound [OF t] ok] Inr Inr'
          by (simp add: RenameWith_def Let_def ok split: prod.splits) (metis snd_conv)
      qed (use Inr Inr' ok in \<open>simp add: RenameWith_def\<close>)
    qed (use Inr ok in \<open>simp add: RenameWith_def\<close>)
  qed (use ok in \<open>simp add: RenameWith_def\<close>)
qed

end

end
