(* ===== verification/Tree.thy ===== *)
theory Tree
  imports Namespace_Correct
begin

text \<open>
  The shape of the file tree: "the namespace never holds both" a file and a directory of one name
  (the comment on \<open>Mkdir\<close>), and nothing lies under a file. Operations that create names or
  directories check it (\<open>checkFilePath\<close>, \<open>checkAncestors\<close>, \<open>hasChildren\<close>); every other operation only
  removes names. The second part is proved by composition: a relation on contents that is
  reflexive and transitive holds across a transaction when it holds across its steps (locale
  \<open>step_relation\<close>).
\<close>

definition tree_ok :: "view \<Rightarrow> bool" where
  "tree_ok g \<longleftrightarrow>
     (\<forall>k. g BNamespace k \<noteq> None \<longrightarrow>
        g BDirectories k = None \<and>
        (\<forall>B\<in>{BNamespace, BDirectories}. \<forall>k'. g B k' \<noteq> None \<longrightarrow> \<not> prefix (k @ ''/'') k'))"

definition tree_shrinks :: "view \<Rightarrow> view \<Rightarrow> bool" where
  "tree_shrinks g g' \<longleftrightarrow> (\<forall>B\<in>{BNamespace, BDirectories}. \<forall>k. g' B k \<noteq> None \<longrightarrow> g B k \<noteq> None)"

lemma tree_ok_shrinks: "tree_ok g \<Longrightarrow> tree_shrinks g g' \<Longrightarrow> tree_ok g'"
  unfolding tree_ok_def tree_shrinks_def by (metis insertCI)

section \<open>Relations that transactions respect\<close>

locale step_relation = bolt_laws K for K :: "'db bolt" +
  fixes R :: "view \<Rightarrow> view \<Rightarrow> bool"
  assumes R_refl: "R g g" and R_trans: "R g g' \<Longrightarrow> R g' g'' \<Longrightarrow> R g g''"
begin

definition stays :: "('db, 'a) txn \<Rightarrow> bool" where
  "stays m \<longleftrightarrow> (\<forall>s x s'. m s = Inr (x, s') \<longrightarrow> R (contents K s) (contents K s'))"

lemma staysD: "stays m \<Longrightarrow> m s = Inr (x, s') \<Longrightarrow> R (contents K s) (contents K s')"
  unfolding stays_def by blast

lemma stays_pure:
  "stays (ret x)" "stays (throw e)" "stays (tget K' B k)" "stays (tseek K' B k)" "stays (tread f)" "stays (tcheck eo)"
  "stays (tmod h)" "stays (getObject K' oid)" "stays (getUpload K' oid)" "stays (getClaim K' oid)" "stays (getTomb K' oid)"
  by (auto simp: stays_def R_refl ret_def throw_def tget_def tseek_def tread_def tcheck_def tmod_def contents_def
      getters_Inr split: option.splits)

lemma stays_bind: "stays m \<Longrightarrow> (\<And>x. stays (f x)) \<Longrightarrow> stays (tbind m f)"
  unfolding stays_def tbind_Inr using R_trans by blast

lemma stays_seq: "stays m \<Longrightarrow> stays n \<Longrightarrow> stays (tseq m n)"
  unfolding stays_def tseq_Inr using R_trans by blast

lemma stays_when: "stays m \<Longrightarrow> stays (twhen b m)"
  by (simp add: twhen_def stays_pure)

lemma stays_try: "stays m \<Longrightarrow> stays (ttry m)"
  unfolding stays_def ttry_Inr using R_refl by blast

lemma stays_for: "(\<And>x. x \<in> set xs \<Longrightarrow> stays (f x)) \<Longrightarrow> stays (tfor xs f)"
  by (induction xs) (auto simp: stays_pure intro!: stays_seq)

lemma stays_next: "stays (tnext K B)"
  by (auto simp: stays_def R_refl dest!: tnext_eff)

lemma stays_put: "(\<And>g. R g (upd g B k (Some c))) \<Longrightarrow> stays (tput K B k c)"
  by (auto simp: stays_def dest!: tput_eff)

lemma stays_putObject: "(\<And>g. R g (upd g BObjects (o_ID ob) (Some (CObject ob)))) \<Longrightarrow> stays (putObject K ob)"
  unfolding putObject_def by (rule stays_put)

lemma stays_del: "(\<And>g. R g (upd g B k None)) \<Longrightarrow> stays (tdel K B k)"
  by (auto simp: stays_def dest!: tdel_eff)

lemma stays_option: "(m = None \<Longrightarrow> stays a) \<Longrightarrow> (\<And>x. stays (b x)) \<Longrightarrow> stays (case m of None \<Rightarrow> a | Some x \<Rightarrow> b x)"
  by (cases m) auto

lemma stays_sum: "(\<And>e. stays (a e)) \<Longrightarrow> (\<And>x. stays (b x)) \<Longrightarrow> stays (case r of Inl e \<Rightarrow> a e | Inr x \<Rightarrow> b x)"
  by (cases r) auto

lemma stays_if: "(b \<Longrightarrow> stays m) \<Longrightarrow> (\<not> b \<Longrightarrow> stays n) \<Longrightarrow> stays (if b then m else n)"
  by simp

lemmas stays_intros = stays_pure stays_bind stays_seq stays_when stays_try stays_for stays_next stays_option stays_sum stays_if

end

sublocale bolt_laws \<subseteq> tree: step_relation K tree_shrinks
  by unfold_locales (auto simp: tree_shrinks_def)

lemma shrinks_upd [simp]:
  "B \<noteq> BNamespace \<Longrightarrow> B \<noteq> BDirectories \<Longrightarrow> tree_shrinks g (upd g B k c)"
  "tree_shrinks g (upd g B k None)"
  by (auto simp: tree_shrinks_def upd_def)

context bolt_laws
begin

lemma tree_put: "B \<noteq> BNamespace \<Longrightarrow> B \<noteq> BDirectories \<Longrightarrow> tree.stays (tput K B k c)"
  by (rule tree.stays_put) simp

lemma tree_del: "tree.stays (tdel K B k)"
  by (rule tree.stays_del) simp

lemma tree_putObject: "tree.stays (putObject K ob)"
  by (rule tree.stays_putObject) simp

lemmas tree_intros = tree.stays_intros tree_put tree_del tree_putObject

text \<open>The helpers only remove names.\<close>

lemma tree_queue:
  "tree.stays (putQueueEntries K ob)" "tree.stays (enqueue K ob v)" "tree.stays (dequeue K ob)"
  by (auto simp: putQueueEntries_def enqueue_def dequeue_def Let_def intro!: tree_intros)

lemma tree_delete: "tree.stays (deleteObjectTx K now ob reason)"
  unfolding deleteObjectTx_def delete_lease_def delete_state_entry_def bury_def delete_record_def
  by (cases "o_State ob")
    (auto simp: Let_def intro!: tree_intros tree_queue split: state.splits)

lemma tree_place: "tree.stays (place K ob from pol now)"
  by (auto simp: place_def intro!: tree_intros tree_queue)

lemma tree_replacePath: "tree.stays (replacePath K now tenant p supersede reason)"
  by (auto simp: replacePath_def Let_def intro!: tree_intros tree_delete)

lemma tree_moveObject: "tree.stays (moveObject K now ob newPath pol)"
  by (auto simp: moveObject_def Let_def intro!: tree_intros tree_queue tree_place)

lemma tree_afterDelivery: "tree.stays (afterDelivery K src now ob opts)"
  by (auto simp: afterDelivery_def Let_def intro!: tree_intros tree_queue tree_delete)

text \<open>So do the transactions of delivery, and removal.\<close>

lemma tree_claim: "tree.stays (claim_cands K tenant opts now rand n claims cs)"
proof (induction cs arbitrary: n claims)
  case (Cons c cs)
  obtain seq oid where "c = (seq, oid)" by (cases c)
  with Cons show ?case by (auto simp: Let_def intro!: tree_intros tree_queue)
qed (simp add: tree_intros)

lemma tree_delivery:
  "tree.stays (renew_tx K now tenant leaseID ttl)" "tree.stays (release_tx K src now tenant leaseID ropts)"
  "tree.stays (requeue_tx K now tenant objectID)" "tree.stays (delete_tx K now tenant objectID reason)"
  "tree.stays (commit_tx K now tenant objectID leaseID digest sz)" "tree.stays (update_object_tx K now oid f)"
  by (auto simp: renew_tx_def release_tx_def requeue_tx_def delete_tx_def commit_tx_def update_object_tx_def Let_def
      intro!: tree_intros tree_queue tree_delete tree_afterDelivery)

lemma tree_flush: "tree.stays (flush_ids K ids)"
  by (induction ids) (auto intro!: tree_intros)

lemma tree_remove: "tree.stays (remove_tx K now tenant clean)" "tree.stays (remove_dir_tx K tenant clean)"
  by (auto simp: remove_tx_def remove_dir_tx_def Let_def intro!: tree_intros tree_delete)

end

section \<open>Creating names and directories\<close>

lemma tree_extend:
  assumes ok: "tree_ok g"
    and names: "\<And>k. g' BNamespace k \<noteq> None \<Longrightarrow> g BNamespace k \<noteq> None \<or> k \<in> F"
    and dirs: "\<And>k. g' BDirectories k \<noteq> None \<Longrightarrow> g BDirectories k \<noteq> None \<or> k \<in> D"
    and f: "\<And>k. k \<in> F \<Longrightarrow> g BDirectories k = None \<and> k \<notin> D"
      "\<And>k k' B. k \<in> F \<Longrightarrow> B \<in> {BNamespace, BDirectories} \<Longrightarrow> g B k' \<noteq> None \<Longrightarrow> \<not> prefix (k @ ''/'') k'"
      "\<And>k k'. k \<in> F \<Longrightarrow> k' \<in> F \<union> D \<Longrightarrow> \<not> prefix (k @ ''/'') k'"
    and old: "\<And>k k'. k \<in> F \<union> D \<Longrightarrow> g BNamespace k' \<noteq> None \<Longrightarrow> \<not> prefix (k' @ ''/'') k"
      "\<And>k. k \<in> D \<Longrightarrow> g BNamespace k = None"
  shows "tree_ok g'"
  unfolding tree_ok_def
proof (intro allI impI conjI ballI)
  fix k assume k: "g' BNamespace k \<noteq> None"
  show "g' BDirectories k = None"
    using names [OF k] dirs [of k] f(1) [of k] old(2) [of k] ok unfolding tree_ok_def by metis
  fix B k' assume B: "B \<in> {BNamespace, BDirectories}" "g' B k' \<noteq> None"
  then have k': "g B k' \<noteq> None \<or> k' \<in> F \<union> D" using names [of k'] dirs [of k'] by auto
  show "\<not> prefix (k @ ''/'') k'"
    using names [OF k]
  proof
    assume "g BNamespace k \<noteq> None"
    with k' show ?thesis using ok B(1) old(1) unfolding tree_ok_def by blast
  next
    assume "k \<in> F"
    with k' show ?thesis using f(2,3) B(1) by blast
  qed
qed

text \<open>A key under a name, and the names of one tenant.\<close>

lemma under_nsKey:
  assumes "nul \<notin> set t" "nul \<notin> set tenant"
  shows "prefix (nsKey t p @ ''/'') (nsKey tenant q) \<longleftrightarrow> t = tenant \<and> prefix (p @ ''/'') q"
  using prefix_nsKey [OF assms, of "p @ ''/''" q] by (simp add: nsKey_def)

context bolt_laws
begin

lemma name_key:
  assumes "cat K s" "contents K s BNamespace k \<noteq> None"
  obtains t p where "k = nsKey t p" "nul \<notin> set t" "clean_path p"
proof -
  from assms obtain c where "contents K s BNamespace k = Some c" by auto
  from name_object [OF catalog_okD(5) [OF assms(1) [unfolded cat_def]] this] obtain ob where
    "contents K s BObjects (o_ID ob) = Some (CObject ob)" "k = nsKey (o_Tenant ob) (o_Path ob)" by metis
  with catalog_object(1) [OF assms(1) [unfolded cat_def]] show thesis
    by (intro that [of "o_Tenant ob" "o_Path ob"]) (auto simp: obj_ok_def)
qed

text \<open>What the checks establish, in terms of keys: nothing under the path, no file above it.\<close>

lemma no_children:
  assumes "\<not> hasChildren K tenant p (fst s)" "B \<in> {BNamespace, BDirectories}" "contents K s B k \<noteq> None"
  shows "\<not> prefix (nsKey tenant p @ ''/'') k"
proof -
  have "nsKey tenant p @ ''/'' = nsKey tenant (p @ ''/'')" by (simp add: nsKey_def)
  then show ?thesis using assms unfolding hasChildren_iff contents_def by (metis not_None_eq)
qed

lemma no_file_above:
  assumes cat: "cat K s" and t: "nul \<notin> set tenant" and p: "clean_path p"
    and anc: "checkAncestors K tenant p (fst s) = None" and k: "contents K s BNamespace k \<noteq> None"
  shows "\<not> prefix (k @ ''/'') (nsKey tenant p)"
proof
  assume a: "prefix (k @ ''/'') (nsKey tenant p)"
  obtain u q where q: "k = nsKey u q" "nul \<notin> set u" using name_key [OF cat k] by metis
  with a t have "u = tenant" "prefix (q @ ''/'') p" by (simp_all add: under_nsKey)
  then obtain b where "p = q @ slash # b" by (auto simp: prefix_def)
  with anc checkAncestors_iff [OF p] k q(1) \<open>u = tenant\<close> show False
    by (auto simp: contents_def)
qed

lemma tree_add_name:
  assumes cat: "cat K s" and t: "nul \<notin> set tenant" and p: "clean_path p" and ok: "tree_ok (contents K s)"
    and free: "contents K s BDirectories (nsKey tenant p) = None" "\<not> hasChildren K tenant p (fst s)"
      "checkAncestors K tenant p (fst s) = None"
    and g': "\<And>k. g' BNamespace k \<noteq> None \<Longrightarrow> contents K s BNamespace k \<noteq> None \<or> k = nsKey tenant p"
      "\<And>k. g' BDirectories k \<noteq> None \<Longrightarrow> contents K s BDirectories k \<noteq> None"
  shows "tree_ok g'"
proof (rule tree_extend [OF ok, of g' "{nsKey tenant p}" "{}"])
  show "k \<in> {nsKey tenant p} \<union> {} \<Longrightarrow> contents K s BNamespace k' \<noteq> None \<Longrightarrow> \<not> prefix (k' @ ''/'') k" for k k'
    using no_file_above [OF cat t p free(3)] by blast
  show "k \<in> {nsKey tenant p} \<Longrightarrow> B \<in> {BNamespace, BDirectories} \<Longrightarrow> contents K s B k' \<noteq> None \<Longrightarrow> \<not> prefix (k @ ''/'') k'" for k k' B
    using no_children [OF free(2)] by blast
  show "k \<in> {nsKey tenant p} \<Longrightarrow> k' \<in> {nsKey tenant p} \<union> {} \<Longrightarrow> \<not> prefix (k @ ''/'') k'" for k k'
    by (auto dest: prefix_length_le)
qed (use free g' in auto)

lemma mkdir_tree:
  assumes cat: "cat K s" and t: "nul \<notin> set tenant" and p: "clean_path p" and ok: "tree_ok (contents K s)"
    and run: "mkdir_tx K now tenant p s = Inr (x, s')"
  shows "tree_ok (contents K s')"
proof -
  from run have free: "contents K s BNamespace (nsKey tenant p) = None" "checkAncestors K tenant p (fst s) = None"
    and s': "\<exists>c. contents K s' = upd (contents K s) BDirectories (nsKey tenant p) (Some c)"
    by (auto simp: mkdir_tx_def txn_simps split: if_splits dest!: tput_eff)
  show ?thesis
  proof (rule tree_extend [OF ok, of "contents K s'" "{}" "{nsKey tenant p}"])
    show "k \<in> {} \<union> {nsKey tenant p} \<Longrightarrow> contents K s BNamespace k' \<noteq> None \<Longrightarrow> \<not> prefix (k' @ ''/'') k" for k k'
      using no_file_above [OF cat t p free(2)] by blast
  qed (use s' free in \<open>auto split: if_splits\<close>)
qed

lemma tree_prepare: "tree.stays (rename_prepare K now tenant newPath oid overwrite pol)"
  by (auto simp: rename_prepare_def Let_def intro!: tree_intros tree_replacePath)

lemma renameFile_tree:
  assumes cat: "cat K s" and t: "nul \<notin> set tenant" and p: "clean_path newPath" and ok: "tree_ok (contents K s)"
    and run: "renameFile K now tenant oldPath newPath oid overwrite pol s = Inr (x, s')"
  shows "tree_ok (contents K s')"
proof -
  from run obtain ob vs s1 sa sb where pr: "rename_prepare K now tenant newPath oid overwrite pol s = Inr ((ob, vs), s1)"
    and mv: "moveObject K now ob newPath pol s1 = Inr ((), sa)"
    and pt: "tput K BNamespace (nsKey tenant newPath) (CRaw oid) sa = Inr ((), sb)"
    and dl: "tdel K BNamespace (nsKey tenant oldPath) sb = Inr (x, s')"
    by (auto simp: renameFile_def rename_finish_def tbind_Inr tseq_Inr)
  from pr have free: "contents K s BDirectories (nsKey tenant newPath) = None" "\<not> hasChildren K tenant newPath (fst s)"
    "checkAncestors K tenant newPath (fst s) = None"
    by (auto simp: rename_prepare_def Let_def txn_simps split: if_splits sum.splits)
  have sh: "tree_shrinks (contents K s) (contents K sa)"
    using tree.R_trans tree.staysD [OF tree_prepare pr] tree.staysD [OF tree_moveObject mv] by blast
  show ?thesis
    by (rule tree_add_name [OF cat t p ok free])
      (use sh tput_eff [OF pt] tdel_eff [OF dl] in \<open>auto simp: tree_shrinks_def split: if_splits\<close>)
qed

lemma tree_move_dom:
  assumes run: "applyTreeMove K now tenant pol m s = Inr (x, s')"
  shows "(contents K s' BNamespace k \<noteq> None \<longrightarrow> contents K s BNamespace k \<noteq> None \<or> \<not> m_directory m \<and> k = m_newKey m) \<and>
    (contents K s' BDirectories k \<noteq> None \<longrightarrow> contents K s BDirectories k \<noteq> None \<or> m_directory m \<and> k = m_newKey m)"
proof (cases "m_directory m")
  case True
  then show ?thesis using dir_move_eff(1) [OF True run] by auto
next
  case False
  with run obtain ob sa sb np where mv: "moveObject K now ob np pol s = Inr ((), sa)"
    and pt: "tput K BNamespace (m_newKey m) (CRaw (m_objectID m)) sa = Inr ((), sb)"
    and dl: "tdel K BNamespace (m_oldKey m) sb = Inr (x, s')"
    by (auto simp: applyTreeMove_def Let_def txn_simps split: sum.splits)
  then show ?thesis
    using tree.staysD [OF tree_moveObject mv] tput_eff [OF pt] tdel_eff [OF dl] False
    by (auto simp: tree_shrinks_def)
qed

lemma tree_moves_dom:
  assumes "tfor ms (applyTreeMove K now tenant pol) s = Inr (x, s')"
  shows "(contents K s' BNamespace k \<noteq> None \<longrightarrow>
      contents K s BNamespace k \<noteq> None \<or> (\<exists>m\<in>set ms. \<not> m_directory m \<and> k = m_newKey m)) \<and>
    (contents K s' BDirectories k \<noteq> None \<longrightarrow>
      contents K s BDirectories k \<noteq> None \<or> (\<exists>m\<in>set ms. m_directory m \<and> k = m_newKey m))"
  using assms
proof (induction ms arbitrary: s)
  case (Cons m ms)
  from Cons.prems obtain s1 where s1: "applyTreeMove K now tenant pol m s = Inr ((), s1)"
    and rest: "tfor ms (applyTreeMove K now tenant pol) s1 = Inr (x, s')"
    by (auto simp: tseq_Inr)
  show ?case using Cons.IH [OF rest] tree_move_dom [OF s1, of k] by auto
qed (auto simp: ret_Inr)

text \<open>The keys a directory rename creates mirror keys of the old tree.\<close>

lemma collected_keys:
  assumes m: "m \<in> set (collectTreeMoves K tenant oldPath newPath (fst s))"
  shows "\<exists>sfx. m_newKey m = nsKey tenant newPath @ sfx \<and> (sfx = [] \<or> (\<exists>b. sfx = slash # b)) \<and>
    (if m_directory m then contents K s BDirectories (nsKey tenant oldPath @ sfx) \<noteq> None
     else sfx \<noteq> [] \<and> contents K s BNamespace (nsKey tenant oldPath @ sfx) \<noteq> None)"
proof (cases "m_directory m")
  case False
  with m obtain k v where kv: "(k, v) \<in> set (b_seek K (fst s) BNamespace (nsKey tenant (oldPath @ ''/'')))"
    "prefix (nsKey tenant (oldPath @ ''/'')) k"
    "m_newKey m = nsKey tenant (newPath @ ''/'' @ trim_prefix k (nsKey tenant (oldPath @ ''/'')))"
    by (auto simp: collectTreeMoves_def Let_def dest!: set_takeWhileD)
  from kv(2) obtain sfx where k: "k = nsKey tenant oldPath @ slash # sfx" by (auto simp: prefix_def nsKey_def)
  with kv(1,3) False show ?thesis
    by (intro exI [of _ "slash # sfx"]) (simp add: seek_iff contents_def trim_prefix_def nsKey_def)
next
  case True
  with m obtain k v where kv: "(k, v) \<in> set (b_seek K (fst s) BDirectories (nsKey tenant oldPath))"
    "k = nsKey tenant oldPath \<or> prefix (nsKey tenant oldPath @ ''/'') k"
    "m_newKey m = nsKey tenant (newPath @ trim_prefix (trim_prefix k (tenant @ [nul])) oldPath)"
    by (auto simp: collectTreeMoves_def Let_def dest!: set_takeWhileD)
  from kv(2) obtain sfx where k: "k = nsKey tenant oldPath @ sfx" "sfx = [] \<or> (\<exists>b. sfx = slash # b)"
    by (auto simp: prefix_def)
  with kv(1,3) True show ?thesis
    by (intro exI [of _ sfx]) (simp add: seek_iff contents_def trim_prefix_def nsKey_def)
qed

lemma suffix_cases: "prefix (k @ ''/'') (k' @ sfx) \<Longrightarrow> sfx = [] \<or> (\<exists>b. sfx = slash # b) \<Longrightarrow>
    prefix (k @ ''/'') k' \<or> k = k' \<or> prefix (k' @ ''/'') k"
  by (auto simp: prefix_def append_eq_append_conv2 append_eq_Cons_conv Cons_eq_append_conv)

lemma renameTree_tree:
  assumes cat: "cat K s" and t: "nul \<notin> set tenant" and p: "clean_path newPath" and ok: "tree_ok (contents K s)"
    and run: "renameTree K now tenant oldPath newPath pol s = Inr (x, s')"
  shows "tree_ok (contents K s')"
proof -
  let ?ms = "collectTreeMoves K tenant oldPath newPath (fst s)" and ?g = "contents K s"
  let ?n = "nsKey tenant newPath" and ?o = "nsKey tenant oldPath"
  from run have free: "?g BNamespace ?n = None" "?g BDirectories ?n = None" "\<not> hasChildren K tenant newPath (fst s)"
      "checkAncestors K tenant newPath (fst s) = None"
    and loop: "tfor ?ms (applyTreeMove K now tenant pol) s = Inr (x, s')"
    by (auto simp: renameTree_def Let_def tbind_Inr tseq_Inr tread_Inr tcheck_Inr throw_Inr contents_fst split: if_splits)
  have below: "B \<in> {BNamespace, BDirectories} \<Longrightarrow> ?g B k \<noteq> None \<Longrightarrow> \<not> prefix (?n @ ''/'') k \<and> k \<noteq> ?n" for B k
    using no_children [OF free(3)] free(1,2) by auto
  have above: "?g BNamespace k \<noteq> None \<Longrightarrow> \<not> prefix (k @ ''/'') ?n" for k
    by (rule no_file_above [OF cat t p free(4)])
  let ?F = "{?n @ slash # b | b. ?g BNamespace (?o @ slash # b) \<noteq> None}"
  let ?D = "{?n @ sfx | sfx. ?g BDirectories (?o @ sfx) \<noteq> None \<and> (sfx = [] \<or> (\<exists>b. sfx = slash # b))}"
  show ?thesis
  proof (rule tree_extend [OF ok, of "contents K s'" ?F ?D])
    have F: "m_newKey m \<in> ?F" if "m \<in> set ?ms" "\<not> m_directory m" for m
      using collected_keys [OF that(1)] that(2) by auto
    have D: "m_newKey m \<in> ?D" if "m \<in> set ?ms" "m_directory m" for m
      using collected_keys [OF that(1)] that(2) by auto
    show "?g BNamespace k \<noteq> None \<or> k \<in> ?F" if "contents K s' BNamespace k \<noteq> None" for k
    proof -
      have "?g BNamespace k \<noteq> None \<or> (\<exists>m\<in>set ?ms. \<not> m_directory m \<and> k = m_newKey m)"
        using tree_moves_dom [OF loop, of k] that by blast
      then show ?thesis
      proof
        assume "\<exists>m\<in>set ?ms. \<not> m_directory m \<and> k = m_newKey m"
        then obtain m where m: "m \<in> set ?ms" "\<not> m_directory m" "k = m_newKey m" by blast
        show ?thesis unfolding m(3) using F [OF m(1,2)] by (rule disjI2)
      qed (rule disjI1)
    qed
    show "?g BDirectories k \<noteq> None \<or> k \<in> ?D" if "contents K s' BDirectories k \<noteq> None" for k
    proof -
      have "?g BDirectories k \<noteq> None \<or> (\<exists>m\<in>set ?ms. m_directory m \<and> k = m_newKey m)"
        using tree_moves_dom [OF loop, of k] that by blast
      then show ?thesis
      proof
        assume "\<exists>m\<in>set ?ms. m_directory m \<and> k = m_newKey m"
        then obtain m where m: "m \<in> set ?ms" "m_directory m" "k = m_newKey m" by blast
        show ?thesis unfolding m(3) using D [OF m(1,2)] by (rule disjI2)
      qed (rule disjI1)
    qed
    show "?g BDirectories k = None \<and> k \<notin> ?D" if "k \<in> ?F" for k
    proof -
      from that obtain b where b: "k = ?n @ slash # b" "?g BNamespace (?o @ slash # b) \<noteq> None" by blast
      have "prefix (?n @ ''/'') k" by (simp add: b(1))
      then have "\<not> ?g BDirectories k \<noteq> None" using below [of BDirectories k] by blast
      moreover have "?g BDirectories (?o @ slash # b) = None" using ok b(2) unfolding tree_ok_def by blast
      ultimately show ?thesis using b(1) by simp
    qed
    show "\<not> prefix (k @ ''/'') k'" if "k \<in> ?F" "B \<in> {BNamespace, BDirectories}" "?g B k' \<noteq> None" for k k' B
    proof -
      from that(1) obtain b where "k @ ''/'' = (?n @ ''/'') @ b @ ''/''" by auto
      then have "prefix (k @ ''/'') k' \<Longrightarrow> prefix (?n @ ''/'') k'" by (metis append_prefixD)
      then show ?thesis using below [OF that(2,3)] by blast
    qed
    show "\<not> prefix (k @ ''/'') k'" if kk: "k \<in> ?F" "k' \<in> ?F \<union> ?D" for k k'
    proof
      assume pre: "prefix (k @ ''/'') k'"
      from kk(1) obtain b where b: "k = ?n @ slash # b" "?g BNamespace (?o @ slash # b) \<noteq> None" by auto
      from kk(2) obtain sfx B where sfx: "k' = ?n @ sfx" "B \<in> {BNamespace, BDirectories}" "?g B (?o @ sfx) \<noteq> None" by blast
      from pre b(1) sfx(1) have "prefix ((?o @ slash # b) @ ''/'') (?o @ sfx)" by simp
      with ok b(2) sfx(2,3) show False unfolding tree_ok_def by blast
    qed
    show "\<not> prefix (k' @ ''/'') k" if kk: "k \<in> ?F \<union> ?D" "?g BNamespace k' \<noteq> None" for k k'
    proof
      assume "prefix (k' @ ''/'') k"
      moreover from kk(1) obtain sfx where "k = ?n @ sfx" "sfx = [] \<or> (\<exists>b. sfx = slash # b)" by blast
      ultimately have "prefix (k' @ ''/'') ?n \<or> k' = ?n \<or> prefix (?n @ ''/'') k'" using suffix_cases by blast
      then show False using above [OF kk(2)] below [of BNamespace k'] kk(2) by blast
    qed
    show "?g BNamespace k = None" if "k \<in> ?D" for k
    proof (rule ccontr)
      assume "?g BNamespace k \<noteq> None"
      then have "\<not> prefix (?n @ ''/'') k \<and> k \<noteq> ?n" using below [of BNamespace k] by blast
      with that show False by auto
    qed
  qed
qed

lemma rename_tree:
  assumes cat: "cat K s" and t: "nul \<notin> set tenant" and p: "clean_path newPath" and ok: "tree_ok (contents K s)"
    and run: "rename_tx K now tenant oldPath newPath overwrite pol s = Inr (x, s')"
  shows "tree_ok (contents K s')"
proof (cases "oldPath = newPath")
  case True
  with run have "s' = s" by (auto simp: rename_tx_def txn_simps)
  then show ?thesis using ok by simp
next
  case False
  with run renameFile_tree [OF cat t p ok] renameTree_tree [OF cat t p ok] show ?thesis
    by (auto simp: rename_tx_def txn_simps split: option.splits)
qed

end

end
