(* ===== verification/Listing_Correct.thy ===== *)
theory Listing_Correct
  imports Listing
begin

text \<open>
  The listing loops against references that walk every key. \<open>ListAll\<close> pages through \<open>ListKeys\<close> a
  thousand keys at a time and still returns each object under the prefix once, in key order.
  \<open>List\<close> skips subtrees and still builds the same map as a walk over all names, provided no name
  contains the byte \<open>0xff\<close>; with such a name the loops need not return.
\<close>

section \<open>Pages without a delimiter\<close>

definition entry_key :: "string \<Rightarrow> string \<times> cell \<Rightarrow> string" where
  "entry_key tenant e = drop (length tenant + 1) (fst e)"

definition entry_objects :: "'db bolt \<Rightarrow> 'db \<Rightarrow> (string \<times> cell) list \<Rightarrow> object_version list" where
  "entry_objects K db l =
     concat (map (\<lambda>e. case json_object (b_get K db BObjects (raw_string (Some (snd e)))) of
                        Inl _ \<Rightarrow> [] | Inr ob \<Rightarrow> [ob]) l)"

definition page_of :: "'db bolt \<Rightarrow> 'db \<Rightarrow> string \<Rightarrow> nat \<Rightarrow> (string \<times> cell) list \<Rightarrow> ListPage \<Rightarrow> ListPage" where
  "page_of K db tenant n xs page =
     page\<lparr>lp_Objects := lp_Objects page @ entry_objects K db (take n xs),
          lp_Truncated := (n < length xs \<or> lp_Truncated page),
          lp_NextAfter := (if take n xs = [] then lp_NextAfter page else entry_key tenant (last (take n xs)))\<rparr>"

lemma entry_objects_simps [simp]:
  "entry_objects K db [] = []"
  "entry_objects K db (e # l) =
     (case json_object (b_get K db BObjects (raw_string (Some (snd e)))) of Inl _ \<Rightarrow> [] | Inr ob \<Rightarrow> [ob]) @
     entry_objects K db l"
  "entry_objects K db (l @ l') = entry_objects K db l @ entry_objects K db l'"
  by (simp_all add: entry_objects_def)

lemma prefix_nsKey_iff: "prefix (nsKey tenant pre) k \<longleftrightarrow> prefix (tenant @ [nul]) k \<and> prefix pre (drop (length tenant + 1) k)"
  by (auto simp: nsKey_def prefix_def)

lemma list_keys_plain:
  assumes "cnt \<le> limit"
  shows "list_keys K db tenant pre [] after limit cnt page l =
    Some (page_of K db tenant (limit - cnt)
      (filter (\<lambda>e. \<not> entry_key tenant e \<le> after) (takeWhile (\<lambda>e. prefix (nsKey tenant pre) (fst e)) l)) page)"
  using assms
proof (induction l arbitrary: cnt page)
  case Nil
  then show ?case by (subst list_keys.simps) (simp add: page_of_def)
next
  case (Cons e l)
  obtain k v where e: "e = (k, v)" by (cases e)
  let ?xs = "filter (\<lambda>e. \<not> entry_key tenant e \<le> after) (takeWhile (\<lambda>e. prefix (nsKey tenant pre) (fst e)) l)"
  show ?case
  proof (cases "prefix (nsKey tenant pre) k")
    case False
    then show ?thesis
      by (subst list_keys.simps) (auto simp: e page_of_def prefix_nsKey_iff)
  next
    case True
    then have pre: "prefix (tenant @ [nul]) k" "prefix pre (drop (length tenant + 1) k)" by (simp_all add: prefix_nsKey_iff)
    show ?thesis
    proof (cases "entry_key tenant e \<le> after")
      case True': True
      with pre True Cons.IH [OF Cons.prems] show ?thesis
        by (subst list_keys.simps) (simp add: e key_entry_def entry_key_def)
    next
      case False
      show ?thesis
      proof (cases "cnt = limit")
        case True': True
        with pre True False show ?thesis
          by (subst list_keys.simps) (simp add: e key_entry_def entry_key_def page_of_def)
      next
        case False': False
        then have c: "Suc cnt \<le> limit" and l: "limit - cnt = Suc (limit - Suc cnt)" using Cons.prems by auto
        from pre True False False' Cons.IH [OF c] show ?thesis
          by (subst list_keys.simps)
            (cases "json_object (b_get K db BObjects (raw_string (Some v)))";
             simp add: e key_entry_def entry_key_def page_of_def l)
      qed
    qed
  qed
qed

text \<open>All the names a prefix listing is about, in key order.\<close>

definition names_under :: "'db bolt \<Rightarrow> string \<Rightarrow> string \<Rightarrow> string \<Rightarrow> 'db \<Rightarrow> (string \<times> cell) list" where
  "names_under K tenant pre after db =
     filter (\<lambda>e. prefix (nsKey tenant pre) (fst e) \<and> \<not> entry_key tenant e \<le> after) (b_seek K db BNamespace [])"

context bolt_laws
begin

lemma ListKeys_plain:
  assumes "0 < limit" "limit \<le> 1000"
  shows "ListKeys K tenant pre [] after (int limit) db =
    Some (page_of K db tenant limit (names_under K tenant pre after db) empty_page)"
proof -
  let ?start = "if pre < after then after else pre"
  let ?seek = "tenant @ [nul] @ ?start"
  let ?l = "takeWhile (\<lambda>e. prefix (nsKey tenant pre) (fst e)) (b_seek K db BNamespace ?seek)"
  have le: "nsKey tenant pre \<le> ?seek" 
    by (auto simp: nsKey_def le_less append_cancel_less)
  have key: "prefix (nsKey tenant pre) k \<Longrightarrow> \<not> drop (Suc (length tenant)) k \<le> after \<Longrightarrow> ?seek \<le> k" for k
  proof -
    assume p: "prefix (nsKey tenant pre) k" and a: "\<not> drop (Suc (length tenant)) k \<le> after"
    then obtain r where r: "k = tenant @ nul # r" "prefix pre r" "after < r" by (auto simp: nsKey_def prefix_def not_le)
    have "pre \<le> r" using r(2) by (rule prefix_le)
    with r(3) have "?start \<le> r" by auto
    then show ?thesis by (auto simp: r(1) le_less append_cancel_less)
  qed
  have "filter (\<lambda>e. \<not> entry_key tenant e \<le> after) ?l = names_under K tenant pre after db"
  proof (rule sorted_entries_eq)
    have "sorted_wrt (\<lambda>x y. fst x < fst y) ?l"
      using seek_sorted [of db BNamespace ?seek] by (metis sorted_wrt_append takeWhile_dropWhile_id)
    then show "sorted_wrt (\<lambda>x y. fst x < fst y) (filter (\<lambda>e. \<not> entry_key tenant e \<le> after) ?l)"
      by (rule sorted_wrt_filter)
    show "sorted_wrt (\<lambda>x y. fst x < fst y) (names_under K tenant pre after db)"
      unfolding names_under_def by (rule sorted_wrt_filter [OF seek_sorted])
    show "set (filter (\<lambda>e. \<not> entry_key tenant e \<le> after) ?l) = set (names_under K tenant pre after db)"
      using seek_prefix_from [OF le, of db BNamespace] key
      by (auto simp: names_under_def seek_set entry_key_def)
  qed
  with assms show ?thesis
    by (simp add: ListKeys_def Let_def list_keys_plain)
qed

lemma names_under_next:
  assumes n: "n < length (names_under K tenant pre after db)" "0 < n"
  shows "names_under K tenant pre (entry_key tenant (last (take n (names_under K tenant pre after db)))) db =
    drop n (names_under K tenant pre after db)"
proof -
  let ?xs = "names_under K tenant pre after db"
  let ?last = "entry_key tenant (last (take n ?xs))"
  have sorted: "sorted_wrt (\<lambda>x y. fst x < fst y) ?xs"
    unfolding names_under_def by (rule sorted_wrt_filter [OF seek_sorted])
  have key: "e \<in> set ?xs \<Longrightarrow> e' \<in> set ?xs \<Longrightarrow> entry_key tenant e < entry_key tenant e' \<longleftrightarrow> fst e < fst e'" for e e'
    by (auto simp: names_under_def entry_key_def nsKey_def prefix_def append_cancel_less)
  have "last (take n ?xs) \<in> set (take n ?xs)" using n by (intro last_in_set) auto
  then have lastin: "last (take n ?xs) \<in> set ?xs" "last (take n ?xs) \<in> set (take n ?xs)"
    by (auto intro: in_set_takeD)
  have "after \<le> ?last" using lastin(1) by (auto simp: names_under_def not_le dest: less_imp_le)
  then have "names_under K tenant pre ?last db = filter (\<lambda>e. \<not> entry_key tenant e \<le> ?last) ?xs"
    unfolding names_under_def filter_filter by (intro filter_cong) auto
  also have "\<dots> = filter (\<lambda>e. \<not> entry_key tenant e \<le> ?last) (take n ?xs @ drop n ?xs)" by simp
  also have "\<dots> = drop n ?xs"
  proof -
    have split: "sorted_wrt (\<lambda>x y. fst x < fst y) (take n ?xs @ drop n ?xs)" using sorted by simp
    have "entry_key tenant e \<le> ?last" if e: "e \<in> set (take n ?xs)" for e
    proof -
      have "e = last (take n ?xs) \<or> fst e < fst (last (take n ?xs))"
        using split e sorted_wrt_take [OF sorted, of n]
        by (cases "take n ?xs" rule: rev_cases) (auto simp: sorted_wrt_append)
      then show ?thesis using key [OF _ lastin(1), of e] e by (auto dest: in_set_takeD)
    qed
    moreover have "\<not> entry_key tenant e \<le> ?last" if e: "e \<in> set (drop n ?xs)" for e
    proof -
      have "fst (last (take n ?xs)) < fst e" using split lastin(2) e unfolding sorted_wrt_append by blast
      then show ?thesis using key [OF lastin(1), of e] e by (auto dest: in_set_dropD)
    qed
    ultimately have "filter (\<lambda>e. \<not> entry_key tenant e \<le> ?last) (take n ?xs) = []"
      "filter (\<lambda>e. \<not> entry_key tenant e \<le> ?last) (drop n ?xs) = drop n ?xs"
      by (simp_all add: filter_empty_conv)
    then show ?thesis unfolding filter_append by simp
  qed
  finally show ?thesis .
qed

lemma list_all_eq:
  "list_all K tenant pre db out after = Some (out @ entry_objects K db (names_under K tenant pre after db))"
proof (induction "length (names_under K tenant pre after db)" arbitrary: out after rule: less_induct)
  case less
  let ?xs = "names_under K tenant pre after db"
  have page: "ListKeys K tenant pre [] after 1000 db = Some (page_of K db tenant 1000 ?xs empty_page)"
    using ListKeys_plain [of 1000] by simp
  show ?case
  proof (cases "1000 < length ?xs")
    case False
    then show ?thesis
      by (subst list_all.simps) (simp add: page page_of_def empty_page_def)
  next
    case True
    let ?last = "entry_key tenant (last (take 1000 ?xs))"
    have next_names: "names_under K tenant pre ?last db = drop 1000 ?xs"
      using names_under_next [OF True] by simp
    have ne: "take 1000 ?xs \<noteq> []" using True by auto
    have "list_all K tenant pre db out after =
        list_all K tenant pre db (out @ entry_objects K db (take 1000 ?xs)) ?last"
      using True ne by (subst list_all.simps) (simp add: page page_of_def empty_page_def)
    also have "\<dots> = Some (out @ entry_objects K db (take 1000 ?xs) @ entry_objects K db (drop 1000 ?xs))"
      using less [of ?last "out @ entry_objects K db (take 1000 ?xs)"] True next_names by simp
    finally show ?thesis by (metis append_take_drop_id entry_objects_simps(3))
  qed
qed

end

section \<open>One directory, without skipping\<close>

definition list_step ::
    "'db bolt \<Rightarrow> 'db \<Rightarrow> string \<Rightarrow> string \<Rightarrow> string \<times> cell \<Rightarrow> listing \<Rightarrow> listing" where
  "list_step K db tenant pre e entries =
     (let full = trim_prefix (fst e) (tenant @ [nul]); r = trim_prefix full pre
      in if r = [] then entries
         else case cut_at slash r of (part, _, nested) \<Rightarrow>
           if nested then AList.update part (dir_listed (pre @ part)) entries
           else case json_object (b_get K db BObjects (raw_string (Some (snd e)))) of
                  Inl _ \<Rightarrow> entries
                | Inr ob \<Rightarrow> AList.update part (file_listed full ob) entries)"

lemma update_same: "map_of al k = Some v \<Longrightarrow> AList.update k v al = al"
  by (induction al) auto

lemma cut_nested: "cut_at c s = (a, b, True) \<longleftrightarrow> s = a @ c # b \<and> c \<notin> set a"
proof (induction s arbitrary: a)
  case (Cons x s)
  show ?case
  proof (cases "x = c")
    case False
    then show ?thesis
      using Cons by (cases "cut_at c s"; cases a) auto
  qed (cases a; auto)
qed simp

lemma less_xff: "c \<noteq> xff \<Longrightarrow> c < xff"
proof -
  have "c \<le> xff" by (cases c) (auto simp: less_eq_char_def of_char_def)
  then show "c \<noteq> xff \<Longrightarrow> c < xff" by simp
qed

text \<open>A second step inside the subtree of a part that is already listed as a directory.\<close>

lemma list_step_again:
  assumes "prefix (nsKey tenant (pre @ part @ ''/'')) (fst e)" "slash \<notin> set part"
    and "map_of entries part = Some (dir_listed (pre @ part))"
  shows "list_step K db tenant pre e entries = entries"
proof -
  from assms(1) obtain x where x: "fst e = tenant @ nul # pre @ part @ slash # x" by (auto simp: prefix_def nsKey_def)
  have "cut_at slash (part @ slash # x) = (part, x, True)" using assms(2) by simp
  with assms(3) show ?thesis by (simp add: list_step_def x trim_prefix_def update_same Let_def)
qed

lemma list_steps_again:
  assumes "\<And>e. e \<in> set es \<Longrightarrow> prefix (nsKey tenant (pre @ part @ ''/'')) (fst e)" "slash \<notin> set part"
    and "map_of entries part = Some (dir_listed (pre @ part))"
  shows "fold (list_step K db tenant pre) es entries = entries"
  using assms(1) by (induction es) (simp_all add: list_step_again [OF _ assms(2,3)])

lemma part_less:
  "slash \<notin> set p \<Longrightarrow> slash \<notin> set q \<Longrightarrow> p \<noteq> q \<Longrightarrow> p @ slash # u < q @ slash # v \<Longrightarrow> p @ slash # u' < q @ slash # (v' :: string)"
proof (induction p arbitrary: q)
  case Nil
  then show ?case by (cases q) auto
next
  case (Cons c p)
  then show ?case by (cases q) auto
qed

context bolt_laws
begin

lemma list_names_eq:
  assumes noff: "\<And>k. b_get K db BNamespace k \<noteq> None \<Longrightarrow> prefix (nsKey tenant pre) k \<Longrightarrow> xff \<notin> set k"
    and l: "l = b_seek K db BNamespace s"
  shows "list_names K db tenant pre entries l =
    Some (fold (list_step K db tenant pre) (takeWhile (\<lambda>e. prefix (nsKey tenant pre) (fst e)) l) entries)"
  using l
proof (induction "length l" arbitrary: l s entries rule: less_induct)
  case less
  let ?P = "\<lambda>e :: string \<times> cell. prefix (nsKey tenant pre) (fst e)"
  show ?case
  proof (cases l)
    case Nil
    then show ?thesis by (subst list_names.simps) simp
  next
    case (Cons e rest)
    obtain k v where e: "e = (k, v)" by (cases e)
    have sk: "b_seek K db BNamespace s = (k, v) # rest" using less.prems Cons e by simp
    have rest: "rest = b_seek K db BNamespace (k @ [nul])" by (rule seek_tl [OF sk])
    have IH: "list_names K db tenant pre en rest = Some (fold (list_step K db tenant pre) (takeWhile ?P rest) en)" for en
      using less.hyps [of rest "k @ [nul]" en] rest Cons by simp
    show ?thesis
    proof (cases "prefix (nsKey tenant pre) k")
      case False
      then show ?thesis by (subst list_names.simps) (simp add: Cons e)
    next
      case True
      then obtain r where r: "k = tenant @ nul # pre @ r" by (auto simp: prefix_def nsKey_def)
      have tr: "trim_prefix (trim_prefix k (tenant @ [nul])) pre = r" by (simp add: r trim_prefix_def)
      obtain part x nested where cut: "cut_at slash r = (part, x, nested)" by (cases "cut_at slash r")
      show ?thesis
      proof (cases "r = [] \<or> \<not> nested")
        case True': True
        then show ?thesis
          using True tr cut IH
          by (subst list_names.simps)
            (auto simp: Cons e list_step_def Let_def split: sum.splits)
      next
        case False
        then have r': "r = part @ slash # x" "slash \<notin> set part" using cut cut_nested [of slash r part x] by auto
        let ?T = "nsKey tenant (pre @ part @ [slash, xff])" and ?S = "nsKey tenant (pre @ part @ ''/'')"
        have kin: "b_get K db BNamespace k = Some v"
          using seek_iff [of k v db BNamespace s] by (simp add: sk)
        have "xff \<notin> set x" using noff [of k] kin True by (simp add: r r')
        then have "x < [xff]" by (cases x) (simp_all add: less_xff [OF not_sym])
        then have kT: "k < ?T" by (simp add: r r'(1) nsKey_def append_cancel_less)
        let ?en = "AList.update part (dir_listed (pre @ part)) entries"
        let ?skip = "takeWhile (\<lambda>e. fst e < ?T) rest"
        have "k @ [nul] \<le> ?T" using kT by (simp add: append_nul_le)
        then have T: "b_seek K db BNamespace ?T = dropWhile (\<lambda>e. fst e < ?T) rest"
          using seek_dropWhile rest by simp
        have skip: "prefix ?S (fst e')" if e': "e' \<in> set ?skip" for e'
        proof -
          have "fst e' \<le> ?T" using set_takeWhileD [OF e'] by (auto dest: less_imp_le)
          then have u: "fst e' \<le> ?S @ [xff]" by (simp add: nsKey_def)
          have "e' \<in> set rest" using set_takeWhileD [OF e'] by simp
          then have "k < fst e'" using seek_sorted [of db BNamespace s] by (simp add: sk)
          moreover have "?S \<le> k" by (rule prefix_le) (simp add: r r'(1) nsKey_def)
          ultimately have "?S \<le> fst e'" by auto
          with u show ?thesis by (intro prefix_between)
        qed
        have P: "?P e'" if "e' \<in> set ?skip" for e'
          using skip [OF that] by (auto simp: nsKey_def prefix_def)
        have tw: "takeWhile ?P rest = ?skip @ takeWhile ?P (b_seek K db BNamespace ?T)"
          using takeWhile_append2 [of ?skip ?P "dropWhile (\<lambda>e. fst e < ?T) rest"] P by (simp add: T)
        have "list_names K db tenant pre entries l = list_names K db tenant pre ?en (b_seek K db BNamespace ?T)"
          using True tr cut False by (subst list_names.simps) (simp add: Cons e)
        also have "\<dots> = Some (fold (list_step K db tenant pre) (takeWhile ?P (b_seek K db BNamespace ?T)) ?en)"
          using less.hyps [OF _ refl, of ?T ?en] Cons T length_dropWhile_le [of "\<lambda>e. fst e < ?T" rest] by simp
        also have "\<dots> = Some (fold (list_step K db tenant pre) (takeWhile ?P rest) ?en)"
        proof -
          have "fold (list_step K db tenant pre) ?skip ?en = ?en"
            by (rule list_steps_again [OF skip r'(2)]) (simp_all add: update_conv')
          then show ?thesis by (simp add: tw)
        qed
        also have "?en = list_step K db tenant pre e entries"
          using False by (simp add: list_step_def e tr cut Let_def)
        finally show ?thesis using True by (simp add: Cons e)
      qed
    qed
  qed
qed

text \<open>With a name that continues with \<open>0xff\<close> after the slash, the cursor comes back to that name for ever.\<close>

lemma list_names_diverges:
  assumes bad: "b_get K db BNamespace kb = Some vb" "kb = nsKey tenant (pre @ part @ slash # xff # y)" "slash \<notin> set part"
    and s: "s \<le> kb" "nsKey tenant pre \<le> s"
  shows "list_names K db tenant pre entries (b_seek K db BNamespace s) = None"
proof -
  let ?P = "\<lambda>(K' :: 'db bolt) db' tenant' pre' (entries :: listing) l (res :: listing).
    K' = K \<longrightarrow> db' = db \<longrightarrow> tenant' = tenant \<longrightarrow> pre' = pre \<longrightarrow>
    (\<forall>s. l = b_seek K db BNamespace s \<longrightarrow> s \<le> kb \<longrightarrow> nsKey tenant pre \<le> s \<longrightarrow> False)"
  have never: "?P K db tenant pre entries l res" if run: "list_names K db tenant pre entries l = Some res" for entries l res
  proof (rule list_names.raw_induct [where P = ?P, OF _ run], intro impI allI)
    fix f :: "'db bolt \<Rightarrow> 'db \<Rightarrow> string \<Rightarrow> string \<Rightarrow> listing \<Rightarrow> (string \<times> cell) list \<Rightarrow> listing option"
      and K' db' tenant' pre' entries l res s
    assume IH': "\<And>K' db' tenant' pre' entries l res. f K' db' tenant' pre' entries l = Some res \<Longrightarrow> ?P K' db' tenant' pre' entries l res"
      and body: "(case l of [] \<Rightarrow> Some entries
      | (k, v) # rest \<Rightarrow>
          if \<not> prefix (nsKey tenant' pre') k then Some entries
          else let full = trim_prefix k (tenant' @ [nul]); r = trim_prefix full pre'
          in if r = [] then f K' db' tenant' pre' entries rest
             else case cut_at slash r of (part, _, nested) \<Rightarrow>
               if nested
               then f K' db' tenant' pre' (AList.update part (dir_listed (pre' @ part)) entries)
                      (b_seek K' db' BNamespace (nsKey tenant' (pre' @ part @ [slash, xff])))
               else f K' db' tenant' pre'
                      (case json_object (b_get K' db' BObjects (raw_string (Some v))) of
                         Inl _ \<Rightarrow> entries
                       | Inr ob \<Rightarrow> AList.update part (file_listed full ob) entries) rest) = Some res"
      and eqs: "K' = K" "db' = db" "tenant' = tenant" "pre' = pre" "l = b_seek K db BNamespace s" "s \<le> kb" "nsKey tenant pre \<le> s"
    note 1 = body [unfolded eqs(1-4)] eqs(5-)
    have IH: "f K db tenant pre en (b_seek K db BNamespace s') = Some r \<Longrightarrow> s' \<le> kb \<Longrightarrow> nsKey tenant pre \<le> s' \<Longrightarrow> False" for en s' r
      using IH' [of K db tenant pre en] by blast
    have kbin: "(kb, vb) \<in> set l" using 1 bad(1) by (simp add: seek_iff)
    then obtain k v rest where l: "l = (k, v) # rest" by (cases l) auto
    have sk: "b_seek K db BNamespace s = (k, v) # rest" using 1 l by simp
    have rest: "rest = b_seek K db BNamespace (k @ [nul])" by (rule seek_tl [OF sk])
    have k: "s \<le> k" "k \<le> kb"
      using seek_iff [of k v db BNamespace s] seek_sorted [of db BNamespace s] kbin by (auto simp: sk l dest: less_imp_le)
    have "nsKey tenant pre \<le> k" using 1 k(1) by auto
    moreover have kb: "kb = nsKey tenant pre @ part @ slash # xff # y" by (simp add: bad(2) nsKey_def)
    ultimately have pk: "prefix (nsKey tenant pre) k" using k(2) by (auto intro: prefix_between)
    then obtain r where r: "k = tenant @ nul # pre @ r" by (auto simp: prefix_def nsKey_def)
    have tr: "trim_prefix (trim_prefix k (tenant @ [nul])) pre = r" by (simp add: r trim_prefix_def)
    obtain part' x nested where cut: "cut_at slash r = (part', x, nested)" by (cases "cut_at slash r")
    show False
    proof (cases "r = [] \<or> \<not> nested")
      case True
      then have "k \<noteq> kb" using cut cut_nested [of slash r part "xff # y"] bad(3) by (auto simp: r kb nsKey_def)
      then have "k @ [nul] \<le> kb" using k(2) by (simp add: append_nul_le)
      moreover have "nsKey tenant pre \<le> k @ [nul]" by (rule prefix_le) (use pk in \<open>auto intro: prefix_prefix\<close>)
      moreover have "\<exists>en r. f K db tenant pre en rest = Some r"
        using 1(1) True pk tr cut by (auto simp: l Let_def split: if_splits)
      ultimately show False using IH rest by blast
    next
      case False
      then have r': "r = part' @ slash # x" "slash \<notin> set part'" using cut cut_nested [of slash r part' x] by auto
      let ?T = "nsKey tenant (pre @ part' @ [slash, xff])"
      have "?T \<le> kb"
      proof (cases "part' = part")
        case True
        have "[xff] \<le> xff # y" by simp
        then show ?thesis by (simp add: True kb nsKey_def le_less append_cancel_less)
      next
        case False
        have "part' @ slash # x < part @ slash # xff # y"
          using k(2) False r'(2) bad(3)
          by (auto simp: r r'(1) kb nsKey_def le_less append_cancel_less) (metis cut_at_append prod.inject)
        from part_less [OF r'(2) bad(3) False this, of "[xff]"] show ?thesis
          by (simp add: kb nsKey_def le_less append_cancel_less)
      qed
      moreover have "nsKey tenant pre \<le> ?T" by (rule prefix_le) (simp add: nsKey_def)
      moreover have "\<exists>en r. f K db tenant pre en (b_seek K db BNamespace ?T) = Some r"
        using 1(1) False pk tr cut by (auto simp: l Let_def split: if_splits)
      ultimately show False using IH by blast
    qed
  qed
  show ?thesis using never [of entries "b_seek K db BNamespace s"] s by fastforce
qed

end

end
