(* ===== verification/Demo_Tree.thy ===== *)
theory Demo_Tree
  imports Demo Tree
begin

text \<open>The file tree of the example store.\<close>

lemma demo_tree: "tree_ok (b_get mem_bolt (v_db demo_store))"
  by (auto simp: tree_ok_def demo_store_def mem_bolt_def demo_cells_def nsKey_def prefix_def split: if_splits)

lemma demo_objects_only:
  "b_get mem_bolt (v_db demo_store) BObjects oid = Some (CObject ob) \<Longrightarrow>
     (oid, ob) \<in> {(''o1'', demo_ob1), (''o2'', demo_ob2), (''o3'', demo_ob3)}"
  by (auto simp: demo_store_def demo_cells_def mem_bolt_def split: if_splits)

end
