(* ===== verification/Rebuild.thy ===== *)
theory Rebuild
  imports Store
begin

text \<open>
  Migration and repair, \<^verbatim>\<open>internal/store/schema.go\<close>: \<open>rebuildIndexes\<close> recreates every index bucket
  from the primary records and \<open>recount\<close> rebuilds the counters from one scan. These run under
  \<open>db.Update\<close> and \<open>db.View\<close> of bbolt directly, without a counter delta. Creating missing buckets has
  no counterpart: every bucket of the model exists.
\<close>

section \<open>Definitions\<close>

definition SchemaVersion :: int where
  "SchemaVersion = 2"

text \<open>\<open>strconv.Atoi\<close> with its error ignored; \<open>strconv.Itoa\<close> of a natural number.\<close>

definition schemaVersion :: "'db bolt \<Rightarrow> 'db \<Rightarrow> int" where
  "schemaVersion K db = parse_int (raw_string (b_get K db BMeta ''schema''))"

text \<open>\<open>db.Update\<close>.\<close>

definition db_Update :: "'db bolt \<Rightarrow> ('db, 'a) txn \<Rightarrow> 'db store \<Rightarrow> (error + 'a) \<times> 'db store" where
  "db_Update K fn st =
     (case fn (v_db st, delta0) of
        Inl e \<Rightarrow> (Inl e, st)
      | Inr (x, (db, d)) \<Rightarrow>
          (case b_commit K db of Some e \<Rightarrow> (Inl e, st) | None \<Rightarrow> (Inr x, st\<lparr>v_db := db\<rparr>)))"

text \<open>A helper called with a throw-away \<open>&delta{}\<close>.\<close>

definition throwaway :: "('db, 'a) txn \<Rightarrow> ('db, 'a) txn" where
  "throwaway m s = (case m (fst s, delta0) of Inl e \<Rightarrow> Inl e | Inr (x, s') \<Rightarrow> Inr (x, (fst s', snd s)))"

fun cell_object :: "cell \<Rightarrow> object_version list" where
  "cell_object (CObject ob) = [ob]"
| "cell_object _ = []"

fun cell_upload :: "cell \<Rightarrow> upload list" where
  "cell_upload (CUpload u) = [u]"
| "cell_upload _ = []"

text \<open>\<open>sortObjectsByVersion\<close>: by version, then by creation time.\<close>

definition sortObjectsByVersion :: "object_version list \<Rightarrow> object_version list" where
  "sortObjectsByVersion obs = sort_key o_Version (sort_key o_CreatedAt obs)"

definition rebuild_object :: "'db bolt \<Rightarrow> gotime \<Rightarrow> object_version \<Rightarrow> ('db, unit) txn" where
  "rebuild_object K now ob =
     (case o_State ob of
        StateReady \<Rightarrow>
          tbind (enqueue K (ob\<lparr>o_QueueKey := []\<rparr>) (o_VisibleAt ob)) (putObject K)
      | StateLeased \<Rightarrow>
          let ob' = ob\<lparr>o_QueueSeq := 0, o_QueueKey := []\<rparr>
          in tseq (tput K BLeases (timeIDKey (o_LeaseUntil ob') (o_ID ob')) (CRaw (o_LeaseID ob'))) (putObject K ob')
      | StateHeld \<Rightarrow> tput K BHeld (timeIDKey (o_CreatedAt ob) (o_ID ob)) (CRaw [])
      | StateParked \<Rightarrow> tput K BParked (parkedKey (o_Tenant ob) (o_ParkedAt ob) (o_ID ob)) (CRaw [])
      | StateDeletePending \<Rightarrow> throwaway (deleteObjectTx K now ob ''committed'')
      | _ \<Rightarrow> ret ())"

definition rebuild_upload :: "'db bolt \<Rightarrow> upload \<Rightarrow> ('db, unit) txn" where
  "rebuild_upload K u =
     tseq (tput K BUploadPaths (uploadPathKey (u_Tenant u) (u_Path u) (u_ID u)) (CRaw []))
       (twhen (u_State u = StateInterrupted \<or> u_State u = StateFailed)
          (tput K BStale (timeIDKey (u_UpdatedAt u) (u_ID u)) (CRaw [])))"

text \<open>A claim is stale when it does not decode or its object does not carry its lease.\<close>

definition stale_claim :: "'db bolt \<Rightarrow> 'db \<Rightarrow> string \<times> cell \<Rightarrow> bool" where
  "stale_claim K db e =
     (case json_claim (Some (snd e)) of
        Inl _ \<Rightarrow> True
      | Inr c \<Rightarrow>
          (case json_object (b_get K db BObjects (c_ObjectID c)) of
             Inl _ \<Rightarrow> True
           | Inr ob \<Rightarrow> o_State ob \<noteq> StateLeased \<or> o_LeaseID ob \<noteq> fst e))"

definition tomb_time :: "gotime \<Rightarrow> cell \<Rightarrow> gotime" where
  "tomb_time now c = (case json_tomb (Some c) of Inl _ \<Rightarrow> now | Inr t \<Rightarrow> t_DeletedAt t)"

definition rebuildIndexes :: "'db bolt \<Rightarrow> gotime \<Rightarrow> ('db, unit) txn" where
  "rebuildIndexes K now =
     tseq (tfor indexBuckets (tclear K))
    (tbind (tread (\<lambda>db. concat (map (cell_object \<circ> snd) (b_seek K db BObjects [])))) (\<lambda>all.
     tseq (tfor (sortObjectsByVersion all) (rebuild_object K now))
    (tbind (tread (\<lambda>db. concat (map (cell_upload \<circ> snd) (b_seek K db BUploads [])))) (\<lambda>ups.
     tseq (tfor ups (rebuild_upload K))
    (tbind (tread (\<lambda>db. map fst (filter (stale_claim K db) (b_seek K db BClaims [])))) (\<lambda>stale.
     tseq (tfor stale (tdel K BClaims))
    (tbind (tread (\<lambda>db. b_seek K db BTombstones [])) (\<lambda>tombs.
     tfor tombs (\<lambda>(k, c). tput K BTombTimes (timeIDKey (tomb_time now c) k) (CRaw []))))))))))"

definition recount :: "'db bolt \<Rightarrow> 'db store \<Rightarrow> 'db store" where
  "recount K st =
     (let objs = concat (map (cell_object \<circ> snd) (b_seek K (v_db st) BObjects []));
          tenants = fold (\<lambda>ob ts. AList.update (o_Tenant ob)
                       (bump (lookup_stats ts (o_Tenant ob) + TenantStats 1 0 0 0 0 (o_Size ob)) (o_State ob) 1) ts) objs [];
          keyn = (\<lambda>B. int (length (b_seek K (v_db st) B [])))
      in st\<lparr>v_count :=
             \<lparr>k_stats = \<lparr>s_objects = fold (\<lambda>t acc. acc + snd t) tenants 0, s_DeletePending = keyn BGC,
                         s_Uploads = keyn BUploads, s_Claims = keyn BClaims\<rparr>,
              k_tenants = tenants\<rparr>\<rparr>)"

definition RebuildIndexes :: "'db bolt \<Rightarrow> gotime \<Rightarrow> 'db store \<Rightarrow> (error + unit) \<times> 'db store" where
  "RebuildIndexes K now st =
     (case db_Update K (rebuildIndexes K now) st of
        (Inl e, st') \<Rightarrow> (Inl e, st')
      | (Inr _, st') \<Rightarrow> (Inr (), recount K st'))"

definition migrate :: "'db bolt \<Rightarrow> gotime \<Rightarrow> 'db store \<Rightarrow> (error + unit) \<times> 'db store" where
  "migrate K now st =
     db_Update K
       (tbind (tread (schemaVersion K)) (\<lambda>version.
          if version = SchemaVersion then ret ()
          else if SchemaVersion < version then throw (ErrOther ''catalog schema is newer than this server supports'')
          else tseq (rebuildIndexes K now) (tput K BMeta ''schema'' (CRaw ''2'')))) st"

section \<open>Recounting\<close>

lemma fold_add_stats: "fold (\<lambda>t acc. acc + snd t) ts (acc :: TenantStats) = acc + total_stats ts"
  by (induction ts arbitrary: acc) (simp_all add: total_stats_def add.assoc)

definition add_object :: "object_version \<Rightarrow> (string \<times> TenantStats) list \<Rightarrow> (string \<times> TenantStats) list" where
  "add_object ob ts = AList.update (o_Tenant ob)
     (bump (lookup_stats ts (o_Tenant ob) + TenantStats 1 0 0 0 0 (o_Size ob)) (o_State ob) 1) ts"

lemma add_objects_distinct: "distinct (map fst ts) \<Longrightarrow> distinct (map fst (fold add_object obs ts))"
  by (induction obs arbitrary: ts) (simp_all add: add_object_def distinct_update)

lemma add_objects_lookup:
  assumes "\<And>ob. ob \<in> set obs \<Longrightarrow> o_State ob \<noteq> StateNone"
  shows "lookup_stats (fold add_object obs ts) t =
    lookup_stats ts t + sum_list (map (\<lambda>ob. if o_Tenant ob = t then state_stats ob (o_State ob) else 0) obs)"
  using assms
proof (induction obs arbitrary: ts)
  case (Cons ob obs)
  then have "o_State ob \<noteq> StateNone" by simp
  then have "lookup_stats (add_object ob ts) t =
      lookup_stats ts t + (if o_Tenant ob = t then state_stats ob (o_State ob) else 0)"
    by (simp add: add_object_def lookup_stats_update state_stats_def bump_pulse add.assoc)
  with Cons show ?case by (simp add: add.assoc)
qed simp

context bolt_laws
begin

lemma sum_seek: "(\<Sum>e\<leftarrow>b_seek K db B []. f (snd e)) = (\<Sum>k\<in>dom (b_get K db B). f (the (b_get K db B k)))"
    for f :: "cell \<Rightarrow> TenantStats"
proof -
  let ?l = "b_seek K db B []"
  have eq: "map (\<lambda>e. f (snd e)) ?l = map (\<lambda>k. f (the (b_get K db B k))) (map fst ?l)"
    using seek_set [of db B "[]"] by auto
  have dom: "dom (b_get K db B) = set (map fst ?l)"
    by (force simp: seek_set)
  show ?thesis
    unfolding eq dom by (rule sum_list_distinct_conv_sum_set [OF seek_distinct])
qed

lemma recount_ok:
  assumes "objects_ok (b_get K (v_db st))"
  shows "counts_ok (b_get K (v_db st)) (v_count (recount K st))"
proof -
  let ?g = "b_get K (v_db st)"
  let ?objs = "concat (map (cell_object \<circ> snd) (b_seek K (v_db st) BObjects []))"
  let ?ts = "fold add_object ?objs []"
  have st: "o_State ob \<noteq> StateNone" if "ob \<in> set ?objs" for ob
  proof -
    from that obtain k c where "(k, c) \<in> set (b_seek K (v_db st) BObjects [])" "ob \<in> set (cell_object c)" by auto
    then have "?g BObjects k = Some (CObject ob)" by (cases c) (auto simp: seek_iff)
    then have "obj_ok ob" using assms unfolding objects_ok_def by blast
    then show ?thesis by (auto simp: obj_ok_def)
  qed
  have "sum_list (map (\<lambda>ob. if o_Tenant ob = t then state_stats ob (o_State ob) else 0) (concat (map (cell_object \<circ> snd) l))) =
      (\<Sum>e\<leftarrow>l. cell_stats t (snd e))" for t and l :: "(string \<times> cell) list"
  proof (induction l)
    case (Cons e l)
    then show ?case by (cases "snd e") (simp_all add: cell_stats_def)
  qed simp
  then have look: "lookup_stats ?ts t = tally ?g t" for t
    using add_objects_lookup [of ?objs "[]" t, OF st] sum_seek [of "cell_stats t" "v_db st" BObjects]
    by (simp add: lookup_stats_def tally_def)
  have dist: "distinct (map fst ?ts)" by (rule add_objects_distinct) simp
  have ts: "fold (\<lambda>ob ts. AList.update (o_Tenant ob)
       (bump (lookup_stats ts (o_Tenant ob) + TenantStats 1 0 0 0 0 (o_Size ob)) (o_State ob) 1) ts) ?objs [] = ?ts"
    by (simp add: add_object_def [abs_def])
  show ?thesis
    using look dist
    by (simp add: recount_def Let_def ts counts_ok_def counters_ok_def counters_tenant_def fold_add_stats size_of_def length_seek)
qed

end

end
