(* ===== verification/Rebuild_Correct.thy ===== *)
theory Rebuild_Correct
  imports Rebuild
begin

text \<open>
  Rebuilding the indexes: whatever the index buckets hold, after \<open>rebuildIndexes\<close> they are the indexes
  derived from the primary records, the queue is in version order, and the catalog invariant holds
  again, provided the primary records are sound (\<open>rebuildable\<close>).
\<close>

section \<open>Indexes as folds\<close>

text \<open>Entering records one by one builds the derived index.\<close>

lemma derived_empty [simp]: "derived f Map.empty = Map.empty"
  by (simp add: derived_def fun_eq_iff)

definition cells_map :: "cell list \<Rightarrow> string \<Rightarrow> cell option" where
  "cells_map cs = map_of (map (\<lambda>c. (cell_id c, c)) cs)"

definition enter :: "bkt \<Rightarrow> cell list \<Rightarrow> (string \<Rightarrow> cell option) \<Rightarrow> string \<Rightarrow> cell option" where
  "enter B cs I = fold (\<lambda>c. ins_entry (index_entry B c)) cs I"

lemma enter_simps [simp]:
  "enter B [] I = I" "enter B (c # cs) I = enter B cs (ins_entry (index_entry B c) I)"
  by (simp_all add: enter_def)

lemma enter_derived:
  assumes "distinct (map cell_id cs)" "\<And>c. c \<in> set cs \<Longrightarrow> nul \<notin> set (cell_id c) \<and> R (cell_id c) = None" "keyed R"
  shows "enter B cs (derived (index_entry B) R) = derived (index_entry B) (fold (\<lambda>c m. m(cell_id c \<mapsto> c)) cs R)"
  using assms
proof (induction cs arbitrary: R)
  case (Cons c cs)
  have c: "nul \<notin> set (cell_id c)" "R (cell_id c) = None" using Cons.prems(2) by auto
  have "ins_entry (index_entry B c) (derived (index_entry B) R) = derived (index_entry B) (R(cell_id c \<mapsto> c))"
    by (rule ix.derived_write [OF Cons.prems(3) refl c(1)]) (simp add: c(2))
  moreover have "keyed (R(cell_id c \<mapsto> c))" using Cons.prems(3) c(1) by (intro keyed_upd) auto
  moreover have "(R(cell_id c \<mapsto> c)) (cell_id c') = None \<and> nul \<notin> set (cell_id c')" if "c' \<in> set cs" for c'
    using Cons.prems(1,2) that by (auto simp: image_iff)
  ultimately show ?case using Cons.IH [of "R(cell_id c \<mapsto> c)"] Cons.prems(1) by auto
qed simp

lemma fold_upd_map:
  "distinct (map cell_id cs) \<Longrightarrow> fold (\<lambda>c m. m(cell_id c \<mapsto> c)) cs R = R ++ cells_map cs"
proof (induction cs arbitrary: R)
  case (Cons c cs)
  then have "cells_map cs (cell_id c) = None" by (auto simp: cells_map_def map_of_eq_None_iff image_iff)
  with Cons show ?case
    by (auto simp: cells_map_def fun_eq_iff map_add_def split: option.splits)
qed (simp add: cells_map_def)

lemma enter_all:
  assumes "distinct (map cell_id cs)" "\<And>c. c \<in> set cs \<Longrightarrow> nul \<notin> set (cell_id c)"
  shows "enter B cs Map.empty = derived (index_entry B) (cells_map cs)"
  using enter_derived [of cs Map.empty B] fold_upd_map [of cs Map.empty] assms by (simp add: keyed_def)

section \<open>One pass over the objects\<close>

definition requeue_of :: "object_version \<Rightarrow> object_version \<Rightarrow> bool" where
  "requeue_of ob ob' \<longleftrightarrow>
     (\<exists>q k. ob' = ob\<lparr>o_QueueSeq := q, o_QueueKey := k\<rparr> \<and> (q \<noteq> 0 \<longleftrightarrow> o_State ob = StateReady))"

text \<open>What an object must satisfy before the queue is rebuilt.\<close>

definition raw_obj_ok :: "object_version \<Rightarrow> bool" where
  "raw_obj_ok ob \<longleftrightarrow>
     obj_ok (ob\<lparr>o_QueueSeq := (if o_State ob = StateReady then 1 else 0)\<rparr>) \<and>
     (o_State ob \<in> {StateHeld, StateParked} \<longrightarrow> o_QueueSeq ob = 0)"

definition rebuildable :: "view \<Rightarrow> bool" where
  "rebuildable g \<longleftrightarrow>
     records_ok g \<and> (\<forall>oid ob. g BObjects oid = Some (CObject ob) \<longrightarrow> raw_obj_ok ob) \<and>
     claims_ok g \<and> names_ok g \<and> graves_ok g"

lemma requeue_of_sel:
  assumes "requeue_of ob ob'"
  shows "o_ID ob' = o_ID ob" "o_Tenant ob' = o_Tenant ob" "o_Path ob' = o_Path ob" "o_State ob' = o_State ob"
    "o_Retracted ob' = o_Retracted ob" "o_LeaseID ob' = o_LeaseID ob" "o_LeaseUntil ob' = o_LeaseUntil ob"
    "o_Version ob' = o_Version ob" "o_QueueSeq ob' \<noteq> 0 \<longleftrightarrow> o_State ob = StateReady"
proof -
  from assms obtain q k where e: "ob' = ob\<lparr>o_QueueSeq := q, o_QueueKey := k\<rparr>" "q \<noteq> 0 \<longleftrightarrow> o_State ob = StateReady"
    unfolding requeue_of_def by blast
  show "o_ID ob' = o_ID ob" "o_Tenant ob' = o_Tenant ob" "o_Path ob' = o_Path ob" "o_State ob' = o_State ob"
    "o_Retracted ob' = o_Retracted ob" "o_LeaseID ob' = o_LeaseID ob" "o_LeaseUntil ob' = o_LeaseUntil ob"
    "o_Version ob' = o_Version ob" "o_QueueSeq ob' \<noteq> 0 \<longleftrightarrow> o_State ob = StateReady"
    using e(2) by (simp_all add: e(1))
qed

lemma requeue_of_ok: "requeue_of ob ob' \<Longrightarrow> raw_obj_ok ob \<Longrightarrow> obj_ok ob'"
  using requeue_of_sel [of ob ob'] by (simp add: raw_obj_ok_def obj_ok_def)

text \<open>The effect of rebuilding one object, and of the whole pass.\<close>

definition object_indexes :: "bkt set" where
  "object_indexes = {BQueue, BQueueSeg, BLeases, BHeld, BParked}"

definition pass_eff ::
    "object_version list \<Rightarrow> object_version list \<Rightarrow> view \<Rightarrow> nat \<Rightarrow> view \<Rightarrow> nat \<Rightarrow> bool" where
  "pass_eff obs fobs g n g' n' \<longleftrightarrow>
     list_all2 requeue_of obs fobs \<and>
     (\<forall>B\<in>object_indexes. g' B = enter B (map CObject fobs) (g B)) \<and>
     g' BObjects = fold (\<lambda>c m. m(cell_id c \<mapsto> c)) (map CObject fobs) (g BObjects) \<and>
     (\<forall>B. B \<notin> insert BObjects object_indexes \<longrightarrow> g' B = g B) \<and>
     n \<le> n' \<and> (n < 2 ^ 64 \<longrightarrow> n' < 2 ^ 64) \<and>
     sorted_wrt (<) (map o_QueueSeq (filter (\<lambda>ob. o_State ob = StateReady) fobs)) \<and>
     (\<forall>ob\<in>set fobs. o_State ob = StateReady \<longrightarrow> n < o_QueueSeq ob \<and> o_QueueSeq ob \<le> n')"

lemma pass_eff_append:
  assumes "pass_eff obs1 fobs1 g n g1 n1" "pass_eff obs2 fobs2 g1 n1 g2 n2"
  shows "pass_eff (obs1 @ obs2) (fobs1 @ fobs2) g n g2 n2"
  unfolding pass_eff_def
proof (intro conjI ballI allI impI)
  note 1 = assms(1) [unfolded pass_eff_def] and 2 = assms(2) [unfolded pass_eff_def]
  show "list_all2 requeue_of (obs1 @ obs2) (fobs1 @ fobs2)" using 1 2 by (blast intro: list_all2_appendI)
  show "g2 B = enter B (map CObject (fobs1 @ fobs2)) (g B)" if "B \<in> object_indexes" for B
    using 1 2 that by (simp add: enter_def)
  show "g2 BObjects = fold (\<lambda>c m. m(cell_id c \<mapsto> c)) (map CObject (fobs1 @ fobs2)) (g BObjects)"
    using 1 2 by simp
  show "g2 B = g B" if "B \<notin> insert BObjects object_indexes" for B using 1 2 that by metis
  have n: "n \<le> n1" "n1 \<le> n2" using 1 2 by blast+
  then show "n \<le> n2" by simp
  show "n < 2 ^ 64 \<Longrightarrow> n2 < 2 ^ 64" using 1 2 by blast
  show "n < o_QueueSeq ob" "o_QueueSeq ob \<le> n2" if "ob \<in> set (fobs1 @ fobs2)" "o_State ob = StateReady" for ob
    using 1 2 n that by fastforce+
  show "sorted_wrt (<) (map o_QueueSeq (filter (\<lambda>ob. o_State ob = StateReady) (fobs1 @ fobs2)))"
    using 1 2 by (fastforce simp: sorted_wrt_append)
qed

lemma pass_single:
  assumes "requeue_of ob ob'"
    and "g' BQueue = ins_entry (queue_entry (CObject ob')) (g BQueue)" "g' BQueueSeg = ins_entry (queue_seg_entry (CObject ob')) (g BQueueSeg)"
    and "g' BLeases = ins_entry (lease_entry (CObject ob')) (g BLeases)" "g' BHeld = ins_entry (held_entry (CObject ob')) (g BHeld)"
    and "g' BParked = ins_entry (parked_entry (CObject ob')) (g BParked)" "g' BObjects = (g BObjects)(o_ID ob \<mapsto> CObject ob')"
    and "\<And>B. B \<notin> insert BObjects object_indexes \<Longrightarrow> g' B = g B"
    and "if o_State ob = StateReady then n < 2 ^ 64 \<longrightarrow> n' < 2 ^ 64 else n' = n" "o_State ob = StateReady \<Longrightarrow> n' = Suc n \<and> o_QueueSeq ob' = n'"
  shows "pass_eff [ob] [ob'] g n g' n'"
  unfolding pass_eff_def
proof (intro conjI ballI allI impI)
  note s = requeue_of_sel [OF assms(1)]
  show "list_all2 requeue_of [ob] [ob']" using assms(1) by simp
  show "B \<in> object_indexes \<Longrightarrow> g' B = enter B (map CObject [ob']) (g B)" for B
    using assms(2-6) by (auto simp: object_indexes_def simp del: queue_entry.simps queue_seg_entry.simps lease_entry.simps
        held_entry.simps parked_entry.simps)
  show "B \<notin> insert BObjects object_indexes \<Longrightarrow> g' B = g B" for B by (rule assms(8))
  show "g' BObjects = fold (\<lambda>c m. m(cell_id c \<mapsto> c)) (map CObject [ob']) (g BObjects)" using assms(7) s(1) by simp
qed (use assms(9,10) requeue_of_sel(4) [OF assms(1)] in \<open>auto split: if_splits\<close>)

section \<open>Requeued objects\<close>

text \<open>The catalog with its objects requeued keeps the invariants of the primary records.\<close>

definition requeued :: "view \<Rightarrow> view \<Rightarrow> bool" where
  "requeued g g' \<longleftrightarrow>
     (\<forall>oid c. g' BObjects oid = Some c \<longrightarrow>
        (\<exists>ob ob'. g BObjects oid = Some (CObject ob) \<and> c = CObject ob' \<and> requeue_of ob ob')) \<and>
     (\<forall>oid ob. g BObjects oid = Some (CObject ob) \<longrightarrow>
        (\<exists>ob'. g' BObjects oid = Some (CObject ob') \<and> requeue_of ob ob')) \<and>
     (\<forall>B\<in>{BUploads, BClaims, BTombstones, BNamespace, BGC}. g' B = g B)"

lemma requeuedD:
  assumes "requeued g g'"
  shows "g' BObjects oid = Some (CObject ob') \<Longrightarrow> \<exists>ob. g BObjects oid = Some (CObject ob) \<and> requeue_of ob ob'"
    "g BObjects oid = Some (CObject ob) \<Longrightarrow> \<exists>ob'. g' BObjects oid = Some (CObject ob') \<and> requeue_of ob ob'"
    "g' BUploads = g BUploads" "g' BClaims = g BClaims" "g' BTombstones = g BTombstones"
    "g' BNamespace = g BNamespace" "g' BGC = g BGC"
proof -
  show "g' BObjects oid = Some (CObject ob') \<Longrightarrow> \<exists>ob. g BObjects oid = Some (CObject ob) \<and> requeue_of ob ob'"
    using assms unfolding requeued_def by (metis cell.inject(1))
  show "g BObjects oid = Some (CObject ob) \<Longrightarrow> \<exists>ob'. g' BObjects oid = Some (CObject ob') \<and> requeue_of ob ob'"
    using assms unfolding requeued_def by blast
qed (use assms in \<open>simp_all add: requeued_def\<close>)

lemma requeued_records:
  assumes "requeued g g'" "records_ok g"
  shows "records_ok g'"
proof (rule records_okI)
  fix B k c assume B: "B \<in> set recordBuckets" "g' B k = Some c"
  show "kind_ok B c \<and> cell_id c = k \<and> nul \<notin> set k"
  proof (cases "B = BObjects")
    case True
    with B assms(1) obtain ob ob' where "g BObjects k = Some (CObject ob)" "c = CObject ob'" "requeue_of ob ob'"
      unfolding requeued_def by metis
    then show ?thesis using True records_id(1) [OF assms(2)] requeue_of_sel(1) by simp
  next
    case False
    then show ?thesis using B records_D [OF assms(2) B(1), of k c] requeuedD(3-5) [OF assms(1)]
      by (auto simp: recordBuckets_def)
  qed
qed

lemma requeued_claims:
  assumes "requeued g g'" "claims_ok g"
  shows "claims_ok g'"
proof (rule claims_okI)
  fix l cl assume "g' BClaims l = Some (CClaim cl)"
  then have "g BClaims l = Some (CClaim cl)" by (simp add: requeuedD(4) [OF assms(1)])
  with assms(2) obtain ob where ob: "g BObjects (c_ObjectID cl) = Some (CObject ob)" "o_State ob = StateLeased" "claim_of cl ob"
    by (rule claim_leased)
  from requeuedD(2) [OF assms(1) ob(1)] obtain ob' where "g' BObjects (c_ObjectID cl) = Some (CObject ob')" "requeue_of ob ob'"
    by blast
  with ob requeue_of_sel [OF this(2)]
  show "\<exists>ob. g' BObjects (c_ObjectID cl) = Some (CObject ob) \<and> o_State ob = StateLeased \<and> claim_of cl ob"
    by (intro exI [of _ ob']) (simp add: claim_of_def)
next
  fix oid ob' assume ob': "g' BObjects oid = Some (CObject ob')" "o_State ob' = StateLeased"
  from requeuedD(1) [OF assms(1) ob'(1)] obtain ob where ob: "g BObjects oid = Some (CObject ob)" "requeue_of ob ob'" by blast
  with ob' requeue_of_sel [OF ob(2)] have "o_State ob = StateLeased" by simp
  from assms(2) ob(1) this obtain cl where "g BClaims (o_LeaseID ob) = Some (CClaim cl)" "claim_of cl ob" by (rule leased_claim)
  with requeue_of_sel [OF ob(2)] show "\<exists>cl. g' BClaims (o_LeaseID ob') = Some (CClaim cl) \<and> claim_of cl ob'"
    by (intro exI [of _ cl]) (simp add: claim_of_def requeuedD(4) [OF assms(1)])
qed

lemma requeued_names:
  assumes "requeued g g'" "names_ok g"
  shows "names_ok g'"
proof (rule names_okI)
  fix k c assume "g' BNamespace k = Some c"
  then have "g BNamespace k = Some c" using requeuedD(6) [OF assms(1)] by simp
  with assms(2) obtain ob where ob: "c = CRaw (o_ID ob)" "g BObjects (o_ID ob) = Some (CObject ob)"
    "k = nsKey (o_Tenant ob) (o_Path ob)" "\<not> o_Retracted ob" by (rule name_object)
  from requeuedD(2) [OF assms(1) ob(2)] obtain ob' where "g' BObjects (o_ID ob) = Some (CObject ob')" "requeue_of ob ob'"
    by blast
  with ob requeue_of_sel [OF this(2)] show "\<exists>ob. c = CRaw (o_ID ob) \<and> g' BObjects (o_ID ob) = Some (CObject ob) \<and>
      k = nsKey (o_Tenant ob) (o_Path ob) \<and> \<not> o_Retracted ob"
    by (intro exI [of _ ob']) simp
qed

lemma requeued_graves: "requeued g g' \<Longrightarrow> graves_ok g \<Longrightarrow> graves_ok g'"
proof -
  assume a: "requeued g g'" "graves_ok g"
  then have "g' BObjects oid \<noteq> None \<Longrightarrow> g BObjects oid \<noteq> None" for oid
    unfolding requeued_def by (metis not_None_eq option.distinct(1))
  with a(2) show "graves_ok g'" unfolding graves_ok_def requeuedD(3,5,7) [OF a(1)] by blast
qed

lemma requeue_all_sel:
  assumes "list_all2 requeue_of obs fobs"
  shows "map o_ID fobs = map o_ID obs" "map o_Version fobs = map o_Version obs" "map o_State fobs = map o_State obs"
    "ob' \<in> set fobs \<Longrightarrow> \<exists>ob\<in>set obs. requeue_of ob ob'" "ob \<in> set obs \<Longrightarrow> \<exists>ob'\<in>set fobs. requeue_of ob ob'"
  using assms
  by (induction rule: list_all2_induct) (auto simp: requeue_of_sel)

text \<open>After the object pass the object bucket holds exactly the requeued objects.\<close>

lemma requeued_bucket:
  assumes "list_all2 requeue_of obs fobs" "distinct (map o_ID obs)"
    and "\<And>oid. R oid \<noteq> None \<Longrightarrow> oid \<in> o_ID ` set obs"
  shows "fold (\<lambda>c m. m(cell_id c \<mapsto> c)) (map CObject fobs) R = cells_map (map CObject fobs)"
proof -
  have ids: "map cell_id (map CObject fobs) = map o_ID obs" using requeue_all_sel(1) [OF assms(1)] by (simp add: comp_def)
  have "R oid = None" if "cells_map (map CObject fobs) oid = None" for oid
  proof -
    from that have "oid \<notin> set (map cell_id (map CObject fobs))"
      by (auto simp: cells_map_def map_of_eq_None_iff image_iff)
    then show ?thesis using assms(3) [of oid] unfolding ids by auto
  qed
  then show ?thesis
    using fold_upd_map [of "map CObject fobs" R] ids assms(2) by (auto simp: map_add_def fun_eq_iff split: option.splits)
qed

lemma cells_map_objects:
  assumes "distinct (map o_ID fobs)"
  shows "cells_map (map CObject fobs) oid = Some c \<longleftrightarrow> (\<exists>ob\<in>set fobs. c = CObject ob \<and> o_ID ob = oid)"
proof -
  have "distinct (map fst (map (\<lambda>c. (cell_id c, c)) (map CObject fobs)))" using assms by (simp add: comp_def)
  from map_of_eq_Some_iff [OF this] show ?thesis unfolding cells_map_def by auto
qed

lemma requeuedI:
  assumes all2: "list_all2 requeue_of obs fobs" and dist: "distinct (map o_ID obs)"
    and obs: "\<And>ob. ob \<in> set obs \<longleftrightarrow> g BObjects (o_ID ob) = Some (CObject ob)"
    and rec: "records_ok g"
    and objs: "g' BObjects = cells_map (map CObject fobs)"
    and frame: "\<And>B. B \<in> {BUploads, BClaims, BTombstones, BNamespace, BGC} \<Longrightarrow> g' B = g B"
  shows "requeued g g'"
  unfolding requeued_def
proof (intro conjI allI impI ballI)
  have ids: "distinct (map o_ID fobs)" using dist requeue_all_sel(1) [OF all2] by simp
  show "\<exists>ob ob'. g BObjects oid = Some (CObject ob) \<and> c = CObject ob' \<and> requeue_of ob ob'"
    if oid: "g' BObjects oid = Some c" for oid c
  proof -
    from oid obtain ob' where ob': "ob' \<in> set fobs" "c = CObject ob'" "o_ID ob' = oid"
      unfolding objs cells_map_objects [OF ids] by blast
    with requeue_all_sel(4) [OF all2] obtain ob where ob: "ob \<in> set obs" "requeue_of ob ob'" by blast
    with ob' obs [of ob] requeue_of_sel(1) [OF ob(2)] have "g BObjects oid = Some (CObject ob)" by simp
    with ob(2) ob'(2) show ?thesis by blast
  qed
  show "\<exists>ob'. g' BObjects oid = Some (CObject ob') \<and> requeue_of ob ob'"
    if oid: "g BObjects oid = Some (CObject ob)" for oid ob
  proof -
    have "o_ID ob = oid" using records_id(1) [OF rec oid] by simp
    with oid obs [of ob] have "ob \<in> set obs" by simp
    with requeue_all_sel(5) [OF all2] obtain ob' where ob': "ob' \<in> set fobs" "requeue_of ob ob'" by blast
    then have "o_ID ob' = oid" using requeue_of_sel(1) [OF ob'(2)] \<open>o_ID ob = oid\<close> by simp
    with ob' show ?thesis unfolding objs cells_map_objects [OF ids] by blast
  qed
qed (rule frame)

lemma queue_positions:
  assumes sorted: "sorted_wrt (<) (map o_QueueSeq (filter (\<lambda>ob. o_State ob = StateReady) fobs))"
    and ids: "distinct (map o_ID fobs)" and objs: "g BObjects = cells_map (map CObject fobs)"
    and le: "\<And>ob. ob \<in> set fobs \<Longrightarrow> o_QueueSeq ob \<le> n" and n: "n < 2 ^ 64"
    and ready: "\<And>ob. ob \<in> set fobs \<Longrightarrow> o_QueueSeq ob \<noteq> 0 \<longleftrightarrow> o_State ob = StateReady"
  shows "queue_seq_ok g n"
  unfolding queue_seq_ok_def
proof (intro conjI allI impI)
  have mem: "g BObjects oid = Some (CObject ob) \<longleftrightarrow> ob \<in> set fobs \<and> o_ID ob = oid" for oid ob
    unfolding objs cells_map_objects [OF ids] by auto
  show "n < 2 ^ 64" by (rule n)
  show "o_QueueSeq ob \<le> n" if "g BObjects oid = Some (CObject ob)" for oid ob using that le mem by blast
  have "distinct (map o_QueueSeq (filter (\<lambda>ob. o_State ob = StateReady) fobs))"
    using sorted strict_sorted_iff by blast
  then have inj: "inj_on o_QueueSeq {ob \<in> set fobs. o_State ob = StateReady}" by (simp add: distinct_map)
  fix a b oa ob
  assume "g BObjects a = Some (CObject oa) \<and> g BObjects b = Some (CObject ob) \<and>
    o_QueueSeq oa = o_QueueSeq ob \<and> o_QueueSeq oa \<noteq> 0"
  then have "oa \<in> set fobs" "ob \<in> set fobs" "o_ID oa = a" "o_ID ob = b" "o_QueueSeq oa = o_QueueSeq ob" "o_QueueSeq oa \<noteq> 0"
    using mem by blast+
  moreover from this have "o_State oa = StateReady" "o_State ob = StateReady" using ready by metis+
  ultimately have "oa = ob" by (intro inj_onD [OF inj]) auto
  with \<open>o_ID oa = a\<close> \<open>o_ID ob = b\<close> show "a = b" by simp
qed

lemma sorted_positions:
  fixes f :: "'a \<Rightarrow> nat" and h :: "'a \<Rightarrow> nat"
  assumes "sorted_wrt (\<lambda>x y. f x \<le> f y) xs" "sorted_wrt (\<lambda>x y. h x < h y) xs" "a \<in> set xs" "b \<in> set xs" "f a < f b"
  shows "h a < h b"
  using assms by (induction xs) auto

text \<open>Queue positions follow the versions.\<close>

definition version_order :: "view \<Rightarrow> bool" where
  "version_order g \<longleftrightarrow>
     (\<forall>a b oa ob. g BObjects a = Some (CObject oa) \<and> g BObjects b = Some (CObject ob) \<and>
        o_State oa = StateReady \<and> o_State ob = StateReady \<and> o_Version oa < o_Version ob \<longrightarrow> o_QueueSeq oa < o_QueueSeq ob)"

lemma requeue_version_order:
  assumes "list_all2 requeue_of (sortObjectsByVersion all) fobs" "distinct (map o_ID fobs)"
    and "sorted_wrt (<) (map o_QueueSeq (filter (\<lambda>ob. o_State ob = StateReady) fobs))"
    and "g BObjects = cells_map (map CObject fobs)"
  shows "version_order g"
  unfolding version_order_def
proof (intro allI impI, elim conjE)
  fix a b oa ob
  assume "g BObjects a = Some (CObject oa)" "g BObjects b = Some (CObject ob)"
    and st: "o_State oa = StateReady" "o_State ob = StateReady" and lt: "o_Version oa < o_Version ob"
  then have mem: "oa \<in> set fobs" "ob \<in> set fobs" unfolding assms(4) cells_map_objects [OF assms(2)] by auto
  have "sorted (map o_Version fobs)"
    unfolding requeue_all_sel(2) [OF assms(1)] by (simp add: sortObjectsByVersion_def)
  then have "sorted_wrt (\<lambda>x y. o_Version x \<le> o_Version y) (filter (\<lambda>ob. o_State ob = StateReady) fobs)"
    by (simp add: sorted_map sorted_wrt_filter)
  moreover have "sorted_wrt (\<lambda>x y. o_QueueSeq x < o_QueueSeq y) (filter (\<lambda>ob. o_State ob = StateReady) fobs)"
    using assms(3) by (simp add: sorted_wrt_map)
  ultimately show "o_QueueSeq oa < o_QueueSeq ob" by (rule sorted_positions) (use mem st lt in auto)
qed

lemma catalog_rebuildable:
  assumes "catalog_ok g n" "\<And>B. B \<notin> set indexBuckets \<Longrightarrow> g' B = g B"
  shows "rebuildable g'"
proof -
  have e: "g' BObjects = g BObjects" "g' BUploads = g BUploads" "g' BClaims = g BClaims" "g' BTombstones = g BTombstones"
    "g' BNamespace = g BNamespace" "g' BGC = g BGC"
    by (rule assms(2), simp add: indexBuckets_def)+
  have "raw_obj_ok ob" if "obj_ok ob" for ob using that by (auto simp: raw_obj_ok_def obj_ok_def)
  moreover have "records_ok g'" using catalog_okD(1) [OF assms(1)] by (simp add: records_ok_def recordBuckets_def e)
  moreover have "claims_ok g'" using catalog_okD(4) [OF assms(1)] unfolding claims_ok_def e .
  moreover have "names_ok g'" using catalog_okD(5) [OF assms(1)] unfolding names_ok_def e .
  moreover have "graves_ok g'" using catalog_okD(6) [OF assms(1)] unfolding graves_ok_def e .
  ultimately show ?thesis
    using catalog_okD(3) [OF assms(1)] unfolding rebuildable_def objects_ok_def e by blast
qed

context bolt_laws
begin

lemma rebuild_object_eff:
  assumes ob: "contents K s BObjects (o_ID ob) = Some (CObject ob)" "raw_obj_ok ob"
    and run: "rebuild_object K now ob s = Inr (x, s')"
  shows "\<exists>ob'. pass_eff [ob] [ob'] (contents K s) (seqs K s BQueue) (contents K s') (seqs K s' BQueue)"
proof -
  have st: "o_State ob \<in> {StateReady, StateLeased, StateHeld, StateParked}"
    using ob(2) by (auto simp: raw_obj_ok_def obj_ok_def)
  have same: "(contents K s BObjects)(o_ID ob \<mapsto> CObject ob) = contents K s BObjects" using ob(1) by auto
  from st consider "o_State ob = StateReady" | "o_State ob = StateLeased" | "o_State ob = StateHeld" | "o_State ob = StateParked"
    by auto
  then show ?thesis
  proof cases
    case 1
    with run obtain ob' s1 where e: "enqueue K (ob\<lparr>o_QueueKey := []\<rparr>) (o_VisibleAt ob) s = Inr (ob', s1)"
      and p: "putObject K ob' s1 = Inr (x, s')"
      by (auto simp: rebuild_object_def tbind_Inr)
    note e' = enqueue_eff [OF e] and p' = putObject_eff [OF p]
    have f: "ob' = ob\<lparr>o_QueueKey := [], o_QueueSeq := Suc (seqs K s BQueue)\<rparr>" by (simp add: e'(1))
    have "requeue_of ob ob'" using 1 unfolding requeue_of_def f
      by (intro exI [of _ "Suc (seqs K s BQueue)"] exI [of _ "[]"]) simp
    then show ?thesis
      using 1 e'(2,3,5) p'
      by (intro exI [of _ ob'] pass_single) (simp_all add: object_indexes_def f)
  next
    case 2
    let ?ob = "ob\<lparr>o_QueueSeq := 0, o_QueueKey := []\<rparr>"
    have "requeue_of ob ?ob" using 2 unfolding requeue_of_def by (intro exI conjI) auto
    moreover from 2 run have "contents K s' = upd (upd (contents K s) BLeases (timeIDKey (o_LeaseUntil ob) (o_ID ob)) (Some (CRaw (o_LeaseID ob))))
        BObjects (o_ID ob) (Some (CObject ?ob))" "seqs K s' = seqs K s"
      by (auto simp: rebuild_object_def Let_def txn_simps dest!: step_effs)
    ultimately show ?thesis
      using 2 by (intro exI [of _ ?ob] pass_single) (simp_all add: object_indexes_def)
  next
    case 3
    then have "o_QueueSeq ob = 0" using ob(2) by (simp add: raw_obj_ok_def)
    then have "requeue_of ob ob" using 3 unfolding requeue_of_def by (intro exI [of _ "o_QueueSeq ob"] exI [of _ "o_QueueKey ob"]) auto
    with \<open>o_QueueSeq ob = 0\<close> 3 run same show ?thesis
      by (intro exI [of _ ob] pass_single) (auto simp: rebuild_object_def object_indexes_def dest!: tput_eff)
  next
    case 4
    then have "o_QueueSeq ob = 0" using ob(2) by (simp add: raw_obj_ok_def)
    then have "requeue_of ob ob" using 4 unfolding requeue_of_def by (intro exI [of _ "o_QueueSeq ob"] exI [of _ "o_QueueKey ob"]) auto
    with \<open>o_QueueSeq ob = 0\<close> 4 run same show ?thesis
      by (intro exI [of _ ob] pass_single) (auto simp: rebuild_object_def object_indexes_def dest!: tput_eff)
  qed
qed

lemma rebuild_pass:
  assumes "\<And>ob. ob \<in> set obs \<Longrightarrow> contents K s BObjects (o_ID ob) = Some (CObject ob) \<and> raw_obj_ok ob"
    and "distinct (map o_ID obs)" "tfor obs (rebuild_object K now) s = Inr (x, s')"
  shows "\<exists>fobs. pass_eff obs fobs (contents K s) (seqs K s BQueue) (contents K s') (seqs K s' BQueue)"
  using assms
proof (induction obs arbitrary: s)
  case Nil
  then show ?case by (auto simp: pass_eff_def ret_Inr)
next
  case (Cons ob obs)
  from Cons.prems(3) obtain s1 where s1: "rebuild_object K now ob s = Inr ((), s1)"
    and rest: "tfor obs (rebuild_object K now) s1 = Inr (x, s')" by (auto simp: tseq_Inr)
  from rebuild_object_eff [OF _ _ s1] Cons.prems(1) obtain ob' where
    e: "pass_eff [ob] [ob'] (contents K s) (seqs K s BQueue) (contents K s1) (seqs K s1 BQueue)" by auto
  then have id: "o_ID ob' = o_ID ob" by (auto simp: pass_eff_def dest: requeue_of_sel(1))
  have "contents K s1 BObjects (o_ID o2) = Some (CObject o2) \<and> raw_obj_ok o2" if "o2 \<in> set obs" for o2
  proof -
    have "o_ID o2 \<noteq> o_ID ob'" using Cons.prems(2) that id by (auto simp: image_iff)
    then show ?thesis using Cons.prems(1) [of o2] that e by (simp add: pass_eff_def)
  qed
  with Cons.IH [OF _ _ rest] Cons.prems(2) obtain fobs where
    "pass_eff obs fobs (contents K s1) (seqs K s1 BQueue) (contents K s') (seqs K s' BQueue)" by auto
  from pass_eff_append [OF e this] show ?case by auto
qed

section \<open>The other passes\<close>

lemma clear_pass:
  assumes "tfor Bs (tclear K) s = Inr (x, s')"
  shows "contents K s' = (\<lambda>B. if B \<in> set Bs then Map.empty else contents K s B)"
    "seqs K s' = (\<lambda>B. if B \<in> set Bs then 0 else seqs K s B)"
proof -
  have "contents K s' = (\<lambda>B. if B \<in> set Bs then Map.empty else contents K s B) \<and>
      seqs K s' = (\<lambda>B. if B \<in> set Bs then 0 else seqs K s B)"
    using assms
  proof (induction Bs arbitrary: s)
    case (Cons B Bs)
    from Cons.prems obtain s1 where s1: "tclear K B s = Inr ((), s1)" "tfor Bs (tclear K) s1 = Inr (x, s')"
      by (auto simp: tseq_Inr)
    from Cons.IH [OF s1(2)] tclear_eff [OF s1(1)] show ?case by (auto simp: fun_eq_iff)
  qed (simp add: ret_Inr)
  then show "contents K s' = (\<lambda>B. if B \<in> set Bs then Map.empty else contents K s B)"
    "seqs K s' = (\<lambda>B. if B \<in> set Bs then 0 else seqs K s B)" by auto
qed

lemma upload_pass:
  assumes "tfor ups (rebuild_upload K) s = Inr (x, s')"
  shows "contents K s' BUploadPaths = enter BUploadPaths (map CUpload ups) (contents K s BUploadPaths) \<and>
    contents K s' BStale = enter BStale (map CUpload ups) (contents K s BStale) \<and>
    (\<forall>B. B \<notin> {BUploadPaths, BStale} \<longrightarrow> contents K s' B = contents K s B) \<and> seqs K s' = seqs K s"
  using assms
proof (induction ups arbitrary: s)
  case (Cons u ups)
  from Cons.prems obtain s1 where s1: "rebuild_upload K u s = Inr ((), s1)" "tfor ups (rebuild_upload K) s1 = Inr (x, s')"
    by (auto simp: tseq_Inr)
  have "contents K s1 BUploadPaths = ins_entry (upload_path_entry (CUpload u)) (contents K s BUploadPaths) \<and>
      contents K s1 BStale = ins_entry (stale_entry (CUpload u)) (contents K s BStale) \<and>
      (\<forall>B. B \<notin> {BUploadPaths, BStale} \<longrightarrow> contents K s1 B = contents K s B) \<and> seqs K s1 = seqs K s"
    using s1(1)
    by (cases "u_State u = StateInterrupted \<or> u_State u = StateFailed")
      (auto simp: rebuild_upload_def txn_simps dest!: step_effs)
  with Cons.IH [OF s1(2)] show ?case by (simp del: upload_path_entry.simps stale_entry.simps)
qed (simp add: ret_Inr)

lemma tomb_pass:
  assumes "tfor tombs (\<lambda>(k, c). tput K BTombTimes (timeIDKey (tomb_time now c) k) (CRaw [])) s = Inr (x, s')"
    and "\<And>k c. (k, c) \<in> set tombs \<Longrightarrow> \<exists>t. c = CTomb t \<and> t_ObjectID t = k"
  shows "contents K s' = (contents K s)(BTombTimes := enter BTombTimes (map snd tombs) (contents K s BTombTimes)) \<and>
    seqs K s' = seqs K s"
  using assms
proof (induction tombs arbitrary: s)
  case (Cons e tombs)
  obtain k c where e: "e = (k, c)" by (cases e)
  from Cons.prems(2) [of k c] e obtain t where t: "c = CTomb t" "t_ObjectID t = k" by auto
  from Cons.prems(1) e obtain s1 where s1: "tput K BTombTimes (timeIDKey (tomb_time now c) k) (CRaw []) s = Inr ((), s1)"
    "tfor tombs (\<lambda>(k, c). tput K BTombTimes (timeIDKey (tomb_time now c) k) (CRaw [])) s1 = Inr (x, s')"
    by (auto simp: tseq_Inr)
  from Cons.IH [OF s1(2)] Cons.prems(2) tput_eff [OF s1(1)] e t show ?case
    by (simp add: tomb_time_def upd_def)
qed (simp add: ret_Inr)

section \<open>The whole rebuild\<close>

lemma cells_map_seek:
  assumes "keyed (b_get K db B)"
  shows "cells_map (map snd (b_seek K db B [])) = b_get K db B" "distinct (map cell_id (map snd (b_seek K db B [])))"
proof -
  let ?l = "b_seek K db B []"
  have id: "cell_id (snd e) = fst e" if "e \<in> set ?l" for e
  proof -
    from that have "b_get K db B (fst e) = Some (snd e)" using seek_set [of db B "[]"] by auto
    then show ?thesis using keyedD [OF assms] by blast
  qed
  then have eq: "map (\<lambda>c. (cell_id c, c)) (map snd ?l) = ?l" "map cell_id (map snd ?l) = map fst ?l"
    by (auto intro!: map_idI)
  show "distinct (map cell_id (map snd ?l))" unfolding eq by (rule seek_distinct)
  show "cells_map (map snd ?l) = b_get K db B"
  proof
    fix k
    have "map_of ?l k = Some c \<longleftrightarrow> b_get K db B k = Some c" for c
      using seek_distinct [of db B "[]"] seek_iff [of k c db B "[]"] by (simp add: map_of_eq_Some_iff)
    then show "cells_map (map snd ?l) k = b_get K db B k"
      unfolding cells_map_def eq by (metis not_Some_eq)
  qed
qed

lemma kind_cells:
  "(\<And>c. c \<in> set cs \<Longrightarrow> is_CObject c) \<Longrightarrow> map CObject (concat (map cell_object cs)) = cs"
  "(\<And>c. c \<in> set cs \<Longrightarrow> is_CUpload c) \<Longrightarrow> map CUpload (concat (map cell_upload cs)) = cs"
proof -
  show "(\<And>c. c \<in> set cs \<Longrightarrow> is_CObject c) \<Longrightarrow> map CObject (concat (map cell_object cs)) = cs"
  proof (induction cs)
    case (Cons c cs)
    then show ?case by (cases c) force+
  qed simp
  show "(\<And>c. c \<in> set cs \<Longrightarrow> is_CUpload c) \<Longrightarrow> map CUpload (concat (map cell_upload cs)) = cs"
  proof (induction cs)
    case (Cons c cs)
    then show ?case by (cases c) force+
  qed simp
qed

lemma stored_cells:
  assumes "records_ok (contents K s)"
  shows "map CObject (concat (map (cell_object \<circ> snd) (b_seek K (fst s) BObjects []))) = map snd (b_seek K (fst s) BObjects [])"
    "map CUpload (concat (map (cell_upload \<circ> snd) (b_seek K (fst s) BUploads []))) = map snd (b_seek K (fst s) BUploads [])"
proof -
  have "is_CObject c" if "c \<in> set (map snd (b_seek K (fst s) BObjects []))" for c
    using that records_kind(1) [OF assms] by (fastforce simp: contents_def seek_set)
  from kind_cells(1) [of "map snd (b_seek K (fst s) BObjects [])", OF this]
  show "map CObject (concat (map (cell_object \<circ> snd) (b_seek K (fst s) BObjects []))) = map snd (b_seek K (fst s) BObjects [])"
    by simp
  have "is_CUpload c" if "c \<in> set (map snd (b_seek K (fst s) BUploads []))" for c
    using that records_kind(2) [OF assms] by (fastforce simp: contents_def seek_set)
  from kind_cells(2) [of "map snd (b_seek K (fst s) BUploads [])", OF this]
  show "map CUpload (concat (map (cell_upload \<circ> snd) (b_seek K (fst s) BUploads []))) = map snd (b_seek K (fst s) BUploads [])"
    by simp
qed

text \<open>The objects read back are the stored ones, each once.\<close>

lemma sorted_objects:
  fixes s :: "'db \<times> delta"
  defines "obs \<equiv> sortObjectsByVersion (concat (map (cell_object \<circ> snd) (b_seek K (fst s) BObjects [])))"
  assumes ok: "records_ok (contents K s)"
  shows "distinct (map o_ID obs)" "ob \<in> set obs \<longleftrightarrow> contents K s BObjects (o_ID ob) = Some (CObject ob)"
    "oid \<in> o_ID ` set obs \<longleftrightarrow> contents K s BObjects oid \<noteq> None"
proof -
  let ?all = "concat (map (cell_object \<circ> snd) (b_seek K (fst s) BObjects []))"
  have keyed: "keyed (b_get K (fst s) BObjects)" using records_keyed [OF ok] by (simp add: contents_def)
  have m: "mset obs = mset ?all" by (simp add: obs_def sortObjectsByVersion_def)
  have "map o_ID ?all = map cell_id (map CObject ?all)" by simp
  then have "distinct (map o_ID ?all)" using cells_map_seek(2) [OF keyed] stored_cells(1) [OF ok] by simp
  then show "distinct (map o_ID obs)" by (metis m mset_eq_imp_distinct_iff mset_map)
  have mem: "o' \<in> set obs \<longleftrightarrow> CObject o' \<in> set (map CObject ?all)" for o'
    using mset_eq_setD [OF m] by auto
  also have "\<dots> o' \<longleftrightarrow> contents K s BObjects (o_ID o') = Some (CObject o')" for o'
    unfolding stored_cells(1) [OF ok] using keyedD [OF keyed] by (force simp: seek_set contents_def)
  finally have iff: "o' \<in> set obs \<longleftrightarrow> contents K s BObjects (o_ID o') = Some (CObject o')" for o' .
  then show "ob \<in> set obs \<longleftrightarrow> contents K s BObjects (o_ID ob) = Some (CObject ob)" .
  show "oid \<in> o_ID ` set obs \<longleftrightarrow> contents K s BObjects oid \<noteq> None"
    using iff records_kind(1) [OF ok, of oid] by (auto simp: image_iff) metis
qed

lemma fresh_claims:
  assumes "records_ok g" "claims_ok g" "\<And>B. B = BClaims \<or> B = BObjects \<Longrightarrow> b_get K db B = g B"
  shows "filter (stale_claim K db) (b_seek K db BClaims []) = []"
proof -
  have "\<not> stale_claim K db e" if "e \<in> set (b_seek K db BClaims [])" for e
  proof -
    obtain l c where e: "e = (l, c)" by (cases e)
    with that assms(3) have "g BClaims l = Some c" by (simp add: seek_iff)
    moreover from records_kind(3) [OF assms(1) this] obtain cl where "c = CClaim cl" "c_LeaseID cl = l" by blast
    moreover from calculation obtain ob where "g BObjects (c_ObjectID cl) = Some (CObject ob)" "o_State ob = StateLeased"
      "claim_of cl ob" using claim_leased [OF assms(2)] by metis
    ultimately show ?thesis using assms(3) e by (simp add: stale_claim_def claim_of_def)
  qed
  then show ?thesis by (simp add: filter_empty_conv)
qed

lemma entered_sync:
  assumes "keyed (b_get K db (primary_of B))" "g (primary_of B) = b_get K db (primary_of B)"
    and "g B = enter B (map snd (b_seek K db (primary_of B) [])) Map.empty"
  shows "in_sync B g"
  unfolding in_sync_def assms(2,3)
  using enter_all [OF cells_map_seek(2) [OF assms(1)], of B] cells_map_seek(1) [OF assms(1)] keyedD [OF assms(1)]
  by (force simp: seek_set)

lemma entered_objects_sync:
  assumes "distinct (map o_ID fobs)" "\<And>ob. ob \<in> set fobs \<Longrightarrow> nul \<notin> set (o_ID ob)" "primary_of B = BObjects"
    and "g BObjects = cells_map (map CObject fobs)" "g B = enter B (map CObject fobs) Map.empty"
  shows "in_sync B g"
proof -
  have "nul \<notin> set (cell_id c)" if "c \<in> set (map CObject fobs)" for c using that assms(2) by auto
  with enter_all [of "map CObject fobs" B] assms(1,3-5) show ?thesis by (simp add: in_sync_def comp_def)
qed

lemma seek_view: "b_get K db B = b_get K db' B' \<Longrightarrow> b_seek K db B k = b_seek K db' B' k"
  by (rule sorted_entries_eq [OF seek_sorted seek_sorted]) (simp add: seek_set)

lemma rebuild_run:
  assumes run: "rebuildIndexes K now s = Inr (x, s')" and ok: "rebuildable (contents K s)"
  obtains fobs where "contents K s' BObjects = cells_map (map CObject fobs)" "indexes_ok (contents K s')"
    "list_all2 requeue_of (sortObjectsByVersion (concat (map (cell_object \<circ> snd) (b_seek K (fst s) BObjects [])))) fobs"
    "\<And>B. B \<notin> insert BObjects (set indexBuckets) \<Longrightarrow> contents K s' B = contents K s B"
    "sorted_wrt (<) (map o_QueueSeq (filter (\<lambda>ob. o_State ob = StateReady) fobs))"
    "\<And>ob. ob \<in> set fobs \<Longrightarrow> o_QueueSeq ob \<le> seqs K s' BQueue" "seqs K s' BQueue < 2 ^ 64"
proof -
  let ?g = "contents K s"
  obtain s1 s2 s3 s4 where c: "tfor indexBuckets (tclear K) s = Inr ((), s1)"
    and p: "tfor (sortObjectsByVersion (concat (map (cell_object \<circ> snd) (b_seek K (fst s1) BObjects [])))) (rebuild_object K now) s1 = Inr ((), s2)"
    and u: "tfor (concat (map (cell_upload \<circ> snd) (b_seek K (fst s2) BUploads []))) (rebuild_upload K) s2 = Inr ((), s3)"
    and d: "tfor (map fst (filter (stale_claim K (fst s3)) (b_seek K (fst s3) BClaims []))) (tdel K BClaims) s3 = Inr ((), s4)"
    and t: "tfor (b_seek K (fst s4) BTombstones []) (\<lambda>(k, c). tput K BTombTimes (timeIDKey (tomb_time now c) k) (CRaw [])) s4 = Inr (x, s')"
    using run by (auto simp: rebuildIndexes_def tseq_Inr tbind_Inr tread_Inr)
  have rec: "records_ok ?g" using ok by (simp add: rebuildable_def)
  note c' = clear_pass [OF c]
  have prim: "contents K s1 B = ?g B" if "B \<notin> set indexBuckets" for B using that by (simp add: c')
  have rec1: "records_ok (contents K s1)"
    using rec by (simp add: records_ok_def recordBuckets_def prim indexBuckets_def)
  have seek1: "b_seek K (fst s1) BObjects [] = b_seek K (fst s) BObjects []"
    using prim [of BObjects] seek_view [of "fst s1" BObjects "fst s" BObjects] by (simp add: contents_def indexBuckets_def)
  let ?obs = "sortObjectsByVersion (concat (map (cell_object \<circ> snd) (b_seek K (fst s1) BObjects [])))"
  note obs = sorted_objects [OF rec1]
  have "contents K s1 BObjects (o_ID ob) = Some (CObject ob) \<and> raw_obj_ok ob" if "ob \<in> set ?obs" for ob
    using that ok prim [of BObjects] unfolding obs(2) rebuildable_def by (simp add: indexBuckets_def)
  from rebuild_pass [OF this obs(1) p] obtain fobs where
    "pass_eff ?obs fobs (contents K s1) (seqs K s1 BQueue) (contents K s2) (seqs K s2 BQueue)" by blast
  note p' = this [unfolded pass_eff_def] and u' = upload_pass [OF u]
  have all2: "list_all2 requeue_of ?obs fobs"
    and pix: "\<And>B. B \<in> object_indexes \<Longrightarrow> contents K s2 B = enter B (map CObject fobs) (contents K s1 B)"
    and pframe: "\<And>B. B \<notin> insert BObjects object_indexes \<Longrightarrow> contents K s2 B = contents K s1 B" using p' by blast+
  have uframe: "\<And>B. B \<notin> {BUploadPaths, BStale} \<Longrightarrow> contents K s3 B = contents K s2 B" using u' by blast
  have ids: "map cell_id (map CObject fobs) = map o_ID ?obs"
    using requeue_all_sel(1) [OF all2] by (simp add: comp_def)
  have objs: "contents K s2 BObjects = cells_map (map CObject fobs)"
    using p' requeued_bucket [OF all2 obs(1), of "contents K s1 BObjects"] obs(3) by simp
  have frame3: "contents K s3 B = contents K s1 B" if "B \<notin> insert BObjects (insert BUploadPaths (insert BStale object_indexes))" for B
    using that uframe [of B] pframe [of B] by simp
  have "requeued (contents K s1) (contents K s3)"
  proof (intro requeuedI [OF all2 obs(1,2) rec1])
    show "contents K s3 BObjects = cells_map (map CObject fobs)" using uframe [of BObjects] objs by simp
    show "contents K s3 B = contents K s1 B" if "B \<in> {BUploads, BClaims, BTombstones, BNamespace, BGC}" for B
      by (rule frame3) (use that in \<open>auto simp: object_indexes_def\<close>)
  qed
  then have rq: "requeued ?g (contents K s3)"
    by (simp add: requeued_def prim indexBuckets_def)
  have s4: "s4 = s3"
    using d fresh_claims [OF requeued_records [OF rq rec] requeued_claims [OF rq], of "fst s3"] ok
    by (simp add: rebuildable_def contents_def ret_Inr)
  have tombs: "\<exists>t. c = CTomb t \<and> t_ObjectID t = k" if "(k, c) \<in> set (b_seek K (fst s4) BTombstones [])" for k c
    using that records_kind(4) [OF requeued_records [OF rq rec], of k c] by (auto simp: s4 contents_def seek_iff)
  note t' = tomb_pass [OF t tombs]
  have same: "contents K s' B = contents K s3 B" if "B \<noteq> BTombTimes" for B using t' that s4 by simp
  show thesis
  proof
    show "contents K s' BObjects = cells_map (map CObject fobs)" using same [of BObjects] uframe [of BObjects] objs by simp
    have empty: "contents K s1 B = Map.empty" if "B \<in> set indexBuckets" for B using that by (simp add: c')
    have sobj: "in_sync B (contents K s')" if "B \<in> object_indexes" for B
    proof (rule entered_objects_sync)
      show "distinct (map o_ID fobs)" using obs(1) requeue_all_sel(1) [OF all2] by simp
      show "nul \<notin> set (o_ID ob)" if "ob \<in> set fobs" for ob
      proof -
        from requeue_all_sel(4) [OF all2 that] obtain o1 where "o1 \<in> set ?obs" "requeue_of o1 ob" by blast
        then show ?thesis using obs(2) [of o1] records_id(1) [OF rec1, of "o_ID o1" o1] requeue_of_sel(1) [of o1 ob] by simp
      qed
      show "primary_of B = BObjects" using that by (auto simp: object_indexes_def)
      show "contents K s' BObjects = cells_map (map CObject fobs)" using same [of BObjects] uframe [of BObjects] objs by simp
      show "contents K s' B = enter B (map CObject fobs) Map.empty"
        using that pix [OF that] uframe [of B] same [of B] empty [of B] by (auto simp: object_indexes_def indexBuckets_def)
    qed
    have rec3: "records_ok (contents K s3)" by (rule requeued_records [OF rq rec])
    have rec2: "records_ok (contents K s2)" using rec3 by (simp add: records_ok_def recordBuckets_def uframe)
    have sup: "in_sync B (contents K s')" if "B \<in> {BUploadPaths, BStale}" for B
    proof (rule entered_sync)
      show "keyed (b_get K (fst s2) (primary_of B))" using primary_keyed [OF rec2, of B] by (simp add: contents_def)
      show "contents K s' (primary_of B) = b_get K (fst s2) (primary_of B)"
        using that uframe [of "primary_of B"] same [of "primary_of B"] by (auto simp: contents_def)
      have "contents K s2 B = Map.empty" using that pframe [of B] empty [of B] by (auto simp: object_indexes_def indexBuckets_def)
      then show "contents K s' B = enter B (map snd (b_seek K (fst s2) (primary_of B) [])) Map.empty"
        using that same [of B] stored_cells(2) [OF rec2] conjunct1 [OF u'] conjunct1 [OF conjunct2 [OF u']] by auto
    qed
    have stomb: "in_sync BTombTimes (contents K s')"
    proof (rule entered_sync)
      show "keyed (b_get K (fst s4) (primary_of BTombTimes))"
        using primary_keyed [OF rec3, of BTombTimes] by (simp add: contents_def s4)
      show "contents K s' (primary_of BTombTimes) = b_get K (fst s4) (primary_of BTombTimes)"
        using same by (simp add: contents_def s4)
      have "contents K s4 BTombTimes = Map.empty"
        using s4 frame3 [of BTombTimes] empty [of BTombTimes] by (simp add: object_indexes_def indexBuckets_def)
      then show "contents K s' BTombTimes = enter BTombTimes (map snd (b_seek K (fst s4) (primary_of BTombTimes) [])) Map.empty"
        using t' by simp
    qed
    show "indexes_ok (contents K s')"
      unfolding indexes_ok_def using sobj sup stomb by (auto simp: indexBuckets_def object_indexes_def)
    show "list_all2 requeue_of (sortObjectsByVersion (concat (map (cell_object \<circ> snd) (b_seek K (fst s) BObjects [])))) fobs"
      using all2 unfolding seek1 .
    show "contents K s' B = ?g B" if "B \<notin> insert BObjects (set indexBuckets)" for B
      using that same [of B] frame3 [of B] prim [of B] by (simp add: indexBuckets_def object_indexes_def)
    show "sorted_wrt (<) (map o_QueueSeq (filter (\<lambda>ob. o_State ob = StateReady) fobs))" using p' by blast
    have seq: "seqs K s1 BQueue = 0" by (simp add: c' indexBuckets_def)
    have last: "seqs K s' BQueue = seqs K s2 BQueue" using t' u' s4 by simp
    then show "seqs K s' BQueue < 2 ^ 64" using p' seq by simp
    show "o_QueueSeq ob \<le> seqs K s' BQueue" if "ob \<in> set fobs" for ob
    proof (cases "o_State ob = StateReady")
      case True
      then show ?thesis using that p' last by simp
    next
      case False
      from requeue_all_sel(4) [OF all2 that] obtain o1 where "requeue_of o1 ob" by blast
      with False requeue_of_sel(4,9) [OF this] show ?thesis by simp
    qed
  qed
qed

text \<open>A rebuild restores the catalog invariant from the primary records alone.\<close>

lemma rebuild_catalog:
  assumes run: "rebuildIndexes K now s = Inr (x, s')" and ok: "rebuildable (contents K s)"
  shows "catalog_ok (contents K s') (seqs K s' BQueue) \<and> requeued (contents K s) (contents K s') \<and>
    version_order (contents K s')"
proof -
  obtain fobs where
    objs: "contents K s' BObjects = cells_map (map CObject fobs)" and ix: "indexes_ok (contents K s')"
    and all2: "list_all2 requeue_of (sortObjectsByVersion (concat (map (cell_object \<circ> snd) (b_seek K (fst s) BObjects [])))) fobs"
    and frame: "\<And>B. B \<notin> insert BObjects (set indexBuckets) \<Longrightarrow> contents K s' B = contents K s B"
    and sorted: "sorted_wrt (<) (map o_QueueSeq (filter (\<lambda>ob. o_State ob = StateReady) fobs))"
    and le: "\<And>ob. ob \<in> set fobs \<Longrightarrow> o_QueueSeq ob \<le> seqs K s' BQueue" and n: "seqs K s' BQueue < 2 ^ 64"
    using rebuild_run [OF run ok] by blast
  have g: "records_ok (contents K s)" "claims_ok (contents K s)" "names_ok (contents K s)" "graves_ok (contents K s)"
    "\<And>oid ob. contents K s BObjects oid = Some (CObject ob) \<Longrightarrow> raw_obj_ok ob"
    using ok unfolding rebuildable_def by blast+
  note obs = sorted_objects [OF g(1)]
  have rq: "requeued (contents K s) (contents K s')"
    by (intro requeuedI [OF all2 obs(1,2) g(1)] objs frame) (auto simp: indexBuckets_def)
  have ids: "distinct (map o_ID fobs)" using obs(1) requeue_all_sel(1) [OF all2] by simp
  have ready: "o_QueueSeq ob \<noteq> 0 \<longleftrightarrow> o_State ob = StateReady" if "ob \<in> set fobs" for ob
    using requeue_all_sel(4) [OF all2 that] requeue_of_sel(4,9) by fastforce
  have "objects_ok (contents K s')"
    unfolding objects_ok_def using requeuedD(1) [OF rq] g(5) requeue_of_ok by blast
  moreover have "queue_seq_ok (contents K s') (seqs K s' BQueue)"
    by (rule queue_positions [where g="contents K s'", OF sorted ids objs le n ready])
  ultimately have "catalog_ok (contents K s') (seqs K s' BQueue)"
    unfolding catalog_ok_def
    by (intro conjI ix requeued_records [OF rq g(1)] requeued_claims [OF rq g(2)] requeued_names [OF rq g(3)]
        requeued_graves [OF rq g(4)])
  moreover have "version_order (contents K s')"
    by (rule requeue_version_order [where g="contents K s'", OF all2 ids sorted objs])
  ultimately show ?thesis using rq by blast
qed

end

section \<open>The operations\<close>

lemma db_Update_Inr:
  assumes "db_Update K fn st = (Inr x, st')"
  obtains db d where "fn (v_db st, delta0) = Inr (x, (db, d))" "st' = st\<lparr>v_db := db\<rparr>"
  using assms by (auto simp: db_Update_def split: sum.splits option.splits)

lemma db_Update_Inl: "db_Update K fn st = (Inl e, st') \<Longrightarrow> st' = st"
  by (auto simp: db_Update_def split: sum.splits option.splits)

context bolt_laws
begin

lemma RebuildIndexes_sound:
  assumes ok: "rebuildable (b_get K (v_db st))" and run: "RebuildIndexes K now st = (Inr (), st')"
  shows "store_ok K st' \<and> requeued (b_get K (v_db st)) (b_get K (v_db st')) \<and> version_order (b_get K (v_db st'))"
proof -
  from run obtain st1 where st1: "db_Update K (rebuildIndexes K now) st = (Inr (), st1)" "st' = recount K st1"
    by (auto simp: RebuildIndexes_def split: prod.splits sum.splits)
  from st1(1) obtain db d where tx: "rebuildIndexes K now (v_db st, delta0) = Inr ((), (db, d))" "st1 = st\<lparr>v_db := db\<rparr>"
    by (rule db_Update_Inr)
  from rebuild_catalog [OF tx(1)] ok
  have c: "catalog_ok (b_get K db) (b_seq K db BQueue)" "requeued (b_get K (v_db st)) (b_get K db)" "version_order (b_get K db)"
    by simp_all
  have v: "v_db st' = db" by (simp add: st1(2) recount_def Let_def tx(2))
  have "counts_ok (b_get K db) (v_count st')"
    using recount_ok [of st1] catalog_okD(3) [OF c(1)] by (simp add: st1(2) tx(2))
  with c v show ?thesis by (simp add: store_ok_def)
qed

lemma migrate_sound:
  assumes ok: "rebuildable (b_get K (v_db st))" and old: "schemaVersion K (v_db st) < SchemaVersion"
    and run: "migrate K now st = (Inr (), st')"
  shows "catalog_ok (b_get K (v_db st')) (b_seq K (v_db st') BQueue) \<and> version_order (b_get K (v_db st')) \<and>
    schemaVersion K (v_db st') = SchemaVersion"
proof -
  from run obtain db d where tx: "tbind (tread (schemaVersion K)) (\<lambda>version.
          if version = SchemaVersion then ret ()
          else if SchemaVersion < version then throw (ErrOther ''catalog schema is newer than this server supports'')
          else tseq (rebuildIndexes K now) (tput K BMeta ''schema'' (CRaw ''2''))) (v_db st, delta0) = Inr ((), (db, d))"
    and st': "st' = st\<lparr>v_db := db\<rparr>"
    unfolding migrate_def by (rule db_Update_Inr)
  from tx old obtain s1 where s1: "rebuildIndexes K now (v_db st, delta0) = Inr ((), s1)"
    and put: "tput K BMeta ''schema'' (CRaw ''2'') s1 = Inr ((), (db, d))"
    by (auto simp: tbind_Inr tread_Inr tseq_Inr split: if_splits)
  from rebuild_catalog [OF s1] ok have c: "catalog_ok (contents K s1) (seqs K s1 BQueue)" "version_order (contents K s1)" by simp_all
  note p = tput_eff [OF put]
  have g: "b_get K db = upd (contents K s1) BMeta ''schema'' (Some (CRaw ''2''))" "b_seq K db = seqs K s1" using p by simp_all
  have "catalog_ok (b_get K db) (b_seq K db BQueue)" unfolding g
  proof (rule catalog_frame [OF c(1)])
    show "names_ok (upd (contents K s1) BMeta ''schema'' (Some (CRaw ''2'')))"
      using catalog_okD(5) [OF c(1)] by (simp add: names_ok_def)
  qed simp
  moreover have "version_order (b_get K db)" using c(2) by (simp add: version_order_def g)
  moreover have "schemaVersion K db = SchemaVersion" by (simp add: schemaVersion_def SchemaVersion_def g) code_simp
  ultimately show ?thesis by (simp add: st')
qed

end

end
