(* ===== verification/Rebuild_Theorems.thy ===== *)
theory Rebuild_Theorems
  imports Rebuild_Correct Demo
begin

text \<open>
  The properties of the index rebuild and of the schema migration of \<^verbatim>\<open>schema.go\<close>, with a rebuild of
  a catalog whose indexes were lost.
\<close>

section \<open>Properties\<close>

text \<open>C14: \<open>RebuildIndexes\<close> repairs a catalog from its primary records alone. Whatever the eight index
  buckets and the counters hold, as long as the other buckets are those of a sound store, a rebuild
  that returns without error leaves a sound store: every index is in step, the counters equal a
  recount, every object is still there with only its queue position changed, and the queue is in
  version order.\<close>

theorem RebuildIndexes_restores:
  assumes "bolt_laws K" "store_ok K st0"
    and "\<And>B. B \<notin> set indexBuckets \<Longrightarrow> b_get K (v_db st) B = b_get K (v_db st0) B"
    and "RebuildIndexes K now st = (Inr (), st')"
  shows "store_ok K st' \<and> version_order (b_get K (v_db st')) \<and>
    (\<forall>oid. b_get K (v_db st') BObjects oid = None \<longleftrightarrow> b_get K (v_db st) BObjects oid = None) \<and>
    (\<forall>oid ob. b_get K (v_db st) BObjects oid = Some (CObject ob) \<longrightarrow>
       (\<exists>q k. b_get K (v_db st') BObjects oid = Some (CObject (ob\<lparr>o_QueueSeq := q, o_QueueKey := k\<rparr>))))"
proof -
  have cat: "catalog_ok (b_get K (v_db st0)) (b_seq K (v_db st0) BQueue)" using assms(2) by (simp add: store_ok_def)
  have rb: "rebuildable (b_get K (v_db st))" by (rule catalog_rebuildable [OF cat assms(3)])
  note r = bolt_laws.RebuildIndexes_sound [OF assms(1) rb assms(4)]
  have kind: "b_get K (v_db st) BObjects oid = Some c \<Longrightarrow> \<exists>ob. c = CObject ob" for oid c
    using rb records_kind(1) unfolding rebuildable_def by blast
  show ?thesis
  proof (intro conjI allI impI)
    show "store_ok K st'" "version_order (b_get K (v_db st'))" using r by blast+
    fix oid
    show "b_get K (v_db st') BObjects oid = None \<longleftrightarrow> b_get K (v_db st) BObjects oid = None"
      using r kind unfolding requeued_def by (metis not_None_eq)
    fix ob assume "b_get K (v_db st) BObjects oid = Some (CObject ob)"
    then show "\<exists>q k. b_get K (v_db st') BObjects oid = Some (CObject (ob\<lparr>o_QueueSeq := q, o_QueueKey := k\<rparr>))"
      using requeuedD(2) [of "b_get K (v_db st)" "b_get K (v_db st')" oid ob] r unfolding requeue_of_def by blast
  qed
qed

text \<open>The demo store after all its indexes were dropped and its counters zeroed.\<close>

definition lost_store :: "mem store" where
  "lost_store = demo_store\<lparr>v_db := ((\<lambda>B. if B \<in> set indexBuckets then [] else demo_cells B), \<lambda>_. 0),
     v_count := \<lparr>k_stats = \<lparr>s_objects = 0, s_DeletePending = 0, s_Uploads = 0, s_Claims = 0\<rparr>, k_tenants = []\<rparr>\<rparr>"

theorem RebuildIndexes_restores_witness:
  "\<exists>st'. RebuildIndexes mem_bolt 50 lost_store = (Inr (), st') \<and> store_ok mem_bolt st' \<and>
     b_get mem_bolt (v_db st') BQueue (queueKey ''t'' 1 ''o1'') = Some (CRaw (queueValue 10 ''a/b''))"
proof -
  let ?st = "snd (RebuildIndexes mem_bolt 50 lost_store)"
  have eval: "case RebuildIndexes mem_bolt 50 lost_store of (r, st') \<Rightarrow>
      r = Inr () \<and> b_get mem_bolt (v_db st') BQueue (queueKey ''t'' 1 ''o1'') = Some (CRaw (queueValue 10 ''a/b''))"
    by code_simp
  then have run: "RebuildIndexes mem_bolt 50 lost_store = (Inr (), ?st)" by (simp add: case_prod_beta prod_eq_iff)
  have "b_get mem_bolt (v_db lost_store) B = b_get mem_bolt (v_db demo_store) B" if "B \<notin> set indexBuckets" for B
    using that by (simp add: lost_store_def demo_store_def mem_bolt_def)
  from RebuildIndexes_restores [OF mem.bolt_laws_axioms demo_ok this run]
  have "store_ok mem_bolt ?st" by blast
  with run eval show ?thesis by (auto simp: case_prod_beta)
qed



end
