(* ===== verification/Action.thy ===== *)
theory Action
  imports Model
begin

text \<open>
  Operations that change a state and may fail: unlike a transaction (theory \<open>Bolt\<close>), a failed
  operation keeps what it did before the failure. \<open>abind\<close> is Go's sequencing with an early return on
  error, \<open>acatch\<close> the return of another function's error, \<open>aignore\<close> an assignment to the blank
  identifier.
\<close>

type_synonym ('s, 'a) act = "'s \<Rightarrow> (error + 'a) \<times> 's"

definition areturn :: "'a \<Rightarrow> ('s, 'a) act" where
  "areturn x s = (Inr x, s)"

definition afail :: "error \<Rightarrow> ('s, 'a) act" where
  "afail e s = (Inl e, s)"

definition alift :: "error + 'a \<Rightarrow> ('s, 'a) act" where
  "alift r s = (r, s)"

definition acheck :: "error option \<Rightarrow> ('s, unit) act" where
  "acheck eo s = (case eo of None \<Rightarrow> (Inr (), s) | Some e \<Rightarrow> (Inl e, s))"

definition aget :: "('s \<Rightarrow> 'a) \<Rightarrow> ('s, 'a) act" where
  "aget f s = (Inr (f s), s)"

definition amod :: "('s \<Rightarrow> 's) \<Rightarrow> ('s, unit) act" where
  "amod f s = (Inr (), f s)"

definition abind :: "('s, 'a) act \<Rightarrow> ('a \<Rightarrow> ('s, 'b) act) \<Rightarrow> ('s, 'b) act" where
  "abind m f s = (case m s of (Inl e, s') \<Rightarrow> (Inl e, s') | (Inr x, s') \<Rightarrow> f x s')"

definition aseq :: "('s, 'a) act \<Rightarrow> ('s, 'b) act \<Rightarrow> ('s, 'b) act" where
  "aseq m n = abind m (\<lambda>_. n)"

definition acatch :: "('s, 'a) act \<Rightarrow> (error \<Rightarrow> ('s, 'a) act) \<Rightarrow> ('s, 'a) act" where
  "acatch m f s = (case m s of (Inl e, s') \<Rightarrow> f e s' | (Inr x, s') \<Rightarrow> (Inr x, s'))"

definition aignore :: "('s, 'a) act \<Rightarrow> ('s, unit) act" where
  "aignore m s = (Inr (), snd (m s))"

fun afor :: "'x list \<Rightarrow> ('x \<Rightarrow> ('s, unit) act) \<Rightarrow> ('s, unit) act" where
  "afor [] f = areturn ()"
| "afor (x # xs) f = aseq (f x) (afor xs f)"

section \<open>What an action keeps\<close>

text \<open>\<open>akeeps P m\<close>: \<open>m\<close> keeps \<open>P\<close>, whether it succeeds or fails.\<close>

definition akeeps :: "('s \<Rightarrow> bool) \<Rightarrow> ('s, 'a) act \<Rightarrow> bool" where
  "akeeps P m \<longleftrightarrow> (\<forall>s. P s \<longrightarrow> P (snd (m s)))"

lemma akeepsD: "akeeps P m \<Longrightarrow> P s \<Longrightarrow> P (snd (m s))"
  by (simp add: akeeps_def)

lemma akeepsI: "(\<And>s. P s \<Longrightarrow> P (snd (m s))) \<Longrightarrow> akeeps P m"
  by (simp add: akeeps_def)

lemma akeeps_base [simp]:
  "akeeps P (areturn x)" "akeeps P (afail e)" "akeeps P (alift r)" "akeeps P (acheck eo)" "akeeps P (aget f)"
  by (auto simp: akeeps_def areturn_def afail_def alift_def acheck_def aget_def split: option.splits)

lemma akeeps_bind: "akeeps P m \<Longrightarrow> (\<And>x. akeeps P (f x)) \<Longrightarrow> akeeps P (abind m f)"
  unfolding akeeps_def abind_def by (auto split: prod.splits sum.splits)

lemma akeeps_seq: "akeeps P m \<Longrightarrow> akeeps P n \<Longrightarrow> akeeps P (aseq m n)"
  unfolding aseq_def by (rule akeeps_bind)

lemma akeeps_catch: "akeeps P m \<Longrightarrow> (\<And>e. akeeps P (f e)) \<Longrightarrow> akeeps P (acatch m f)"
  unfolding akeeps_def acatch_def by (auto split: prod.splits sum.splits)

lemma akeeps_ignore: "akeeps P m \<Longrightarrow> akeeps P (aignore m)"
  by (simp add: akeeps_def aignore_def)

lemma akeeps_for: "(\<And>x. x \<in> set xs \<Longrightarrow> akeeps P (f x)) \<Longrightarrow> akeeps P (afor xs f)"
  by (induction xs) (auto intro: akeeps_seq)

section \<open>Stepping through an action\<close>

named_theorems act_simps

lemma act_run [act_simps]:
  "areturn x s = (r, s') \<longleftrightarrow> r = Inr x \<and> s' = s"
  "afail e s = (q, s') \<longleftrightarrow> q = Inl e \<and> s' = s"
  "alift r s = (r', s') \<longleftrightarrow> r' = r \<and> s' = s"
  "aget f s = (t, s') \<longleftrightarrow> t = Inr (f s) \<and> s' = s"
  "amod g s = (v, s') \<longleftrightarrow> v = Inr () \<and> s' = g s"
  by (auto simp: areturn_def afail_def alift_def aget_def amod_def)

lemma abind_Inr: "abind m f s = (Inr y, s'') \<longleftrightarrow> (\<exists>x s'. m s = (Inr x, s') \<and> f x s' = (Inr y, s''))"
  by (auto simp: abind_def split: prod.splits sum.splits)

lemma aseq_Inr: "aseq m n s = (Inr y, s'') \<longleftrightarrow> (\<exists>x s'. m s = (Inr x, s') \<and> n s' = (Inr y, s''))"
  by (simp add: aseq_def abind_Inr)

lemma acatch_Inr:
  "acatch m f s = (Inr y, s'') \<longleftrightarrow> m s = (Inr y, s'') \<or> (\<exists>e s'. m s = (Inl e, s') \<and> f e s' = (Inr y, s''))"
  by (auto simp: acatch_def split: prod.splits sum.splits)

lemma acheck_Inr: "acheck eo s = (Inr y, s') \<longleftrightarrow> eo = None \<and> s' = s"
  by (auto simp: acheck_def split: option.splits)

lemmas act_Inr = abind_Inr aseq_Inr acatch_Inr acheck_Inr act_simps

section \<open>Weakest preconditions\<close>

text \<open>\<open>awp m Q s\<close>: run from \<open>s\<close>, \<open>m\<close> ends with a result and a state that satisfy \<open>Q\<close>.\<close>

definition awp :: "('s, 'a) act \<Rightarrow> (error + 'a \<Rightarrow> 's \<Rightarrow> bool) \<Rightarrow> 's \<Rightarrow> bool" where
  "awp m Q s = (case m s of (r, s') \<Rightarrow> Q r s')"

lemma awp_mono: "awp m Q s \<Longrightarrow> (\<And>r s'. Q r s' \<Longrightarrow> Q' r s') \<Longrightarrow> awp m Q' s"
  by (auto simp: awp_def)

lemma awpD: "awp m Q s \<Longrightarrow> m s = (r, s') \<Longrightarrow> Q r s'"
  by (simp add: awp_def)

lemma awp_base [simp]:
  "awp (areturn x) Q s = Q (Inr x) s" "awp (afail e) Q s = Q (Inl e) s" "awp (alift r) Q s = Q r s"
  "awp (aget f) P s = P (Inr (f s)) s" "awp (amod g) R s = R (Inr ()) (g s)"
  by (simp_all add: awp_def areturn_def afail_def alift_def aget_def amod_def)

lemma awp_check [simp]:
  "awp (acheck eo) Q s = (case eo of None \<Rightarrow> Q (Inr ()) s | Some e \<Rightarrow> Q (Inl e) s)"
  by (simp add: awp_def acheck_def split: option.splits)

lemma awp_bind [simp]:
  "awp (abind m f) Q s = awp m (\<lambda>r s'. case r of Inl e \<Rightarrow> Q (Inl e) s' | Inr x \<Rightarrow> awp (f x) Q s') s"
  by (simp add: awp_def abind_def split: prod.splits sum.splits)

lemma awp_seq [simp]:
  "awp (aseq m n) Q s = awp m (\<lambda>r s'. case r of Inl e \<Rightarrow> Q (Inl e) s' | Inr x \<Rightarrow> awp n Q s') s"
  by (simp add: aseq_def)

lemma awp_catch [simp]:
  "awp (acatch m f) Q s = awp m (\<lambda>r s'. case r of Inl e \<Rightarrow> awp (f e) Q s' | Inr x \<Rightarrow> Q (Inr x) s') s"
  by (simp add: awp_def acatch_def split: prod.splits sum.splits)

lemma awp_ignore [simp]: "awp (aignore m) Q s = awp m (\<lambda>r s'. Q (Inr ()) s') s"
  by (simp add: awp_def aignore_def split: prod.splits)

end
