(* ===== verification/Sha256.thy ===== *)
theory Sha256
  imports Prelude "HOL-Library.Word"
begin

unbundle bit_operations_syntax

text \<open>
  The hash function of Go's \<^verbatim>\<open>crypto/sha256\<close> (FIPS 180-4), used for the digests of uploaded content,
  on strings of bytes. Words are 32 bits wide and wrap.
\<close>

definition rotr :: "nat \<Rightarrow> 32 word \<Rightarrow> 32 word" where
  "rotr n x = drop_bit n x OR push_bit (32 - n) x"

text \<open>The constants are the first 32 fractional bits of the cube roots of the first 64 primes and of the
  square roots of the first 8, found by bisection on the bits.\<close>

definition small_primes :: "nat list" where
  "small_primes = filter (\<lambda>n. list_all (\<lambda>d. n mod d \<noteq> 0) [2..<n]) [2..<312]"

definition int_root :: "nat \<Rightarrow> nat \<Rightarrow> nat" where
  "int_root k n = foldr (\<lambda>b r. if (r + 2 ^ b) ^ k \<le> n then r + 2 ^ b else r) [0..<40] 0"

definition root_fraction :: "nat \<Rightarrow> nat \<Rightarrow> 32 word" where
  "root_fraction k p = of_nat (int_root k (p * 2 ^ (32 * k)))"

definition sha_K :: "32 word list" where
  "sha_K = map (root_fraction 3) small_primes"

definition sha_init :: "32 word list" where
  "sha_init = map (root_fraction 2) (take 8 small_primes)"

text \<open>Padding: a one bit, zeros up to 56 modulo 64, the length in bits in eight bytes.\<close>

definition be_bytes :: "nat \<Rightarrow> nat \<Rightarrow> nat list" where
  "be_bytes w n = map (\<lambda>i. n div 256 ^ (w - 1 - i) mod 256) [0..<w]"

definition sha_pad :: "nat list \<Rightarrow> nat list" where
  "sha_pad m = m @ [128] @ replicate ((119 - length m mod 64) mod 64) 0 @ be_bytes 8 (8 * length m)"

fun be_words :: "nat list \<Rightarrow> 32 word list" where
  "be_words (a # b # c # d # bs) = of_nat (((a * 256 + b) * 256 + c) * 256 + d) # be_words bs"
| "be_words _ = []"

text \<open>The message schedule, kept with its newest word first.\<close>

definition sha_next :: "32 word list \<Rightarrow> 32 word" where
  "sha_next ws =
     (let w15 = ws ! 14; w2 = ws ! 1;
          s0 = rotr 7 w15 XOR rotr 18 w15 XOR drop_bit 3 w15;
          s1 = rotr 17 w2 XOR rotr 19 w2 XOR drop_bit 10 w2
      in ws ! 15 + s0 + ws ! 6 + s1)"

definition sha_schedule :: "32 word list \<Rightarrow> 32 word list" where
  "sha_schedule block = rev (((\<lambda>ws. sha_next ws # ws) ^^ 48) (rev block))"

fun sha_round :: "32 word \<times> 32 word \<Rightarrow> 32 word list \<Rightarrow> 32 word list" where
  "sha_round (k, w) [a, b, c, d, e, f, g, h] =
     (let s1 = rotr 6 e XOR rotr 11 e XOR rotr 25 e;
          ch = (e AND f) XOR (NOT e AND g);
          t1 = h + s1 + ch + k + w;
          s0 = rotr 2 a XOR rotr 13 a XOR rotr 22 a;
          maj = (a AND b) XOR (a AND c) XOR (b AND c)
      in [t1 + (s0 + maj), a, b, c, d + t1, e, f, g])"
| "sha_round _ st = st"

definition sha_block :: "32 word list \<Rightarrow> 32 word list \<Rightarrow> 32 word list" where
  "sha_block block st = map2 (+) st (fold sha_round (zip sha_K (sha_schedule block)) st)"

fun sha_blocks :: "nat \<Rightarrow> 32 word list \<Rightarrow> 32 word list \<Rightarrow> 32 word list" where
  "sha_blocks 0 ws st = st"
| "sha_blocks (Suc n) ws st = sha_blocks n (drop 16 ws) (sha_block (take 16 ws) st)"

definition sha256 :: "string \<Rightarrow> string" where
  "sha256 m =
     (let ws = be_words (sha_pad (map of_char m))
      in map char_of (concat (map (be_bytes 4 \<circ> unat) (sha_blocks (length ws div 16) ws sha_init))))"

text \<open>A digest has 32 bytes.\<close>

lemma length_sha_round [simp]: "length (sha_round kw st) = length st"
  by (cases "(kw, st)" rule: sha_round.cases) (simp_all add: Let_def)

lemma length_sha_fold [simp]: "length (fold sha_round kws st) = length st"
  by (induction kws arbitrary: st) auto

lemma length_sha_blocks [simp]: "length (sha_blocks n ws st) = length st"
  by (induction n arbitrary: ws st) (simp_all add: sha_block_def)

lemma length_sha_init: "length sha_init = 8"
proof -
  define P where "P = (\<lambda>n :: nat. list_all (\<lambda>d. n mod d \<noteq> 0) [2..<n])"
  define ps where "ps = [2, 3, 5, 7, 11, 13, 17, 19 :: nat]"
  have "list_all (\<lambda>n. list_all (\<lambda>d. n mod d \<noteq> 0) [2..<n]) [2, 3, 5, 7, 11, 13, 17, 19 :: nat]"
    by code_simp
  then have "\<forall>n\<in>set ps. P n"
    unfolding P_def ps_def list_all_iff [of _ "2 # _"] .
  moreover have "\<forall>n\<in>set ps. n \<in> {2..<312}"
    by (simp add: ps_def)
  moreover have "set small_primes = {n \<in> {2..<312}. P n}"
    unfolding small_primes_def P_def set_filter set_upt ..
  ultimately have "set ps \<subseteq> set small_primes"
    by blast
  then have "card (set ps) \<le> length small_primes"
    by (meson List.finite_set card_length card_mono le_trans)
  then have "8 \<le> length small_primes"
    by (simp add: ps_def)
  then show ?thesis
    unfolding sha_init_def by simp
qed

lemma length_sha256 [simp]: "length (sha256 m) = 32"
proof -
  have "map (length \<circ> (be_bytes 4 \<circ> unat)) ws = replicate (length ws) 4" for ws :: "32 word list"
    by (rule nth_equalityI) (simp_all add: be_bytes_def)
  then show ?thesis
    by (simp add: sha256_def Let_def length_concat length_sha_init sum_list_replicate)
qed

end
