(* ===== verification/Stream_Hash.thy ===== *)
theory Stream_Hash
  imports Sha256 "HOL-Library.AList"
begin

text \<open>
  \<open>streamHasher\<close> of \<^verbatim>\<open>internal/store/upload.go\<close>, which hashes an upload while it streams in. The hash
  state is the sequence of bytes fed to it. The theorem of this theory says that a digest it hands
  out is the digest of the file: whatever writes and truncations were made, in whatever order, if
  \<open>result\<close> answers for the size of the file then exactly the file's bytes were hashed.
\<close>

section \<open>File contents\<close>

definition file_write :: "string \<Rightarrow> nat \<Rightarrow> string \<Rightarrow> string" where
  "file_write p off F = take off (F @ replicate (off - length F) nul) @ p @ drop (off + length p) F"

definition file_trunc :: "nat \<Rightarrow> string \<Rightarrow> string" where
  "file_trunc sz F = take sz F @ replicate (sz - length F) nul"

lemma length_file_write [simp]: "length (file_write p off F) = max (length F) (off + length p)"
  by (simp add: file_write_def)

lemma length_file_trunc [simp]: "length (file_trunc sz F) = sz"
  by (simp add: file_trunc_def)

lemma take_file_write: "n \<le> off \<Longrightarrow> n \<le> length F \<Longrightarrow> take n (file_write p off F) = take n F"
  by (simp add: file_write_def)

lemma take_file_write_end: "off \<le> length F \<Longrightarrow> take (off + length p) (file_write p off F) = take off F @ p"
  by (simp add: file_write_def)

lemma file_write_nth:
  "file_write p off F ! i =
     (if off \<le> i \<and> i < off + length p then p ! (i - off) else if i < length F then F ! i else nul)"
  if "i < max (length F) (off + length p)"
  using that by (auto simp: file_write_def nth_append min_def)

section \<open>The hasher\<close>

record streamHasher =
  sh_fed :: string
  sh_next :: int
  sh_pending :: "(int \<times> string) list"
  sh_held :: int
  sh_valid :: bool

definition maxReorderBytes :: int where
  "maxReorderBytes = 32 * 1048576"

definition newStreamHasher :: streamHasher where
  "newStreamHasher = \<lparr>sh_fed = [], sh_next = 0, sh_pending = [], sh_held = 0, sh_valid = True\<rparr>"

definition sh_invalidate :: "streamHasher \<Rightarrow> streamHasher" where
  "sh_invalidate s = s\<lparr>sh_valid := False, sh_pending := [], sh_held := 0\<rparr>"

definition sh_feed :: "string \<Rightarrow> streamHasher \<Rightarrow> streamHasher" where
  "sh_feed q s = s\<lparr>sh_fed := sh_fed s @ q, sh_next := sh_next s + int (length q)\<rparr>"

lemma delete_shorter: "map_of ps k = Some q \<Longrightarrow> length (AList.delete k ps) < length ps"
  by (induction ps) (auto simp: AList.delete_eq le_imp_less_Suc)

text \<open>The loop that takes chunks out of the reorder buffer ends because the buffer shrinks.\<close>

function sh_drain :: "streamHasher \<Rightarrow> streamHasher" where
  "sh_drain s =
     (case map_of (sh_pending s) (sh_next s) of
        None \<Rightarrow> s
      | Some q \<Rightarrow>
          sh_drain (sh_feed q (s\<lparr>sh_pending := AList.delete (sh_next s) (sh_pending s),
                                 sh_held := sh_held s - int (length q)\<rparr>)))"
  by pat_completeness auto
termination
  by (relation "measure (\<lambda>s. length (sh_pending s))") (auto simp: sh_feed_def dest: delete_shorter)

declare sh_drain.simps [simp del]

definition sh_write :: "string \<Rightarrow> int \<Rightarrow> streamHasher \<Rightarrow> streamHasher" where
  "sh_write p off s =
     (if \<not> sh_valid s then s
      else if off = sh_next s then sh_drain (sh_feed p s)
      else if sh_next s < off \<and> sh_held s + int (length p) \<le> maxReorderBytes then
        (if map_of (sh_pending s) off \<noteq> None then sh_invalidate s
         else s\<lparr>sh_pending := (off, p) # sh_pending s, sh_held := sh_held s + int (length p)\<rparr>)
      else sh_invalidate s)"

definition sh_truncate :: "int \<Rightarrow> streamHasher \<Rightarrow> streamHasher" where
  "sh_truncate sz s =
     (if \<not> sh_valid s \<or> sz \<noteq> sh_next s \<or> 0 < length (sh_pending s) then sh_invalidate s else s)"

record precomputed =
  pc_digest :: string
  pc_size :: int

definition sh_result :: "int \<Rightarrow> streamHasher \<Rightarrow> precomputed option" where
  "sh_result sz s =
     (if \<not> sh_valid s \<or> 0 < length (sh_pending s) \<or> sh_next s \<noteq> sz then None
      else Some \<lparr>pc_digest = hex_encode (sha256 (sh_fed s)), pc_size = sz\<rparr>)"

section \<open>Correctness\<close>

text \<open>A chunk that lies before \<open>next\<close> can never be taken out again, so no digest will be given.\<close>

definition sh_stuck :: "streamHasher \<Rightarrow> bool" where
  "sh_stuck s \<longleftrightarrow> (\<exists>k\<in>fst ` set (sh_pending s). k < sh_next s)"

text \<open>Every byte of a buffered chunk is in the file, unless another buffered chunk covers its place.\<close>

definition chunk_ok :: "string \<Rightarrow> (int \<times> string) list \<Rightarrow> int \<Rightarrow> string \<Rightarrow> bool" where
  "chunk_ok F ps k q \<longleftrightarrow>
     k + int (length q) \<le> int (length F) \<and>
     (\<forall>i<length q. F ! nat (k + int i) = q ! i \<or>
        (\<exists>(k', q')\<in>set ps. k' \<noteq> k \<and> k' \<le> k + int i \<and> k + int i < k' + int (length q')))"

definition sh_sync :: "string \<Rightarrow> streamHasher \<Rightarrow> bool" where
  "sh_sync F s \<longleftrightarrow>
     0 \<le> sh_next s \<and> sh_next s \<le> int (length F) \<and> sh_fed s = take (nat (sh_next s)) F \<and>
     (\<forall>(k, q)\<in>set (sh_pending s). sh_next s \<le> k \<and> q \<noteq> [] \<and> chunk_ok F (sh_pending s) k q)"

definition sh_inv :: "string \<Rightarrow> streamHasher \<Rightarrow> bool" where
  "sh_inv F s \<longleftrightarrow> sh_valid s \<longrightarrow> distinct (map fst (sh_pending s)) \<and> (sh_stuck s \<or> sh_sync F s)"

lemma sh_invalidate_inv [simp]: "sh_inv F (sh_invalidate s)"
  by (simp add: sh_inv_def sh_invalidate_def)

lemma stuck_drain:
  "sh_stuck s \<Longrightarrow> distinct (map fst (sh_pending s)) \<Longrightarrow>
   sh_stuck (sh_drain s) \<and> distinct (map fst (sh_pending (sh_drain s)))"
proof (induction s rule: sh_drain.induct)
  case (1 s)
  show ?case
  proof (cases "map_of (sh_pending s) (sh_next s)")
    case None
    then show ?thesis using 1 by (simp add: sh_drain.simps [of s])
  next
    case (Some q)
    let ?s = "sh_feed q (s\<lparr>sh_pending := AList.delete (sh_next s) (sh_pending s), sh_held := sh_held s - int (length q)\<rparr>)"
    have "sh_stuck ?s" using 1(2) by (force simp: sh_stuck_def sh_feed_def AList.delete_eq)
    moreover have "distinct (map fst (sh_pending ?s))" using 1(3) by (simp add: sh_feed_def AList.distinct_delete)
    ultimately show ?thesis using 1(1) [OF Some] Some by (simp add: sh_drain.simps [of s])
  qed
qed

lemma drain_inv:
  "sh_sync F s \<Longrightarrow> distinct (map fst (sh_pending s)) \<Longrightarrow>
   (sh_stuck (sh_drain s) \<or> sh_sync F (sh_drain s)) \<and> distinct (map fst (sh_pending (sh_drain s)))"
proof (induction s rule: sh_drain.induct)
  case (1 s)
  show ?case
  proof (cases "map_of (sh_pending s) (sh_next s)")
    case None
    then show ?thesis using 1 by (simp add: sh_drain.simps [of s])
  next
    case (Some q)
    let ?n = "sh_next s" and ?ps = "AList.delete (sh_next s) (sh_pending s)"
    let ?s = "sh_feed q (s\<lparr>sh_pending := ?ps, sh_held := sh_held s - int (length q)\<rparr>)"
    have d: "distinct (map fst (sh_pending ?s))" using 1(3) by (simp add: sh_feed_def AList.distinct_delete)
    have mem: "(?n, q) \<in> set (sh_pending s)" using Some by (rule map_of_SomeD)
    have sy: "0 \<le> ?n" "sh_fed s = take (nat ?n) F" "\<And>k r. (k, r) \<in> set (sh_pending s) \<Longrightarrow> ?n \<le> k \<and> r \<noteq> [] \<and> chunk_ok F (sh_pending s) k r"
      using 1(2) by (auto simp: sh_sync_def)
    have q: "chunk_ok F (sh_pending s) ?n q" using sy(3) [OF mem] by simp
    show ?thesis
    proof (cases "sh_stuck ?s")
      case True
      from stuck_drain [OF this d] Some show ?thesis by (simp add: sh_drain.simps [of s])
    next
      case False
      have later: "?n + int (length q) \<le> k" if "(k, r) \<in> set ?ps" for k r
        using False that by (force simp: sh_stuck_def sh_feed_def)
      have ps: "(k, r) \<in> set ?ps \<longleftrightarrow> (k, r) \<in> set (sh_pending s) \<and> k \<noteq> ?n" for k r
        by (auto simp: AList.delete_eq)
      have "F ! nat (?n + int i) = q ! i" if i: "i < length q" for i
      proof (rule ccontr)
        assume "F ! nat (?n + int i) \<noteq> q ! i"
        then obtain k' q' where "(k', q') \<in> set (sh_pending s)" "k' \<noteq> ?n" "k' \<le> ?n + int i"
          using q i unfolding chunk_ok_def by blast
        with later [of k' q'] ps i show False by auto
      qed
      then have "take (length q) (drop (nat ?n) F) = q"
        using q sy(1) by (intro nth_equalityI) (auto simp: chunk_ok_def nat_add_distrib)
      then have fed: "sh_fed s @ q = take (nat (?n + int (length q))) F"
        using sy(1,2) by (simp add: nat_add_distrib take_add)
      have chunks: "chunk_ok F ?ps k r" if k: "(k, r) \<in> set ?ps" for k r
        unfolding chunk_ok_def
      proof (intro conjI allI impI)
        have ok: "chunk_ok F (sh_pending s) k r" using sy(3) k ps by blast
        then show "k + int (length r) \<le> int (length F)" by (simp add: chunk_ok_def)
        fix i assume i: "i < length r"
        show "F ! nat (k + int i) = r ! i \<or>
            (\<exists>(k', q')\<in>set ?ps. k' \<noteq> k \<and> k' \<le> k + int i \<and> k + int i < k' + int (length q'))"
        proof (rule disjCI)
          assume no: "\<not> (\<exists>(k', q')\<in>set ?ps. k' \<noteq> k \<and> k' \<le> k + int i \<and> k + int i < k' + int (length q'))"
          show "F ! nat (k + int i) = r ! i"
          proof (rule ccontr)
            assume "F ! nat (k + int i) \<noteq> r ! i"
            then obtain k' q' where c: "(k', q') \<in> set (sh_pending s)" "k' \<noteq> k" "k' \<le> k + int i"
              "k + int i < k' + int (length q')" using ok i unfolding chunk_ok_def by blast
            with no ps have "k' = ?n" by blast
            then have "q' = q" using c(1) mem 1(3) by (metis eq_key_imp_eq_value)
            with c(4) \<open>k' = ?n\<close> later [OF k] show False by simp
          qed
        qed
      qed
      have "?n + int (length q) \<le> int (length F)" using q by (simp add: chunk_ok_def)
      moreover have "\<forall>(k, r)\<in>set ?ps. ?n + int (length q) \<le> k \<and> r \<noteq> [] \<and> chunk_ok F ?ps k r"
        using chunks later sy(3) ps by blast
      ultimately have "sh_sync F ?s" using fed sy(1) unfolding sh_sync_def by (simp add: sh_feed_def)
      from 1(1) [OF Some this d] Some show ?thesis by (simp add: sh_drain.simps [of s])
    qed
  qed
qed

lemma sh_write_inv:
  assumes inv: "sh_inv F s" and p: "p \<noteq> []" and off: "0 \<le> off"
  shows "sh_inv (file_write p (nat off) F) (sh_write p off s)"
proof (cases "sh_valid s")
  case True
  let ?F = "file_write p (nat off) F"
  have d: "distinct (map fst (sh_pending s))" and so: "sh_stuck s \<or> sh_sync F s" using inv True by (auto simp: sh_inv_def)
  have v: "sh_valid (sh_drain t) = sh_valid t" for t
    by (induction t rule: sh_drain.induct) (simp add: sh_drain.simps sh_feed_def split: option.splits)
  consider (direct) "off = sh_next s" | (buffer) "sh_next s < off" "sh_held s + int (length p) \<le> maxReorderBytes" "map_of (sh_pending s) off = None"
    | (bad) "sh_write p off s = sh_invalidate s"
    using True by (simp add: sh_write_def) metis
  then show ?thesis
  proof cases
    case direct
    let ?s = "sh_feed p s"
    have ds: "distinct (map fst (sh_pending ?s))" using d by (simp add: sh_feed_def)
    have "(sh_stuck (sh_drain ?s) \<or> sh_sync ?F (sh_drain ?s)) \<and> distinct (map fst (sh_pending (sh_drain ?s)))"
    proof (cases "sh_stuck ?s")
      case True
      from stuck_drain [OF this ds] show ?thesis by simp
    next
      case False
      then have "\<not> sh_stuck s" by (auto simp: sh_stuck_def sh_feed_def)
      with so have sy: "sh_sync F s" by simp
      have le: "nat off \<le> length F" using sy direct unfolding sh_sync_def by linarith
      have "chunk_ok ?F (sh_pending s) k q" if k: "(k, q) \<in> set (sh_pending s)" for k q
        unfolding chunk_ok_def
      proof (intro conjI allI impI)
        have ge: "off + int (length p) \<le> k" using False k direct by (force simp: sh_stuck_def sh_feed_def)
        have ok: "chunk_ok F (sh_pending s) k q" using sy k by (auto simp: sh_sync_def)
        then show "k + int (length q) \<le> int (length ?F)" by (simp add: chunk_ok_def of_nat_max le_max_iff_disj)
        fix i assume i: "i < length q"
        have "nat (k + int i) < length F" "nat off + length p \<le> nat (k + int i)"
          using ok i ge off by (auto simp: chunk_ok_def)
        then have "?F ! nat (k + int i) = F ! nat (k + int i)" by (simp add: file_write_nth)
        then show "?F ! nat (k + int i) = q ! i \<or>
            (\<exists>(k', q')\<in>set (sh_pending s). k' \<noteq> k \<and> k' \<le> k + int i \<and> k + int i < k' + int (length q'))"
          using ok i unfolding chunk_ok_def by simp
      qed
      moreover have "off + int (length p) \<le> k" if "(k, q) \<in> set (sh_pending s)" for k q
        using False that direct by (force simp: sh_stuck_def sh_feed_def)
      moreover have "sh_fed s @ p = take (nat (off + int (length p))) ?F"
        using sy direct le off take_file_write_end [of "nat off" F p] by (simp add: sh_sync_def nat_add_distrib)
      ultimately have "sh_sync ?F ?s" using sy direct off
        unfolding sh_sync_def by (auto simp: sh_feed_def)
      from drain_inv [OF this ds] show ?thesis by simp
    qed
    with True direct show ?thesis by (simp add: sh_inv_def sh_write_def)
  next
    case buffer
    let ?ps = "(off, p) # sh_pending s"
    let ?s = "s\<lparr>sh_pending := ?ps, sh_held := sh_held s + int (length p)\<rparr>"
    have new: "off \<notin> fst ` set (sh_pending s)" using buffer(3) by (simp add: map_of_eq_None_iff)
    have "sh_stuck ?s \<or> sh_sync ?F ?s"
    proof (cases "sh_stuck s")
      case True
      then show ?thesis by (auto simp: sh_stuck_def)
    next
      case False
      with so have sy: "sh_sync F s" by simp
      have le: "sh_next s \<le> int (length F)" "0 \<le> sh_next s" using sy by (simp_all add: sh_sync_def)
      have "chunk_ok ?F ?ps off p" using off by (auto simp: chunk_ok_def file_write_nth nat_add_distrib)
      moreover have "chunk_ok ?F ?ps k q" if k: "(k, q) \<in> set (sh_pending s)" for k q
        unfolding chunk_ok_def
      proof (intro conjI allI impI)
        have ok: "chunk_ok F (sh_pending s) k q" "0 \<le> k" using sy k by (auto simp: sh_sync_def)
        then show "k + int (length q) \<le> int (length ?F)" by (simp add: chunk_ok_def of_nat_max le_max_iff_disj)
        fix i assume i: "i < length q"
        have ne: "k \<noteq> off" using new k by force
        show "?F ! nat (k + int i) = q ! i \<or>
            (\<exists>(k', q')\<in>set ?ps. k' \<noteq> k \<and> k' \<le> k + int i \<and> k + int i < k' + int (length q'))"
        proof (cases "off \<le> k + int i \<and> k + int i < off + int (length p)")
          case True
          then show ?thesis using ne by auto
        next
          case False
          have "nat (k + int i) < length F" using ok i by (auto simp: chunk_ok_def)
          then have "?F ! nat (k + int i) = F ! nat (k + int i)" using False off ok(2) by (auto simp: file_write_nth)
          then show ?thesis using ok(1) i unfolding chunk_ok_def by auto
        qed
      qed
      moreover have "sh_fed s = take (nat (sh_next s)) ?F"
        using sy buffer(1) le take_file_write [of "nat (sh_next s)" "nat off" F p] by (simp add: sh_sync_def)
      ultimately show ?thesis using sy buffer(1) p unfolding sh_sync_def by auto
    qed
    with True buffer d new show ?thesis by (simp add: sh_inv_def sh_write_def)
  qed simp
qed (use inv in \<open>simp add: sh_inv_def sh_write_def\<close>)

lemma sh_truncate_inv:
  assumes "sh_inv F s" "0 \<le> sz"
  shows "sh_inv (file_trunc (nat sz) F) (sh_truncate sz s)"
proof (cases "\<not> sh_valid s \<or> sz \<noteq> sh_next s \<or> 0 < length (sh_pending s)")
  case False
  then have "sh_sync F s" using assms(1) by (auto simp: sh_inv_def sh_stuck_def)
  with False assms(2) show ?thesis
    by (auto simp: sh_truncate_def sh_inv_def sh_sync_def file_trunc_def)
qed (simp add: sh_truncate_def)

lemma newStreamHasher_inv: "sh_inv [] newStreamHasher"
  by (simp add: newStreamHasher_def sh_inv_def sh_sync_def)

lemma sh_result_correct:
  assumes "sh_inv F s" "sh_result (int (length F)) s = Some pre"
  shows "pc_digest pre = hex_encode (sha256 F)" "pc_size pre = int (length F)"
  using assms by (auto simp: sh_result_def sh_inv_def sh_sync_def sh_stuck_def split: if_splits)

end
