(* ===== verification/Files.thy ===== *)
theory Files
  imports Store Action Stream_Hash
begin

text \<open>
  The file system calls of the store. The files are \<open>v_files\<close> of the store, a map from paths to
  contents; an open file is named by its path. Which calls the operating system refuses is a
  parameter \<open>x_io\<close>; a refused write has written \<open>x_short\<close> bytes. The other parameters of an operation,
  collected in one record, are the store's directory, its policy source and gate, the clock and the
  random source.
\<close>

datatype io_op =
    OpMkdirAll string
  | OpCreate string
  | OpOpen string
  | OpStat string
  | OpRead string
  | OpWriteAt string int
  | OpTruncate string int
  | OpSync string
  | OpCloseFile string
  | OpRename string string
  | OpSyncDir string
  | OpRemove string

datatype clock_site = AtStart | AtAdopt | AtFinalize | AtPublish | AtMark

record xenv =
  x_root :: string
  x_src :: "(string \<Rightarrow> policy) option"
  x_gate :: "gate option"
  x_io :: "io_op \<Rightarrow> error option"
  x_short :: nat
  x_clock :: "clock_site \<Rightarrow> gotime"
  x_rand :: "error + string"

definition os_ErrNotExist :: error where
  "os_ErrNotExist = ErrIO ''file does not exist''"

definition os_MkdirAll :: "xenv \<Rightarrow> string \<Rightarrow> ('db store, unit) act" where
  "os_MkdirAll E dir = acheck (x_io E (OpMkdirAll dir))"

definition file_at :: "string \<Rightarrow> ('db store, string) act" where
  "file_at p st = (case v_files st p of None \<Rightarrow> (Inl os_ErrNotExist, st) | Some F \<Rightarrow> (Inr F, st))"

definition put_file :: "string \<Rightarrow> string option \<Rightarrow> ('db store, unit) act" where
  "put_file p F st = (Inr (), st\<lparr>v_files := (v_files st)(p := F)\<rparr>)"

text \<open>\<open>os.OpenFile\<close> with \<open>O_CREATE|O_EXCL\<close>, and without.\<close>

definition os_Create :: "xenv \<Rightarrow> string \<Rightarrow> ('db store, unit) act" where
  "os_Create E p =
     aseq (acheck (x_io E (OpCreate p)))
    (abind (aget (\<lambda>st. v_files st p)) (\<lambda>old.
       if old \<noteq> None then afail (ErrIO ''file exists'') else put_file p (Some [])))"

definition os_Open :: "xenv \<Rightarrow> string \<Rightarrow> ('db store, unit) act" where
  "os_Open E p = aseq (acheck (x_io E (OpOpen p))) (abind (file_at p) (\<lambda>_. areturn ()))"

definition os_Stat :: "xenv \<Rightarrow> string \<Rightarrow> ('db store, int) act" where
  "os_Stat E p = aseq (acheck (x_io E (OpStat p))) (abind (file_at p) (\<lambda>F. areturn (int (length F))))"

definition os_Remove :: "xenv \<Rightarrow> string \<Rightarrow> ('db store, unit) act" where
  "os_Remove E p =
     aseq (acheck (x_io E (OpRemove p))) (abind (file_at p) (\<lambda>_. put_file p None))"

definition os_Rename :: "xenv \<Rightarrow> string \<Rightarrow> string \<Rightarrow> ('db store, unit) act" where
  "os_Rename E p q =
     aseq (acheck (x_io E (OpRename p q)))
    (abind (file_at p) (\<lambda>F. aseq (put_file p None) (put_file q (Some F))))"

definition syncDir :: "xenv \<Rightarrow> string \<Rightarrow> ('db store, unit) act" where
  "syncDir E dir = acheck (x_io E (OpSyncDir dir))"

text \<open>\<open>File.WriteAt\<close> returns how much it wrote beside the error. A file ends before \<open>2\<^sup>6\<^sup>3\<close>.\<close>

definition file_WriteAt :: "xenv \<Rightarrow> string \<Rightarrow> string \<Rightarrow> int \<Rightarrow> 'db store \<Rightarrow> (nat \<times> error option) \<times> 'db store" where
  "file_WriteAt E p data off st =
     (case v_files st p of
        None \<Rightarrow> ((0, Some os_ErrNotExist), st)
      | Some F \<Rightarrow>
          if off < 0 then ((0, Some (ErrIO ''negative offset'')), st)
          else if 2 ^ 63 \<le> off + int (length data) then ((0, Some (ErrIO ''file too large'')), st)
          else
            let n = (case x_io E (OpWriteAt p off) of None \<Rightarrow> length data | Some e \<Rightarrow> min (x_short E) (length data));
                F' = (if n = 0 then F else file_write (take n data) (nat off) F)
            in ((n, x_io E (OpWriteAt p off)), st\<lparr>v_files := (v_files st)(p \<mapsto> F')\<rparr>))"

definition file_Truncate :: "xenv \<Rightarrow> string \<Rightarrow> int \<Rightarrow> ('db store, unit) act" where
  "file_Truncate E p sz =
     aseq (acheck (x_io E (OpTruncate p sz)))
    (abind (file_at p) (\<lambda>F. put_file p (Some (file_trunc (nat sz) F))))"

text \<open>\<open>io.Copy\<close> of the first bytes of one file over the start of another. A failing copy has copied
  \<open>x_short\<close> bytes.\<close>

definition copy_file :: "xenv \<Rightarrow> string \<Rightarrow> string \<Rightarrow> nat option \<Rightarrow> ('db store, int) act" where
  "copy_file E src dst limit =
     abind (file_at src) (\<lambda>S. abind (file_at dst) (\<lambda>D.
       let data = (case limit of None \<Rightarrow> S | Some n \<Rightarrow> take n S)
       in case x_io E (OpRead src) of
            Some e \<Rightarrow> aseq (put_file dst (Some (file_write (take (x_short E) data) 0 D))) (afail e)
          | None \<Rightarrow> aseq (put_file dst (Some (file_write data 0 D))) (areturn (int (length data)))))"

definition hashFile :: "xenv \<Rightarrow> string \<Rightarrow> ('db store, string \<times> int) act" where
  "hashFile E p =
     aseq (os_Open E p) (aseq (acheck (x_io E (OpRead p)))
       (abind (file_at p) (\<lambda>F. areturn (hex_encode (sha256 F), int (length F)))))"

section \<open>Weakest preconditions of the file system calls\<close>

text \<open>A call either fails and changes nothing, or changes one file.\<close>

lemma awp_file_at [simp]:
  "awp (file_at p) Q st = (case v_files st p of None \<Rightarrow> Q (Inl os_ErrNotExist) st | Some F \<Rightarrow> Q (Inr F) st)"
  by (simp add: awp_def file_at_def split: option.splits)

lemma awp_put_file [simp]: "awp (put_file p F) Q st = Q (Inr ()) (st\<lparr>v_files := (v_files st)(p := F)\<rparr>)"
  by (simp add: awp_def put_file_def)

lemma awp_os_Remove:
  assumes "\<And>e. Q (Inl e) st" "Q (Inr ()) (st\<lparr>v_files := (v_files st)(p := None)\<rparr>)"
  shows "awp (os_Remove E p) Q st"
  using assms by (simp add: os_Remove_def split: option.splits)

lemma awp_os_Create:
  assumes "\<And>e. Q (Inl e) st" "v_files st p = None \<Longrightarrow> Q (Inr ()) (st\<lparr>v_files := (v_files st)(p := Some [])\<rparr>)"
  shows "awp (os_Create E p) Q st"
  using assms by (simp add: os_Create_def split: option.splits)

lemma awp_os_Rename:
  assumes "\<And>e. Q (Inl e) st"
    and "\<And>F. v_files st p = Some F \<Longrightarrow> Q (Inr ()) (st\<lparr>v_files := (v_files st)(p := None, q := Some F)\<rparr>)"
  shows "awp (os_Rename E p q) Q st"
  using assms by (simp add: os_Rename_def split: option.splits)

lemma awp_os_Open:
  assumes "\<And>e. Q (Inl e) st" "\<And>F. v_files st p = Some F \<Longrightarrow> Q (Inr ()) st"
  shows "awp (os_Open E p) Q st"
  using assms by (simp add: os_Open_def split: option.splits)

lemma awp_os_Stat:
  assumes "\<And>e. Q (Inl e) st" "\<And>F. v_files st p = Some F \<Longrightarrow> Q (Inr (int (length F))) st"
  shows "awp (os_Stat E p) Q st"
  using assms by (simp add: os_Stat_def split: option.splits)

lemma awp_file_Truncate:
  assumes "\<And>e. Q (Inl e) st"
    and "\<And>F. v_files st p = Some F \<Longrightarrow> Q (Inr ()) (st\<lparr>v_files := (v_files st)(p := Some (file_trunc (nat sz) F))\<rparr>)"
  shows "awp (file_Truncate E p sz) Q st"
  using assms by (simp add: file_Truncate_def split: option.splits)

lemma awp_hashFile:
  assumes "\<And>e. Q (Inl e) st" "\<And>F. v_files st p = Some F \<Longrightarrow> Q (Inr (hex_encode (sha256 F), int (length F))) st"
  shows "awp (hashFile E p) Q st"
  using assms by (simp add: hashFile_def os_Open_def split: option.splits)

lemma awp_dir [simp]:
  "awp (os_MkdirAll E d) Q st = (case x_io E (OpMkdirAll d) of None \<Rightarrow> Q (Inr ()) st | Some e \<Rightarrow> Q (Inl e) st)"
  "awp (syncDir E d) Q st = (case x_io E (OpSyncDir d) of None \<Rightarrow> Q (Inr ()) st | Some e \<Rightarrow> Q (Inl e) st)"
  by (simp_all add: os_MkdirAll_def syncDir_def)

lemma awp_update:
  assumes "\<And>e. Q (Inl e) st"
    and "\<And>x db d. fn (v_db st, delta0) = Inr (x, (db, d)) \<Longrightarrow>
      Q (Inr x) (st\<lparr>v_db := db, v_count := apply_delta d (v_count st),
                   v_notify := fold notifier_signal (d_touched d) (v_notify st)\<rparr>)"
  shows "awp (update K fn) Q st"
  using assms by (cases rule: update_cases [of K fn st]) (auto simp: awp_def)

end
