(* ===== verification/Coverage.thy ===== *)
theory Coverage
  imports Prelude "HOL-Library.Multiset"
begin

text \<open>
  \<open>coverage\<close> of \<^verbatim>\<open>internal/store/upload.go\<close>: which byte ranges of a staging file hold intended data.
  The lemmas relate it to the set of covered offsets: the spans stay in a canonical form that is
  determined by that set, adding and clipping are union and intersection, and \<open>covers\<close> decides
  whether every byte up to a size was written.
\<close>

section \<open>Definitions\<close>

type_synonym span = "int \<times> int"

text \<open>The merging loop; \<open>merged\<close> is kept with its last element first.\<close>

fun merge_spans :: "span list \<Rightarrow> span list \<Rightarrow> span list" where
  "merge_spans merged [] = rev merged"
| "merge_spans [] (s # ss) = merge_spans [s] ss"
| "merge_spans ((a, b) # ms) (s # ss) =
     (if fst s \<le> b then merge_spans ((a, if b < snd s then snd s else b) # ms) ss
      else merge_spans (s # (a, b) # ms) ss)"

definition cov_add :: "int \<Rightarrow> int \<Rightarrow> span list \<Rightarrow> span list" where
  "cov_add start fin spans =
     (if fin \<le> start then spans else merge_spans [] (sort_key fst (spans @ [(start, fin)])))"

fun cov_clip :: "int \<Rightarrow> span list \<Rightarrow> span list" where
  "cov_clip sz [] = []"
| "cov_clip sz ((a, b) # ss) =
     (if sz \<le> a then cov_clip sz ss else (a, if sz < b then sz else b) # cov_clip sz ss)"

definition cov_start :: "span list \<Rightarrow> int" where
  "cov_start spans = (if spans = [] then 0 else fst (hd spans))"

definition cov_end :: "span list \<Rightarrow> int" where
  "cov_end spans = (if spans = [] then 0 else snd (last spans))"

definition cov_contiguous :: "span list \<Rightarrow> int" where
  "cov_contiguous spans = (if spans = [] \<or> fst (hd spans) \<noteq> 0 then 0 else snd (hd spans))"

definition cov_covers :: "int \<Rightarrow> span list \<Rightarrow> bool" where
  "cov_covers sz spans = (if sz = 0 then True else sz \<le> cov_contiguous spans)"

section \<open>The covered offsets\<close>

definition points :: "span list \<Rightarrow> int set" where
  "points spans = (\<Union>(a, b)\<in>set spans. {a..<b})"

definition canonical :: "span list \<Rightarrow> bool" where
  "canonical spans \<longleftrightarrow> (\<forall>s\<in>set spans. 0 \<le> fst s \<and> fst s < snd s) \<and> sorted_wrt (\<lambda>s t. snd s < fst t) spans"

lemma points_simps [simp]:
  "points [] = {}" "points (s # ss) = {fst s..<snd s} \<union> points ss" "points (ss @ ts) = points ss \<union> points ts"
  "points (rev ss) = points ss"
  by (auto simp: points_def split: prod.splits)

lemma points_mset: "mset ss = mset ts \<Longrightarrow> points ss = points ts"
  by (metis mset_eq_setD points_def)

lemma canonical_Nil [simp]: "canonical []"
  by (simp add: canonical_def)

lemma canonical_Cons:
  "canonical (s # ss) \<longleftrightarrow> 0 \<le> fst s \<and> fst s < snd s \<and> (\<forall>t\<in>set ss. snd s < fst t) \<and> canonical ss"
  by (auto simp: canonical_def)

lemma merge_spans_ok:
  assumes "canonical (rev merged)" "sorted_wrt (\<lambda>s t. fst s \<le> fst t) ss" "\<forall>s\<in>set ss. 0 \<le> fst s \<and> fst s < snd s"
    and "merged \<noteq> [] \<Longrightarrow> \<forall>s\<in>set ss. fst (hd merged) \<le> fst s"
  shows "canonical (merge_spans merged ss) \<and> points (merge_spans merged ss) = points merged \<union> points ss"
  using assms
proof (induction merged ss rule: merge_spans.induct)
  case (2 s ss)
  then show ?case by (auto simp: canonical_Cons)
next
  case (3 a b ms s ss)
  have ab: "0 \<le> a" "a < b" "\<forall>t\<in>set ms. snd t < a" "canonical (rev ms)"
    using "3.prems"(1) by (auto simp: canonical_def sorted_wrt_append)
  have s: "a \<le> fst s" "0 \<le> fst s" "fst s < snd s" "\<forall>t\<in>set ss. fst s \<le> fst t" using "3.prems" by auto
  show ?case
  proof (cases "fst s \<le> b")
    case True
    have c: "canonical (rev ((a, if b < snd s then snd s else b) # ms))"
      using ab s by (auto simp: canonical_def sorted_wrt_append)
    have "{a..<(if b < snd s then snd s else b)} = {a..<b} \<union> {fst s..<snd s}" using True s ab by auto
    with "3.IH"(1) [OF True c] "3.prems" True s show ?thesis by (auto simp: Un_assoc)
  next
    case False
    have c: "canonical (rev (s # (a, b) # ms))"
      using False ab s by (fastforce simp: canonical_def sorted_wrt_append)
    with "3.IH"(2) [OF False c] "3.prems" False s show ?thesis by auto
  qed
qed auto

lemma cov_add_ok:
  assumes "canonical spans" "0 \<le> start"
  shows "canonical (cov_add start fin spans)" "points (cov_add start fin spans) = points spans \<union> {start..<fin}"
proof -
  let ?l = "sort_key fst (spans @ [(start, fin)])"
  have "canonical (cov_add start fin spans) \<and> points (cov_add start fin spans) = points spans \<union> {start..<fin}"
  proof (cases "fin \<le> start")
    case False
    have "sorted (map fst ?l)" by (rule sorted_sort_key)
    then have "sorted_wrt (\<lambda>s t. fst s \<le> fst t) ?l" by (simp add: sorted_wrt_map)
    moreover have "\<forall>s\<in>set ?l. 0 \<le> fst s \<and> fst s < snd s"
      using False assms by (auto simp: canonical_def)
    moreover have "points ?l = points (spans @ [(start, fin)])" by (rule points_mset) simp
    ultimately show ?thesis using False merge_spans_ok [of "[]" ?l] by (simp add: cov_add_def)
  qed (use assms in \<open>simp add: cov_add_def\<close>)
  then show "canonical (cov_add start fin spans)" "points (cov_add start fin spans) = points spans \<union> {start..<fin}"
    by auto
qed

text \<open>The spans are determined by the offsets they cover, so it does not matter in which order the
  unstable \<open>sort.Slice\<close> leaves spans with equal starts.\<close>

lemma canonical_first:
  assumes "canonical ((a, b) # ss)"
  shows "a \<in> points ((a, b) # ss)" "b \<notin> points ((a, b) # ss)" "{a..<b} \<subseteq> points ((a, b) # ss)"
    "\<And>i. i < a \<Longrightarrow> i \<notin> points ((a, b) # ss)"
  using assms by (fastforce simp: canonical_Cons points_def)+

lemma canonical_unique:
  assumes "canonical ss" "canonical ts" "points ss = points ts"
  shows "ss = ts"
  using assms
proof (induction ss arbitrary: ts)
  case Nil
  then show ?case by (cases ts) (auto simp: canonical_Cons)
next
  case (Cons s ss)
  obtain a b where s: "s = (a, b)" by (cases s)
  from Cons.prems have "ts \<noteq> []" by (auto simp: s canonical_Cons)
  then obtain c d ts' where t: "ts = (c, d) # ts'" by (metis list.exhaust surj_pair)
  note 1 = canonical_first [OF Cons.prems(1) [unfolded s]] and 2 = canonical_first [OF Cons.prems(2) [unfolded t]]
  have eq: "points ((a, b) # ss) = points ((c, d) # ts')" using Cons.prems(3) s t by simp
  have ac: "a = c" using 1(1,4) 2(1,4) unfolding eq by (metis linorder_neqE)
  have "a < b" "c < d" using Cons.prems s t by (auto simp: canonical_Cons)
  have bd: "b = d"
  proof (rule linorder_cases [of b d])
    assume "b < d"
    then have "b \<in> {c..<d}" using \<open>a < b\<close> ac by simp
    then show ?thesis using 1(2) 2(3) eq by blast
  next
    assume "d < b"
    then have "d \<in> {a..<b}" using \<open>c < d\<close> ac by simp
    then show ?thesis using 2(2) 1(3) eq by blast
  qed
  have "points xs = points ((a, b) # xs) - {a..<b}" if "canonical ((a, b) # xs)" for xs
    using that by (fastforce simp: canonical_Cons points_def)
  then have "points ss = points ts'" using Cons.prems s t ac bd eq by metis
  with Cons s t ac bd show ?case by (auto simp: canonical_Cons)
qed

lemma merge_any_order:
  assumes "canonical spans" "0 \<le> start" "start < fin"
    and "mset l = mset (spans @ [(start, fin)])" "sorted_wrt (\<lambda>s t. fst s \<le> fst t) l"
  shows "merge_spans [] l = cov_add start fin spans"
proof (rule canonical_unique)
  have "\<forall>s\<in>set l. 0 \<le> fst s \<and> fst s < snd s"
    using assms(1-3) mset_eq_setD [OF assms(4)] by (auto simp: canonical_def)
  then have m: "canonical (merge_spans [] l)" "points (merge_spans [] l) = points l"
    using merge_spans_ok [of "[]" l] assms(5) by auto
  show "canonical (merge_spans [] l)" by (rule m(1))
  show "canonical (cov_add start fin spans)" by (rule cov_add_ok(1) [OF assms(1,2)])
  show "points (merge_spans [] l) = points (cov_add start fin spans)"
    using m(2) points_mset [OF assms(4)] cov_add_ok(2) [OF assms(1,2), of fin] by simp
qed

lemma cov_clip_ok:
  assumes "canonical spans"
  shows "canonical (cov_clip sz spans)" "points (cov_clip sz spans) = points spans \<inter> {..<sz}"
proof -
  have sub: "(\<forall>t\<in>set ss. x < fst t) \<Longrightarrow> \<forall>t\<in>set (cov_clip sz ss). x < fst t" for x ss
    by (induction ss) (auto split: if_splits)
  have "canonical (cov_clip sz spans) \<and> points (cov_clip sz spans) = points spans \<inter> {..<sz}"
    using assms
  proof (induction spans)
    case (Cons s ss)
    obtain a b where s: "s = (a, b)" by (cases s)
    show ?case
    proof (cases "sz \<le> a")
      case False
      have "\<forall>t\<in>set (cov_clip sz ss). b < fst t" using sub Cons.prems by (auto simp: s canonical_Cons)
      then have "\<forall>t\<in>set (cov_clip sz ss). (if sz < b then sz else b) < fst t" by auto
      with False Cons show ?thesis by (auto simp: s canonical_Cons)
    qed (use Cons in \<open>auto simp: s canonical_Cons\<close>)
  qed simp
  then show "canonical (cov_clip sz spans)" "points (cov_clip sz spans) = points spans \<inter> {..<sz}" by auto
qed

lemma cov_contiguous_ok:
  assumes "canonical spans"
  shows "0 \<le> cov_contiguous spans" "{0..<cov_contiguous spans} \<subseteq> points spans" "cov_contiguous spans \<notin> points spans"
proof (atomize (full), cases spans)
  case (Cons s ss)
  obtain a b where s: "s = (a, b)" by (cases s)
  note f = canonical_first [OF assms [unfolded Cons s]]
  have "0 \<le> a" "a < b" using assms by (auto simp: Cons s canonical_Cons)
  then show "0 \<le> cov_contiguous spans \<and> {0..<cov_contiguous spans} \<subseteq> points spans \<and> cov_contiguous spans \<notin> points spans"
    using f(2,3) f(4) [of 0] by (auto simp: cov_contiguous_def Cons s)
qed (simp add: cov_contiguous_def)

lemma cov_covers_iff:
  assumes "canonical spans" "0 \<le> sz"
  shows "cov_covers sz spans \<longleftrightarrow> {0..<sz} \<subseteq> points spans"
proof (cases "sz = 0")
  case False
  note c = cov_contiguous_ok [OF assms(1)]
  show ?thesis
  proof
    assume "cov_covers sz spans"
    then have "{0..<sz} \<subseteq> {0..<cov_contiguous spans}" using False by (simp add: cov_covers_def)
    then show "{0..<sz} \<subseteq> points spans" using c(2) by blast
  next
    assume sub: "{0..<sz} \<subseteq> points spans"
    have "\<not> cov_contiguous spans < sz"
    proof
      assume "cov_contiguous spans < sz"
      then have "cov_contiguous spans \<in> {0..<sz}" using c(1) by simp
      with sub c(3) show False by blast
    qed
    then show "cov_covers sz spans" using False by (simp add: cov_covers_def)
  qed
qed (simp add: cov_covers_def)

lemma cov_end_ok:
  assumes "canonical spans"
  shows "i \<in> points spans \<Longrightarrow> 0 \<le> i \<and> i < cov_end spans" "0 \<le> cov_end spans" "spans \<noteq> [] \<Longrightarrow> cov_end spans - 1 \<in> points spans"
proof -
  have all: "spans \<noteq> [] \<Longrightarrow> (\<forall>i\<in>points spans. 0 \<le> i \<and> i < snd (last spans)) \<and> snd (last spans) - 1 \<in> points spans \<and> 0 \<le> snd (last spans)"
    using assms
  proof (induction spans)
    case (Cons s ss)
    show ?case
    proof (cases "ss = []")
      case False
      with Cons have IH: "\<forall>i\<in>points ss. 0 \<le> i \<and> i < snd (last ss)" "snd (last ss) - 1 \<in> points ss" "0 \<le> snd (last ss)"
        by (auto simp: canonical_Cons)
      have "last ss \<in> set ss" using False by simp
      then have "snd s < fst (last ss)" "fst (last ss) < snd (last ss)" using Cons.prems(2)
        by (auto simp: canonical_def)
      then have "i < snd s \<Longrightarrow> i < snd (last ss)" for i by linarith
      moreover have "0 \<le> fst s" using Cons.prems(2) by (simp add: canonical_Cons)
      ultimately show ?thesis using IH False by auto
    qed (use Cons.prems in \<open>auto simp: canonical_Cons\<close>)
  qed simp
  show "i \<in> points spans \<Longrightarrow> 0 \<le> i \<and> i < cov_end spans" "0 \<le> cov_end spans" "spans \<noteq> [] \<Longrightarrow> cov_end spans - 1 \<in> points spans"
    using all by (cases "spans = []"; simp add: cov_end_def)+
qed

end
