(* ===== verification/Upload.thy ===== *)
theory Upload
  imports Files Coverage Namespace
begin

text \<open>
  Uploads, \<^verbatim>\<open>internal/store/upload.go\<close>: opening a handle in one of three modes, writing at arbitrary
  offsets, truncating, and closing, which publishes the file or keeps or discards it. A method of
  \<open>UploadHandle\<close> is an action on the handle and the store; the store's own methods are actions on the
  store. The mutex of a handle serialises its methods, so a method runs as one step. Error messages
  are reduced to the error they wrap; logging is left out.
\<close>

section \<open>Records\<close>

datatype OpenMode = ModeTruncate | ModeResume | ModeAppend

text \<open>Go's \<open>base\<close> has two pointers of which exactly one is set.\<close>

datatype base =
    BaseInterrupted (base_upload: upload) (base_size: int)
  | BaseCurrent (base_object: object_version) (base_size: int)

fun base_source :: "base \<Rightarrow> string" where
  "base_source (BaseInterrupted u n) = u_StagingPath u"
| "base_source (BaseCurrent ob n) = o_BlobPath ob"

record ObjectMeta =
  m_ETag :: string
  m_Metadata :: "(string \<times> string) list"
  m_Tags :: "(string \<times> string) list"

text \<open>\<open>h_release\<close> and \<open>h_reserved\<close> stand for the release functions: whether a slot of the gate and how
  much headroom is still to be given back.\<close>

record UploadHandle =
  h_tenant :: string
  h_path :: string
  h_protocol :: string
  h_mode :: OpenMode
  h_unmetered :: bool
  h_upload :: upload
  h_file :: "string option"
  h_resolved :: bool
  h_candidates :: "base list"
  h_baseSize :: int
  h_fillPrefix :: bool
  h_appendMode :: nat
  h_cov :: "span list"
  h_hasher :: "streamHasher option"
  h_failed :: "error option"
  h_fatal :: bool
  h_closed :: bool
  h_release :: bool
  h_reserved :: "int option"
  h_meta :: "ObjectMeta option"

type_synonym 'db hs = "UploadHandle \<times> 'db store"

definition no_upload :: upload where
  "no_upload =
     \<lparr>u_ID = [], u_Tenant = [], u_Path = [], u_Protocol = [], u_StagingPath = [], u_State = StateNone,
      u_CreatedAt = zero_time, u_UpdatedAt = zero_time, u_Error = []\<rparr>"

definition new_handle :: "string \<Rightarrow> string \<Rightarrow> string \<Rightarrow> OpenMode \<Rightarrow> bool \<Rightarrow> bool \<Rightarrow> UploadHandle" where
  "new_handle tenant path protocol mode internal release =
     \<lparr>h_tenant = tenant, h_path = path, h_protocol = protocol, h_mode = mode, h_unmetered = internal,
      h_upload = no_upload, h_file = None, h_resolved = False, h_candidates = [], h_baseSize = 0,
      h_fillPrefix = False, h_appendMode = 0, h_cov = [], h_hasher = None, h_failed = None, h_fatal = False,
      h_closed = False, h_release = release, h_reserved = None, h_meta = None\<rparr>"

text \<open>Running a store action from a handle's method, and changing the handle.\<close>

definition on_store :: "('db store, 'a) act \<Rightarrow> ('db hs, 'a) act" where
  "on_store m s = (case m (snd s) of (r, st') \<Rightarrow> (r, (fst s, st')))"

definition on_handle :: "(UploadHandle \<Rightarrow> UploadHandle) \<Rightarrow> ('db hs, unit) act" where
  "on_handle f = amod (\<lambda>(h, st). (f h, st))"

definition with_handle :: "(UploadHandle \<Rightarrow> ('db hs, 'a) act) \<Rightarrow> ('db hs, 'a) act" where
  "with_handle f s = f (fst s) s"

section \<open>Records of uploads\<close>

definition start_tx :: "'db bolt \<Rightarrow> upload \<Rightarrow> ('db, unit) txn" where
  "start_tx K u =
     tseq (tmod (\<lambda>d. d\<lparr>d_uploads := d_uploads d + 1\<rparr>))
    (tseq (tput K BUploadPaths (uploadPathKey (u_Tenant u) (u_Path u) (u_ID u)) (CRaw []))
          (tput K BUploads (u_ID u) (CUpload u)))"

definition adopt_tx :: "'db bolt \<Rightarrow> gotime \<Rightarrow> string \<Rightarrow> string \<Rightarrow> ('db, upload option) txn" where
  "adopt_tx K now protocol uid =
     tbind (getUpload K uid) (\<lambda>r. case r of
       Inl _ \<Rightarrow> ret None
     | Inr cur \<Rightarrow>
         if u_State cur \<noteq> StateInterrupted then ret None
         else
           let u = cur\<lparr>u_State := StateUploading, u_Protocol := protocol, u_Error := [], u_UpdatedAt := now\<rparr>
           in tseq (tdel K BStale (timeIDKey (u_UpdatedAt cur) (u_ID cur)))
             (tseq (tput K BUploads (u_ID u) (CUpload u)) (ret (Some u))))"

definition mark_tx :: "'db bolt \<Rightarrow> gotime \<Rightarrow> upload \<Rightarrow> ('db, unit) txn" where
  "mark_tx K prev0 u =
     tbind (getUpload K (u_ID u)) (\<lambda>r.
     let prev = (case r of Inl _ \<Rightarrow> prev0 | Inr cur \<Rightarrow> u_UpdatedAt cur)
     in tseq (ttry (tdel K BStale (timeIDKey prev (u_ID u))))
       (tseq (twhen (u_State u = StateInterrupted \<or> u_State u = StateFailed)
               (tput K BStale (timeIDKey (u_UpdatedAt u) (u_ID u)) (CRaw [])))
         (tput K BUploads (u_ID u) (CUpload u))))"

definition markUpload :: "'db bolt \<Rightarrow> xenv \<Rightarrow> upload \<Rightarrow> state \<Rightarrow> error \<Rightarrow> ('db store, unit) act" where
  "markUpload K E u state cause =
     update K (mark_tx K (u_UpdatedAt u)
       (u\<lparr>u_State := state, u_UpdatedAt := x_clock E AtMark, u_Error := error_text cause\<rparr>))"

text \<open>\<open>fail\<close>, \<open>discard\<close> and \<open>interruptHandle\<close> always return an error, so their results have any type.\<close>

definition fail :: "'db bolt \<Rightarrow> xenv \<Rightarrow> upload \<Rightarrow> error \<Rightarrow> ('db store, 'a) act" where
  "fail K E u cause =
     aseq (aignore (os_Remove E (u_StagingPath u)))
    (aseq (aignore (os_Remove E (blobPath (x_root E) (u_Tenant u) (u_ID u))))
    (aseq (aignore (markUpload K E u StateFailed cause))
          (afail cause)))"

definition discard :: "'db bolt \<Rightarrow> xenv \<Rightarrow> upload \<Rightarrow> error \<Rightarrow> ('db store, 'a) act" where
  "discard K E u cause = fail K E u cause"

section \<open>Publishing\<close>

definition drop_upload :: "'db bolt \<Rightarrow> upload \<Rightarrow> ('db, unit) txn" where
  "drop_upload K u =
     tseq (ttry (tdel K BUploadPaths (uploadPathKey (u_Tenant u) (u_Path u) (u_ID u))))
    (tbind (tget K BUploads (u_ID u)) (\<lambda>c.
       if c = None then ret ()
       else tseq (tmod (\<lambda>d. d\<lparr>d_uploads := d_uploads d - 1\<rparr>)) (tdel K BUploads (u_ID u))))"

definition new_object ::
    "upload \<Rightarrow> string \<Rightarrow> string \<Rightarrow> int \<Rightarrow> ObjectMeta option \<Rightarrow> nat \<Rightarrow> gotime \<Rightarrow> object_version" where
  "new_object u blob digest sz meta seq now =
     \<lparr>o_ID = u_ID u, o_Tenant = u_Tenant u, o_Path = u_Path u, o_BlobPath = blob, o_Size = sz, o_SHA256 = digest,
      o_ETag = (case meta of Some m \<Rightarrow> if m_ETag m \<noteq> [] then m_ETag m else digest | None \<Rightarrow> digest),
      o_Metadata = (case meta of Some m \<Rightarrow> m_Metadata m | None \<Rightarrow> []),
      o_Tags = (case meta of Some m \<Rightarrow> m_Tags m | None \<Rightarrow> []), o_Version = seq, o_State = StateNone, o_QueueSeq = 0,
      o_QueueKey = [], o_VisibleAt = zero_time, o_CreatedAt = now, o_UpdatedAt = now, o_LeaseID = [],
      o_LeaseClient = [], o_LeaseUntil = zero_time, o_Attempts = 0, o_LastError = [], o_ParkedAt = zero_time,
      o_Retracted = False\<rparr>"

definition publish_tx ::
    "'db bolt \<Rightarrow> policy \<Rightarrow> gotime \<Rightarrow> upload \<Rightarrow> string \<Rightarrow> string \<Rightarrow> int \<Rightarrow> ObjectMeta option \<Rightarrow>
     ('db, object_version option) txn" where
  "publish_tx K pol now u blob digest sz meta =
     tbind (getObject K (u_ID u)) (\<lambda>r. case r of
       Inr _ \<Rightarrow> tseq (drop_upload K u) (ret None)
     | Inl _ \<Rightarrow>
         tbind (tread (checkFilePath K (u_Tenant u) (u_Path u))) (\<lambda>eo.
         tseq (tcheck eo)
        (tbind (tnext K BVersions) (\<lambda>seq.
         tbind (replacePath K now (u_Tenant u) (u_Path u) (p_Supersede pol) ''superseded'') (\<lambda>victim.
         tbind (place K (new_object u blob digest sz meta seq now) StateNone pol now) (\<lambda>ob.
         tseq (tput K BNamespace (nsKey (o_Tenant ob) (o_Path ob)) (CRaw (o_ID ob)))
        (tseq (drop_upload K u) (ret victim))))))))"

definition publish ::
    "'db bolt \<Rightarrow> xenv \<Rightarrow> upload \<Rightarrow> string \<Rightarrow> string \<Rightarrow> int \<Rightarrow> ObjectMeta option \<Rightarrow> ('db store, unit) act" where
  "publish K E u blob digest sz meta =
     abind (update K (publish_tx K (policyFor (x_src E) (u_Tenant u)) (x_clock E AtPublish) u blob digest sz meta)) (\<lambda>victim.
       case victim of
         None \<Rightarrow> areturn ()
       | Some v \<Rightarrow> amod (collect (x_root E) (\<lambda>b. x_io E (OpRemove b) \<noteq> None) (x_gate E \<noteq> None) (o_ID v) (o_Tenant v)
                      (o_BlobPath v) (o_Size v)))"

text \<open>The second half of \<open>finalize\<close>: the file is renamed into place, then published.\<close>

definition finalize_move ::
    "'db bolt \<Rightarrow> xenv \<Rightarrow> upload \<Rightarrow> ObjectMeta option \<Rightarrow> string \<times> int \<Rightarrow> ('db store, unit) act" where
  "finalize_move K E u meta r =
     (let objs = filepath_Join [x_root E, ''objects'']; objDir = filepath_Join [x_root E, ''objects'', u_Tenant u];
          blob = blobPath (x_root E) (u_Tenant u) (u_ID u); created = (x_io E (OpStat objDir) = Some os_ErrNotExist)
      in aseq (os_MkdirAll E objDir)
        (aseq (if created then syncDir E objs else areturn ())
        (aseq (os_Rename E (u_StagingPath u) blob)
        (aseq (syncDir E objDir)
              (publish K E u blob (fst r) (snd r) meta)))))"

definition finalize ::
    "'db bolt \<Rightarrow> xenv \<Rightarrow> upload \<Rightarrow> precomputed option \<Rightarrow> ObjectMeta option \<Rightarrow> ('db store, unit) act" where
  "finalize K E u0 pre meta =
     (let u = u0\<lparr>u_State := StateFinalizing, u_UpdatedAt := x_clock E AtFinalize\<rparr>
      in acatch
          (aseq (update K (tput K BUploads (u_ID u) (CUpload u)))
          (abind (case pre of
                    Some p \<Rightarrow> areturn (pc_digest p, pc_size p)
                  | None \<Rightarrow> hashFile E (u_StagingPath u))
             (finalize_move K E u meta)))
          (fail K E u))"

section \<open>Opening a handle\<close>

definition releaseResources :: "'db hs \<Rightarrow> 'db hs" where
  "releaseResources s =
     (case s of (h, st) \<Rightarrow>
        (h\<lparr>h_release := False, h_reserved := None\<rparr>,
         st\<lparr>v_slots := v_slots st - (if h_release h then 1 else 0),
            v_reserved := v_reserved st - (case h_reserved h of None \<Rightarrow> 0 | Some n \<Rightarrow> n)\<rparr>))"

definition baseCandidates :: "'db bolt \<Rightarrow> xenv \<Rightarrow> string \<Rightarrow> string \<Rightarrow> 'db store \<Rightarrow> base list" where
  "baseCandidates K E tenant name st =
     (let uo = newestInterrupted K tenant name (v_db st);
          cur = (case b_get K (v_db st) BNamespace (nsKey tenant name) of
                   None \<Rightarrow> None
                 | Some c \<Rightarrow> (case json_object (b_get K (v_db st) BObjects (raw_string (Some c))) of
                               Inl _ \<Rightarrow> None | Inr ob \<Rightarrow> Some ob));
          partial = (case uo of
                       None \<Rightarrow> None
                     | Some u \<Rightarrow> (case fst (os_Stat E (u_StagingPath u) st) of
                                    Inl _ \<Rightarrow> None | Inr n \<Rightarrow> Some (BaseInterrupted u n)));
          newer = (case (partial, cur) of
                     (None, _) \<Rightarrow> False
                   | (Some b, None) \<Rightarrow> True
                   | (Some b, Some ob) \<Rightarrow> o_CreatedAt ob < u_UpdatedAt (base_upload b));
          published = (case cur of None \<Rightarrow> [] | Some ob \<Rightarrow> [BaseCurrent ob (o_Size ob)]);
          parked = (case partial of None \<Rightarrow> [] | Some b \<Rightarrow> [b])
      in if newer then parked @ published else published @ parked)"

definition startFresh :: "'db bolt \<Rightarrow> xenv \<Rightarrow> ('db hs, unit) act" where
  "startFresh K E = with_handle (\<lambda>h.
     abind (alift (randomID (x_rand E))) (\<lambda>uid.
     let dir = filepath_Join [x_root E, ''staging'', h_tenant h]; stage = filepath_Join [dir, uid @ ''.partial''];
         now = x_clock E AtStart;
         u = \<lparr>u_ID = uid, u_Tenant = h_tenant h, u_Path = h_path h, u_Protocol = h_protocol h, u_StagingPath = stage,
              u_State = StateUploading, u_CreatedAt = now, u_UpdatedAt = now, u_Error = []\<rparr>
     in aseq (on_store (os_MkdirAll E dir))
       (aseq (on_store (os_Create E stage))
       (aseq (acatch (on_store (update K (start_tx K u)))
                (\<lambda>e. aseq (aignore (on_store (os_Remove E stage))) (afail e)))
         (on_handle (\<lambda>h. h\<lparr>h_upload := u, h_file := Some stage, h_resolved := True,
                           h_hasher := Some newStreamHasher\<rparr>))))))"

definition adoptInterrupted :: "'db bolt \<Rightarrow> xenv \<Rightarrow> upload \<Rightarrow> ('db hs, unit) act" where
  "adoptInterrupted K E u0 = with_handle (\<lambda>h.
     abind (on_store (update K (adopt_tx K (x_clock E AtAdopt) (h_protocol h) (u_ID u0)))) (\<lambda>claimed.
     case claimed of
       None \<Rightarrow> afail ErrConflict
     | Some u \<Rightarrow>
         abind (acatch (on_store (aseq (os_Open E (u_StagingPath u)) (os_Stat E (u_StagingPath u))))
                  (\<lambda>e. aseq (aignore (on_store (markUpload K E u StateFailed e))) (afail e))) (\<lambda>sz.
         on_handle (\<lambda>h. h\<lparr>h_upload := u, h_file := Some (u_StagingPath u), h_resolved := True,
                          h_baseSize := sz, h_cov := cov_add 0 sz (h_cov h), h_hasher := None\<rparr>))))"

definition cloneCurrent :: "'db bolt \<Rightarrow> xenv \<Rightarrow> object_version \<Rightarrow> ('db hs, unit) act" where
  "cloneCurrent K E ob s =
     (case Reserve (x_gate E) (o_Size ob) (snd s) of
        (None, st') \<Rightarrow> (Inl ErrInsufficient, (fst s, st'))
      | (Some n, st') \<Rightarrow>
          aseq (startFresh K E)
         (aseq (on_store (os_Open E (o_BlobPath ob)))
         (with_handle (\<lambda>h.
            abind (on_store (copy_file E (o_BlobPath ob) (u_StagingPath (h_upload h)) None)) (\<lambda>n.
            on_handle (\<lambda>h. h\<lparr>h_baseSize := n, h_cov := cov_add 0 n (h_cov h), h_hasher := None\<rparr>)))))
          ((fst s)\<lparr>h_reserved := Some n\<rparr>, st'))"

definition adopt :: "'db bolt \<Rightarrow> xenv \<Rightarrow> base \<Rightarrow> ('db hs, unit) act" where
  "adopt K E b =
     (case b of
        BaseInterrupted u _ \<Rightarrow> adoptInterrupted K E u
      | BaseCurrent ob _ \<Rightarrow> cloneCurrent K E ob)"

definition open_mode :: "'db bolt \<Rightarrow> xenv \<Rightarrow> OpenMode \<Rightarrow> ('db hs, unit) act" where
  "open_mode K E mode s =
     (case s of (h, st) \<Rightarrow>
        let cands = baseCandidates K E (h_tenant h) (h_path h) st
        in case mode of
             ModeTruncate \<Rightarrow> startFresh K E s
           | ModeResume \<Rightarrow> (Inr (), (h\<lparr>h_candidates := cands\<rparr>, st))
           | ModeAppend \<Rightarrow> if cands \<noteq> [] then adopt K E (cands ! 0) s else startFresh K E s)"

definition openUpload ::
    "'db bolt \<Rightarrow> xenv \<Rightarrow> string \<Rightarrow> string \<Rightarrow> string \<Rightarrow> OpenMode \<Rightarrow> bool \<Rightarrow> ('db store, UploadHandle) act" where
  "openUpload K E tenant name protocol mode internal st =
     (case CleanPath name of
        Inl _ \<Rightarrow> (Inl ErrInvalidPath, st)
      | Inr clean \<Rightarrow>
          if clean = [] then (Inl ErrInvalidPath, st)
          else case checkFilePath K tenant clean (v_db st) of
            Some e \<Rightarrow> (Inl e, st)
          | None \<Rightarrow>
              let enter = (if internal then (if v_draining st then (Inl ErrDraining, st) else (Inr False, st))
                           else case AdmitUpload (x_src E) (map_option ga_AdmitUpload (x_gate E)) st tenant of
                             Some e \<Rightarrow> (Inl e, st)
                           | None \<Rightarrow>
                               (case x_gate E of
                                  None \<Rightarrow> (Inr False, st)
                                | Some g \<Rightarrow>
                                    (case ga_AcquireUpload g tenant of
                                       Some e \<Rightarrow> (Inl e, st)
                                     | None \<Rightarrow> (Inr True, st\<lparr>v_slots := v_slots st + 1\<rparr>))))
              in case enter of
                   (Inl e, st1) \<Rightarrow> (Inl e, st1)
                 | (Inr release, st1) \<Rightarrow>
                     (case open_mode K E mode (new_handle tenant clean protocol mode internal release, st1) of
                        (Inl e, s2) \<Rightarrow> (Inl e, snd (releaseResources s2))
                      | (Inr _, (h, st2)) \<Rightarrow> (Inr h, st2\<lparr>v_inflight := v_inflight st2 + 1\<rparr>)))"

definition OpenUpload ::
    "'db bolt \<Rightarrow> xenv \<Rightarrow> string \<Rightarrow> string \<Rightarrow> string \<Rightarrow> OpenMode \<Rightarrow> ('db store, UploadHandle) act" where
  "OpenUpload K E tenant name protocol mode = openUpload K E tenant name protocol mode False"

definition BeginUpload :: "'db bolt \<Rightarrow> xenv \<Rightarrow> string \<Rightarrow> string \<Rightarrow> string \<Rightarrow> ('db store, UploadHandle) act" where
  "BeginUpload K E tenant name protocol = OpenUpload K E tenant name protocol ModeTruncate"

definition BeginUploadFromCurrent :: "'db bolt \<Rightarrow> xenv \<Rightarrow> string \<Rightarrow> string \<Rightarrow> string \<Rightarrow> ('db store, UploadHandle) act" where
  "BeginUploadFromCurrent K E tenant name protocol = OpenUpload K E tenant name protocol ModeResume"

definition BeginInternalUpload :: "'db bolt \<Rightarrow> xenv \<Rightarrow> string \<Rightarrow> string \<Rightarrow> string \<Rightarrow> ('db store, UploadHandle) act" where
  "BeginInternalUpload K E tenant name protocol = openUpload K E tenant name protocol ModeTruncate True"

section \<open>Writing\<close>

text \<open>\<open>resolve\<close>: the first candidate of exactly the offset's size, else the first larger one.\<close>

definition pick_base :: "base list \<Rightarrow> int \<Rightarrow> base option" where
  "pick_base cands off =
     (case find (\<lambda>c. base_size c = off) cands of
        Some c \<Rightarrow> Some c
      | None \<Rightarrow> find (\<lambda>c. off < base_size c) cands)"

definition resolve :: "'db bolt \<Rightarrow> xenv \<Rightarrow> int \<Rightarrow> ('db hs, unit) act" where
  "resolve K E off = with_handle (\<lambda>h.
     if off = 0 then startFresh K E
     else case pick_base (h_candidates h) off of
       Some c \<Rightarrow> adopt K E c
     | None \<Rightarrow> aseq (startFresh K E) (on_handle (\<lambda>h. h\<lparr>h_fillPrefix := True\<rparr>)))"

definition appendOffset :: "int \<Rightarrow> UploadHandle \<Rightarrow> int \<times> UploadHandle" where
  "appendOffset off h =
     (let h' = (if h_appendMode h = 0
                then h\<lparr>h_appendMode := (if 0 < h_baseSize h \<and> off < h_baseSize h then 1 else 2)\<rparr> else h)
      in (if h_appendMode h' = 1 then wrap64 (off + h_baseSize h') else off, h'))"

definition gate_write :: "xenv \<Rightarrow> UploadHandle \<Rightarrow> nat \<Rightarrow> error option" where
  "gate_write E h n =
     (case x_gate E of
        None \<Rightarrow> None
      | Some g \<Rightarrow> if h_unmetered h then ga_CheckCritical g else ga_WaitN g (h_tenant h) n)"

definition write_file :: "xenv \<Rightarrow> string \<Rightarrow> int \<Rightarrow> 'db hs \<Rightarrow> (nat \<times> error option) \<times> 'db hs" where
  "write_file E p off s =
     (case s of (h, st) \<Rightarrow>
        case file_WriteAt E (the (h_file h)) p off st of ((n, eo), st') \<Rightarrow>
          let h1 = (if 0 < n
                    then h\<lparr>h_cov := cov_add off (off + int n) (h_cov h),
                           h_hasher := map_option (sh_write (take n p) off) (h_hasher h)\<rparr> else h);
              h2 = (case eo of None \<Rightarrow> h1 | Some e \<Rightarrow> h1\<lparr>h_failed := Some e\<rparr>)
          in ((n, eo), (h2, st')))"

definition writeLocked ::
    "'db bolt \<Rightarrow> xenv \<Rightarrow> string \<Rightarrow> int \<Rightarrow> bool \<Rightarrow> 'db hs \<Rightarrow> (nat \<times> error option) \<times> 'db hs" where
  "writeLocked K E p off0 translate s0 =
     (case s0 of (h0, st0) \<Rightarrow>
        if h_closed h0 then ((0, Some ErrClosed), s0)
        else case h_failed h0 of
          Some e \<Rightarrow> ((0, Some e), s0)
        | None \<Rightarrow>
            if off0 < 0 then ((0, Some ErrInvalidOffset), s0)
            else case (if h_resolved h0 then (Inr (), s0) else resolve K E off0 s0) of
              (Inl e, (h, st)) \<Rightarrow> ((0, Some e), (h\<lparr>h_failed := Some e, h_fatal := True\<rparr>, st))
            | (Inr _, (h1, st1)) \<Rightarrow>
                (case (if translate then appendOffset off0 h1 else (off0, h1)) of (off, h) \<Rightarrow>
                   case gate_write E h (length p) of
                     Some e \<Rightarrow> ((0, Some e), (h\<lparr>h_failed := Some e\<rparr>, st1))
                   | None \<Rightarrow> write_file E p off (h, st1)))"

definition WriteAt :: "'db bolt \<Rightarrow> xenv \<Rightarrow> string \<Rightarrow> int \<Rightarrow> 'db hs \<Rightarrow> (nat \<times> error option) \<times> 'db hs" where
  "WriteAt K E p off s = writeLocked K E p off (h_mode (fst s) = ModeAppend) s"

definition Append :: "'db bolt \<Rightarrow> xenv \<Rightarrow> string \<Rightarrow> 'db hs \<Rightarrow> (nat \<times> error option) \<times> 'db hs" where
  "Append K E p s = writeLocked K E p (if h_resolved (fst s) then cov_end (h_cov (fst s)) else 0) False s"

definition Truncate :: "'db bolt \<Rightarrow> xenv \<Rightarrow> int \<Rightarrow> ('db hs, unit) act" where
  "Truncate K E sz s0 =
     (case s0 of (h0, st0) \<Rightarrow>
        if h_closed h0 then (Inl ErrClosed, s0)
        else if sz < 0 then (Inl ErrInvalidOffset, s0)
        else case (if h_resolved h0 then (Inr (), s0)
                   else if sz = 0 then startFresh K E s0
                   else case find (\<lambda>c. sz \<le> base_size c) (h_candidates h0) of
                          None \<Rightarrow> (Inl ErrInvalidOffset, s0)
                        | Some c \<Rightarrow> adopt K E c s0) of
          (Inl e, (h, st)) \<Rightarrow> (Inl e, (h\<lparr>h_failed := Some e, h_fatal := True\<rparr>, st))
        | (Inr _, (h, st)) \<Rightarrow>
            (let old = cov_end (h_cov h)
             in case file_Truncate E (the (h_file h)) sz st of
                  (Inl e, st') \<Rightarrow> (Inl e, (h\<lparr>h_failed := Some e\<rparr>, st'))
                | (Inr _, st') \<Rightarrow>
                    (Inr (), (h\<lparr>h_cov := (let c = cov_clip sz (h_cov h) in if old < sz then cov_add old sz c else c),
                               h_baseSize := (if sz < h_baseSize h then sz else h_baseSize h),
                               h_hasher := map_option (sh_truncate sz) (h_hasher h)\<rparr>, st'))))"

text \<open>Reading back; \<open>File.ReadAt\<close> reports the end of the file when it read less than asked for.\<close>

definition io_EOF :: error where
  "io_EOF = ErrIO ''EOF''"

definition ReadAt :: "xenv \<Rightarrow> nat \<Rightarrow> int \<Rightarrow> 'db hs \<Rightarrow> string \<times> error option" where
  "ReadAt E n off s =
     (case s of (h, st) \<Rightarrow>
        case h_file h of
          None \<Rightarrow> ([], Some io_EOF)
        | Some f \<Rightarrow>
            (case (v_files st f, x_io E (OpRead f)) of
               (None, _) \<Rightarrow> ([], Some os_ErrNotExist)
             | (Some F, Some e) \<Rightarrow> ([], Some e)
             | (Some F, None) \<Rightarrow>
                 if off < 0 then ([], Some (ErrIO ''negative offset''))
                 else (take n (drop (nat off) F), if length F < nat off + n then Some io_EOF else None)))"

definition ID :: "UploadHandle \<Rightarrow> string" where
  "ID h = u_ID (h_upload h)"

definition Path :: "UploadHandle \<Rightarrow> string" where
  "Path h = h_path h"

definition BaseSize :: "UploadHandle \<Rightarrow> int" where
  "BaseSize h = h_baseSize h"

definition TransferError :: "error \<Rightarrow> UploadHandle \<Rightarrow> UploadHandle" where
  "TransferError e h = (if h_failed h = None then h\<lparr>h_failed := Some e\<rparr> else h)"

definition Fail :: "error \<Rightarrow> UploadHandle \<Rightarrow> UploadHandle" where
  "Fail e h = h\<lparr>h_failed := Some e, h_fatal := True\<rparr>"

definition SetObjectMeta :: "ObjectMeta \<Rightarrow> UploadHandle \<Rightarrow> UploadHandle" where
  "SetObjectMeta m h = h\<lparr>h_meta := Some m\<rparr>"

section \<open>Closing\<close>

definition copyPrefix :: "xenv \<Rightarrow> base \<Rightarrow> int \<Rightarrow> ('db hs, unit) act" where
  "copyPrefix E b n = with_handle (\<lambda>h.
     aseq (on_store (os_Open E (base_source b)))
    (abind (on_store (copy_file E (base_source b) (the (h_file h)) (Some (nat n)))) (\<lambda>_.
     on_handle (\<lambda>h. h\<lparr>h_cov := cov_add 0 n (h_cov h)\<rparr>))))"

definition fill_prefix :: "xenv \<Rightarrow> ('db hs, unit) act" where
  "fill_prefix E = with_handle (\<lambda>h.
     let first = cov_start (h_cov h)
     in if h_fillPrefix h \<and> 0 < first then
          (case pick_base (h_candidates h) first of
             None \<Rightarrow> afail ErrInvalidOffset
           | Some c \<Rightarrow> aseq (copyPrefix E c first) (on_handle (\<lambda>h. h\<lparr>h_hasher := None\<rparr>)))
        else areturn ())"

definition settle :: "xenv \<Rightarrow> ('db hs, unit) act" where
  "settle E =
     aseq (fill_prefix E)
    (with_handle (\<lambda>h.
       abind (on_store (os_Stat E (the (h_file h)))) (\<lambda>sz.
       if cov_covers sz (h_cov h) then areturn () else afail ErrIncomplete)))"

definition interruptHandle :: "'db bolt \<Rightarrow> xenv \<Rightarrow> error \<Rightarrow> ('db hs, 'a) act" where
  "interruptHandle K E cause = with_handle (\<lambda>h.
     aseq (if 0 \<le> cov_contiguous (h_cov h)
           then aignore (on_store (file_Truncate E (the (h_file h)) (cov_contiguous (h_cov h)))) else areturn ())
    (aseq (on_handle (\<lambda>h. h\<lparr>h_file := None\<rparr>))
    (aseq (aignore (on_store (markUpload K E (h_upload h) StateInterrupted cause)))
          (afail cause))))"

text \<open>\<open>Close\<close> after the handle is marked closed, without its two deferred calls, in three parts.\<close>

definition close_settle :: "'db bolt \<Rightarrow> xenv \<Rightarrow> ('db hs, unit) act" where
  "close_settle K E =
     acatch (settle E) (\<lambda>e.
       if e = ErrIncomplete then interruptHandle K E e
       else with_handle (\<lambda>h. on_store (discard K E (h_upload h) e)))"

definition close_publish :: "'db bolt \<Rightarrow> xenv \<Rightarrow> ('db hs, unit) act" where
  "close_publish K E = with_handle (\<lambda>h.
     let f = the (h_file h)
     in abind (acatch (on_store (abind (os_Stat E f) (\<lambda>sz. aseq (acheck (x_io E (OpSync f))) (areturn sz))))
                 (\<lambda>e. on_store (discard K E (h_upload h) e))) (\<lambda>sz.
        let pre = (case h_hasher h of
                     Some sh \<Rightarrow> if h_baseSize h = 0 then sh_result sz sh else None
                   | None \<Rightarrow> None)
        in aseq (acatch (acheck (x_io E (OpCloseFile f))) (\<lambda>e. on_store (fail K E (h_upload h) e)))
          (aseq (on_handle (\<lambda>h. h\<lparr>h_file := None\<rparr>))
                (on_store (finalize K E (h_upload h) pre (h_meta h))))))"

definition close_body :: "'db bolt \<Rightarrow> xenv \<Rightarrow> ('db hs, unit) act" where
  "close_body K E = with_handle (\<lambda>h.
     case h_failed h of
       Some e \<Rightarrow>
         if h_file h = None then afail e
         else if h_fatal h then on_store (discard K E (h_upload h) e)
         else interruptHandle K E e
     | None \<Rightarrow>
         if \<not> h_resolved h \<and> h_candidates h \<noteq> [] then areturn ()
         else aseq (if h_resolved h then areturn () else startFresh K E) (aseq (close_settle K E) (close_publish K E)))"

definition Close :: "'db bolt \<Rightarrow> xenv \<Rightarrow> ('db hs, unit) act" where
  "Close K E s =
     (if h_closed (fst s) then (Inr (), s)
      else case close_body K E ((fst s)\<lparr>h_closed := True\<rparr>, snd s) of
        (r, s') \<Rightarrow> (case releaseResources s' of (h, st) \<Rightarrow> (r, (h, st\<lparr>v_inflight := v_inflight st - 1\<rparr>))))"

end
