(* ===== verification/Upload_Correct.thy ===== *)
theory Upload_Correct
  imports Upload Tree
begin

text \<open>
  The transactions of \<^verbatim>\<open>upload.go\<close> obey the contract of a write transaction, as long as the upload
  they act on is owned: its record is there, in a state that no other operation touches
  (\<open>owned\<close>). Publishing turns the upload into an object of the same identifier.
\<close>

section \<open>Upload records\<close>

text \<open>The states in which only the handle that opened an upload, or recovery, may change it.\<close>

definition busy :: "upload \<Rightarrow> bool" where
  "busy u \<longleftrightarrow> u_State u = StateUploading \<or> u_State u = StateFinalizing"

definition owned :: "view \<Rightarrow> upload \<Rightarrow> bool" where
  "owned g u \<longleftrightarrow>
     clean_path (u_Path u) \<and> nul \<notin> set (u_Tenant u) \<and> u_ID u \<noteq> [] \<and>
     (\<exists>u0. g BUploads (u_ID u) = Some (CUpload u0) \<and> u_Tenant u0 = u_Tenant u \<and> u_Path u0 = u_Path u \<and> busy u0)"

lemma no_stale_entry:
  assumes "catalog_ok g n" "g BUploads uid = Some (CUpload u)" "busy u"
  shows "g BStale (timeIDKey at uid) = None"
proof -
  have "nul \<notin> set uid" using records_id(2) [OF catalog_okD(1) [OF assms(1)] assms(2)] by simp
  then have "key_tail (timeIDKey at uid) = uid" by (simp add: key_simps)
  then show ?thesis
    using catalog_okD(2) [OF assms(1)] assms(2,3)
    by (auto simp: indexes_ok_iff in_sync_def derived_def busy_def)
qed

lemma graves_upload:
  assumes "catalog_ok g n" "g BUploads uid = Some (CUpload u)"
  shows "g BTombstones uid = None" "g BGC uid = None" "g BObjects uid = None" "nul \<notin> set uid" "u_ID u = uid"
proof -
  have "g BUploads uid \<noteq> None" using assms(2) by simp
  then show "g BTombstones uid = None" "g BGC uid = None" "g BObjects uid = None"
    using catalog_okD(6) [OF assms(1)] unfolding graves_ok_def by (blast, blast, metis)
  show "nul \<notin> set uid" "u_ID u = uid" using records_id(2) [OF catalog_okD(1) [OF assms(1)] assms(2)] by auto
qed

lemma fun_upd_idem_None: "f k = None \<Longrightarrow> f(k := None) = f"
  by auto

context bolt_laws
begin

text \<open>Writing and dropping an upload record with its index entries.\<close>

lemma upload_write_good:
  assumes cat: "cat K s" and view: "contents K s' = write_rec BUploads (CUpload u) (contents K s)" "seqs K s' BQueue = seqs K s BQueue"
    and u: "nul \<notin> set (u_ID u)" "contents K s BTombstones (u_ID u) = None" "contents K s BGC (u_ID u) = None"
      "contents K s BObjects (u_ID u) = None"
    and d: "snd s' = (snd s)\<lparr>d_uploads := d_uploads (snd s) + (if contents K s BUploads (u_ID u) = None then 1 else 0)\<rparr>"
  shows "good K s s'"
proof -
  let ?g = "contents K s" and ?g' = "write_rec BUploads (CUpload u) (contents K s)"
  have "catalog_ok ?g' (seqs K s BQueue)" by (rule upload_write_ok [OF cat [unfolded cat_def] u])
  moreover have "balanced ?g (snd s) ?g' (snd s')"
  proof -
    have "?g' B = ?g B" if "B \<in> {BObjects, BClaims, BGC}" for B using that by (auto simp: write_rec_def indexBuckets_def)
    then have same: "tally ?g' t = tally ?g t" "size_of ?g' BClaims = size_of ?g BClaims" "size_of ?g' BGC = size_of ?g BGC" for t
      by (auto intro!: tally_frame size_frame)
    have "size_of ?g' BUploads = size_of ?g BUploads - (if ?g BUploads (u_ID u) = None then 0 else 1) + (if Some (CUpload u) = None then 0 else 1)"
      by (rule size_upd [OF finite_contents]) (simp add: write_rec_def)
    with same d show ?thesis by (simp add: balanced_def woken_frame)
  qed
  ultimately show ?thesis by (simp add: good_def cat_def view)
qed

lemma upload_drop_balanced:
  assumes fin: "finite (dom (g BUploads))"
  shows "balanced g d (drop_rec BUploads uid g) (d\<lparr>d_uploads := d_uploads d - (if g BUploads uid = None then 0 else 1)\<rparr>)"
proof -
  let ?g' = "drop_rec BUploads uid g"
  have "?g' B = g B" if "B \<in> {BObjects, BClaims, BGC}" for B using that by (auto simp: drop_rec_def indexBuckets_def)
  then have same: "tally ?g' t = tally g t" "size_of ?g' BClaims = size_of g BClaims" "size_of ?g' BGC = size_of g BGC" for t
    by (auto intro!: tally_frame size_frame)
  have "size_of ?g' BUploads = size_of g BUploads - (if g BUploads uid = None then 0 else 1) + (if (None :: cell option) = None then 0 else 1)"
    by (rule size_upd [where g=g and B=BUploads, OF fin]) (simp add: drop_rec_def)
  with same show ?thesis by (simp add: balanced_def woken_frame)
qed

lemma upload_drop_good:
  assumes cat: "cat K s" and view: "contents K s' = drop_rec BUploads uid (contents K s)" "seqs K s' BQueue = seqs K s BQueue"
    and d: "snd s' = (snd s)\<lparr>d_uploads := d_uploads (snd s) - (if contents K s BUploads uid = None then 0 else 1)\<rparr>"
  shows "good K s s'"
  using upload_drop_ok [OF cat [unfolded cat_def], of uid] upload_drop_balanced [of "contents K s" "snd s" uid, OF finite_contents]
  by (simp add: good_def cat_def view d)

lemma start_good:
  assumes cat: "cat K s" and run: "start_tx K u s = Inr (x, s')"
    and fresh: "nul \<notin> set (u_ID u)" "contents K s BUploads (u_ID u) = None" "contents K s BTombstones (u_ID u) = None"
      "contents K s BGC (u_ID u) = None" "contents K s BObjects (u_ID u) = None" "u_State u = StateUploading"
  shows "good K s s'" "contents K s' = write_rec BUploads (CUpload u) (contents K s)"
proof -
  have e: "contents K s' = upd (upd (contents K s) BUploadPaths (uploadPathKey (u_Tenant u) (u_Path u) (u_ID u)) (Some (CRaw [])))
      BUploads (u_ID u) (Some (CUpload u))" "seqs K s' = seqs K s" "snd s' = (snd s)\<lparr>d_uploads := d_uploads (snd s) + 1\<rparr>"
    using run by (auto simp: start_tx_def txn_simps dest!: step_effs)
  show v: "contents K s' = write_rec BUploads (CUpload u) (contents K s)"
  proof
    fix B show "contents K s' B = write_rec BUploads (CUpload u) (contents K s) B"
      using fresh(2,6) by (cases B) (simp_all add: e write_rec_def indexBuckets_def)
  qed
  show "good K s s'" by (rule upload_write_good [OF cat v]) (use e fresh in simp_all)
qed

text \<open>Rewriting the record of an owned upload.\<close>

lemma busy_write_view:
  assumes cat: "cat K s" and u0: "contents K s BUploads (u_ID u) = Some (CUpload u0)" "u_Tenant u0 = u_Tenant u" "u_Path u0 = u_Path u" "busy u0"
    and e: "contents K s' = upd (upd (contents K s) BStale (timeIDKey at (u_ID u)) st) BUploads (u_ID u) (Some (CUpload u))"
    and st: "st = (if u_State u = StateInterrupted \<or> u_State u = StateFailed then Some (CRaw []) else None)"
      "st \<noteq> None \<Longrightarrow> at = u_UpdatedAt u"
  shows "contents K s' = write_rec BUploads (CUpload u) (contents K s)"
proof
  fix B
  note stale = no_stale_entry [OF cat [unfolded cat_def] u0(1,4)] and g = graves_upload [OF cat [unfolded cat_def] u0(1)]
  have path: "contents K s BUploadPaths (uploadPathKey (u_Tenant u) (u_Path u) (u_ID u)) = Some (CRaw [])"
    using catalog_okD(2) [OF cat [unfolded cat_def]] u0 g(4,5)
    by (simp add: indexes_ok_iff in_sync_def derived_def key_simps)
  show "contents K s' B = write_rec BUploads (CUpload u) (contents K s) B"
    using u0 stale g st path
    by (cases B) (auto simp: e write_rec_def indexBuckets_def busy_def fun_eq_iff)
qed

lemma own_write_view:
  assumes cat: "cat K s" and own: "owned (contents K s) u"
    and e: "contents K s' = upd (upd (contents K s) BStale (timeIDKey at (u_ID u)) st) BUploads (u_ID u) (Some (CUpload u))"
    and st: "st = (if u_State u = StateInterrupted \<or> u_State u = StateFailed then Some (CRaw []) else None)"
      "st \<noteq> None \<Longrightarrow> at = u_UpdatedAt u"
  shows "contents K s' = write_rec BUploads (CUpload u) (contents K s)"
  using own busy_write_view [OF cat _ _ _ _ e st] by (auto simp: owned_def)

lemma own_write_good:
  assumes cat: "cat K s" and own: "owned (contents K s) u"
    and v: "contents K s' = write_rec BUploads (CUpload u) (contents K s)" and q: "seqs K s' BQueue = seqs K s BQueue" "snd s' = snd s"
  shows "good K s s'"
proof -
  from own obtain u0 where u0: "contents K s BUploads (u_ID u) = Some (CUpload u0)" by (auto simp: owned_def)
  note g = graves_upload [OF cat [unfolded cat_def] u0]
  show ?thesis by (rule upload_write_good [OF cat v q(1)]) (use g q u0 in simp_all)
qed

lemma finalizing_good:
  assumes cat: "cat K s" and own: "owned (contents K s) u" and st: "u_State u = StateFinalizing"
    and run: "tput K BUploads (u_ID u) (CUpload u) s = Inr (x, s')"
  shows "good K s s'" "contents K s' = write_rec BUploads (CUpload u) (contents K s)"
proof -
  note e = tput_eff [OF run]
  from own obtain u0 where u0: "contents K s BUploads (u_ID u) = Some (CUpload u0)" "busy u0" by (auto simp: owned_def)
  have "upd (contents K s) BStale (timeIDKey zero_time (u_ID u)) None = contents K s"
    using no_stale_entry [OF cat [unfolded cat_def] u0] by (simp add: upd_def fun_upd_idem_None)
  with e(1) show v: "contents K s' = write_rec BUploads (CUpload u) (contents K s)"
    by (intro own_write_view [OF cat own, of s' zero_time None]) (simp_all add: st)
  show "good K s s'" by (rule own_write_good [OF cat own v]) (use e in simp_all)
qed

lemma mark_good:
  assumes cat: "cat K s" and own: "owned (contents K s) u" and st: "u_State u = StateInterrupted \<or> u_State u = StateFailed"
    and run: "mark_tx K prev u s = Inr (x, s')"
  shows "good K s s'" "contents K s' = write_rec BUploads (CUpload u) (contents K s)"
proof -
  from own obtain u0 where u0: "contents K s BUploads (u_ID u) = Some (CUpload u0)" "busy u0" by (auto simp: owned_def)
  have no: "upd (contents K s) BStale (timeIDKey at (u_ID u)) None = contents K s" for at
    using no_stale_entry [OF cat [unfolded cat_def] u0] by (simp add: upd_def fun_upd_idem_None)
  from run u0(1) st obtain s1 s2 where s1: "ttry (tdel K BStale (timeIDKey (u_UpdatedAt u0) (u_ID u))) s = Inr ((), s1)"
    and s2: "tput K BStale (timeIDKey (u_UpdatedAt u) (u_ID u)) (CRaw []) s1 = Inr ((), s2)"
    and s': "tput K BUploads (u_ID u) (CUpload u) s2 = Inr (x, s')"
    by (auto simp: mark_tx_def txn_simps)
  note e1 = ttry_tdel_eff [OF s1] and e2 = tput_eff [OF s2] and e3 = tput_eff [OF s']
  have c1: "contents K s1 = contents K s" using e1 no by simp
  show v: "contents K s' = write_rec BUploads (CUpload u) (contents K s)"
    by (rule own_write_view [OF cat own, of s' "u_UpdatedAt u" "Some (CRaw [])"]) (use e2 e3 st c1 in simp_all)
  show "good K s s'" by (rule own_write_good [OF cat own v]) (use e1 e2 e3 in simp_all)
qed

section \<open>Publishing\<close>

lemma drop_upload_eff:
  assumes run: "drop_upload K u s = Inr (x, s')" and u0: "contents K s BUploads (u_ID u) = Some (CUpload u0)"
    "u_Tenant u0 = u_Tenant u" "u_Path u0 = u_Path u" "busy u0" "u_ID u0 = u_ID u"
  shows "contents K s' = drop_rec BUploads (u_ID u) (contents K s)" "seqs K s' = seqs K s"
    "snd s' = (snd s)\<lparr>d_uploads := d_uploads (snd s) - 1\<rparr>"
proof -
  let ?del = "tseq (tmod (\<lambda>d. d\<lparr>d_uploads := d_uploads d - 1\<rparr>)) (tdel K BUploads (u_ID u))"
  from run obtain s1 where s1: "ttry (tdel K BUploadPaths (uploadPathKey (u_Tenant u) (u_Path u) (u_ID u))) s = Inr ((), s1)"
    and r0: "(if contents K s1 BUploads (u_ID u) = None then ret () else ?del) s1 = Inr (x, s')"
    by (auto simp: drop_upload_def tseq_Inr tbind_Inr tget_Inr)
  note e1 = ttry_tdel_eff [OF s1]
  from r0 e1 u0(1) have r: "?del s1 = Inr (x, s')" by simp
  have e2: "contents K s' = upd (contents K s1) BUploads (u_ID u) None" "seqs K s' = seqs K s1"
    "snd s' = (snd s1)\<lparr>d_uploads := d_uploads (snd s1) - 1\<rparr>"
    using r by (auto simp: txn_simps dest!: step_effs)
  show "seqs K s' = seqs K s" "snd s' = (snd s)\<lparr>d_uploads := d_uploads (snd s) - 1\<rparr>" using e1 e2 by simp_all
  show "contents K s' = drop_rec BUploads (u_ID u) (contents K s)"
  proof
    fix B show "contents K s' B = drop_rec BUploads (u_ID u) (contents K s) B"
      using u0 e1 e2 by (cases B) (auto simp: drop_rec_def indexBuckets_def busy_def)
  qed
qed

end

text \<open>The other transactions leave upload records and their indexes alone.\<close>

definition uploads_same :: "view \<Rightarrow> view \<Rightarrow> bool" where
  "uploads_same g g' \<longleftrightarrow> (\<forall>B\<in>{BUploads, BUploadPaths, BStale}. g' B = g B)"

lemma uploads_same_upd [simp]: "B \<notin> {BUploads, BUploadPaths, BStale} \<Longrightarrow> uploads_same g (upd g B k c)"
  by (auto simp: uploads_same_def)

sublocale bolt_laws \<subseteq> ups: step_relation K uploads_same
  by unfold_locales (auto simp: uploads_same_def)

context bolt_laws
begin

lemma ups_put: "B \<notin> {BUploads, BUploadPaths, BStale} \<Longrightarrow> ups.stays (tput K B k c)"
  by (rule ups.stays_put) simp

lemma ups_del: "B \<notin> {BUploads, BUploadPaths, BStale} \<Longrightarrow> ups.stays (tdel K B k)"
  by (rule ups.stays_del) simp

lemma ups_putObject: "ups.stays (putObject K ob)"
  by (rule ups.stays_putObject) simp

lemmas ups_intros = ups.stays_intros ups_put ups_del ups_putObject

lemma ups_queue:
  "ups.stays (putQueueEntries K ob)" "ups.stays (enqueue K ob v)" "ups.stays (dequeue K ob)"
  by (auto simp: putQueueEntries_def enqueue_def dequeue_def Let_def intro!: ups_intros)

lemma ups_delete: "ups.stays (deleteObjectTx K now ob reason)"
  unfolding deleteObjectTx_def delete_lease_def delete_state_entry_def bury_def delete_record_def
  by (cases "o_State ob") (auto simp: Let_def intro!: ups_intros ups_queue split: state.splits)

lemma ups_replacePath: "ups.stays (replacePath K now tenant p supersede reason)"
  by (auto simp: replacePath_def Let_def intro!: ups_intros ups_delete)

lemma ups_sameD: "ups.stays m \<Longrightarrow> m s = Inr (x, s') \<Longrightarrow> B \<in> {BUploads, BUploadPaths, BStale} \<Longrightarrow> contents K s' B = contents K s B"
  using ups.staysD [of m s x s'] unfolding uploads_same_def by blast

text \<open>A place for an object of a new identifier.\<close>

lemma place_new:
  assumes ok: "catalog_ok (contents K s) (seqs K s BQueue)"
    and ob: "o_ID ob \<noteq> []" "clean_path (o_Path ob)" "nul \<notin> set (o_Tenant ob)" "nul \<notin> set (o_ID ob)"
      "o_QueueSeq ob = 0" "o_LeaseID ob = []" "\<not> o_Retracted ob"
    and fresh: "contents K s BObjects (o_ID ob) = None"
    and run: "place K ob StateNone pol now s = Inr (ob', s')"
  shows "o_ID ob' = o_ID ob" "o_Tenant ob' = o_Tenant ob" "o_Path ob' = o_Path ob" "\<not> o_Retracted ob'"
    "contents K s' = set_object ob' None (contents K s)" "obj_ok ob'" "o_State ob' \<noteq> StateLeased"
    "seqs K s BQueue \<le> seqs K s' BQueue" "seqs K s' BQueue < 2 ^ 64"
    "o_QueueSeq ob' = 0 \<or> seqs K s BQueue < o_QueueSeq ob' \<and> o_QueueSeq ob' \<le> seqs K s' BQueue"
    "snd s' = move ob' StateNone (o_State ob') (snd s)"
    "ob' = ob\<lparr>o_State := o_State ob', o_QueueSeq := o_QueueSeq ob', o_VisibleAt := o_VisibleAt ob'\<rparr>"
proof -
  have n: "seqs K s BQueue < 2 ^ 64" using catalog_okD(7) [OF ok] by (simp add: queue_seq_ok_def)
  have "o_ID ob' = o_ID ob \<and> o_Tenant ob' = o_Tenant ob \<and> o_Path ob' = o_Path ob \<and> \<not> o_Retracted ob' \<and>
    obj_ok ob' \<and> o_State ob' \<noteq> StateLeased \<and> seqs K s BQueue \<le> seqs K s' BQueue \<and> seqs K s' BQueue < 2 ^ 64 \<and>
    (o_QueueSeq ob' = 0 \<or> seqs K s BQueue < o_QueueSeq ob' \<and> o_QueueSeq ob' \<le> seqs K s' BQueue) \<and>
    snd s' = move ob' StateNone (o_State ob') (snd s) \<and>
    ob' = ob\<lparr>o_State := o_State ob', o_QueueSeq := o_QueueSeq ob', o_VisibleAt := o_VisibleAt ob'\<rparr> \<and>
    (\<forall>B. contents K s' B = set_object ob' None (contents K s) B)"
  proof (cases rule: place_cases [OF run, case_names held ready])
    case held
    have "contents K s' B = set_object ob' None (contents K s) B" for B
      using ob fresh by (cases B) (simp_all add: held(2,3) view_defs)
    with ob n show ?thesis by (simp add: held(2,4,5) obj_ok_def)
  next
    case ready
    have "contents K s' B = set_object ob' None (contents K s) B" for B
      using ob fresh by (cases B) (simp_all add: ready(2,5) view_defs)
    with ob ready(3) show ?thesis by (simp add: ready(2,4,6) obj_ok_def)
  qed
  then show "o_ID ob' = o_ID ob" "o_Tenant ob' = o_Tenant ob" "o_Path ob' = o_Path ob" "\<not> o_Retracted ob'"
    "contents K s' = set_object ob' None (contents K s)" "obj_ok ob'" "o_State ob' \<noteq> StateLeased"
    "seqs K s BQueue \<le> seqs K s' BQueue" "seqs K s' BQueue < 2 ^ 64"
    "o_QueueSeq ob' = 0 \<or> seqs K s BQueue < o_QueueSeq ob' \<and> o_QueueSeq ob' \<le> seqs K s' BQueue"
    "snd s' = move ob' StateNone (o_State ob') (snd s)"
    "ob' = ob\<lparr>o_State := o_State ob', o_QueueSeq := o_QueueSeq ob', o_VisibleAt := o_VisibleAt ob'\<rparr>"
    by blast+
qed

end

lemma move_uploads: "move ob st0 st1 (d\<lparr>d_uploads := n\<rparr>) = (move ob st0 st1 d)\<lparr>d_uploads := n\<rparr>" "d_uploads (move ob st0 st1 d) = d_uploads d"
  by (simp_all add: move_def Let_def wake_def)

text \<open>The object a publication leaves: what the upload says, placed as its name calls for.\<close>

definition published :: "upload \<Rightarrow> string \<Rightarrow> string \<Rightarrow> int \<Rightarrow> ObjectMeta option \<Rightarrow> gotime \<Rightarrow> view \<Rightarrow> bool" where
  "published u blob digest sz meta now g \<longleftrightarrow>
     (\<exists>ob seq. g BObjects (u_ID u) = Some (CObject ob) \<and>
        g BNamespace (nsKey (u_Tenant u) (u_Path u)) = Some (CRaw (u_ID u)) \<and> g BUploads (u_ID u) = None \<and>
        o_State ob \<in> {StateReady, StateHeld} \<and>
        ob = (new_object u blob digest sz meta seq now)
               \<lparr>o_State := o_State ob, o_QueueSeq := o_QueueSeq ob, o_VisibleAt := o_VisibleAt ob\<rparr>)"

text \<open>Dropping the upload after the object was written is the same as before.\<close>

lemma publish_view:
  "drop_rec BUploads uid (upd (set_object ob None g) BNamespace k c) = upd (set_object ob None (drop_rec BUploads uid g)) BNamespace k c"
proof
  fix B
  have "drop_claim oid (drop_rec BUploads uid g) BClaims = drop_claim oid g BClaims" for oid
    by (auto simp: drop_claim_def free_claim_def drop_rec_def indexBuckets_def split: option.splits cell.splits)
  then show "drop_rec BUploads uid (upd (set_object ob None g) BNamespace k c) B =
      upd (set_object ob None (drop_rec BUploads uid g)) BNamespace k c B"
    by (cases B) (simp_all add: drop_rec_def set_object_def write_rec_def claim_upd_def indexBuckets_def)
qed

context bolt_laws
begin

lemma publish_run:
  assumes cat: "cat K s" and own: "owned (contents K s) u"
    and run: "publish_tx K pol now u blob digest sz meta s = Inr (victim, s')"
  obtains s1 s2 s3 s4 seq ob where
    "checkFilePath K (u_Tenant u) (u_Path u) (fst s) = None"
    "contents K s1 = contents K s" "seqs K s1 BQueue = seqs K s BQueue" "snd s1 = snd s"
    "replacePath K now (u_Tenant u) (u_Path u) (p_Supersede pol) ''superseded'' s1 = Inr (victim, s2)"
    "place K (new_object u blob digest sz meta seq now) StateNone pol now s2 = Inr (ob, s3)"
    "tput K BNamespace (nsKey (o_Tenant ob) (o_Path ob)) (CRaw (o_ID ob)) s3 = Inr ((), s4)"
    "drop_upload K u s4 = Inr ((), s')"
proof -
  from own obtain u0 where u0: "contents K s BUploads (u_ID u) = Some (CUpload u0)" by (auto simp: owned_def)
  have "json_object (contents K s BObjects (u_ID u)) = Inl ErrNotFound"
    using graves_upload(3) [OF cat [unfolded cat_def] u0] by simp
  with run obtain s1 seq s2 ob s3 s4 where c: "checkFilePath K (u_Tenant u) (u_Path u) (fst s) = None"
    "tnext K BVersions s = Inr (seq, s1)"
    "replacePath K now (u_Tenant u) (u_Path u) (p_Supersede pol) ''superseded'' s1 = Inr (victim, s2)"
    "place K (new_object u blob digest sz meta seq now) StateNone pol now s2 = Inr (ob, s3)"
    "tput K BNamespace (nsKey (o_Tenant ob) (o_Path ob)) (CRaw (o_ID ob)) s3 = Inr ((), s4)"
    "drop_upload K u s4 = Inr ((), s')"
    by (auto simp: publish_tx_def txn_simps split: option.splits sum.splits)
  note e = tnext_eff [OF c(2)]
  show thesis by (rule that [OF c(1) _ _ _ c(3-6)]) (use e in simp_all)
qed

lemma publish_good:
  assumes cat: "cat K s" and own: "owned (contents K s) u"
    and run: "publish_tx K pol now u blob digest sz meta s = Inr (victim, s')"
  shows "good K s s'" "published u blob digest sz meta now (contents K s')"
    "tree_ok (contents K s) \<Longrightarrow> tree_ok (contents K s')"
proof -
  from own have u: "clean_path (u_Path u)" "nul \<notin> set (u_Tenant u)" "u_ID u \<noteq> []" by (auto simp: owned_def)
  from own obtain u0 where u0: "contents K s BUploads (u_ID u) = Some (CUpload u0)" "u_Tenant u0 = u_Tenant u" "u_Path u0 = u_Path u" "busy u0"
    by (auto simp: owned_def)
  from publish_run [OF cat own run] obtain s1 s2 s3 s4 seq ob where
    chk: "checkFilePath K (u_Tenant u) (u_Path u) (fst s) = None"
    and e1: "contents K s1 = contents K s" "seqs K s1 BQueue = seqs K s BQueue" "snd s1 = snd s"
    and rp: "replacePath K now (u_Tenant u) (u_Path u) (p_Supersede pol) ''superseded'' s1 = Inr (victim, s2)"
    and pl: "place K (new_object u blob digest sz meta seq now) StateNone pol now s2 = Inr (ob, s3)"
    and nm: "tput K BNamespace (nsKey (o_Tenant ob) (o_Path ob)) (CRaw (o_ID ob)) s3 = Inr ((), s4)"
    and dr: "drop_upload K u s4 = Inr ((), s')" .
  have g1: "good K s s1" using cat e1 by (simp add: good_def cat_def)
  have g2: "good K s1 s2" by (rule replacePath_good [OF good_cat [OF g1] u(2) rp])
  note cat2 = good_cat [OF g2]
  let ?g = "contents K s2"
  have u2: "?g BUploads (u_ID u) = Some (CUpload u0)" using ups_sameD [OF ups_replacePath rp, of BUploads] e1 u0(1) by simp
  note gr = graves_upload [OF cat2 [unfolded cat_def] u2]
  note p = place_new [OF cat2 [unfolded cat_def] _ _ _ _ _ _ _ _ pl]
  have ob: "o_ID ob = u_ID u" "o_Tenant ob = u_Tenant u" "o_Path ob = u_Path u" "\<not> o_Retracted ob"
    "contents K s3 = set_object ob None ?g" "obj_ok ob" "o_State ob \<noteq> StateLeased"
    "seqs K s2 BQueue \<le> seqs K s3 BQueue" "seqs K s3 BQueue < 2 ^ 64"
    "o_QueueSeq ob = 0 \<or> seqs K s2 BQueue < o_QueueSeq ob \<and> o_QueueSeq ob \<le> seqs K s3 BQueue"
    "snd s3 = move ob StateNone (o_State ob) (snd s2)"
    "ob = (new_object u blob digest sz meta seq now)\<lparr>o_State := o_State ob, o_QueueSeq := o_QueueSeq ob, o_VisibleAt := o_VisibleAt ob\<rparr>"
    using p u gr by (simp_all add: new_object_def)
  note n = tput_eff [OF nm]
  have u4: "contents K s4 BUploads (u_ID u) = Some (CUpload u0)" using n ob(5) u2 by simp
  note d = drop_upload_eff [OF dr u4 u0(2-4) gr(5)]
  let ?d = "drop_rec BUploads (u_ID u) ?g"
  have final: "contents K s' = upd (set_object ob None ?d) BNamespace (nsKey (u_Tenant u) (u_Path u)) (Some (CRaw (u_ID u)))"
    using d(1) n ob(1-3,5) publish_view [of "u_ID u" ob ?g] by simp
  have cd: "catalog_ok ?d (seqs K s2 BQueue)" by (rule upload_drop_ok [OF cat2 [unfolded cat_def]])
  have noname: "?d BNamespace k \<noteq> Some (CRaw (u_ID u))" for k
  proof
    assume "?d BNamespace k = Some (CRaw (u_ID u))"
    then have "?g BNamespace k = Some (CRaw (u_ID u))" by (simp add: drop_rec_def indexBuckets_def)
    with catalog_okD(5) [OF cat2 [unfolded cat_def]] obtain o' where "CRaw (u_ID u) = CRaw (o_ID o')" "?g BObjects (o_ID o') = Some (CObject o')"
      by (rule name_object)
    with gr(3) show False by (metis cell.inject(7) option.distinct(1))
  qed
  have fr: "?d B = ?g B" if "B \<in> {BObjects, BClaims, BTombstones, BGC}" for B using that by (auto simp: drop_rec_def indexBuckets_def)
  have may: "may_set ob None ?d (seqs K s2 BQueue) (seqs K s3 BQueue)"
    unfolding may_set_def using ob gr fr noname by (auto simp: drop_rec_def)
  have cs: "catalog_ok (set_object ob None ?d) (seqs K s3 BQueue)" by (rule set_object_ok [OF cd may])
  have cat': "cat K s'"
    unfolding cat_def final using name_put_ok [OF cs, of ob] ob(1-4) d(2) n by (simp add: set_object_objects)
  have b1: "balanced ?g (snd s2) ?d ((snd s2)\<lparr>d_uploads := d_uploads (snd s2) - 1\<rparr>)"
    using upload_drop_balanced [of ?g "snd s2" "u_ID u", OF finite_contents] u2 by simp
  have b2: "balanced ?d ((snd s2)\<lparr>d_uploads := d_uploads (snd s2) - 1\<rparr>) (set_object ob None ?d) (snd s')"
  proof (rule set_object_balanced)
    show "finite (dom (?d B))" for B
      using finite_subset [of "dom (?d B)" "dom (?g B)"] finite_contents [of s2]
      by (auto simp: drop_rec_def del_entry_def intro: finite_subset [OF _ finite_contents [of s2]] split: option.splits)
    show "cell_opt_stats (o_Tenant ob) (?d BObjects (o_ID ob)) = state_stats ob StateNone"
      "t \<noteq> o_Tenant ob \<Longrightarrow> cell_opt_stats t (?d BObjects (o_ID ob)) = 0" for t
      using gr(3) ob(1) fr by (simp_all add: cell_opt_stats_def state_stats_def)
    have "set_object ob None ?d BClaims = ?d BClaims"
      using gr(3) ob(1) fr by (simp add: set_object_claims claim_upd_def drop_claim_def)
    moreover have "snd s' = move ob StateNone (o_State ob) ((snd s2)\<lparr>d_uploads := d_uploads (snd s2) - 1\<rparr>)"
      using d(3) n ob(11) by (simp add: move_uploads)
    ultimately show "delta_moves ob StateNone (size_of (set_object ob None ?d) BClaims - size_of ?d BClaims)
        ((snd s2)\<lparr>d_uploads := d_uploads (snd s2) - 1\<rparr>) (snd s')"
      using delta_moves_new [of "o_State ob" ob] by (simp add: size_of_def)
  qed
  have "balanced ?g (snd s2) (contents K s') (snd s')"
    by (rule balanced_frame [OF balanced_trans [OF b1 b2]]) (auto simp: final)
  then have "good K s2 s'" using cat' by (simp add: good_def)
  with g1 g2 show "good K s s'" by (blast intro: good_trans)
  show "published u blob digest sz meta now (contents K s')"
    unfolding published_def
  proof (intro exI conjI)
    show "contents K s' BObjects (u_ID u) = Some (CObject ob)" using ob(1) by (simp add: final set_object_objects)
    show "contents K s' BNamespace (nsKey (u_Tenant u) (u_Path u)) = Some (CRaw (u_ID u))" by (simp add: final)
    show "contents K s' BUploads (u_ID u) = None" by (simp add: final drop_rec_def)
    show "o_State ob \<in> {StateReady, StateHeld}"
      by (cases rule: place_cases [OF pl]) auto
    show "ob = (new_object u blob digest sz meta seq now)\<lparr>o_State := o_State ob, o_QueueSeq := o_QueueSeq ob, o_VisibleAt := o_VisibleAt ob\<rparr>"
      by (rule ob(12))
  qed
  show "tree_ok (contents K s')" if ok: "tree_ok (contents K s)"
  proof (rule tree_add_name [OF cat u(2,1) ok])
    have sh: "tree_shrinks (contents K s) ?g"
      using tree.staysD [OF tree_replacePath rp] e1 by simp
    show "contents K s BDirectories (nsKey (u_Tenant u) (u_Path u)) = None" "\<not> hasChildren K (u_Tenant u) (u_Path u) (fst s)"
      "checkAncestors K (u_Tenant u) (u_Path u) (fst s) = None"
      using chk by (auto simp: checkFilePath_def contents_def split: if_splits)
    show "contents K s' BNamespace k \<noteq> None \<Longrightarrow> contents K s BNamespace k \<noteq> None \<or> k = nsKey (u_Tenant u) (u_Path u)" for k
      using sh unfolding tree_shrinks_def by (auto simp: final drop_rec_def indexBuckets_def split: if_splits)
    show "contents K s' BDirectories k \<noteq> None \<Longrightarrow> contents K s BDirectories k \<noteq> None" for k
      using sh unfolding tree_shrinks_def by (auto simp: final drop_rec_def indexBuckets_def)
  qed
qed

end

end
