(* ===== verification/Upload_Handle.thy ===== *)
theory Upload_Handle
  imports Upload_Correct
begin

text \<open>
  The invariant of an open upload handle and the store under it: the store is sound, the handle owns
  its upload record, its staging file exists, the coverage is canonical and lies inside the file, and
  the running hash is in step with the file. Every operation keeps it; the proofs run the operations
  with weakest preconditions.
\<close>

section \<open>Where files live\<close>

lemma split_on_tail: "slash \<notin> set c \<Longrightarrow> split_on slash (X @ slash # c) = split_on slash X @ [c]"
proof (induction X)
  case (Cons x X)
  obtain y ys where "split_on slash X = y # ys" by (cases "split_on slash X") auto
  with Cons show ?case by simp
qed (simp add: split_on_id)

lemma clean_comps_snoc:
  "c \<noteq> [] \<Longrightarrow> c \<noteq> ''.'' \<Longrightarrow> c \<noteq> ''..'' \<Longrightarrow> clean_comps r st (cs @ [c]) = clean_comps r st cs @ [c]"
  by (induction cs arbitrary: st) (auto split: list.splits)

lemma clean_comps_set: "set (clean_comps r st cs) \<subseteq> insert ''..'' (set st \<union> set cs)"
proof (induction cs arbitrary: st)
  case (Cons c cs)
  consider "c = [] \<or> c = ''.''" | "c = ''..''" "st = []" | s ss where "c = ''..''" "st = s # ss" | "c \<notin> {[], ''.'', ''..''}"
    by (cases st) auto
  then show ?case using Cons by cases (auto, (fastforce split: if_splits)+)
qed auto

text \<open>A file name survives cleaning as the last component.\<close>

lemma path_Clean_tail:
  assumes "real_segment c" "slash \<notin> set c"
  shows "last (split_on slash (path_Clean (X @ slash # c))) = c"
proof -
  let ?p = "X @ slash # c" and ?r = "hd (X @ slash # c) = slash"
  let ?ys = "clean_comps ?r [] (split_on slash X)"
  have comps: "clean_comps ?r [] (split_on slash ?p) = ?ys @ [c]"
    using assms by (simp add: split_on_tail clean_comps_snoc real_segment_def)
  have "x \<in> set (?ys @ [c]) \<Longrightarrow> slash \<notin> set x" for x
    using assms(2) clean_comps_set [of ?r "[]" "split_on slash X"] split_on_no_sep [of x slash X] by auto
  then have split: "split_on slash (join_with slash (?ys @ [c])) = ?ys @ [c]" by (intro split_on_join) auto
  have "join_with slash (?ys @ [c]) \<noteq> []" using assms by (simp add: real_segment_def)
  moreover have "path_Clean ?p = (let s = join_with slash (clean_comps ?r [] (split_on slash ?p))
      in if ?r then slash # s else if s = [] then ''.'' else s)" by (simp add: path_Clean_def Let_def)
  ultimately have "path_Clean ?p = join_with slash (?ys @ [c]) \<or> path_Clean ?p = slash # join_with slash (?ys @ [c])"
    unfolding comps Let_def by presburger
  then show ?thesis by (auto simp: split)
qed

lemma filepath_Join_filter: "filepath_Join (filter (\<lambda>e. e \<noteq> []) es @ fs) = filepath_Join (es @ fs)"
  by (simp add: filepath_Join_def)

lemma filepath_Join_tail:
  assumes "real_segment c" "slash \<notin> set c" "es \<noteq> []" "[] \<notin> set es"
  shows "last (split_on slash (filepath_Join (es @ [c]))) = c"
proof -
  have f: "filter (\<lambda>e. e \<noteq> []) (es @ [c]) = es @ [c]" using assms by (auto simp: real_segment_def intro!: filter_True)
  have j: "join_with slash (es @ [c]) = join_with slash es @ slash # c" using assms(3)
    by (induction slash es rule: join_with.induct) auto
  show ?thesis unfolding filepath_Join_def Let_def f j using path_Clean_tail [OF assms(1,2)] by simp
qed

definition stagePath :: "string \<Rightarrow> string \<Rightarrow> string \<Rightarrow> string" where
  "stagePath root tenant uid = filepath_Join [filepath_Join [root, ''staging'', tenant], uid @ ''.partial'']"

lemma ext_segment: "slash \<notin> set uid \<Longrightarrow> real_segment (uid @ ''.blob'') \<and> slash \<notin> set (uid @ ''.blob'')"
  "slash \<notin> set uid \<Longrightarrow> real_segment (uid @ ''.partial'') \<and> slash \<notin> set (uid @ ''.partial'')"
  by (auto simp: real_segment_def append_eq_Cons_conv)

lemma blobPath_tail:
  assumes "slash \<notin> set uid"
  shows "last (split_on slash (blobPath root tenant uid)) = uid @ ''.blob''"
proof -
  let ?es = "filter (\<lambda>e. e \<noteq> []) [root, ''objects'', tenant]"
  have "blobPath root tenant uid = filepath_Join (?es @ [uid @ ''.blob''])"
    unfolding filepath_Join_filter by (simp add: blobPath_def)
  then show ?thesis using filepath_Join_tail [of "uid @ ''.blob''" ?es] ext_segment(1) [OF assms] by simp
qed

lemma filepath_Join_ne: "es \<noteq> [] \<Longrightarrow> [] \<notin> set es \<Longrightarrow> filepath_Join es \<noteq> []"
proof -
  assume es: "es \<noteq> []" "[] \<notin> set es"
  then have "filter (\<lambda>e. e \<noteq> []) es = es" by (auto intro!: filter_True)
  moreover have "path_Clean p \<noteq> []" for p by (simp add: path_Clean_def Let_def)
  ultimately show ?thesis using es by (simp add: filepath_Join_def)
qed

lemma stagePath_tail:
  assumes "slash \<notin> set uid"
  shows "last (split_on slash (stagePath root tenant uid)) = uid @ ''.partial''"
proof -
  let ?d = "filepath_Join [root, ''staging'', tenant]"
  have "?d = filepath_Join (filter (\<lambda>e. e \<noteq> []) [root, ''staging'', tenant])"
    using filepath_Join_filter [of "[root, ''staging'', tenant]" "[]"] by simp
  moreover have "filter (\<lambda>e. e \<noteq> []) [root, ''staging'', tenant] \<noteq> []" by simp
  moreover have "[] \<notin> set (filter (\<lambda>e. e \<noteq> []) l)" for l :: "string list" by simp
  ultimately have "?d \<noteq> []" using filepath_Join_ne by presburger
  then show ?thesis
    using filepath_Join_tail [of "uid @ ''.partial''" "[?d]"] ext_segment(2) [OF assms] by (simp add: stagePath_def)
qed

lemma stage_not_blob: "slash \<notin> set a \<Longrightarrow> slash \<notin> set b \<Longrightarrow> stagePath root t a \<noteq> blobPath root' t' b"
proof
  assume a: "slash \<notin> set a" "slash \<notin> set b" "stagePath root t a = blobPath root' t' b"
  then have "a @ ''.partial'' = b @ ''.blob''" using stagePath_tail [of a root t] blobPath_tail [of b root' t'] by simp
  then show False using arg_cong [of "a @ ''.partial''" "b @ ''.blob''" last] by simp
qed

lemma blobPath_inj: "slash \<notin> set a \<Longrightarrow> slash \<notin> set b \<Longrightarrow> blobPath root t a = blobPath root' t' b \<Longrightarrow> a = b"
  using blobPath_tail [of a root t] blobPath_tail [of b root' t'] by simp

section \<open>The store under an upload\<close>

definition store_fine :: "'db bolt \<Rightarrow> 'db store \<Rightarrow> bool" where
  "store_fine K st \<longleftrightarrow> store_ok K st \<and> tree_ok (b_get K (v_db st))"

text \<open>What the operations hold of the capacity gate, and the number of open handles.\<close>

definition held_res :: "'db store \<Rightarrow> int \<times> int \<times> int \<times> bool" where
  "held_res st = (v_slots st, v_reserved st, v_inflight st, v_draining st)"

lemma write_rec_tree: "tree_ok g \<Longrightarrow> tree_ok (write_rec BUploads c g)"
  by (rule tree_ok_shrinks) (auto simp: tree_shrinks_def write_rec_def indexBuckets_def)

lemma files_fine [simp]: "store_fine K (st\<lparr>v_files := F\<rparr>) = store_fine K st" "held_res (st\<lparr>v_files := F\<rparr>) = held_res st"
  by (simp_all add: store_fine_def store_ok_def held_res_def)

lemma collect_fine [simp]:
  "store_fine K (collect root rm gated oid tenant blob sz st) = store_fine K st"
  "held_res (collect root rm gated oid tenant blob sz st) = held_res st"
  "v_db (collect root rm gated oid tenant blob sz st) = v_db st"
  by (simp_all add: collect_def Let_def store_fine_def store_ok_def held_res_def)

lemma collect_files:
  "v_files (collect root rm gated oid tenant blob sz st) p =
     (if p = (if blob = [] then blobPath root tenant oid else blob) \<and> \<not> (v_files st p \<noteq> None \<and> rm p) then None else v_files st p)"
  by (auto simp: collect_def Let_def)

context bolt_laws
begin

text \<open>The rule for a write transaction that keeps its contract.\<close>

lemma awp_update_good:
  assumes fine: "store_fine K st"
    and good: "\<And>x s'. cat K (v_db st, delta0) \<Longrightarrow> fn (v_db st, delta0) = Inr (x, s') \<Longrightarrow>
      good K (v_db st, delta0) s' \<and> tree_ok (contents K s')"
    and err: "\<And>e. Q (Inl e) st"
    and ok: "\<And>x s' st'. fn (v_db st, delta0) = Inr (x, s') \<Longrightarrow> store_fine K st' \<Longrightarrow> b_get K (v_db st') = contents K s' \<Longrightarrow>
      v_files st' = v_files st \<Longrightarrow> held_res st' = held_res st \<Longrightarrow> Q (Inr x) st'"
  shows "awp (update K fn) Q st"
proof (rule awp_update)
  show "Q (Inl e) st" for e by (rule err)
  fix x db d
  assume run: "fn (v_db st, delta0) = Inr (x, (db, d))"
  have cat: "cat K (v_db st, delta0)" using fine by (simp add: store_fine_def store_ok_def cat_def)
  note g = good [OF cat run]
  let ?st = "st\<lparr>v_db := db, v_count := apply_delta d (v_count st), v_notify := fold notifier_signal (d_touched d) (v_notify st)\<rparr>"
  have "counts_ok (b_get K db) (apply_delta d (v_count st))"
    using balanced_counts [of "b_get K (v_db st)" "b_get K db" d] g fine by (simp add: good_def store_fine_def store_ok_def)
  then have "store_fine K ?st" using g by (simp add: store_fine_def store_ok_def good_def cat_def)
  then show "Q (Inr x) ?st" by (intro ok [OF run]) (simp_all add: held_res_def)
qed

lemma markUpload_wp:
  assumes fine: "store_fine K st" and own: "owned (b_get K (v_db st)) u" and s: "state = StateInterrupted \<or> state = StateFailed"
    and Q: "\<And>r st'. store_fine K st' \<Longrightarrow> v_files st' = v_files st \<Longrightarrow> held_res st' = held_res st \<Longrightarrow>
      b_get K (v_db st') = (if r = Inr () then write_rec BUploads
         (CUpload (u\<lparr>u_State := state, u_UpdatedAt := x_clock E AtMark, u_Error := error_text cause\<rparr>)) (b_get K (v_db st))
        else b_get K (v_db st)) \<Longrightarrow> Q r st'"
  shows "awp (markUpload K E u state cause) Q st"
  unfolding markUpload_def
proof (rule awp_update_good [OF fine])
  let ?u = "u\<lparr>u_State := state, u_UpdatedAt := x_clock E AtMark, u_Error := error_text cause\<rparr>"
  have own': "owned (contents K (v_db st, delta0)) ?u" using own by (simp add: owned_def)
  fix x s' assume cat: "cat K (v_db st, delta0)" and run: "mark_tx K (u_UpdatedAt u) ?u (v_db st, delta0) = Inr (x, s')"
  note m = mark_good [OF cat own' _ run]
  show "good K (v_db st, delta0) s' \<and> tree_ok (contents K s')"
    using m s fine write_rec_tree by (auto simp: store_fine_def)
next
  let ?u = "u\<lparr>u_State := state, u_UpdatedAt := x_clock E AtMark, u_Error := error_text cause\<rparr>"
  fix x s' st' assume run: "mark_tx K (u_UpdatedAt u) ?u (v_db st, delta0) = Inr (x, s')" and st': "store_fine K st'"
    "b_get K (v_db st') = contents K s'" "v_files st' = v_files st" "held_res st' = held_res st"
  have cat: "cat K (v_db st, delta0)" using fine by (simp add: store_fine_def store_ok_def cat_def)
  have own': "owned (contents K (v_db st, delta0)) ?u" using own by (simp add: owned_def)
  show "Q (Inr x) st'"
    using mark_good(2) [OF cat own' _ run] st' s by (intro Q) auto
qed (rule Q, use fine in simp_all)

lemma fail_wp:
  assumes fine: "store_fine K st" and own: "owned (b_get K (v_db st)) u"
    and Q: "\<And>st'. store_fine K st' \<Longrightarrow> held_res st' = held_res st \<Longrightarrow>
      b_get K (v_db st') = b_get K (v_db st) \<or> b_get K (v_db st') = write_rec BUploads
        (CUpload (u\<lparr>u_State := StateFailed, u_UpdatedAt := x_clock E AtMark, u_Error := error_text cause\<rparr>)) (b_get K (v_db st)) \<Longrightarrow>
      Q (Inl cause) st'"
  shows "awp (fail K E u cause) Q st"
proof -
  have mark: "awp (markUpload K E u StateFailed cause) (\<lambda>r. Q (Inl cause)) st'"
    if "store_fine K st'" "held_res st' = held_res st" "v_db st' = v_db st" for st'
    by (rule markUpload_wp) (use that own in \<open>auto intro: Q split: if_splits\<close>)
  have blob: "awp (os_Remove E p) (\<lambda>r. awp (markUpload K E u StateFailed cause) (\<lambda>r. Q (Inl cause))) st'"
    if "store_fine K st'" "held_res st' = held_res st" "v_db st' = v_db st" for p st'
    by (rule awp_os_Remove) (use that in \<open>auto intro!: mark\<close>)
  show ?thesis
    unfolding fail_def by (simp, rule awp_os_Remove) (use fine in \<open>auto intro!: blob\<close>)
qed

section \<open>Publishing\<close>

lemma publish_victim:
  assumes cat: "cat K s" and own: "owned (contents K s) u"
    and run: "publish_tx K pol now u blob digest sz meta s = Inr (Some v, s')"
  shows "contents K s BObjects (o_ID v) = Some (CObject v)"
proof -
  from publish_run [OF cat own run] obtain s1 s2 where e: "contents K s1 = contents K s" "seqs K s1 BQueue = seqs K s BQueue"
    and rp: "replacePath K now (u_Tenant u) (u_Path u) (p_Supersede pol) ''superseded'' s1 = Inr (Some v, s2)" by blast
  have c1: "cat K s1" using cat e by (simp add: cat_def)
  have t: "nul \<notin> set (u_Tenant u)" using own by (simp add: owned_def)
  show ?thesis by (cases rule: replacePath_cases [OF c1 t rp]) (use e in simp_all)
qed

end

text \<open>The files of stored objects; a publication may unlink only these.\<close>

definition blob_of :: "string \<Rightarrow> object_version \<Rightarrow> string" where
  "blob_of root ob = (if o_BlobPath ob = [] then blobPath root (o_Tenant ob) (o_ID ob) else o_BlobPath ob)"

definition live_blob :: "string \<Rightarrow> view \<Rightarrow> string \<Rightarrow> bool" where
  "live_blob root g p \<longleftrightarrow> (\<exists>oid ob. g BObjects oid = Some (CObject ob) \<and> p = blob_of root ob)"

context bolt_laws
begin

lemma publish_wp:
  assumes fine: "store_fine K st" and own: "owned (b_get K (v_db st)) u"
    and err: "\<And>e. Q (Inl e) st"
    and ok: "\<And>st'. store_fine K st' \<Longrightarrow> held_res st' = held_res st \<Longrightarrow>
      published u blob digest sz meta (x_clock E AtPublish) (b_get K (v_db st')) \<Longrightarrow>
      (\<And>p. \<not> live_blob (x_root E) (b_get K (v_db st)) p \<Longrightarrow> v_files st' p = v_files st p) \<Longrightarrow> Q (Inr ()) st'"
  shows "awp (publish K E u blob digest sz meta) Q st"
  unfolding publish_def awp_bind
proof (rule awp_update_good [OF fine])
  let ?tx = "publish_tx K (policyFor (x_src E) (u_Tenant u)) (x_clock E AtPublish) u blob digest sz meta"
  have own': "owned (contents K (v_db st, delta0)) u" using own by simp
  show "case Inl e of Inl e \<Rightarrow> Q (Inl e) st | Inr x \<Rightarrow> R x" for e R using err by simp
  fix x s' assume cat: "cat K (v_db st, delta0)" and run: "?tx (v_db st, delta0) = Inr (x, s')"
  show "good K (v_db st, delta0) s' \<and> tree_ok (contents K s')"
    using publish_good(1,3) [OF cat own' run] fine by (simp add: store_fine_def)
next
  let ?tx = "publish_tx K (policyFor (x_src E) (u_Tenant u)) (x_clock E AtPublish) u blob digest sz meta"
  let ?rm = "\<lambda>b. x_io E (OpRemove b) \<noteq> None" and ?g = "x_gate E \<noteq> None"
  have own': "owned (contents K (v_db st, delta0)) u" using own by simp
  have cat: "cat K (v_db st, delta0)" using fine by (simp add: store_fine_def store_ok_def cat_def)
  fix x s' st' assume run: "?tx (v_db st, delta0) = Inr (x, s')" and st': "store_fine K st'" "b_get K (v_db st') = contents K s'"
    "v_files st' = v_files st" "held_res st' = held_res st"
  note pub = publish_good(2) [OF cat own' run]
  show "case Inr x of Inl e \<Rightarrow> Q (Inl e) st' | Inr x \<Rightarrow>
      awp (case x of None \<Rightarrow> areturn () | Some v \<Rightarrow> amod (collect (x_root E) ?rm ?g (o_ID v) (o_Tenant v) (o_BlobPath v) (o_Size v))) Q st'"
  proof (cases x)
    case None
    then show ?thesis using st' pub ok [of st'] by simp
  next
    case (Some v)
    have v: "b_get K (v_db st) BObjects (o_ID v) = Some (CObject v)" using publish_victim [OF cat own'] run Some by fastforce
    let ?st = "collect (x_root E) ?rm ?g (o_ID v) (o_Tenant v) (o_BlobPath v) (o_Size v) st'"
    have "v_files ?st p = v_files st p" if "\<not> live_blob (x_root E) (b_get K (v_db st)) p" for p
      using that v st'(3) unfolding collect_files live_blob_def blob_of_def by metis
    then have "Q (Inr ()) ?st" using st' pub by (intro ok) simp_all
    then show ?thesis using Some by simp
  qed
qed

lemma published_upd:
  "published (u\<lparr>u_State := s0, u_UpdatedAt := t0\<rparr>) blob digest sz meta now g = published u blob digest sz meta now g"
  by (simp add: published_def new_object_def)

lemma finalize_wp:
  assumes fine: "store_fine K st" and own: "owned (b_get K (v_db st)) u"
    and F: "v_files st (u_StagingPath u) = Some F"
    and pre: "\<And>p. pre = Some p \<Longrightarrow> pc_digest p = hex_encode (sha256 F) \<and> pc_size p = int (length F)"
    and blob: "blob = blobPath (x_root E) (u_Tenant u) (u_ID u)" "\<not> live_blob (x_root E) (b_get K (v_db st)) blob"
    and err: "\<And>e st'. store_fine K st' \<Longrightarrow> held_res st' = held_res st \<Longrightarrow> Q (Inl e) st'"
    and ok: "\<And>st'. store_fine K st' \<Longrightarrow> held_res st' = held_res st \<Longrightarrow>
      published u blob (hex_encode (sha256 F)) (int (length F)) meta (x_clock E AtPublish) (b_get K (v_db st')) \<Longrightarrow>
      v_files st' blob = Some F \<Longrightarrow> Q (Inr ()) st'"
  shows "awp (finalize K E u pre meta) Q st"
proof -
  let ?u = "u\<lparr>u_State := StateFinalizing, u_UpdatedAt := x_clock E AtFinalize\<rparr>"
  let ?objs = "filepath_Join [x_root E, ''objects'']" and ?dir = "filepath_Join [x_root E, ''objects'', u_Tenant u]"
  define P where "P st' \<longleftrightarrow> store_fine K st' \<and> owned (b_get K (v_db st')) ?u \<and> held_res st' = held_res st \<and>
    \<not> live_blob (x_root E) (b_get K (v_db st')) blob" for st'
  have bad: "awp (fail K E ?u e) Q st'" if "P st'" for e st'
    by (rule fail_wp) (use that err in \<open>auto simp: P_def\<close>)
  have P0: "P st" using fine own blob by (simp add: P_def owned_def)
  have Pf: "P (st'\<lparr>v_files := fs\<rparr>) = P st'" for st' fs by (simp add: P_def)
  have pub: "awp (publish K E ?u blob (hex_encode (sha256 F)) (int (length F)) meta)
      (\<lambda>r st'. case r of Inl e \<Rightarrow> awp (fail K E ?u e) Q st' | Inr x \<Rightarrow> Q (Inr x) st') st'"
    if "P st'" "v_files st' blob = Some F" for st'
    by (rule publish_wp [of st' ?u]) (use that bad in \<open>auto simp: P_def published_upd intro!: ok\<close>)
  let ?R = "\<lambda>r st'. case r of Inl e \<Rightarrow> awp (fail K E ?u e) Q st' | Inr x \<Rightarrow> Q (Inr x) st'"
  have move: "awp (finalize_move K E ?u meta (hex_encode (sha256 F), int (length F))) ?R st'"
    if P: "P st'" and F': "v_files st' (u_StagingPath u) = Some F" for st'
  proof -
    have sync: "awp (aseq (syncDir E ?dir) (publish K E ?u blob (hex_encode (sha256 F)) (int (length F)) meta)) ?R st2"
      if "P st2" "v_files st2 blob = Some F" for st2
      using that pub bad by (simp split: option.splits)
    have rn: "awp (aseq (os_Rename E (u_StagingPath u) blob)
        (aseq (syncDir E ?dir) (publish K E ?u blob (hex_encode (sha256 F)) (int (length F)) meta))) ?R st'"
      unfolding awp_seq [of "os_Rename E (u_StagingPath u) blob"]
      by (rule awp_os_Rename) (use P F' bad in \<open>auto intro!: sync simp: Pf simp del: awp_seq\<close>)
    then show ?thesis using bad [OF P]
      by (auto simp: finalize_move_def Let_def blob(1) [symmetric] split: option.splits simp del: awp_seq) (simp_all split: option.splits)
  qed
  have dig: "awp (case pre of Some p \<Rightarrow> areturn (pc_digest p, pc_size p) | None \<Rightarrow> hashFile E (u_StagingPath u)) R st'"
    if "v_files st' (u_StagingPath u) = Some F" "\<And>e. R (Inl e) st'" "R (Inr (hex_encode (sha256 F), int (length F))) st'" for R st'
    using that pre by (cases pre) (auto intro!: awp_hashFile)
  have start: "awp (update K (tput K BUploads (u_ID u) (CUpload ?u))) R st"
    if "\<And>e. R (Inl e) st" "\<And>st'. P st' \<Longrightarrow> v_files st' (u_StagingPath u) = Some F \<Longrightarrow> R (Inr ()) st'" for R
  proof (rule awp_update_good [OF fine])
    have own': "owned (contents K (v_db st, delta0)) ?u" using own by (simp add: owned_def)
    have cat: "cat K (v_db st, delta0)" using fine by (simp add: store_fine_def store_ok_def cat_def)
    show "R (Inl e) st" for e by (rule that(1))
    fix x :: unit and s' assume run: "tput K BUploads (u_ID u) (CUpload ?u) (v_db st, delta0) = Inr (x, s')"
    note f = finalizing_good [OF cat own', of x s']
    show "good K (v_db st, delta0) s' \<and> tree_ok (contents K s')"
      using f run fine write_rec_tree by (simp add: store_fine_def)
    fix st' assume st': "store_fine K st'" "b_get K (v_db st') = contents K s'" "v_files st' = v_files st" "held_res st' = held_res st"
    have g: "b_get K (v_db st') = write_rec BUploads (CUpload ?u) (b_get K (v_db st))" using f(2) run st'(2) by simp
    have "b_get K (v_db st') BUploads (u_ID u) = Some (CUpload ?u)" "b_get K (v_db st') BObjects = b_get K (v_db st) BObjects"
      by (simp_all add: g write_rec_def indexBuckets_def)
    then have "P st'" using st'(1,4) own blob(2) by (simp add: P_def owned_def busy_def live_blob_def)
    then show "R (Inr x) st'" using that(2) st'(3) F by simp
  qed
  have rest: "awp (abind (case pre of Some p \<Rightarrow> areturn (pc_digest p, pc_size p) | None \<Rightarrow> hashFile E (u_StagingPath u))
      (finalize_move K E ?u meta)) ?R st'" if "P st'" "v_files st' (u_StagingPath u) = Some F" for st'
    unfolding awp_bind by (rule dig) (use that bad move in simp_all)
  have "awp (aseq (update K (tput K BUploads (u_ID u) (CUpload ?u)))
      (abind (case pre of Some p \<Rightarrow> areturn (pc_digest p, pc_size p) | None \<Rightarrow> hashFile E (u_StagingPath u))
         (finalize_move K E ?u meta))) ?R st"
    unfolding awp_seq by (rule start) (use rest bad P0 in \<open>simp_all del: awp_bind\<close>)
  moreover have "u_StagingPath ?u = u_StagingPath u" "u_ID ?u = u_ID u" by simp_all
  ultimately show ?thesis unfolding finalize_def Let_def awp_catch by presburger
qed

end

end
