(* ===== verification/Upload_Invariant.thy ===== *)
theory Upload_Invariant
  imports Upload_Handle
begin

text \<open>
  The invariant of an open upload handle: until it is resolved it holds nothing; afterwards it owns its
  record and its staging file, the coverage lies inside the file, and a running hash is in step with
  it. Every method keeps the invariant and accounts for what it takes from the capacity gate.
\<close>

section \<open>The invariant\<close>

definition stages_ok :: "string \<Rightarrow> view \<Rightarrow> bool" where
  "stages_ok root g \<longleftrightarrow>
     (\<forall>uid u. g BUploads uid = Some (CUpload u) \<longrightarrow>
        u_StagingPath u = stagePath root (u_Tenant u) uid \<and> slash \<notin> set uid \<and> uid \<noteq> [] \<and>
        clean_path (u_Path u) \<and> nul \<notin> set (u_Tenant u)) \<and>
     (\<forall>oid ob. g BObjects oid = Some (CObject ob) \<longrightarrow> slash \<notin> set oid \<and> blob_of root ob = blobPath root (o_Tenant ob) oid)"

definition file_inv :: "string \<Rightarrow> UploadHandle \<Rightarrow> bool" where
  "file_inv F h \<longleftrightarrow>
     canonical (h_cov h) \<and> points (h_cov h) \<subseteq> {0..<int (length F)} \<and> 0 \<le> h_baseSize h \<and>
     (\<forall>sh. h_hasher h = Some sh \<longrightarrow> sh_inv F sh)"

text \<open>An interrupted upload a handle may continue: wherever its record still is, it is the upload of
  this path.\<close>

definition cand_ok :: "view \<Rightarrow> UploadHandle \<Rightarrow> base \<Rightarrow> bool" where
  "cand_ok g h b \<longleftrightarrow>
     (case b of
        BaseInterrupted u n \<Rightarrow>
          (\<forall>u'. g BUploads (u_ID u) = Some (CUpload u') \<longrightarrow> u_Tenant u' = h_tenant h \<and> u_Path u' = h_path h)
      | BaseCurrent ob n \<Rightarrow> True)"

definition holds_file :: "'db bolt \<Rightarrow> string \<Rightarrow> 'db hs \<Rightarrow> bool" where
  "holds_file K root s \<longleftrightarrow>
     (case s of (h, st) \<Rightarrow>
        h_file h = Some (u_StagingPath (h_upload h)) \<and> owned (b_get K (v_db st)) (h_upload h) \<and>
        u_Tenant (h_upload h) = h_tenant h \<and> u_Path (h_upload h) = h_path h \<and> slash \<notin> set (u_ID (h_upload h)) \<and>
        u_StagingPath (h_upload h) = stagePath root (h_tenant h) (u_ID (h_upload h)) \<and>
        (\<exists>F. v_files st (u_StagingPath (h_upload h)) = Some F \<and> file_inv F h))"

definition handle_inv :: "'db bolt \<Rightarrow> string \<Rightarrow> 'db hs \<Rightarrow> bool" where
  "handle_inv K root s \<longleftrightarrow>
     (case s of (h, st) \<Rightarrow>
        store_fine K st \<and> stages_ok root (b_get K (v_db st)) \<and> nul \<notin> set (h_tenant h) \<and> clean_path (h_path h) \<and>
        (\<forall>c\<in>set (h_candidates h). cand_ok (b_get K (v_db st)) h c) \<and>
        (if h_resolved h then holds_file K root s
         else h_file h = None \<and> h_cov h = [] \<and> h_hasher h = None \<and> h_baseSize h = 0))"

text \<open>Headroom is reserved only when a published version is cloned, which ends the time before the
  handle is resolved or fails it.\<close>

definition unreserved :: "UploadHandle \<Rightarrow> bool" where
  "unreserved h \<longleftrightarrow> (\<not> h_resolved h \<and> h_failed h = None \<longrightarrow> h_reserved h = None)"

text \<open>What the gate and the handle count hold beyond what this handle will give back.\<close>

definition res_bal :: "'db hs \<Rightarrow> int \<times> int \<times> int" where
  "res_bal s =
     (case s of (h, st) \<Rightarrow>
        (v_slots st - (if h_release h then 1 else 0),
         v_reserved st - (case h_reserved h of None \<Rightarrow> 0 | Some n \<Rightarrow> n), v_inflight st))"

text \<open>The random source hands out identifiers that are not in use.\<close>

definition fresh_rand :: "'db bolt \<Rightarrow> xenv \<Rightarrow> 'db store \<Rightarrow> bool" where
  "fresh_rand K E st \<longleftrightarrow>
     (\<forall>b. x_rand E = Inr b \<longrightarrow> b \<noteq> [] \<and>
        (\<forall>B\<in>{BUploads, BObjects, BTombstones, BGC}. b_get K (v_db st) B (hex_encode b) = None))"

lemma res_bal_held: "held_res st' = held_res st \<Longrightarrow> res_bal (h, st') = res_bal (h, st)"
  by (simp add: res_bal_def held_res_def)

lemma awp_handle [simp]:
  "awp (on_store m) Q (h, st) = awp m (\<lambda>r st'. Q r (h, st')) st"
  "awp (on_handle f) Q' (h, st) = Q' (Inr ()) (f h, st)"
  "awp (with_handle k) Q'' (h, st) = awp (k h) Q'' (h, st)"
  by (simp_all add: awp_def on_store_def on_handle_def with_handle_def amod_def split: prod.splits)

lemma hex_no_slash: "slash \<notin> set (hex_encode b)"
proof -
  have "hex_digit n \<noteq> slash" for n
  proof -
    have "n mod 16 \<in> set [0..<16]" by simp
    then show ?thesis unfolding hex_digit_def by (auto simp: upt_rec)
  qed
  then show ?thesis by (induction b) (auto simp: eq_commute [of slash])
qed

lemma cand_ok_frame:
  assumes "cand_ok g h c"
    and "\<And>uid u'. g' BUploads uid = Some (CUpload u') \<Longrightarrow>
      (\<exists>u. g BUploads uid = Some (CUpload u) \<and> u_Tenant u = u_Tenant u' \<and> u_Path u = u_Path u') \<or>
      u_Tenant u' = h_tenant h \<and> u_Path u' = h_path h"
    and "h_tenant h' = h_tenant h" "h_path h' = h_path h"
  shows "cand_ok g' h' c"
proof (cases c)
  case (BaseInterrupted u n)
  have "u_Tenant u' = h_tenant h' \<and> u_Path u' = h_path h'" if "g' BUploads (u_ID u) = Some (CUpload u')" for u'
    using assms(1) assms(2) [OF that] assms(3,4) unfolding cand_ok_def BaseInterrupted by auto
  then show ?thesis by (simp add: cand_ok_def BaseInterrupted)
qed (simp add: cand_ok_def)

text \<open>Writing the record of an upload of this path keeps the layout and the candidates.\<close>

lemma write_rec_stages:
  assumes "stages_ok root g" "u_StagingPath u = stagePath root (u_Tenant u) (u_ID u)" "slash \<notin> set (u_ID u)" "u_ID u \<noteq> []"
    "clean_path (u_Path u)" "nul \<notin> set (u_Tenant u)"
  shows "stages_ok root (write_rec BUploads (CUpload u) g)"
  using assms by (auto simp: stages_ok_def write_rec_def)

lemma write_rec_cand:
  assumes "cand_ok g h c" "u_Tenant u = h_tenant h" "u_Path u = h_path h" "h_tenant h' = h_tenant h" "h_path h' = h_path h"
  shows "cand_ok (write_rec BUploads (CUpload u) g) h' c"
  by (rule cand_ok_frame [OF assms(1) _ assms(4,5)]) (use assms in \<open>auto simp: write_rec_def split: if_splits\<close>)

section \<open>Opening a file\<close>

lemma handle_invD:
  assumes "handle_inv K root (h, st)"
  shows "store_fine K st" "stages_ok root (b_get K (v_db st))" "nul \<notin> set (h_tenant h)" "clean_path (h_path h)"
    "\<And>c. c \<in> set (h_candidates h) \<Longrightarrow> cand_ok (b_get K (v_db st)) h c"
    "h_resolved h \<Longrightarrow> holds_file K root (h, st)"
    "\<not> h_resolved h \<Longrightarrow> h_file h = None \<and> h_cov h = [] \<and> h_hasher h = None \<and> h_baseSize h = 0"
  using assms unfolding handle_inv_def by (auto split: if_splits)

lemma handle_invI_open:
  assumes "store_fine K st" "stages_ok root (b_get K (v_db st))" "nul \<notin> set (h_tenant h)" "clean_path (h_path h)"
    "\<And>c. c \<in> set (h_candidates h) \<Longrightarrow> cand_ok (b_get K (v_db st)) h c" "h_resolved h" "holds_file K root (h, st)"
  shows "handle_inv K root (h, st)"
  using assms by (simp add: handle_inv_def)

lemma handle_inv_files:
  "\<not> h_resolved h \<Longrightarrow> handle_inv K root (h, st\<lparr>v_files := fs\<rparr>) = handle_inv K root (h, st)"
  by (simp add: handle_inv_def)

lemma new_hash_inv: "sh_inv F newStreamHasher"
  by (simp add: newStreamHasher_def sh_inv_def sh_sync_def)

text \<open>Everything about a handle but its file.\<close>

definition same_flags :: "UploadHandle \<Rightarrow> UploadHandle \<Rightarrow> bool" where
  "same_flags h h' \<longleftrightarrow> h_failed h' = h_failed h \<and> h_closed h' = h_closed h \<and> h_fatal h' = h_fatal h \<and> h_release h' = h_release h \<and>
     h_tenant h' = h_tenant h \<and> h_path h' = h_path h \<and> h_mode h' = h_mode h \<and> h_meta h' = h_meta h"

text \<open>After \<open>startFresh\<close> the handle has an empty file of its own.\<close>

definition fresh_handle :: "UploadHandle \<Rightarrow> UploadHandle \<Rightarrow> bool" where
  "fresh_handle h h' \<longleftrightarrow>
     (\<exists>u stage. h' = h\<lparr>h_upload := u, h_file := Some stage, h_resolved := True, h_hasher := Some newStreamHasher\<rparr>)"

context bolt_laws
begin

lemma startFresh_wp:
  assumes inv: "handle_inv K (x_root E) (h, st)" and new: "\<not> h_resolved h" and rand: "fresh_rand K E st"
    and err: "\<And>e st'. handle_inv K (x_root E) (h, st') \<Longrightarrow> held_res st' = held_res st \<Longrightarrow> Q (Inl e) (h, st')"
    and ok: "\<And>h' st'. handle_inv K (x_root E) (h', st') \<Longrightarrow> held_res st' = held_res st \<Longrightarrow> fresh_handle h h' \<Longrightarrow>
      v_files st' (u_StagingPath (h_upload h')) = Some [] \<Longrightarrow> Q (Inr ()) (h', st')"
  shows "awp (startFresh K E) Q (h, st)"
proof (cases "x_rand E")
  case (Inl e)
  then show ?thesis using err [OF inv] by (simp add: startFresh_def randomID_def)
next
  case (Inr b)
  note D = handle_invD [OF inv]
  let ?uid = "hex_encode b" and ?dir = "filepath_Join [x_root E, ''staging'', h_tenant h]"
  let ?stage = "filepath_Join [?dir, ?uid @ ''.partial'']"
  let ?u = "\<lparr>u_ID = ?uid, u_Tenant = h_tenant h, u_Path = h_path h, u_Protocol = h_protocol h, u_StagingPath = ?stage,
              u_State = StateUploading, u_CreatedAt = x_clock E AtStart, u_UpdatedAt = x_clock E AtStart, u_Error = []\<rparr>"
  let ?h = "h\<lparr>h_upload := ?u, h_file := Some ?stage, h_resolved := True, h_hasher := Some newStreamHasher\<rparr>"
  have "b \<noteq> []" using rand Inr by (simp add: fresh_rand_def)
  then have "?uid \<noteq> []" by (cases b) simp_all
  then have uid: "?uid \<noteq> []" "nul \<notin> set ?uid" "slash \<notin> set ?uid"
    by (simp_all only: hex_encode_no_nul hex_no_slash not_False_eq_True)
  have free: "\<And>B. B \<in> {BUploads, BObjects, BTombstones, BGC} \<Longrightarrow> b_get K (v_db st) B ?uid = None"
    using rand Inr by (auto simp: fresh_rand_def)
  have stage: "?stage = stagePath (x_root E) (h_tenant h) ?uid" by (simp add: stagePath_def)
  let ?st = "st\<lparr>v_files := (v_files st)(?stage := Some [])\<rparr>"
  have fine: "store_fine K ?st" using D(1) by simp
  have start: "awp (update K (start_tx K ?u)) R ?st"
    if "R (Inl eq) ?st" "\<And>e. R (Inl e) ?st" "\<And>st'. handle_inv K (x_root E) (?h, st') \<Longrightarrow> held_res st' = held_res st \<Longrightarrow>
      v_files st' ?stage = Some [] \<Longrightarrow> R (Inr ()) st'" for R eq
  proof (rule awp_update_good [OF fine])
    have cat: "cat K (v_db st, delta0)" using D(1) by (simp add: store_fine_def store_ok_def cat_def)
    show "R (Inl e) ?st" for e by (rule that(2))
    fix x :: unit and s' assume run: "start_tx K ?u (v_db ?st, delta0) = Inr (x, s')"
    note g = start_good [OF cat, of ?u x s']
    have g': "good K (v_db st, delta0) s'" "contents K s' = write_rec BUploads (CUpload ?u) (b_get K (v_db st))"
      using g run uid free by auto
    show "good K (v_db ?st, delta0) s' \<and> tree_ok (contents K s')"
      using g' D(1) write_rec_tree by (simp add: store_fine_def)
    fix st' assume st': "store_fine K st'" "b_get K (v_db st') = contents K s'" "v_files st' = v_files ?st" "held_res st' = held_res ?st"
    have rec: "b_get K (v_db st') = write_rec BUploads (CUpload ?u) (b_get K (v_db st))" using st'(2) g'(2) by simp
    have "handle_inv K (x_root E) (?h, st')"
    proof (rule handle_invI_open)
      show "stages_ok (x_root E) (b_get K (v_db st'))" unfolding rec
        by (rule write_rec_stages [OF D(2)]) (use uid stage D(3,4) in simp_all)
      show "cand_ok (b_get K (v_db st')) ?h c" if "c \<in> set (h_candidates ?h)" for c
        unfolding rec by (rule write_rec_cand [OF D(5), of c]) (use that in simp_all)
      have "owned (b_get K (v_db st')) ?u"
        using uid D(3,4) by (simp add: owned_def rec write_rec_def busy_def)
      moreover have "file_inv [] ?h"
        using D(7) [OF new] newStreamHasher_inv by (simp add: file_inv_def)
      ultimately show "holds_file K (x_root E) (?h, st')"
        using uid stage st'(3) by (simp add: holds_file_def)
    qed (use st'(1) D(3,4) in simp_all)
    then show "R (Inr x) st'" using that(3) st' by simp
  qed
  have create: "awp (os_Create E ?stage) R st" if "\<And>e. R (Inl e) st" "R (Inr ()) ?st" for R
    by (rule awp_os_Create) (use that in simp_all)
  have bad: "Q (Inl e) (h, st\<lparr>v_files := fs\<rparr>)" for e fs
    using err [of "st\<lparr>v_files := fs\<rparr>" e] inv new by (simp add: handle_inv_files)
  have bad0: "Q (Inl e) (h, st)" for e using err [OF inv] by simp
  have fr: "fresh_handle h ?h" unfolding fresh_handle_def by (rule exI [of _ ?u], rule exI [of _ ?stage], rule refl)
  let ?commit = "aseq (acatch (on_store (update K (start_tx K ?u))) (\<lambda>e. aseq (aignore (on_store (os_Remove E ?stage))) (afail e)))
      (on_handle (\<lambda>h. h\<lparr>h_upload := ?u, h_file := Some ?stage, h_resolved := True, h_hasher := Some newStreamHasher\<rparr>))"
  have commit: "awp ?commit Q (h, ?st)"
    unfolding awp_seq awp_catch awp_handle awp_ignore awp_base
    by (rule start) (use fr in \<open>auto intro!: awp_os_Remove bad ok\<close>)
  have "awp (aseq (on_store (os_Create E ?stage)) ?commit) Q (h, st)"
    unfolding awp_seq [of "on_store (os_Create E ?stage)"] awp_handle
    by (rule create) (use commit bad0 in \<open>simp_all del: awp_seq\<close>)
  then show ?thesis
    using bad0 by (simp add: startFresh_def randomID_def Let_def Inr del: awp_seq)
      (simp add: awp_seq [of "on_store (os_MkdirAll E ?dir)"] split: option.splits del: awp_seq)
qed

lemma adopt_good:
  assumes cat: "cat K s" and run: "adopt_tx K now protocol uid s = Inr (r, s')"
  shows "good K s s'"
    "r = Some u \<Longrightarrow> \<exists>cur. contents K s BUploads uid = Some (CUpload cur) \<and> u_State cur = StateInterrupted \<and>
       u = cur\<lparr>u_State := StateUploading, u_Protocol := protocol, u_Error := [], u_UpdatedAt := now\<rparr> \<and>
       contents K s' = write_rec BUploads (CUpload u) (contents K s)"
    "r = None \<Longrightarrow> s' = s"
proof -
  have "good K s s' \<and> (\<forall>u. r = Some u \<longrightarrow> (\<exists>cur. contents K s BUploads uid = Some (CUpload cur) \<and> u_State cur = StateInterrupted \<and>
       u = cur\<lparr>u_State := StateUploading, u_Protocol := protocol, u_Error := [], u_UpdatedAt := now\<rparr> \<and>
       contents K s' = write_rec BUploads (CUpload u) (contents K s))) \<and> (r = None \<longrightarrow> s' = s)"
  proof (cases r)
    case None
    then have "s' = s" using run by (auto simp: adopt_tx_def Let_def txn_simps split: sum.splits if_splits)
    then show ?thesis using None good_refl [OF cat] by simp
  next
    case (Some u)
    with run obtain cur s1 where cur: "contents K s BUploads uid = Some (CUpload cur)" "u_State cur = StateInterrupted"
      and u: "u = cur\<lparr>u_State := StateUploading, u_Protocol := protocol, u_Error := [], u_UpdatedAt := now\<rparr>"
      and s1: "tdel K BStale (timeIDKey (u_UpdatedAt cur) (u_ID cur)) s = Inr ((), s1)" "tput K BUploads (u_ID u) (CUpload u) s1 = Inr ((), s')"
      by (auto simp: adopt_tx_def Let_def txn_simps split: sum.splits if_splits)
    note e = tdel_eff [OF s1(1)] tput_eff [OF s1(2)] and g = graves_upload [OF cat [unfolded cat_def] cur(1)]
    have path: "contents K s BUploadPaths (uploadPathKey (u_Tenant cur) (u_Path cur) uid) = Some (CRaw [])"
      using catalog_okD(2) [OF cat [unfolded cat_def]] cur g(4,5) by (simp add: indexes_ok_iff in_sync_def derived_def key_simps)
    have v: "contents K s' = write_rec BUploads (CUpload u) (contents K s)"
    proof
      fix B show "contents K s' B = write_rec BUploads (CUpload u) (contents K s) B"
        using e cur g(5) path by (cases B) (auto simp: u write_rec_def indexBuckets_def fun_eq_iff)
    qed
    have "good K s s'"
      by (rule upload_write_good [OF cat v]) (use e g cur in \<open>simp_all add: u\<close>)
    with v cur u Some show ?thesis by blast
  qed
  then show "good K s s'"
    "r = Some u \<Longrightarrow> \<exists>cur. contents K s BUploads uid = Some (CUpload cur) \<and> u_State cur = StateInterrupted \<and>
       u = cur\<lparr>u_State := StateUploading, u_Protocol := protocol, u_Error := [], u_UpdatedAt := now\<rparr> \<and>
       contents K s' = write_rec BUploads (CUpload u) (contents K s)"
    "r = None \<Longrightarrow> s' = s" by blast+
qed

lemma adoptInterrupted_wp:
  assumes inv: "handle_inv K (x_root E) (h, st)" and new: "\<not> h_resolved h" and c: "cand_ok (b_get K (v_db st)) h (BaseInterrupted u0 n)"
    and err: "\<And>e st'. handle_inv K (x_root E) (h, st') \<Longrightarrow> held_res st' = held_res st \<Longrightarrow> Q (Inl e) (h, st')"
    and ok: "\<And>h' st'. handle_inv K (x_root E) (h', st') \<Longrightarrow> held_res st' = held_res st \<Longrightarrow>
      h_resolved h' \<Longrightarrow> h_reserved h' = h_reserved h \<Longrightarrow> same_flags h h' \<Longrightarrow> Q (Inr ()) (h', st')"
  shows "awp (adoptInterrupted K E u0) Q (h, st)"
proof -
  note D = handle_invD [OF inv]
  have cat: "cat K (v_db st, delta0)" using D(1) by (simp add: store_fine_def store_ok_def cat_def)
  define P where "P u st' \<longleftrightarrow> store_fine K st' \<and> held_res st' = held_res st \<and> v_files st' = v_files st \<and>
    b_get K (v_db st') BUploads (u_ID u) = Some (CUpload u) \<and> busy u \<and> u_Tenant u = h_tenant h \<and> u_Path u = h_path h \<and>
    u_StagingPath u = stagePath (x_root E) (h_tenant h) (u_ID u) \<and> slash \<notin> set (u_ID u) \<and> u_ID u \<noteq> [] \<and>
    handle_inv K (x_root E) (h, st')" for u st'
  have own: "owned (b_get K (v_db st')) u" if "P u st'" for u st'
    using that D(3,4) by (simp add: P_def owned_def)
  have rewrite: "handle_inv K (x_root E) (h, st')"
    if "store_fine K st'" "b_get K (v_db st') = write_rec BUploads (CUpload u) (b_get K (v_db st1))" "P u1 st1"
      "u_ID u = u_ID u1" "u_Tenant u = u_Tenant u1" "u_Path u = u_Path u1" "u_StagingPath u = u_StagingPath u1" for u u1 st1 st'
  proof -
    have P1: "handle_inv K (x_root E) (h, st1)" using that(3) by (simp add: P_def)
    note D1 = handle_invD [OF P1]
    have "stages_ok (x_root E) (b_get K (v_db st'))" unfolding that(2)
      by (rule write_rec_stages [OF D1(2)]) (use that D(3,4) in \<open>simp_all add: P_def\<close>)
    moreover have "cand_ok (b_get K (v_db st')) h c" if "c \<in> set (h_candidates h)" for c
      unfolding \<open>b_get K (v_db st') = _\<close> by (rule write_rec_cand [OF D1(5) [OF that]]) (use \<open>P u1 st1\<close> \<open>u_Tenant u = _\<close> \<open>u_Path u = _\<close> in \<open>simp_all add: P_def\<close>)
    ultimately show ?thesis using P1 that(1) new by (simp add: handle_inv_def)
  qed
  let ?h = "\<lambda>u sz h. h\<lparr>h_upload := u, h_file := Some (u_StagingPath u), h_resolved := True,
                          h_baseSize := sz, h_cov := cov_add 0 sz (h_cov h), h_hasher := None\<rparr>"
  have good: "Q (Inr ()) (?h u (int (length F)) h, st')" if P: "P u st'" "v_files st' (u_StagingPath u) = Some F" for u st' F
  proof (rule ok)
    have P1: "handle_inv K (x_root E) (h, st')" using that(1) by (simp add: P_def)
    note D1 = handle_invD [OF P1]
    have cov: "canonical (cov_add 0 (int (length F)) [])" "points (cov_add 0 (int (length F)) []) = {0..<int (length F)}"
      using cov_add_ok [of "[]" 0 "int (length F)"] by simp_all
    then have "file_inv F (?h u (int (length F)) h)" using D(7) [OF new] by (simp add: file_inv_def)
    then have "holds_file K (x_root E) (?h u (int (length F)) h, st')"
      using own [OF P(1)] P by (simp add: holds_file_def P_def)
    moreover have "cand_ok (b_get K (v_db st')) (?h u (int (length F)) h) c" if "c \<in> set (h_candidates h)" for c
      by (rule cand_ok_frame [OF D1(5) [OF that]]) auto
    ultimately show "handle_inv K (x_root E) (?h u (int (length F)) h, st')"
      by (intro handle_invI_open) (use D1 D(3,4) in simp_all)
  qed (use P in \<open>simp_all add: P_def same_flags_def\<close>)
  have marked: "awp (markUpload K E u StateFailed e) (\<lambda>r st'. Q (Inl e) (h, st')) st'" if P: "P u st'" for u st' e
  proof (rule markUpload_wp)
    show "store_fine K st'" "owned (b_get K (v_db st')) u" using P own [OF P] by (simp_all add: P_def)
    fix r :: "error + unit" and st2 assume st2: "store_fine K st2" "v_files st2 = v_files st'" "held_res st2 = held_res st'"
      "b_get K (v_db st2) = (if r = Inr () then write_rec BUploads
         (CUpload (u\<lparr>u_State := StateFailed, u_UpdatedAt := x_clock E AtMark, u_Error := error_text e\<rparr>)) (b_get K (v_db st'))
        else b_get K (v_db st'))"
    have "handle_inv K (x_root E) (h, st2)"
    proof (cases "r = Inr ()")
      case True
      then show ?thesis using st2 by (intro rewrite [OF st2(1) _ P, of "u\<lparr>u_State := StateFailed, u_UpdatedAt := x_clock E AtMark, u_Error := error_text e\<rparr>"]) simp_all
    next
      case False
      then show ?thesis using st2 P new by (simp add: P_def handle_inv_def)
    qed
    then show "Q (Inl e) (h, st2)" using st2(3) P by (intro err) (simp_all add: P_def)
  qed simp
  have opened: "awp (abind (acatch (on_store (aseq (os_Open E (u_StagingPath u)) (os_Stat E (u_StagingPath u))))
                  (\<lambda>e. aseq (aignore (on_store (markUpload K E u StateFailed e))) (afail e))) (\<lambda>sz. on_handle (?h u sz))) Q (h, st')"
    if P: "P u st'" for u st'
    unfolding awp_bind awp_catch awp_seq awp_handle awp_ignore awp_base
    by (rule awp_os_Open) (use marked [OF P] in \<open>auto intro!: awp_os_Stat good [OF P]\<close>)
  have tx: "awp (update K (adopt_tx K (x_clock E AtAdopt) (h_protocol h) (u_ID u0))) R st"
    if "\<And>e. R (Inl e) st" "\<And>st'. handle_inv K (x_root E) (h, st') \<Longrightarrow> held_res st' = held_res st \<Longrightarrow> R (Inr None) st'"
      "\<And>u st'. P u st' \<Longrightarrow> R (Inr (Some u)) st'" for R
  proof (rule awp_update_good [OF D(1)])
    show "R (Inl e) st" for e by (rule that(1))
    fix r s' assume run: "adopt_tx K (x_clock E AtAdopt) (h_protocol h) (u_ID u0) (v_db st, delta0) = Inr (r, s')"
    note a = adopt_good [OF cat run]
    show "good K (v_db st, delta0) s' \<and> tree_ok (contents K s')"
    proof (cases r)
      case None
      then show ?thesis using a(1,3) D(1) by (simp add: store_fine_def)
    next
      case (Some u)
      then show ?thesis using a(1,2) D(1) write_rec_tree by (fastforce simp: store_fine_def)
    qed
    fix st' assume st': "store_fine K st'" "b_get K (v_db st') = contents K s'" "v_files st' = v_files st" "held_res st' = held_res st"
    show "R (Inr r) st'"
    proof (cases r)
      case None
      then show ?thesis using a(3) st' inv new by (auto intro!: that(2) simp: handle_inv_def)
    next
      case (Some u)
      from a(2) [OF Some] obtain cur where cur: "b_get K (v_db st) BUploads (u_ID u0) = Some (CUpload cur)"
        and u: "u = cur\<lparr>u_State := StateUploading, u_Protocol := h_protocol h, u_Error := [], u_UpdatedAt := x_clock E AtAdopt\<rparr>"
        and v: "contents K s' = write_rec BUploads (CUpload u) (b_get K (v_db st))" by auto
      have "u_Tenant cur = h_tenant h" "u_Path cur = h_path h" using c cur by (simp_all add: cand_ok_def)
      moreover have "u_StagingPath cur = stagePath (x_root E) (u_Tenant cur) (u_ID u0)" "slash \<notin> set (u_ID u0)" "u_ID u0 \<noteq> []"
        using D(2) cur unfolding stages_ok_def by blast+
      moreover have "u_ID cur = u_ID u0" using graves_upload(5) [OF cat [unfolded cat_def]] cur by simp
      ultimately have uf: "u_Tenant u = h_tenant h" "u_Path u = h_path h" "u_ID u = u_ID u0" "slash \<notin> set (u_ID u)" "u_ID u \<noteq> []"
        "u_StagingPath u = stagePath (x_root E) (h_tenant h) (u_ID u)" by (simp_all add: u)
      have "stages_ok (x_root E) (b_get K (v_db st'))" unfolding st'(2) v
        by (rule write_rec_stages [OF D(2)]) (use uf D(3,4) in simp_all)
      moreover have "cand_ok (b_get K (v_db st')) h c" if "c \<in> set (h_candidates h)" for c
        unfolding st'(2) v by (rule write_rec_cand [OF D(5) [OF that]]) (use uf in simp_all)
      ultimately have "handle_inv K (x_root E) (h, st')" using inv st'(1) new by (simp add: handle_inv_def)
      then have "P u st'" using st' uf unfolding P_def by (simp add: v write_rec_def busy_def u)
      then show ?thesis using that(3) Some by simp
    qed
  qed
  show ?thesis
    unfolding adoptInterrupted_def awp_handle awp_bind [of "on_store (update K _)"]
    by (rule tx) (use err inv opened in \<open>auto simp del: awp_bind\<close>)
qed

end

text \<open>What an operation that resolves a handle leaves: on success a handle with its file, on failure
  one that is sound once the failure is recorded; either way the gate's books balance.\<close>

definition resolve_post :: "'db bolt \<Rightarrow> xenv \<Rightarrow> 'db hs \<Rightarrow> error + unit \<Rightarrow> 'db hs \<Rightarrow> bool" where
  "resolve_post K E s r s' \<longleftrightarrow> handle_inv K (x_root E) s' \<and> res_bal s' = res_bal s \<and> same_flags (fst s) (fst s') \<and>
     (r = Inr () \<longrightarrow> h_resolved (fst s'))"

context bolt_laws
begin

lemma startFresh_post:
  assumes "handle_inv K (x_root E) (h, st)" "\<not> h_resolved h" "fresh_rand K E st"
  shows "awp (startFresh K E) (resolve_post K E (h, st)) (h, st)"
proof (rule startFresh_wp [OF assms])
  fix h' st' assume a: "handle_inv K (x_root E) (h', st')" "held_res st' = held_res st" "fresh_handle h h'"
  then show "resolve_post K E (h, st) (Inr ()) (h', st')"
    using res_bal_held [OF a(2), of h] by (auto simp: resolve_post_def fresh_handle_def same_flags_def res_bal_def)
next
  fix e st' assume a: "handle_inv K (x_root E) (h, st')" "held_res st' = held_res st"
  then show "resolve_post K E (h, st) (Inl e) (h, st')"
    using res_bal_held [OF a(2), of h] by (simp add: resolve_post_def same_flags_def)
qed

lemma adoptInterrupted_post:
  assumes "handle_inv K (x_root E) (h, st)" "\<not> h_resolved h" "cand_ok (b_get K (v_db st)) h (BaseInterrupted u n)"
  shows "awp (adoptInterrupted K E u) (resolve_post K E (h, st)) (h, st)"
proof (rule adoptInterrupted_wp [OF assms])
  fix h' st' assume a: "handle_inv K (x_root E) (h', st')" "held_res st' = held_res st" "h_resolved h'" "h_reserved h' = h_reserved h" "same_flags h h'"
  then show "resolve_post K E (h, st) (Inr ()) (h', st')"
    using res_bal_held [OF a(2), of h] by (auto simp: resolve_post_def same_flags_def res_bal_def)
next
  fix e st' assume a: "handle_inv K (x_root E) (h, st')" "held_res st' = held_res st"
  then show "resolve_post K E (h, st) (Inl e) (h, st')"
    using res_bal_held [OF a(2), of h] by (simp add: resolve_post_def same_flags_def)
qed

text \<open>A change of the handle's file alone.\<close>

lemma handle_inv_refile:
  assumes inv: "handle_inv K root (h, st)" and r: "h_resolved h" and F: "file_inv F h'"
    and h': "h_upload h' = h_upload h" "h_file h' = h_file h" "h_resolved h'" "h_tenant h' = h_tenant h" "h_path h' = h_path h"
      "h_candidates h' = h_candidates h"
    and st': "v_files st' (u_StagingPath (h_upload h)) = Some F" "v_db st' = v_db st" "v_count st' = v_count st"
  shows "handle_inv K root (h', st')"
proof (rule handle_invI_open)
  note D = handle_invD [OF inv]
  show "store_fine K st'" using D(1) st' by (simp add: store_fine_def store_ok_def)
  show "cand_ok (b_get K (v_db st')) h' c" if "c \<in> set (h_candidates h')" for c
    by (rule cand_ok_frame [OF D(5), of c]) (use that h' st' in auto)
  show "holds_file K root (h', st')" using D(6) [OF r] F h' st' by (auto simp: holds_file_def)
qed (use handle_invD [OF inv] h' st' in simp_all)

lemma cloneCurrent_post:
  assumes inv: "handle_inv K (x_root E) (h, st)" and new: "\<not> h_resolved h" "h_reserved h = None" and rand: "fresh_rand K E st"
  shows "awp (cloneCurrent K E ob) (resolve_post K E (h, st)) (h, st)"
proof (cases "Reserve (x_gate E) (o_Size ob) st")
  case (Pair ro st1)
  have r: "v_db st1 = v_db st" "v_count st1 = v_count st" "v_inflight st1 = v_inflight st" "v_slots st1 = v_slots st"
    "v_reserved st1 = v_reserved st + (case ro of None \<Rightarrow> 0 | Some n \<Rightarrow> n)"
    using Pair by (auto simp: Reserve_def split: option.splits if_splits)
  show ?thesis
  proof (cases ro)
    case None
    have "st1 = st" using Pair None by (auto simp: Reserve_def split: option.splits if_splits)
    then show ?thesis using Pair None inv by (simp add: awp_def cloneCurrent_def resolve_post_def same_flags_def)
  next
    case (Some n)
    let ?h = "h\<lparr>h_reserved := Some n\<rparr>"
    have inv1: "handle_inv K (x_root E) (?h, st1)"
    proof -
      have "cand_ok (b_get K (v_db st1)) ?h c" if "c \<in> set (h_candidates h)" for c
        by (rule cand_ok_frame [OF handle_invD(5) [OF inv that]]) (use r in auto)
      moreover have "store_fine K st1" using handle_invD(1) [OF inv] r by (simp add: store_fine_def store_ok_def)
      ultimately show ?thesis using inv new r by (simp add: handle_inv_def)
    qed
    have bal: "res_bal (?h, st1) = res_bal (h, st)" using r Some new by (simp add: res_bal_def)
    have start: "awp (startFresh K E) Q (?h, st1)"
      if "\<And>e st'. resolve_post K E (h, st) (Inl e) (?h, st') \<Longrightarrow> Q (Inl e) (?h, st')"
        "\<And>h' st'. resolve_post K E (h, st) (Inr ()) (h', st') \<Longrightarrow> v_files st' (u_StagingPath (h_upload h')) = Some [] \<Longrightarrow>
           h_cov h' = [] \<Longrightarrow> h_hasher h' = Some newStreamHasher \<Longrightarrow> Q (Inr ()) (h', st')" for Q
    proof (rule startFresh_wp [OF inv1])
      show "\<not> h_resolved ?h" "fresh_rand K E st1" using new rand r by (simp_all add: fresh_rand_def)
      fix e st' assume a: "handle_inv K (x_root E) (?h, st')" "held_res st' = held_res st1"
      then show "Q (Inl e) (?h, st')"
        using res_bal_held [OF a(2), of ?h] bal by (intro that) (simp add: resolve_post_def same_flags_def)
    next
      fix h' st' assume a: "handle_inv K (x_root E) (h', st')" "held_res st' = held_res st1" "fresh_handle ?h h'"
        "v_files st' (u_StagingPath (h_upload h')) = Some []"
      from a(3) have h': "same_flags h h'" "h_resolved h'" "h_cov h' = []" "h_hasher h' = Some newStreamHasher" "h_reserved h' = Some n"
        using handle_invD(7) [OF inv new(1)] by (auto simp: fresh_handle_def same_flags_def)
      then show "Q (Inr ()) (h', st')"
        using res_bal_held [OF a(2), of ?h] bal a by (intro that) (auto simp: resolve_post_def res_bal_def same_flags_def)
    qed
    have copy: "awp (copy_file E (o_BlobPath ob) (u_StagingPath (h_upload h')) None)
        (\<lambda>r s2. case r of Inl e \<Rightarrow> resolve_post K E (h, st) (Inl e) (h', s2)
           | Inr m \<Rightarrow> resolve_post K E (h, st) (Inr ()) (h'\<lparr>h_baseSize := m, h_cov := cov_add 0 m (h_cov h'), h_hasher := None\<rparr>, s2)) st'"
      if p: "resolve_post K E (h, st) (Inr ()) (h', st')" "v_files st' (u_StagingPath (h_upload h')) = Some []"
        "h_cov h' = []" "h_hasher h' = Some newStreamHasher" for h' st'
    proof -
      have inv2: "handle_inv K (x_root E) (h', st')" "h_resolved h'" using p(1) by (simp_all add: resolve_post_def)
      have b: "0 \<le> h_baseSize h'" using handle_invD(6) [OF inv2] by (auto simp: holds_file_def file_inv_def)
      let ?s = "\<lambda>F. st'\<lparr>v_files := (v_files st')(u_StagingPath (h_upload h') := Some F)\<rparr>"
      have bad: "resolve_post K E (h, st) (Inl e) (h', ?s F)" for e F
      proof -
        have "file_inv F h'" using p(3,4) b new_hash_inv by (simp add: file_inv_def)
        then have "handle_inv K (x_root E) (h', ?s F)" by (intro handle_inv_refile [OF inv2]) (simp_all add: inv2)
        then show ?thesis using p(1) by (simp add: resolve_post_def res_bal_def)
      qed
      have fin: "resolve_post K E (h, st) (Inr ()) (h'\<lparr>h_baseSize := int (length F), h_cov := cov_add 0 (int (length F)) (h_cov h'), h_hasher := None\<rparr>, ?s F)" for F
      proof -
        let ?h2 = "h'\<lparr>h_baseSize := int (length F), h_cov := cov_add 0 (int (length F)) (h_cov h'), h_hasher := None\<rparr>"
        have "file_inv F ?h2" using p(3) cov_add_ok [of "[]" 0 "int (length F)"] by (simp add: file_inv_def)
        then have "handle_inv K (x_root E) (?h2, ?s F)" by (intro handle_inv_refile [OF inv2]) (simp_all add: inv2)
        then show ?thesis using p(1) by (auto simp: resolve_post_def res_bal_def same_flags_def)
      qed
      have e0: "resolve_post K E (h, st) (Inl e) (h', st')" for e using p(1) by (simp add: resolve_post_def)
      show ?thesis
        using e0 bad fin p(2) by (auto simp: copy_file_def file_write_def Let_def split: option.splits)
    qed
    have opened: "awp (aseq (on_store (os_Open E (o_BlobPath ob))) (with_handle (\<lambda>h.
            abind (on_store (copy_file E (o_BlobPath ob) (u_StagingPath (h_upload h)) None)) (\<lambda>n.
            on_handle (\<lambda>h. h\<lparr>h_baseSize := n, h_cov := cov_add 0 n (h_cov h), h_hasher := None\<rparr>))))) (resolve_post K E (h, st)) (h', st')"
      if p: "resolve_post K E (h, st) (Inr ()) (h', st')" "v_files st' (u_StagingPath (h_upload h')) = Some []"
        "h_cov h' = []" "h_hasher h' = Some newStreamHasher" for h' st'
      unfolding awp_seq awp_handle awp_bind
      by (rule awp_os_Open) (use copy [OF p] p(1) in \<open>simp_all add: resolve_post_def\<close>)
    have "awp (aseq (startFresh K E) (aseq (on_store (os_Open E (o_BlobPath ob))) (with_handle (\<lambda>h.
            abind (on_store (copy_file E (o_BlobPath ob) (u_StagingPath (h_upload h)) None)) (\<lambda>n.
            on_handle (\<lambda>h. h\<lparr>h_baseSize := n, h_cov := cov_add 0 n (h_cov h), h_hasher := None\<rparr>)))))) (resolve_post K E (h, st)) (?h, st1)"
      unfolding awp_seq [of "startFresh K E"] by (rule start) (use opened in \<open>simp_all del: awp_seq\<close>)
    then show ?thesis using Pair Some by (simp add: awp_def cloneCurrent_def)
  qed
qed

lemma handle_inv_flags [simp]:
  "handle_inv K root (h\<lparr>h_fillPrefix := b\<rparr>, st) = handle_inv K root (h, st)"
  "handle_inv K root (h\<lparr>h_appendMode := m\<rparr>, st) = handle_inv K root (h, st)"
  "handle_inv K root (h\<lparr>h_failed := eo\<rparr>, st) = handle_inv K root (h, st)"
  "handle_inv K root (h\<lparr>h_fatal := b\<rparr>, st) = handle_inv K root (h, st)"
  "handle_inv K root (h\<lparr>h_closed := b\<rparr>, st) = handle_inv K root (h, st)"
  "handle_inv K root (h\<lparr>h_meta := mo\<rparr>, st) = handle_inv K root (h, st)"
  by (simp_all add: handle_inv_def holds_file_def file_inv_def cand_ok_def cong: base.case_cong)

lemma res_bal_flags [simp]:
  "res_bal (h\<lparr>h_fillPrefix := b\<rparr>, st) = res_bal (h, st)" "res_bal (h\<lparr>h_appendMode := m\<rparr>, st) = res_bal (h, st)"
  "res_bal (h\<lparr>h_failed := eo\<rparr>, st) = res_bal (h, st)" "res_bal (h\<lparr>h_fatal := b\<rparr>, st) = res_bal (h, st)"
  "res_bal (h\<lparr>h_closed := b\<rparr>, st) = res_bal (h, st)" "res_bal (h\<lparr>h_meta := mo\<rparr>, st) = res_bal (h, st)"
  "res_bal (h\<lparr>h_cov := c\<rparr>, st) = res_bal (h, st)" "res_bal (h\<lparr>h_hasher := sh\<rparr>, st) = res_bal (h, st)"
  "res_bal (h\<lparr>h_baseSize := n\<rparr>, st) = res_bal (h, st)" "res_bal (h\<lparr>h_file := fo\<rparr>, st) = res_bal (h, st)"
  "res_bal (h, st\<lparr>v_files := fs\<rparr>) = res_bal (h, st)"
  by (simp_all add: res_bal_def)

lemma adopt_post:
  assumes "handle_inv K (x_root E) (h, st)" "\<not> h_resolved h" "h_reserved h = None" "fresh_rand K E st" "cand_ok (b_get K (v_db st)) h c"
  shows "awp (adopt K E c) (resolve_post K E (h, st)) (h, st)"
  using assms cloneCurrent_post adoptInterrupted_post by (cases c) (simp_all add: adopt_def)

lemma find_in: "find P xs = Some x \<Longrightarrow> x \<in> set xs \<and> P x"
  by (metis find_Some_iff nth_mem)

lemma pick_base_in: "pick_base cs off = Some c \<Longrightarrow> c \<in> set cs \<and> off \<le> base_size c"
  by (auto simp: pick_base_def split: option.splits dest: find_in)

lemma resolve_ok:
  assumes "handle_inv K (x_root E) (h, st)" "\<not> h_resolved h" "h_reserved h = None" "fresh_rand K E st"
  shows "awp (resolve K E off) (resolve_post K E (h, st)) (h, st)"
proof -
  have fill: "awp (startFresh K E) (\<lambda>r s'. case r of Inl e \<Rightarrow> resolve_post K E (h, st) (Inl e) s'
      | Inr x \<Rightarrow> awp (on_handle (\<lambda>h. h\<lparr>h_fillPrefix := True\<rparr>)) (resolve_post K E (h, st)) s') (h, st)"
    by (rule awp_mono [OF startFresh_post]) (use assms in \<open>auto simp: resolve_post_def same_flags_def split: sum.splits\<close>)
  show ?thesis
  proof (cases "pick_base (h_candidates h) off")
    case None
    then show ?thesis using fill assms startFresh_post by (simp add: resolve_def)
  next
    case (Some c)
    then show ?thesis
      using assms startFresh_post adopt_post [OF assms handle_invD(5) [OF assms(1), of c]] pick_base_in by (simp add: resolve_def)
  qed
qed

end

section \<open>Writing\<close>

text \<open>What a method other than \<open>Close\<close> leaves, whatever it returns.\<close>

definition method_post :: "'db bolt \<Rightarrow> xenv \<Rightarrow> 'db hs \<Rightarrow> 'db hs \<Rightarrow> bool" where
  "method_post K E s s' \<longleftrightarrow> handle_inv K (x_root E) s' \<and> res_bal s' = res_bal s \<and>
     (h_resolved (fst s) \<longrightarrow> h_resolved (fst s')) \<and> (unreserved (fst s) \<longrightarrow> unreserved (fst s')) \<and>
     h_tenant (fst s') = h_tenant (fst s) \<and> h_path (fst s') = h_path (fst s) \<and> h_closed (fst s') = h_closed (fst s)"

context bolt_laws
begin

lemma write_file_post:
  assumes inv: "handle_inv K (x_root E) (h, st)" and r: "h_resolved h" and run: "write_file E p off (h, st) = ((n, eo), s')"
  shows "method_post K E (h, st) s'"
proof -
  from handle_invD(6) [OF inv r] obtain F where F: "h_file h = Some (u_StagingPath (h_upload h))"
    "v_files st (u_StagingPath (h_upload h)) = Some F" "file_inv F h" by (auto simp: holds_file_def)
  obtain n' eo' st' where w: "file_WriteAt E (u_StagingPath (h_upload h)) p off st = ((n', eo'), st')" by (metis surj_pair)
  let ?st = "\<lambda>F. st\<lparr>v_files := (v_files st)(u_StagingPath (h_upload h) \<mapsto> F)\<rparr>"
  have wrote: "n' = 0 \<and> (st' = st \<or> st' = ?st F) \<or> 0 < n' \<and> n' \<le> length p \<and> 0 \<le> off \<and> st' = ?st (file_write (take n' p) (nat off) F)"
    using w F(2) by (auto simp: file_WriteAt_def Let_def split: if_splits option.splits)
  have same: "handle_inv K (x_root E) (h, ?st F)" using inv F(2) by (simp add: fun_upd_idem)
  let ?h = "h\<lparr>h_cov := cov_add off (off + int n') (h_cov h), h_hasher := map_option (sh_write (take n' p) off) (h_hasher h)\<rparr>"
  define h1 where "h1 = (if 0 < n' then ?h else h)"
  have s': "s' = (case eo' of None \<Rightarrow> h1 | Some e \<Rightarrow> h1\<lparr>h_failed := Some e\<rparr>, st')"
    using run unfolding write_file_def prod.case F(1) option.sel w Let_def h1_def by (elim Pair_inject) (simp only:)
  have "handle_inv K (x_root E) (h1, st') \<and> res_bal (h1, st') = res_bal (h, st) \<and> h_resolved h1 \<and>
    h_tenant h1 = h_tenant h \<and> h_path h1 = h_path h \<and> h_closed h1 = h_closed h"
  proof (cases "0 < n'")
    case True
    let ?F = "file_write (take n' p) (nat off) F"
    have off: "n' \<le> length p" "0 \<le> off" "st' = ?st ?F" using wrote True by auto
    have can: "canonical (h_cov h)" "points (h_cov h) \<subseteq> {0..<int (length F)}" using F(3) by (simp_all add: file_inv_def)
    note c = cov_add_ok [OF can(1) off(2), of "off + int n'"]
    have sub: "points (cov_add off (off + int n') (h_cov h)) \<subseteq> {0..<int (length ?F)}"
      unfolding c(2) using subsetD [OF can(2)] off(1,2) by fastforce
    have "sh_inv ?F (sh_write (take n' p) off sh)" if "h_hasher h = Some sh" for sh
      by (rule sh_write_inv) (use F(3) that off True in \<open>auto simp: file_inv_def\<close>)
    then have "file_inv ?F ?h" using c(1) sub F(3) by (auto simp: file_inv_def)
    then have "handle_inv K (x_root E) (?h, ?st ?F)" by (intro handle_inv_refile [OF inv r]) (simp_all add: r)
    then show ?thesis using True off(3) r by (simp add: h1_def)
  next
    case False
    then show ?thesis using wrote inv same r by (auto simp: h1_def)
  qed
  then show ?thesis unfolding s' by (auto simp: method_post_def unreserved_def split: option.splits)
qed

lemma appendOffset_handle: "\<exists>m. snd (appendOffset off h) = h\<lparr>h_appendMode := m\<rparr>"
proof (cases "h_appendMode h = 0")
  case True
  then show ?thesis unfolding appendOffset_def Let_def snd_conv if_P [OF True] by (intro exI) (rule refl)
next
  case False
  then show ?thesis by (intro exI [of _ "h_appendMode h"]) (simp add: appendOffset_def)
qed

lemma failed_post:
  assumes "handle_inv K (x_root E) s'" "res_bal s' = res_bal s" "h_resolved (fst s) \<Longrightarrow> h_resolved (fst s')"
    "h_tenant (fst s') = h_tenant (fst s)" "h_path (fst s') = h_path (fst s)" "h_closed (fst s') = h_closed (fst s)"
  shows "method_post K E s ((fst s')\<lparr>h_failed := Some e\<rparr>, snd s')" "method_post K E s ((fst s')\<lparr>h_failed := Some e, h_fatal := True\<rparr>, snd s')"
  using assms by (cases s', simp add: method_post_def unreserved_def)+

lemma writeLocked_post:
  assumes inv: "handle_inv K (x_root E) (h, st)" and un: "unreserved h" and rand: "fresh_rand K E st"
    and run: "writeLocked K E p off translate (h, st) = ((n, eo), s')"
  shows "method_post K E (h, st) s'"
proof -
  have same: "method_post K E (h, st) (h, st)" using inv by (simp add: method_post_def)
  show ?thesis
  proof (cases "h_closed h \<or> h_failed h \<noteq> None \<or> off < 0")
    case True
    then show ?thesis using run same by (auto simp: writeLocked_def split: if_splits option.splits)
  next
    case False
    then have ok: "\<not> h_closed h" "h_failed h = None" "\<not> off < 0" by auto
    obtain r h1 st1 where res: "(if h_resolved h then (Inr (), (h, st)) else resolve K E off (h, st)) = (r, (h1, st1))"
      by (metis surj_pair)
    have post: "resolve_post K E (h, st) r (h1, st1)"
    proof (cases "h_resolved h")
      case True
      then show ?thesis using res inv by (simp add: resolve_post_def same_flags_def)
    next
      case F: False
      then have "h_reserved h = None" using un False by (simp add: unreserved_def)
      then show ?thesis using awpD [OF resolve_ok [OF inv F _ rand]] res F by simp
    qed
    show ?thesis
    proof (cases r)
      case (Inl e)
      then have "s' = (h1\<lparr>h_failed := Some e, h_fatal := True\<rparr>, st1)"
        using run ok unfolding writeLocked_def prod.case res Inl sum.case by auto
      moreover have "h_resolved h \<Longrightarrow> h_resolved h1" using res by auto
      ultimately show ?thesis using failed_post(2) [of E "(h1, st1)" "(h, st)" e] post by (simp add: resolve_post_def same_flags_def)
    next
      case (Inr x)
      have p: "handle_inv K (x_root E) (h1, st1)" "res_bal (h1, st1) = res_bal (h, st)" "h_resolved h1"
        "h_tenant h1 = h_tenant h" "h_path h1 = h_path h" "h_closed h1 = h_closed h"
        using post Inr by (auto simp: resolve_post_def same_flags_def)
      obtain off1 h2 where ap: "(if translate then appendOffset off h1 else (off, h1)) = (off1, h2)" by (metis surj_pair)
      have "h2 = (if translate then snd (appendOffset off h1) else h1)" using ap by (simp split: if_splits)
      then have h2: "\<exists>m. h2 = h1\<lparr>h_appendMode := m\<rparr>"
        using appendOffset_handle [of off h1] exI [of "\<lambda>m. h1 = h1\<lparr>h_appendMode := m\<rparr>" "h_appendMode h1"] by simp
      have p2: "handle_inv K (x_root E) (h2, st1)" "res_bal (h2, st1) = res_bal (h, st)" "h_resolved h2"
        "h_tenant h2 = h_tenant h" "h_path h2 = h_path h" "h_closed h2 = h_closed h" using p h2 by auto
      show ?thesis
      proof (cases "gate_write E h2 (length p)")
        case None
        have "write_file E p off1 (h2, st1) = ((n, eo), s')"
          using run ok None unfolding writeLocked_def prod.case res Inr sum.case ap by simp
        from write_file_post [OF p2(1,3) this] show ?thesis using p2 by (auto simp: method_post_def unreserved_def)
      next
        case (Some e)
        have "s' = (h2\<lparr>h_failed := Some e\<rparr>, st1)" 
          using run ok Some unfolding writeLocked_def prod.case res Inr sum.case ap by auto
        then show ?thesis using failed_post(1) [of E "(h2, st1)" "(h, st)" e] p2 by simp
      qed
    qed
  qed
qed

lemma WriteAt_post:
  assumes "handle_inv K (x_root E) (h, st)" "unreserved h" "fresh_rand K E st"
  shows "method_post K E (h, st) (snd (WriteAt K E p off (h, st)))" "method_post K E (h, st) (snd (Append K E p (h, st)))"
  using writeLocked_post [OF assms] unfolding WriteAt_def Append_def by (metis prod.collapse)+

lemma truncate_file_inv:
  assumes F: "file_inv F h" and sz: "0 \<le> sz"
  shows "file_inv (file_trunc (nat sz) F)
    (h\<lparr>h_cov := (let c = cov_clip sz (h_cov h) in if cov_end (h_cov h) < sz then cov_add (cov_end (h_cov h)) sz c else c),
       h_baseSize := (if sz < h_baseSize h then sz else h_baseSize h), h_hasher := map_option (sh_truncate sz) (h_hasher h)\<rparr>)"
proof -
  have can: "canonical (h_cov h)" using F by (simp add: file_inv_def)
  note clip = cov_clip_ok [OF can, of sz] and e = cov_end_ok [OF can]
  note add = cov_add_ok [OF clip(1) e(2), of sz]
  let ?c = "let c = cov_clip sz (h_cov h) in if cov_end (h_cov h) < sz then cov_add (cov_end (h_cov h)) sz c else c"
  have "canonical ?c" using clip(1) add(1) by (simp add: Let_def)
  moreover have "points ?c \<subseteq> {0..<sz}" using clip(2) add(2) e(1,2) by (auto simp: Let_def)
  moreover have "\<And>sh. h_hasher h = Some sh \<Longrightarrow> sh_inv (file_trunc (nat sz) F) (sh_truncate sz sh)"
    using F sz by (auto simp: file_inv_def intro: sh_truncate_inv)
  ultimately show ?thesis using F sz by (auto simp: file_inv_def)
qed

text \<open>\<open>Truncate\<close> does not look at an earlier failure; the books balance only when it does not resolve a
  handle that has failed.\<close>

lemma Truncate_post:
  assumes inv: "handle_inv K (x_root E) (h, st)" and un: "unreserved h" and rand: "fresh_rand K E st"
    and f: "h_failed h = None \<or> h_resolved h"
  shows "method_post K E (h, st) (snd (Truncate K E sz (h, st)))"
proof (cases "h_closed h \<or> sz < 0")
  case True
  then have "snd (Truncate K E sz (h, st)) = (h, st)" by (auto simp: Truncate_def)
  then show ?thesis using inv by (simp add: method_post_def)
next
  case False
  then have ok: "\<not> h_closed h" "\<not> sz < 0" "0 \<le> sz" by auto
  let ?start = "if h_resolved h then (Inr (), (h, st)) else if sz = 0 then startFresh K E (h, st)
                   else case find (\<lambda>c. sz \<le> base_size c) (h_candidates h) of
                          None \<Rightarrow> (Inl ErrInvalidOffset, (h, st))
                        | Some c \<Rightarrow> adopt K E c (h, st)"
  obtain r h1 st1 where res: "?start = (r, (h1, st1))" by (metis surj_pair)
  have post: "resolve_post K E (h, st) r (h1, st1)"
  proof (cases "h_resolved h")
    case True
    then show ?thesis using res inv by (simp add: resolve_post_def same_flags_def)
  next
    case F: False
    then have n: "h_reserved h = None" using un f by (simp add: unreserved_def)
    show ?thesis
    proof (cases "find (\<lambda>c. sz \<le> base_size c) (h_candidates h)")
      case None
      then show ?thesis using res F awpD [OF startFresh_post [OF inv F rand]] inv
        by (auto simp: resolve_post_def same_flags_def split: if_splits)
    next
      case (Some c)
      then have "cand_ok (b_get K (v_db st)) h c" using find_in handle_invD(5) [OF inv] by metis
      then show ?thesis using res F Some awpD [OF startFresh_post [OF inv F rand]] awpD [OF adopt_post [OF inv F n rand]]
        by (auto split: if_splits)
    qed
  qed
  show ?thesis
  proof (cases r)
    case (Inl e)
    then have "snd (Truncate K E sz (h, st)) = (h1\<lparr>h_failed := Some e, h_fatal := True\<rparr>, st1)"
      using ok unfolding Truncate_def prod.case res Inl sum.case by simp
    moreover have "h_resolved h \<Longrightarrow> h_resolved h1" using res by auto
    ultimately show ?thesis using failed_post(2) [of E "(h1, st1)" "(h, st)" e] post by (simp add: resolve_post_def same_flags_def)
  next
    case (Inr x)
    have p: "handle_inv K (x_root E) (h1, st1)" "res_bal (h1, st1) = res_bal (h, st)" "h_resolved h1"
      "h_tenant h1 = h_tenant h" "h_path h1 = h_path h" "h_closed h1 = h_closed h"
      using post Inr by (auto simp: resolve_post_def same_flags_def)
    from handle_invD(6) [OF p(1,3)] obtain F where F: "h_file h1 = Some (u_StagingPath (h_upload h1))"
      "v_files st1 (u_StagingPath (h_upload h1)) = Some F" "file_inv F h1" by (auto simp: holds_file_def)
    let ?st = "st1\<lparr>v_files := (v_files st1)(u_StagingPath (h_upload h1) := Some (file_trunc (nat sz) F))\<rparr>"
    let ?h = "h1\<lparr>h_cov := (let c = cov_clip sz (h_cov h1) in if cov_end (h_cov h1) < sz then cov_add (cov_end (h_cov h1)) sz c else c),
       h_baseSize := (if sz < h_baseSize h1 then sz else h_baseSize h1), h_hasher := map_option (sh_truncate sz) (h_hasher h1)\<rparr>"
    have good: "handle_inv K (x_root E) (?h, ?st)"
      by (rule handle_inv_refile [OF p(1,3) truncate_file_inv [OF F(3) ok(3)]]) (simp_all add: p(3))
    define h2 where "h2 = ?h"
    have T: "snd (Truncate K E sz (h, st)) = (case file_Truncate E (the (h_file h1)) sz st1 of
        (Inl e, st') \<Rightarrow> (h1\<lparr>h_failed := Some e\<rparr>, st') | (Inr _, st') \<Rightarrow> (h2, st'))"
      using ok unfolding Truncate_def prod.case res Inr sum.case h2_def Let_def by (simp split: prod.splits sum.splits)
    have bad: "method_post K E (h, st) (h1\<lparr>h_failed := Some e\<rparr>, st1)" for e
      using failed_post(1) [of E "(h1, st1)" "(h, st)" e] p by simp
    have "method_post K E (h, st) (h2, ?st)"
      using good p(2-) unfolding method_post_def unreserved_def h2_def by simp
    then have "awp (file_Truncate E (the (h_file h1)) sz) (\<lambda>r st'. method_post K E (h, st)
        (case r of Inl e \<Rightarrow> (h1\<lparr>h_failed := Some e\<rparr>, st') | Inr x \<Rightarrow> (h2, st'))) st1"
      using bad F by (intro awp_file_Truncate) simp_all
    then show ?thesis unfolding T awp_def by (simp split: prod.splits sum.splits)
  qed
qed

end

end
