(* ===== verification/Upload_Close.thy ===== *)
theory Upload_Close
  imports Upload_Invariant
begin

text \<open>
  Closing a handle: \<open>settle\<close> completes and checks the file, \<open>interruptHandle\<close> parks it, \<open>discard\<close> drops
  it, and \<open>finalize\<close> publishes it. \<open>Close\<close> gives back what the handle holds in every case.
\<close>

section \<open>What is published\<close>

text \<open>The file a close publishes: the staging file, with the prefix filled in from a base when the
  writes began past offset 0; all of it is covered.\<close>

definition final_content :: "'db hs \<Rightarrow> string \<Rightarrow> bool" where
  "final_content s F \<longleftrightarrow>
     (case s of (h, st) \<Rightarrow>
        if \<not> h_resolved h then F = []
        else \<exists>F0. v_files st (u_StagingPath (h_upload h)) = Some F0 \<and>
          (if h_fillPrefix h \<and> 0 < cov_start (h_cov h) then
             \<exists>c S. pick_base (h_candidates h) (cov_start (h_cov h)) = Some c \<and> v_files st (base_source c) = Some S \<and>
               F = file_write (take (nat (cov_start (h_cov h))) S) 0 F0 \<and>
               {cov_start (h_cov h)..<int (length F)} \<subseteq> points (h_cov h)
           else F = F0 \<and> {0..<int (length F)} \<subseteq> points (h_cov h)))"

definition close_post :: "'db bolt \<Rightarrow> xenv \<Rightarrow> 'db hs \<Rightarrow> error + unit \<Rightarrow> 'db hs \<Rightarrow> bool" where
  "close_post K E s r s' \<longleftrightarrow>
     store_fine K (snd s') \<and> res_bal s' = res_bal s \<and>
     (case r of
        Inl e \<Rightarrow> True
      | Inr _ \<Rightarrow>
          h_failed (fst s) = None \<and>
          (\<not> h_resolved (fst s) \<and> h_candidates (fst s) \<noteq> [] \<and> snd s' = snd s \<or>
           (\<exists>u F. u_Tenant u = h_tenant (fst s) \<and> u_Path u = h_path (fst s) \<and> final_content s F \<and>
              published u (blobPath (x_root E) (u_Tenant u) (u_ID u)) (hex_encode (sha256 F)) (int (length F)) (h_meta (fst s))
                (x_clock E AtPublish) (b_get K (v_db (snd s'))) \<and>
              v_files (snd s') (blobPath (x_root E) (u_Tenant u) (u_ID u)) = Some F)))"

text \<open>All that a failing close relies on.\<close>

definition still_owned :: "'db bolt \<Rightarrow> 'db hs \<Rightarrow> 'db hs \<Rightarrow> bool" where
  "still_owned K s s' \<longleftrightarrow> store_fine K (snd s') \<and> owned (b_get K (v_db (snd s'))) (h_upload (fst s')) \<and> res_bal s' = res_bal s"

lemma handle_inv_owned:
  assumes "handle_inv K root (h, st)" "h_resolved h"
  shows "still_owned K (h, st) (h, st)"
  using handle_invD(1,6) [OF assms(1)] assms(2) by (simp add: still_owned_def holds_file_def)

text \<open>An upload's blob is not the file of any object yet.\<close>

lemma own_blob_dead:
  assumes inv: "handle_inv K root (h, st)" and r: "h_resolved h"
  shows "\<not> live_blob root (b_get K (v_db st)) (blobPath root (u_Tenant (h_upload h)) (u_ID (h_upload h)))"
proof
  let ?g = "b_get K (v_db st)" and ?u = "h_upload h"
  assume "live_blob root ?g (blobPath root (u_Tenant ?u) (u_ID ?u))"
  then obtain oid ob where ob: "?g BObjects oid = Some (CObject ob)" "blobPath root (u_Tenant ?u) (u_ID ?u) = blob_of root ob"
    by (auto simp: live_blob_def)
  have "slash \<notin> set oid" "blob_of root ob = blobPath root (o_Tenant ob) oid"
    using handle_invD(2) [OF inv] ob(1) unfolding stages_ok_def by blast+
  moreover have "slash \<notin> set (u_ID ?u)" using handle_invD(6) [OF inv r] by (simp add: holds_file_def)
  ultimately have "u_ID ?u = oid" using ob(2) blobPath_inj by metis
  moreover from handle_invD(6) [OF inv r] obtain u0 where "?g BUploads (u_ID ?u) = Some (CUpload u0)"
    by (auto simp: holds_file_def owned_def)
  moreover have "catalog_ok ?g (b_seq K (v_db st) BQueue)"
    using handle_invD(1) [OF inv] by (simp add: store_fine_def store_ok_def)
  ultimately show False using graves_upload(3) ob(1) by fastforce
qed

lemma res_bal_eq: "held_res st' = held_res st \<Longrightarrow> res_bal (h, st) = x \<Longrightarrow> res_bal (h, st') = x"
  using res_bal_held by metis

context bolt_laws
begin

lemma discard_close:
  assumes "still_owned K s0 (h, st)"
  shows "awp (on_store (discard K E (h_upload h) e)) (close_post K E s0) (h, st)"
  unfolding discard_def awp_handle
  by (rule fail_wp) (use assms in \<open>auto simp: still_owned_def close_post_def intro: res_bal_eq\<close>)

lemma fail_close:
  assumes "still_owned K s0 (h, st)"
  shows "awp (on_store (fail K E (h_upload h) e)) (close_post K E s0) (h, st)"
  using discard_close [OF assms] by (simp add: discard_def)

lemma interrupt_close:
  assumes "still_owned K s0 (h, st)"
  shows "awp (interruptHandle K E e) (close_post K E s0) (h, st)"
proof -
  have mark: "awp (markUpload K E (h_upload h) StateInterrupted e) (\<lambda>r st'. close_post K E s0 (Inl e) (h\<lparr>h_file := None\<rparr>, st')) st'"
    if "still_owned K s0 (h, st')" for st'
    by (rule markUpload_wp) (use that in \<open>auto simp: still_owned_def close_post_def intro: res_bal_eq\<close>)
  have own: "still_owned K s0 (h, st\<lparr>v_files := fs\<rparr>)" for fs using assms by (simp add: still_owned_def)
  have cut: "awp (file_Truncate E f n) (\<lambda>r. awp (markUpload K E (h_upload h) StateInterrupted e) (\<lambda>r st'. close_post K E s0 (Inl e) (h\<lparr>h_file := None\<rparr>, st'))) st" for f n
    by (rule awp_file_Truncate) (use mark own assms in auto)
  show ?thesis using cut mark [OF assms] by (simp add: interruptHandle_def)
qed

section \<open>Settling\<close>

lemma fill_prefix_wp:
  assumes inv: "handle_inv K (x_root E) (h, st)" and r: "h_resolved h"
    and F0: "v_files st (u_StagingPath (h_upload h)) = Some F0"
    and err: "\<And>e st'. still_owned K (h, st) (h, st') \<Longrightarrow> Q (Inl e) (h, st')"
    and same: "\<not> (h_fillPrefix h \<and> 0 < cov_start (h_cov h)) \<Longrightarrow> Q (Inr ()) (h, st)"
    and fill: "\<And>c S F h' st'. 0 < cov_start (h_cov h) \<Longrightarrow> h_fillPrefix h \<Longrightarrow>
      pick_base (h_candidates h) (cov_start (h_cov h)) = Some c \<Longrightarrow> v_files st (base_source c) = Some S \<Longrightarrow>
      F = file_write (take (nat (cov_start (h_cov h))) S) 0 F0 \<Longrightarrow>
      h' = h\<lparr>h_cov := cov_add 0 (cov_start (h_cov h)) (h_cov h), h_hasher := None\<rparr> \<Longrightarrow>
      st' = st\<lparr>v_files := (v_files st)(u_StagingPath (h_upload h) \<mapsto> F)\<rparr> \<Longrightarrow> handle_inv K (x_root E) (h', st') \<Longrightarrow> Q (Inr ()) (h', st')"
  shows "awp (fill_prefix E) Q (h, st)"
proof (cases "h_fillPrefix h \<and> 0 < cov_start (h_cov h)")
  case False
  then show ?thesis using same [OF False] unfolding fill_prefix_def awp_handle Let_def if_not_P [OF False] by simp
next
  case True
  let ?n = "cov_start (h_cov h)"
  have own: "still_owned K (h, st) (h, st\<lparr>v_files := fs\<rparr>)" for fs
    using handle_inv_owned [OF inv r] by (simp add: still_owned_def)
  have own0: "still_owned K (h, st) (h, st)" by (rule handle_inv_owned [OF inv r])
  have f: "h_file h = Some (u_StagingPath (h_upload h))" "file_inv F0 h"
    using handle_invD(6) [OF inv r] F0 by (auto simp: holds_file_def)
  show ?thesis
  proof (cases "pick_base (h_candidates h) ?n")
    case None
    then show ?thesis using True err [OF own0] by (simp add: fill_prefix_def Let_def)
  next
    case (Some c)
    let ?F = "\<lambda>S. file_write (take (nat ?n) S) 0 F0"
    let ?h = "h\<lparr>h_cov := cov_add 0 ?n (h_cov h), h_hasher := None\<rparr>"
    let ?st = "\<lambda>F. st\<lparr>v_files := (v_files st)(u_StagingPath (h_upload h) \<mapsto> F)\<rparr>"
    have can: "canonical (h_cov h)" "points (h_cov h) \<subseteq> {0..<int (length F0)}" "0 \<le> h_baseSize h"
      using f(2) by (simp_all add: file_inv_def)
    have "?n \<in> points (h_cov h)"
      using True can(1) canonical_first(1) by (cases "h_cov h") (force simp: cov_start_def canonical_Cons)+
    then have n: "?n < int (length F0)" using can(2) by auto
    have "points (cov_add 0 ?n (h_cov h)) \<subseteq> {0..<int (length (?F S))}" for S
      unfolding cov_add_ok(2) [OF can(1) order.refl] using n subsetD [OF can(2)] by fastforce
    then have "file_inv (?F S) ?h" for S using cov_add_ok(1) [OF can(1)] can(3) by (simp add: file_inv_def)
    then have good: "handle_inv K (x_root E) (?h, ?st (?F S))" for S
      by (intro handle_inv_refile [OF inv r]) (simp_all add: r)
    have copy: "awp (copy_file E (base_source c) (the (h_file h)) (Some (nat ?n)))
        (\<lambda>ra st'. case ra of Inl e \<Rightarrow> Q (Inl e) (h, st') | Inr x \<Rightarrow> Q (Inr ()) (?h, st')) st"
      using err own own0 f(1) F0 fill [OF _ _ Some _ refl refl refl good] True
      by (auto simp: copy_file_def Let_def split: option.splits)
    have "awp (aseq (copyPrefix E c ?n) (on_handle (\<lambda>h. h\<lparr>h_hasher := None\<rparr>))) Q (h, st)"
      unfolding copyPrefix_def awp_seq awp_handle awp_bind sum.case
      by (rule awp_os_Open) (use err [OF own0] copy in simp_all)
    then show ?thesis using True Some by (simp add: fill_prefix_def Let_def del: awp_seq)
  qed
qed

lemma settle_wp:
  assumes inv: "handle_inv K (x_root E) (h, st)" and r: "h_resolved h"
    and err: "\<And>e h' st'. still_owned K (h, st) (h', st') \<Longrightarrow> h_upload h' = h_upload h \<Longrightarrow> Q (Inl e) (h', st')"
    and ok: "\<And>F h' st'. handle_inv K (x_root E) (h', st') \<Longrightarrow> h_resolved h' \<Longrightarrow> v_db st' = v_db st \<Longrightarrow> res_bal (h', st') = res_bal (h, st) \<Longrightarrow>
      h_upload h' = h_upload h \<Longrightarrow> h_meta h' = h_meta h \<Longrightarrow> v_files st' (u_StagingPath (h_upload h)) = Some F \<Longrightarrow>
      final_content (h, st) F \<Longrightarrow> Q (Inr ()) (h', st')"
  shows "awp (settle E) Q (h, st)"
proof -
  from handle_invD(6) [OF inv r] obtain F0 where F0: "v_files st (u_StagingPath (h_upload h)) = Some F0"
    by (auto simp: holds_file_def)
  have stat: "awp (with_handle (\<lambda>h. abind (on_store (os_Stat E (the (h_file h)))) (\<lambda>sz.
       if cov_covers sz (h_cov h) then areturn () else afail ErrIncomplete))) Q (h', st')"
    if i: "handle_inv K (x_root E) (h', st')" "h_resolved h'" "v_db st' = v_db st" "res_bal (h', st') = res_bal (h, st)"
      "h_upload h' = h_upload h" "h_meta h' = h_meta h" "v_files st' (u_StagingPath (h_upload h)) = Some F"
      and fc: "{0..<int (length F)} \<subseteq> points (h_cov h') \<Longrightarrow> final_content (h, st) F" for h' st' F
  proof -
    have f: "the (h_file h') = u_StagingPath (h_upload h)" "canonical (h_cov h')"
      using handle_invD(6) [OF i(1,2)] i(5,7) by (auto simp: holds_file_def file_inv_def)
    have own: "still_owned K (h, st) (h', st')" using handle_inv_owned [OF i(1,2)] i(4) by (simp add: still_owned_def)
    have fin: "Q (Inr ()) (h', st')" if "cov_covers (int (length F)) (h_cov h')"
      using that fc cov_covers_iff [OF f(2), of "int (length F)"] by (intro ok [OF i]) simp
    show ?thesis
      unfolding awp_handle awp_bind f(1)
      by (rule awp_os_Stat) (use err [OF own i(5)] i(7) fin in auto)
  qed
  show ?thesis
    unfolding settle_def awp_seq
  proof (rule fill_prefix_wp [OF inv r F0])
    fix e st' assume "still_owned K (h, st) (h, st')"
    then show "case Inl e of Inl e \<Rightarrow> Q (Inl e) (h, st') | Inr x \<Rightarrow> X x" for X using err by simp
  next
    assume n: "\<not> (h_fillPrefix h \<and> 0 < cov_start (h_cov h))"
    then have "{0..<int (length F0)} \<subseteq> points (h_cov h) \<Longrightarrow> final_content (h, st) F0" using r F0 by (auto simp: final_content_def)
    from stat [OF inv r refl refl refl refl F0 this] show "case Inr () of Inl e \<Rightarrow> X e | Inr x \<Rightarrow>
      awp (with_handle (\<lambda>h. abind (on_store (os_Stat E (the (h_file h)))) (\<lambda>sz.
       if cov_covers sz (h_cov h) then areturn () else afail ErrIncomplete))) Q (h, st)" for X by simp
  next
    fix c S F h' st'
    let ?n = "cov_start (h_cov h)"
    assume a: "0 < ?n" "h_fillPrefix h" "pick_base (h_candidates h) ?n = Some c" "v_files st (base_source c) = Some S"
      "F = file_write (take (nat ?n) S) 0 F0" and h': "h' = h\<lparr>h_cov := cov_add 0 ?n (h_cov h), h_hasher := None\<rparr>"
      and st': "st' = st\<lparr>v_files := (v_files st)(u_StagingPath (h_upload h) \<mapsto> F)\<rparr>" and i: "handle_inv K (x_root E) (h', st')"
    have "canonical (h_cov h)" using handle_invD(6) [OF inv r] by (auto simp: holds_file_def file_inv_def)
    then have "points (h_cov h') = points (h_cov h) \<union> {0..<?n}" using cov_add_ok(2) by (simp add: h')
    then have "{0..<int (length F)} \<subseteq> points (h_cov h') \<Longrightarrow> {?n..<int (length F)} \<subseteq> points (h_cov h)"
      using a(1) by (auto simp: subset_iff) (meson le_less_trans less_imp_le not_le order_trans)
    then have "final_content (h, st) F" if "{0..<int (length F)} \<subseteq> points (h_cov h')"
      using that r F0 a by (auto simp: final_content_def)
    from stat [OF i _ _ _ _ _ _ this] show "case Inr () of Inl e \<Rightarrow> X e | Inr x \<Rightarrow>
      awp (with_handle (\<lambda>h. abind (on_store (os_Stat E (the (h_file h)))) (\<lambda>sz.
       if cov_covers sz (h_cov h) then areturn () else afail ErrIncomplete))) Q (h', st')" for X
      using r by (simp add: h' st' del: awp_handle)
  qed
qed

section \<open>Close\<close>

lemma publish_close:
  assumes inv: "handle_inv K (x_root E) (h, st)" and r: "h_resolved h"
    and s0: "still_owned K s0 (h, st)" "h_failed (fst s0) = None" "h_tenant (fst s0) = u_Tenant (h_upload h)"
      "h_path (fst s0) = u_Path (h_upload h)" "h_meta (fst s0) = h_meta h"
    and F: "v_files st (u_StagingPath (h_upload h)) = Some F" "final_content s0 F"
  shows "awp (close_publish K E) (close_post K E s0) (h, st)"
proof -
  let ?f = "u_StagingPath (h_upload h)" and ?u = "h_upload h"
  have f: "the (h_file h) = ?f" "file_inv F h" using handle_invD(6) [OF inv r] F by (auto simp: holds_file_def)
  have fine: "store_fine K st" "owned (b_get K (v_db st)) ?u" using s0(1) by (simp_all add: still_owned_def)
  define pre where "pre = (case h_hasher h of Some sh \<Rightarrow> if h_baseSize h = 0 then sh_result (int (length F)) sh else None | None \<Rightarrow> None)"
  have pre: "pc_digest p = hex_encode (sha256 F) \<and> pc_size p = int (length F)" if "pre = Some p" for p
    using that f(2) sh_result_correct [of F] by (auto simp: pre_def file_inv_def split: option.splits if_splits)
  have final: "awp (on_store (finalize K E ?u pre (h_meta h))) (close_post K E s0) (h\<lparr>h_file := None\<rparr>, st)"
    unfolding awp_handle
  proof (rule finalize_wp [OF fine F(1) pre refl own_blob_dead [OF inv r]])
    fix e st' assume "store_fine K st'" "held_res st' = held_res st"
    then show "close_post K E s0 (Inl e) (h\<lparr>h_file := None\<rparr>, st')"
      using s0(1) by (auto simp: close_post_def still_owned_def intro: res_bal_eq)
  next
    let ?b = "blobPath (x_root E) (u_Tenant ?u) (u_ID ?u)"
    fix st' assume a: "store_fine K st'" "held_res st' = held_res st"
      "published ?u ?b (hex_encode (sha256 F)) (int (length F)) (h_meta h) (x_clock E AtPublish) (b_get K (v_db st'))"
      "v_files st' ?b = Some F"
    have "\<exists>u F. u_Tenant u = h_tenant (fst s0) \<and> u_Path u = h_path (fst s0) \<and> final_content s0 F \<and>
        published u (blobPath (x_root E) (u_Tenant u) (u_ID u)) (hex_encode (sha256 F)) (int (length F)) (h_meta (fst s0))
          (x_clock E AtPublish) (b_get K (v_db st')) \<and>
        v_files st' (blobPath (x_root E) (u_Tenant u) (u_ID u)) = Some F"
      by (rule exI [of _ ?u], rule exI [of _ F]) (use a(3,4) s0 F in simp)
    then show "close_post K E s0 (Inr ()) (h\<lparr>h_file := None\<rparr>, st')"
      using a(1,2) s0(1,2) unfolding close_post_def still_owned_def by (auto intro: res_bal_eq)
  qed
  have closed: "awp (aseq (acatch (acheck (x_io E (OpCloseFile ?f))) (\<lambda>e. on_store (fail K E ?u e)))
          (aseq (on_handle (\<lambda>h. h\<lparr>h_file := None\<rparr>)) (on_store (finalize K E ?u pre (h_meta h))))) (close_post K E s0) (h, st)"
  proof (cases "x_io E (OpCloseFile ?f)")
    case None
    then show ?thesis using final by (simp del: awp_handle(1))
  next
    case (Some e)
    have "awp (on_store (fail K E ?u e)) (\<lambda>r s'. case r of Inl e \<Rightarrow> close_post K E s0 (Inl e) s' | Inr x \<Rightarrow> R x s') (h, st)" for R
      unfolding awp_handle by (rule fail_wp [OF fine]) (use s0(1) in \<open>auto simp: close_post_def still_owned_def intro: res_bal_eq\<close>)
    then show ?thesis using Some by (simp del: awp_handle(1))
  qed
  have stat: "awp (abind (os_Stat E ?f) (\<lambda>sz. aseq (acheck (x_io E (OpSync ?f))) (areturn sz))) R st"
    if "\<And>e. R (Inl e) st" "R (Inr (int (length F))) st" for R
    unfolding awp_bind by (rule awp_os_Stat) (use that F in \<open>auto split: option.splits\<close>)
  have bad: "awp (discard K E ?u e) (\<lambda>r st'. case r of Inl e \<Rightarrow> close_post K E s0 (Inl e) (h, st') | Inr (x :: int) \<Rightarrow> R x st') st" for e R
    unfolding discard_def by (rule fail_wp [OF fine]) (use s0(1) in \<open>auto simp: close_post_def still_owned_def intro: res_bal_eq\<close>)
  show ?thesis
    unfolding close_publish_def awp_handle Let_def f(1) awp_bind [of "acatch _ _"] awp_catch
    by (rule stat) (use bad closed in \<open>simp_all add: pre_def del: awp_handle awp_seq\<close>)
qed

lemma settle_close:
  assumes inv: "handle_inv K (x_root E) (h, st)" and r: "h_resolved h"
    and s0: "res_bal (h, st) = res_bal s0" "h_failed (fst s0) = None" "h_tenant (fst s0) = u_Tenant (h_upload h)"
      "h_path (fst s0) = u_Path (h_upload h)" "h_meta (fst s0) = h_meta h"
    and F: "\<And>F. final_content (h, st) F \<Longrightarrow> final_content s0 F"
  shows "awp (aseq (close_settle K E) (close_publish K E)) (close_post K E s0) (h, st)"
  unfolding awp_seq close_settle_def awp_catch
proof (rule settle_wp [OF inv r])
  fix e h' st' assume "still_owned K (h, st) (h', st')" and u: "h_upload h' = h_upload h"
  then have own: "still_owned K s0 (h', st')" using s0(1) by (simp add: still_owned_def)
  have gen: "awp m (\<lambda>r s'. case r of Inl e \<Rightarrow> close_post K E s0 (Inl e) s' | Inr x \<Rightarrow> awp (close_publish K E) (close_post K E s0) s') (h', st')"
    if "awp m (close_post K E s0) (h', st')" "fst (m (h', st')) = Inl e'" for e' and m :: "('db hs, unit) act"
    using that by (auto simp: awp_def split: prod.splits sum.splits)
  have err: "fst (interruptHandle K E e s) = Inl e" "fst (on_store (discard K E u e) s) = Inl e" for s and u
    by (simp_all add: interruptHandle_def discard_def fail_def on_store_def aseq_def abind_def aignore_def afail_def with_handle_def on_handle_def amod_def areturn_def split: prod.splits)
  note gi = gen [OF interrupt_close [OF own] err(1)] and gd = gen [OF discard_close [OF own] err(2)]
  show "case Inl e of Inl e \<Rightarrow> awp (if e = ErrIncomplete then interruptHandle K E e
       else with_handle (\<lambda>h. on_store (discard K E (h_upload h) e)))
       (\<lambda>r s'. case r of Inl e \<Rightarrow> close_post K E s0 (Inl e) s' | Inr (x :: unit) \<Rightarrow> awp (close_publish K E) (close_post K E s0) s') (h', st')
     | Inr (x :: unit) \<Rightarrow> X x" for X
    using gi gd by (cases "e = ErrIncomplete") (simp_all del: awp_handle(1))
next
  fix F' h' st' assume i: "handle_inv K (x_root E) (h', st')" "h_resolved h'" "v_db st' = v_db st" "res_bal (h', st') = res_bal (h, st)"
      "h_upload h' = h_upload h" "h_meta h' = h_meta h" "v_files st' (u_StagingPath (h_upload h)) = Some F'" "final_content (h, st) F'"
  have own: "still_owned K s0 (h', st')" using handle_inv_owned [OF i(1,2)] i(4) s0(1) by (simp add: still_owned_def)
  have "awp (close_publish K E) (close_post K E s0) (h', st')"
    by (rule publish_close [OF i(1,2) own]) (use s0 i F in simp_all)
  then show "case Inr () of Inl e \<Rightarrow> X e | Inr x \<Rightarrow> (case Inr x of Inl e \<Rightarrow> Y e | Inr x \<Rightarrow> awp (close_publish K E) (close_post K E s0) (h', st'))" for X Y
    by simp
qed

text \<open>\<open>Close\<close> before its deferred calls.\<close>

lemma close_body_post:
  assumes inv: "handle_inv K (x_root E) (h, st)" and rand: "fresh_rand K E st"
  shows "awp (close_body K E) (close_post K E (h, st)) (h, st)"
proof (cases "h_failed h")
  case (Some e)
  show ?thesis
  proof (cases "h_resolved h")
    case True
    note own = handle_inv_owned [OF inv True]
    have "h_file h \<noteq> None" using handle_invD(6) [OF inv True] by (simp add: holds_file_def)
    then show ?thesis using Some discard_close [OF own] interrupt_close [OF own] by (auto simp: close_body_def simp del: awp_handle(1))
  next
    case False
    then show ?thesis using Some handle_invD(1,7) [OF inv] by (simp add: close_body_def close_post_def)
  qed
next
  case None
  have holds: "u_Tenant (h_upload h') = h_tenant h' \<and> u_Path (h_upload h') = h_path h'" if "handle_inv K root (h', st')" "h_resolved h'" for root h' st'
    using handle_invD(6) [OF that] by (simp add: holds_file_def)
  show ?thesis
  proof (cases "h_resolved h")
    case True
    have "awp (aseq (close_settle K E) (close_publish K E)) (close_post K E (h, st)) (h, st)"
      by (rule settle_close [OF inv True]) (use None holds [OF inv True] in simp_all)
    then show ?thesis using None True by (simp add: close_body_def del: awp_seq) (simp only: awp_seq awp_base sum.case)
  next
    case False
    show ?thesis
    proof (cases "h_candidates h = []")
      case False
      then show ?thesis using None \<open>\<not> h_resolved h\<close> handle_invD(1) [OF inv] by (simp add: close_body_def close_post_def)
    next
      case True
      have "awp (aseq (startFresh K E) (aseq (close_settle K E) (close_publish K E))) (close_post K E (h, st)) (h, st)"
        unfolding awp_seq [of "startFresh K E"]
      proof (rule startFresh_wp [OF inv False rand])
        fix e st' assume "handle_inv K (x_root E) (h, st')" "held_res st' = held_res st"
        then show "case Inl e of Inl e \<Rightarrow> close_post K E (h, st) (Inl e) (h, st') | Inr x \<Rightarrow> X x" for X
          using handle_invD(1) res_bal_held [of st' st h] by (simp add: close_post_def)
      next
        fix h' st' assume a: "handle_inv K (x_root E) (h', st')" "held_res st' = held_res st" "fresh_handle h h'"
          "v_files st' (u_StagingPath (h_upload h')) = Some []"
        have h': "h_resolved h'" "h_cov h' = []" "h_tenant h' = h_tenant h" "h_path h' = h_path h" "h_meta h' = h_meta h"
          "res_bal (h', st') = res_bal (h, st')"
          using a(3) handle_invD(7) [OF inv False] by (auto simp: fresh_handle_def res_bal_def)
        have "final_content (h', st') F \<Longrightarrow> final_content (h, st) F" for F
          using h' a(4) False by (simp add: final_content_def cov_start_def)
        then have "awp (aseq (close_settle K E) (close_publish K E)) (close_post K E (h, st)) (h', st')"
          by (intro settle_close [OF a(1) h'(1)])
            (use None holds [OF a(1) h'(1)] h' res_bal_held [OF a(2), of h] in simp_all)
        then show "case Inr () of Inl e \<Rightarrow> X e | Inr x \<Rightarrow> awp (aseq (close_settle K E) (close_publish K E)) (close_post K E (h, st)) (h', st')" for X
          by simp
      qed
      then show ?thesis using None True False by (simp add: close_body_def del: awp_seq)
    qed
  qed
qed

text \<open>What parking an upload does in detail.\<close>

lemma interrupt_wp:
  assumes fine: "store_fine K st" "owned (b_get K (v_db st)) (h_upload h)" "h_file h = Some (u_StagingPath (h_upload h))"
    and F: "v_files st (u_StagingPath (h_upload h)) = Some F" "file_inv F h"
    and u': "u' = (h_upload h)\<lparr>u_State := StateInterrupted, u_UpdatedAt := x_clock E AtMark, u_Error := error_text e\<rparr>"
  shows "awp (interruptHandle K E e) (\<lambda>r s'. r = Inl e \<and>
     (b_get K (v_db (snd s')) = b_get K (v_db st) \<or> b_get K (v_db (snd s')) = write_rec BUploads (CUpload u') (b_get K (v_db st))) \<and>
     (v_files (snd s') (u_StagingPath (h_upload h)) = Some F \<or>
      v_files (snd s') (u_StagingPath (h_upload h)) = Some (take (nat (cov_contiguous (h_cov h))) F))) (h, st)"
    (is "awp _ ?Q _")
proof -
  let ?c = "cov_contiguous (h_cov h)" and ?f = "u_StagingPath (h_upload h)"
  have can: "canonical (h_cov h)" "points (h_cov h) \<subseteq> {0..<int (length F)}" using F(2) by (simp_all add: file_inv_def)
  note c = cov_contiguous_ok [OF can(1)]
  have "?c \<le> int (length F)"
  proof (rule ccontr)
    assume "\<not> ?c \<le> int (length F)"
    then have "int (length F) \<in> points (h_cov h)" using c(2) by auto
    then show False using can(2) by auto
  qed
  then have cut: "file_trunc (nat ?c) F = take (nat ?c) F" by (simp add: file_trunc_def)
  define P where "P st' \<longleftrightarrow> (b_get K (v_db st') = b_get K (v_db st) \<or> b_get K (v_db st') = write_rec BUploads (CUpload u') (b_get K (v_db st))) \<and>
     (v_files st' ?f = Some F \<or> v_files st' ?f = Some (take (nat ?c) F))" for st' :: "'db store"
  have mark: "awp (markUpload K E (h_upload h) StateInterrupted e) (\<lambda>r. P) st'"
    if "store_fine K st'" "v_db st' = v_db st" "v_files st' ?f = Some F \<or> v_files st' ?f = Some (take (nat ?c) F)" for st'
    by (rule markUpload_wp) (use that fine in \<open>auto simp: u' P_def\<close>)
  have "awp (file_Truncate E ?f ?c) (\<lambda>r. awp (markUpload K E (h_upload h) StateInterrupted e) (\<lambda>r. P)) st"
    by (rule awp_file_Truncate) (use fine F cut in \<open>auto intro!: mark\<close>)
  then show ?thesis using c(1) fine(3) by (simp add: interruptHandle_def P_def [abs_def])
qed

lemma close_incomplete:
  assumes inv: "handle_inv K (x_root E) (h, st)" and h: "h_resolved h" "h_failed h = None" "\<not> h_fillPrefix h"
    and F: "v_files st (u_StagingPath (h_upload h)) = Some F" "x_io E (OpStat (u_StagingPath (h_upload h))) = None"
    and gap: "0 \<le> i" "i < int (length F)" "i \<notin> points (h_cov h)"
  shows "close_body K E (h, st) = (Inl ErrIncomplete, snd (interruptHandle K E ErrIncomplete (h, st) :: (error + unit) \<times> _))"
proof -
  have f: "h_file h = Some (u_StagingPath (h_upload h))" "canonical (h_cov h)"
    using handle_invD(6) [OF inv h(1)] F(1) by (auto simp: holds_file_def file_inv_def)
  have "\<not> cov_covers (int (length F)) (h_cov h)" using cov_covers_iff [OF f(2), of "int (length F)"] gap by auto
  then have settle: "settle E (h, st) = (Inl ErrIncomplete, (h, st))"
    using h(3) f(1) F by (simp add: settle_def fill_prefix_def aseq_def abind_def with_handle_def areturn_def afail_def
        on_store_def os_Stat_def acheck_def file_at_def)
  have "close_settle K E (h, st) = interruptHandle K E ErrIncomplete (h, st)"
    unfolding close_settle_def acatch_def settle by simp
  moreover have "fst (interruptHandle K E ErrIncomplete s :: (error + unit) \<times> _) = Inl ErrIncomplete" for s
    by (simp add: interruptHandle_def on_store_def aseq_def abind_def aignore_def afail_def with_handle_def on_handle_def amod_def areturn_def
        split: prod.splits)
  ultimately have "close_settle K E (h, st) = (Inl ErrIncomplete, snd (interruptHandle K E ErrIncomplete (h, st) :: (error + unit) \<times> _))"
    by (metis prod.collapse)
  then show ?thesis using h(1,2) by (simp add: close_body_def with_handle_def aseq_def abind_def areturn_def)
qed

end

end
