(* ===== verification/Upload_Open.thy ===== *)
theory Upload_Open
  imports Upload_Close
begin

text \<open>
  Opening an upload gives a handle in its invariant or, on every error, gives back what was taken from
  the gate.
\<close>

lemma newest_loop_Some:
  "newest_loop K db pre best es = Some u \<Longrightarrow> best = Some u \<or>
   (\<exists>k v. (k, v) \<in> set es \<and> hasPrefix k pre \<and> json_upload (b_get K db BUploads (drop (length pre) k)) = Inr u \<and>
      u_State u = StateInterrupted)"
proof (induction K db pre best es rule: newest_loop.induct)
  case (2 K db pre best k v rest)
  show ?case
  proof (cases "hasPrefix k pre \<and> (\<exists>u'. json_upload (b_get K db BUploads (drop (length pre) k)) = Inr u' \<and> u_State u' = StateInterrupted)")
    case True
    then obtain u' where u': "hasPrefix k pre" "json_upload (b_get K db BUploads (drop (length pre) k)) = Inr u'" "u_State u' = StateInterrupted"
      by blast
    let ?best = "case best of None \<Rightarrow> Some u' | Some b \<Rightarrow> if u_UpdatedAt b < u_UpdatedAt u' then Some u' else best"
    have "newest_loop K db pre ?best rest = Some u" using 2(4) u' by simp
    with 2(3) [of u'] u' have "?best = Some u \<or> (\<exists>k v. (k, v) \<in> set rest \<and> hasPrefix k pre \<and>
        json_upload (b_get K db BUploads (drop (length pre) k)) = Inr u \<and> u_State u = StateInterrupted)" by simp
    then show ?thesis using u' by (auto split: option.splits if_splits)
  next
    case False
    then show ?thesis using 2 by (auto split: sum.splits if_splits)
  qed
qed simp

text \<open>An upload over a published version reserves nothing until it clones it.\<close>

definition opened :: "'db bolt \<Rightarrow> string \<Rightarrow> string \<Rightarrow> string \<Rightarrow> 'db store \<Rightarrow> error + UploadHandle \<Rightarrow> 'db store \<Rightarrow> bool" where
  "opened K root tenant name st r st' \<longleftrightarrow>
     (case r of
        Inl e \<Rightarrow> store_fine K st' \<and> v_slots st' = v_slots st \<and> v_reserved st' = v_reserved st \<and> v_inflight st' = v_inflight st
      | Inr h \<Rightarrow> handle_inv K root (h, st') \<and> unreserved h \<and> h_failed h = None \<and> \<not> h_closed h \<and>
          h_tenant h = tenant \<and> CleanPath name = Inr (h_path h) \<and>
          res_bal (h, st') = (v_slots st, v_reserved st, v_inflight st + 1))"

context bolt_laws
begin

lemma newestInterrupted_ok:
  assumes cat: "catalog_ok (b_get K db) n" and st: "stages_ok root (b_get K db)" and t: "nul \<notin> set tenant" "nul \<notin> set name"
    and u: "newestInterrupted K tenant name db = Some u"
  shows "b_get K db BUploads (u_ID u) = Some (CUpload u)" "u_Tenant u = tenant" "u_Path u = name" "u_State u = StateInterrupted"
proof -
  let ?pre = "tenant @ [nul] @ name @ [nul]" and ?g = "b_get K db"
  from newest_loop_Some [OF u [unfolded newestInterrupted_def Let_def]] obtain k v where
    k: "(k, v) \<in> set (b_seek K db BUploadPaths ?pre)" "hasPrefix k ?pre" "json_upload (?g BUploads (drop (length ?pre) k)) = Inr u"
    and s: "u_State u = StateInterrupted" by auto
  let ?id = "drop (length ?pre) k"
  have uid: "?g BUploads ?id = Some (CUpload u)" using k(3) by (cases "?g BUploads ?id" rule: json_upload.cases) simp_all
  have id: "u_ID u = ?id" using graves_upload(5) [OF cat uid] .
  have kk: "k = tenant @ nul # name @ nul # ?id"
  proof -
    obtain x where x: "k = ?pre @ x" using k(2) by (auto simp: hasPrefix_def prefix_def)
    then have "drop (length ?pre) k = x" by simp
    with x show ?thesis by simp
  qed
  have "in_sync BUploadPaths ?g" using catalog_okD(2) [OF cat] by (simp add: indexes_ok_iff)
  moreover have "?g BUploadPaths k = Some v" using k(1) by (simp add: seek_iff)
  ultimately obtain oid c where c: "?g BUploads oid = Some c" "upload_path_entry c = Some (k, v)"
    using index_iff [of BUploadPaths ?g k v] catalog_okD(1) [OF cat] by auto
  then obtain u2 where u2: "c = CUpload u2" "k = uploadPathKey (u_Tenant u2) (u_Path u2) (u_ID u2)" by (cases c) simp_all
  have "nul \<notin> set (u_Tenant u2)" "clean_path (u_Path u2)" using st c(1) u2(1) unfolding stages_ok_def by blast+
  moreover have "u_ID u2 = oid" using graves_upload(5) [OF cat] c(1) u2(1) by simp
  ultimately have "u_Tenant u2 = tenant \<and> u_Path u2 = name \<and> oid = ?id"
    using u2(2) kk t nul_split_eq clean_path_nul by (simp add: uploadPathKey_def nul_split_eq)
  with c(1) u2(1) uid have "u_Tenant u = tenant \<and> u_Path u = name" by simp
  with uid id s show "b_get K db BUploads (u_ID u) = Some (CUpload u)" "u_Tenant u = tenant" "u_Path u = name" "u_State u = StateInterrupted"
    by simp_all
qed

lemma baseCandidates_ok:
  assumes "store_fine K st" "stages_ok root (b_get K (v_db st))" "nul \<notin> set (h_tenant h)" "clean_path (h_path h)"
    and c: "c \<in> set (baseCandidates K E (h_tenant h) (h_path h) st)"
  shows "cand_ok (b_get K (v_db st)) h c"
proof (cases c)
  case (BaseInterrupted u n)
  have "newestInterrupted K (h_tenant h) (h_path h) (v_db st) = Some u"
    using c unfolding BaseInterrupted baseCandidates_def Let_def by (auto split: option.splits sum.splits if_splits)
  from newestInterrupted_ok [OF _ assms(2,3) clean_path_nul [OF assms(4)] this] show ?thesis
    using assms(1) by (auto simp: BaseInterrupted cand_ok_def store_fine_def store_ok_def)
qed (simp add: cand_ok_def)

lemma open_mode_ok:
  assumes fine: "store_fine K st" "stages_ok (x_root E) (b_get K (v_db st))" "nul \<notin> set tenant" "clean_path clean"
    and rand: "fresh_rand K E st" and run: "open_mode K E mode (new_handle tenant clean protocol mode internal rel, st) = (r, s')"
  shows "store_fine K (snd s')" "res_bal s' = res_bal (new_handle tenant clean protocol mode internal rel, st)"
    "r = Inr () \<Longrightarrow> handle_inv K (x_root E) s' \<and> unreserved (fst s') \<and> h_failed (fst s') = None \<and> \<not> h_closed (fst s') \<and>
      h_tenant (fst s') = tenant \<and> h_path (fst s') = clean"
proof -
  let ?h = "new_handle tenant clean protocol mode internal rel"
  have inv: "handle_inv K (x_root E) (?h, st)" and new: "\<not> h_resolved ?h" "h_reserved ?h = None" "h_failed ?h = None" "\<not> h_closed ?h" "h_tenant ?h = tenant" "h_path ?h = clean"
    using fine by (simp_all add: handle_inv_def new_handle_def)
  have rp: "store_fine K (snd s') \<and> res_bal s' = res_bal (?h, st) \<and>
      (r = Inr () \<longrightarrow> handle_inv K (x_root E) s' \<and> unreserved (fst s') \<and> h_failed (fst s') = None \<and> \<not> h_closed (fst s') \<and>
      h_tenant (fst s') = tenant \<and> h_path (fst s') = clean)"
    if "resolve_post K E (?h, st) r s'"
    using that new handle_invD(1) [of K "x_root E" "fst s'" "snd s'"] by (auto simp: resolve_post_def same_flags_def unreserved_def)
  have all: "store_fine K (snd s') \<and> res_bal s' = res_bal (?h, st) \<and>
      (r = Inr () \<longrightarrow> handle_inv K (x_root E) s' \<and> unreserved (fst s') \<and> h_failed (fst s') = None \<and> \<not> h_closed (fst s') \<and>
      h_tenant (fst s') = tenant \<and> h_path (fst s') = clean)"
  proof (cases mode)
    case ModeTruncate
    then show ?thesis using run awpD [OF startFresh_post [OF inv new(1) rand]] rp by (simp add: open_mode_def)
  next
    case ModeResume
    let ?cs = "baseCandidates K E tenant clean st"
    have "s' = (?h\<lparr>h_candidates := ?cs\<rparr>, st)" using run ModeResume by (auto simp: open_mode_def new_handle_def)
    moreover have "cand_ok (b_get K (v_db st)) (?h\<lparr>h_candidates := ?cs\<rparr>) c" if "c \<in> set ?cs" for c
      by (rule baseCandidates_ok) (use fine that in \<open>simp_all add: new_handle_def\<close>)
    ultimately show ?thesis using inv fine by (simp add: handle_inv_def new_handle_def unreserved_def res_bal_def)
  next
    case ModeAppend
    let ?cs = "baseCandidates K E (h_tenant ?h) (h_path ?h) st"
    have "cand_ok (b_get K (v_db st)) ?h (?cs ! 0)" if "?cs \<noteq> []"
      by (rule baseCandidates_ok [where E = E]) (use fine that in \<open>simp_all add: new_handle_def\<close>)
    then show ?thesis
      using run ModeAppend awpD [OF startFresh_post [OF inv new(1) rand]] awpD [OF adopt_post [OF inv new(1,2) rand]] rp
      by (auto simp: open_mode_def Let_def split: if_splits)
  qed
  then show "store_fine K (snd s')" "res_bal s' = res_bal (?h, st)"
    "r = Inr () \<Longrightarrow> handle_inv K (x_root E) s' \<and> unreserved (fst s') \<and> h_failed (fst s') = None \<and> \<not> h_closed (fst s') \<and>
      h_tenant (fst s') = tenant \<and> h_path (fst s') = clean" by simp_all
qed

lemma openUpload_ok:
  assumes fine: "store_fine K st" "stages_ok (x_root E) (b_get K (v_db st))" "nul \<notin> set tenant" "fresh_rand K E st"
    and run: "openUpload K E tenant name protocol mode internal st = (r, st')"
  shows "opened K (x_root E) tenant name st r st'"
proof (cases "CleanPath name")
  case (Inl e)
  then show ?thesis using run fine by (auto simp: openUpload_def opened_def)
next
  case clean: (Inr clean)
  show ?thesis
  proof (cases "clean = [] \<or> checkFilePath K tenant clean (v_db st) \<noteq> None")
    case True
    then have "st' = st \<and> (\<exists>e. r = Inl e)" using run unfolding openUpload_def clean sum.case by (auto split: if_splits option.splits)
    then show ?thesis using fine by (auto simp: opened_def)
  next
    case False
    have c: "clean \<noteq> []" "checkFilePath K tenant clean (v_db st) = None" "clean_path clean"
      using False CleanPath_Inr [OF clean] by auto
    let ?enter = "(if internal then (if v_draining st then (Inl ErrDraining, st) else (Inr False, st))
                   else case AdmitUpload (x_src E) (map_option ga_AdmitUpload (x_gate E)) st tenant of
                     Some e \<Rightarrow> (Inl e, st)
                   | None \<Rightarrow> (case x_gate E of None \<Rightarrow> (Inr False, st)
                        | Some g \<Rightarrow> (case ga_AcquireUpload g tenant of Some e \<Rightarrow> (Inl e, st)
                             | None \<Rightarrow> (Inr True, st\<lparr>v_slots := v_slots st + 1\<rparr>))))"
    obtain er st1 where en: "?enter = (er, st1)" by (metis surj_pair)
    then have st1: "er = Inr rel \<Longrightarrow> st1 = st\<lparr>v_slots := v_slots st + (if rel then 1 else 0)\<rparr>" "er = Inl e \<Longrightarrow> st1 = st" for rel e
      by (auto split: if_splits option.splits)
    note unf = run [unfolded openUpload_def clean sum.case c(2) option.case if_not_P [OF c(1)] Let_def en prod.case]
    show ?thesis
    proof (cases er)
      case (Inl e)
      then show ?thesis using unf st1 fine by (auto simp: opened_def)
    next
      case er: (Inr rel)
      let ?h = "new_handle tenant clean protocol mode internal rel"
      have f1: "store_fine K st1" "stages_ok (x_root E) (b_get K (v_db st1))" "fresh_rand K E st1"
        using fine st1(1) [OF er] by (simp_all add: store_fine_def store_ok_def fresh_rand_def)
      obtain r2 h2 st2 where om: "open_mode K E mode (?h, st1) = (r2, (h2, st2))" by (metis surj_pair)
      note o = open_mode_ok [OF f1(1,2) fine(3) c(3) f1(3) om]
      have bal: "res_bal (?h, st1) = (v_slots st, v_reserved st, v_inflight st)"
        using st1(1) [OF er] by (simp add: res_bal_def new_handle_def)
      show ?thesis
      proof (cases r2)
        case (Inl e)
        then have "r = Inl e" "st' = snd (releaseResources (h2, st2))" using unf er om by simp_all
        then show ?thesis using o(1,2) bal by (simp add: opened_def releaseResources_def res_bal_def held_res_def store_fine_def store_ok_def)
      next
        case (Inr x)
        then have r: "r = Inr h2" "st' = st2\<lparr>v_inflight := v_inflight st2 + 1\<rparr>" using unf er om by simp_all
        have "handle_inv K (x_root E) (h2, st2\<lparr>v_inflight := v_inflight st2 + 1\<rparr>) = handle_inv K (x_root E) (h2, st2)"
          by (simp add: handle_inv_def holds_file_def store_fine_def store_ok_def)
        then show ?thesis using o Inr bal r clean by (auto simp: opened_def res_bal_def)
      qed
    qed
  qed
qed

end

end
