(* ===== verification/Upload_Session.thy ===== *)
theory Upload_Session
  imports Upload_Open
begin

text \<open>
  The life of a handle as a step relation: its methods run in any order, each with an environment of
  its own (clock, random source, failing system calls), and other requests change the store in
  between, as long as they leave the record and the staging file of the handle alone.
\<close>

section \<open>Steps of other requests\<close>

definition undisturbed :: "'db bolt \<Rightarrow> string \<Rightarrow> UploadHandle \<Rightarrow> 'db store \<Rightarrow> 'db store \<Rightarrow> bool" where
  "undisturbed K root h st st' \<longleftrightarrow>
     store_fine K st' \<and> stages_ok root (b_get K (v_db st')) \<and>
     (\<forall>c\<in>set (h_candidates h). cand_ok (b_get K (v_db st')) h c) \<and>
     (h_resolved h \<longrightarrow>
        b_get K (v_db st') BUploads (u_ID (h_upload h)) = b_get K (v_db st) BUploads (u_ID (h_upload h)) \<and>
        v_files st' (u_StagingPath (h_upload h)) = v_files st (u_StagingPath (h_upload h)))"

lemma undisturbed_inv:
  assumes "handle_inv K root (h, st)" "undisturbed K root h st st'"
  shows "handle_inv K root (h, st')"
  using assms unfolding handle_inv_def undisturbed_def holds_file_def owned_def by (auto split: if_splits)

section \<open>Sessions\<close>

inductive session :: "'db bolt \<Rightarrow> string \<Rightarrow> 'db hs \<Rightarrow> 'db hs \<Rightarrow> bool" for K root s where
  begins: "session K root s s"
| writes: "session K root s s' \<Longrightarrow> x_root E = root \<Longrightarrow> fresh_rand K E (snd s') \<Longrightarrow> session K root s (snd (WriteAt K E p off s'))"
| appends: "session K root s s' \<Longrightarrow> x_root E = root \<Longrightarrow> fresh_rand K E (snd s') \<Longrightarrow> session K root s (snd (Append K E p s'))"
| truncates: "session K root s s' \<Longrightarrow> x_root E = root \<Longrightarrow> fresh_rand K E (snd s') \<Longrightarrow>
    h_failed (fst s') = None \<or> h_resolved (fst s') \<Longrightarrow> session K root s (snd (Truncate K E sz s'))"
| breaks: "session K root s (h, st) \<Longrightarrow> session K root s (TransferError e h, st)"
| fails: "session K root s (h, st) \<Longrightarrow> session K root s (Fail e h, st)"
| describes: "session K root s (h, st) \<Longrightarrow> session K root s (SetObjectMeta m h, st)"
| others: "session K root s (h, st) \<Longrightarrow> undisturbed K root h st st' \<Longrightarrow> session K root s (h, st')"

context bolt_laws
begin

lemma session_inv:
  assumes "session K root s s'" "handle_inv K root s" "unreserved (fst s)"
  shows "handle_inv K root s' \<and> unreserved (fst s') \<and> h_tenant (fst s') = h_tenant (fst s) \<and> h_path (fst s') = h_path (fst s) \<and>
    h_closed (fst s') = h_closed (fst s)"
  using assms
proof (induction rule: session.induct)
  case (writes s' E p off)
  then show ?case using WriteAt_post(1) [of E "fst s'" "snd s'"] by (simp add: method_post_def)
next
  case (appends s' E p)
  then show ?case using WriteAt_post(2) [of E "fst s'" "snd s'"] by (simp add: method_post_def)
next
  case (truncates s' E sz)
  then show ?case using Truncate_post [of E "fst s'" "snd s'"] by (simp add: method_post_def)
next
  case (others h st st')
  then show ?case using undisturbed_inv by auto
qed (auto simp: TransferError_def Fail_def SetObjectMeta_def unreserved_def)

end

section \<open>What a handle that is written looks like from outside\<close>

text \<open>The abstract file of a handle: the covered bytes.\<close>

definition sparse :: "'db hs \<Rightarrow> int \<Rightarrow> char option" where
  "sparse s i =
     (case s of (h, st) \<Rightarrow>
        case v_files st (u_StagingPath (h_upload h)) of
          None \<Rightarrow> None
        | Some F \<Rightarrow> if i \<in> points (h_cov h) then Some (F ! nat i) else None)"

text \<open>A byte that was never written reads as zero.\<close>

definition gaps_zero :: "'db hs \<Rightarrow> bool" where
  "gaps_zero s \<longleftrightarrow>
     (case s of (h, st) \<Rightarrow>
        \<forall>F i. v_files st (u_StagingPath (h_upload h)) = Some F \<longrightarrow> i < length F \<longrightarrow> int i \<notin> points (h_cov h) \<longrightarrow> F ! i = nul)"

definition put_bytes :: "string \<Rightarrow> int \<Rightarrow> (int \<Rightarrow> char option) \<Rightarrow> int \<Rightarrow> char option" where
  "put_bytes p off m i = (if off \<le> i \<and> i < off + int (length p) then Some (p ! nat (i - off)) else m i)"

definition set_length :: "int \<Rightarrow> int \<Rightarrow> (int \<Rightarrow> char option) \<Rightarrow> int \<Rightarrow> char option" where
  "set_length old sz m i = (if sz \<le> i then None else if old \<le> i then Some nul else m i)"

lemma write_file_sparse:
  assumes F: "h_file h = Some (u_StagingPath (h_upload h))" "v_files st (u_StagingPath (h_upload h)) = Some F" "file_inv F h"
    and run: "write_file E p off (h, st) = ((n, eo), s')" and off: "0 \<le> off"
  shows "sparse s' = put_bytes (take n p) off (sparse (h, st))" "gaps_zero (h, st) \<Longrightarrow> gaps_zero s'" "n \<le> length p"
proof -
  obtain n' eo' st' where w: "file_WriteAt E (u_StagingPath (h_upload h)) p off st = ((n', eo'), st')" by (metis surj_pair)
  let ?st = "\<lambda>F. st\<lparr>v_files := (v_files st)(u_StagingPath (h_upload h) \<mapsto> F)\<rparr>"
  have wrote: "n' = 0 \<and> (st' = st \<or> st' = ?st F) \<or> 0 < n' \<and> n' \<le> length p \<and> st' = ?st (file_write (take n' p) (nat off) F)"
    using w F(2) by (auto simp: file_WriteAt_def Let_def split: if_splits option.splits)
  let ?h = "h\<lparr>h_cov := cov_add off (off + int n') (h_cov h), h_hasher := map_option (sh_write (take n' p) off) (h_hasher h)\<rparr>"
  define h1 where "h1 = (if 0 < n' then ?h else h)"
  have run': "s' = (case eo' of None \<Rightarrow> h1 | Some e \<Rightarrow> h1\<lparr>h_failed := Some e\<rparr>, st')" "n = n'"
    using run unfolding write_file_def prod.case F(1) option.sel w Let_def h1_def by (elim Pair_inject, simp only:)+
  have flags: "sparse s' = sparse (h1, st')" "gaps_zero s' = gaps_zero (h1, st')"
    unfolding run'(1) by (auto simp: sparse_def [abs_def] gaps_zero_def split: option.splits)
  have can: "canonical (h_cov h)" "points (h_cov h) \<subseteq> {0..<int (length F)}" using F(3) by (simp_all add: file_inv_def)
  have "sparse (h1, st') = put_bytes (take n' p) off (sparse (h, st)) \<and> (gaps_zero (h, st) \<longrightarrow> gaps_zero (h1, st')) \<and> n' \<le> length p"
  proof (cases "0 < n'")
    case True
    then have l: "n' \<le> length p" "st' = ?st (file_write (take n' p) (nat off) F)" using wrote by auto
    have pts: "points (cov_add off (off + int n') (h_cov h)) = points (h_cov h) \<union> {off..<off + int n'}"
      using cov_add_ok(2) [OF can(1) off] .
    have nth: "file_write (take n' p) (nat off) F ! j =
        (if nat off \<le> j \<and> j < nat off + n' then p ! (j - nat off) else if j < length F then F ! j else nul)"
      if "j < max (length F) (nat off + n')" for j
      using file_write_nth [of j F "nat off" "take n' p"] that l(1) by auto
    have "sparse (?h, st') i = put_bytes (take n' p) off (sparse (h, st)) i" for i
    proof (cases "i \<in> points (h_cov h) \<union> {off..<off + int n'}")
      case In: True
      then have i: "0 \<le> i" "nat i < max (length F) (nat off + n')" using subsetD [OF can(2), of i] off by (auto simp: nat_less_iff)
      have F': "v_files st' (u_StagingPath (h_upload h)) = Some (file_write (take n' p) (nat off) F)" using l(2) by simp
      have "sparse (?h, st') i = Some (file_write (take n' p) (nat off) F ! nat i)" using In F' pts by (simp add: sparse_def)
      moreover have "put_bytes (take n' p) off (sparse (h, st)) i = Some (file_write (take n' p) (nat off) F ! nat i)"
      proof (cases "off \<le> i \<and> i < off + int n'")
        case True
        then have "nat off \<le> nat i \<and> nat i < nat off + n'" "nat i - nat off = nat (i - off)" using i off by (simp_all add: nat_less_iff nat_diff_distrib) linarith
        moreover from True have "nat (i - off) < n'" by linarith
        ultimately show ?thesis using True l(1) nth [OF i(2)] by (simp add: put_bytes_def)
      next
        case False
        then have "i \<in> points (h_cov h)" "\<not> (nat off \<le> nat i \<and> nat i < nat off + n')" using In i off by auto
        then show ?thesis using False l(1) nth [OF i(2)] F(2) subsetD [OF can(2), of i] i(1) by (auto simp: put_bytes_def sparse_def nat_less_iff)
      qed
      ultimately show ?thesis by simp
    next
      case False
      then show ?thesis using F(2) l by (auto simp: sparse_def put_bytes_def pts)
    qed
    moreover have "gaps_zero (h, st) \<longrightarrow> gaps_zero (?h, st')"
      using F(2) l off nth by (auto simp: gaps_zero_def pts)
    ultimately show ?thesis using True l(1) by (auto simp: h1_def)
  next
    case False
    then have "n' = 0" "st' = st \<or> st' = st\<lparr>v_files := (v_files st)(u_StagingPath (h_upload h) \<mapsto> F)\<rparr>" using wrote by auto
    moreover have "(v_files st)(u_StagingPath (h_upload h) \<mapsto> F) = v_files st" using F(2) by (simp add: fun_upd_idem)
    ultimately have "n' = 0" "st' = st" by auto
    then show ?thesis using off by (auto simp: h1_def put_bytes_def fun_eq_iff)
  qed
  then show "sparse s' = put_bytes (take n p) off (sparse (h, st))" "gaps_zero (h, st) \<Longrightarrow> gaps_zero s'" "n \<le> length p"
    using flags run'(2) by simp_all
qed

lemma truncate_sparse:
  assumes F: "h_file h = Some (u_StagingPath (h_upload h))" "v_files st (u_StagingPath (h_upload h)) = Some F" "file_inv F h"
    and z: "gaps_zero (h, st)" and ok: "\<not> h_closed h" "h_resolved h" and run: "Truncate K E sz (h, st) = (Inr (), s')"
  shows "0 \<le> sz" "sparse s' = set_length (cov_end (h_cov h)) sz (sparse (h, st))" "gaps_zero s'"
proof -
  let ?c = "let c = cov_clip sz (h_cov h) in if cov_end (h_cov h) < sz then cov_add (cov_end (h_cov h)) sz c else c"
  let ?F = "file_trunc (nat sz) F"
  let ?h = "h\<lparr>h_cov := ?c, h_baseSize := (if sz < h_baseSize h then sz else h_baseSize h), h_hasher := map_option (sh_truncate sz) (h_hasher h)\<rparr>"
  let ?st = "st\<lparr>v_files := (v_files st)(u_StagingPath (h_upload h) \<mapsto> ?F)\<rparr>"
  show sz: "0 \<le> sz" using run ok by (auto simp: Truncate_def split: if_splits)
  define h2 where "h2 = ?h"
  have T: "Truncate K E sz (h, st) = (case file_Truncate E (u_StagingPath (h_upload h)) sz st of
      (Inl e, st') \<Rightarrow> (Inl e, (h\<lparr>h_failed := Some e\<rparr>, st')) | (Inr _, st') \<Rightarrow> (Inr (), (h2, st')))"
    using ok sz F(1) unfolding Truncate_def h2_def prod.case Let_def by (simp split: prod.splits sum.splits)
  have s': "s' = (h2, ?st)"
    using run F(2) unfolding T by (auto simp: file_Truncate_def aseq_def abind_def acheck_def file_at_def put_file_def split: option.splits)
  have h2: "h_upload h2 = h_upload h" by (simp add: h2_def)
  have can: "canonical (h_cov h)" "points (h_cov h) \<subseteq> {0..<int (length F)}" using F(3) by (simp_all add: file_inv_def)
  note clip = cov_clip_ok [OF can(1), of sz] and e = cov_end_ok [OF can(1)]
  note add = cov_add_ok [OF clip(1) e(2), of sz]
  have pts: "points (h_cov h2) = (points (h_cov h) \<union> {cov_end (h_cov h)..}) \<inter> {..<sz}"
    using clip(2) add(2) by (auto simp: h2_def Let_def)
  have nth: "?F ! nat i = (if nat i < length F then F ! nat i else nul)" if "0 \<le> i" "i < sz" for i
    using that by (auto simp: file_trunc_def nth_append min_def)
  have old: "F ! nat i = nul" if "cov_end (h_cov h) \<le> i" "nat i < length F" for i
    using z that F(2) e(1) [of i] e(2) by (auto simp: gaps_zero_def)
  show "sparse s' = set_length (cov_end (h_cov h)) sz (sparse (h, st))"
  proof
    fix i
    consider (out) "sz \<le> i" | (new) "i < sz" "cov_end (h_cov h) \<le> i" | (kept) "i < sz" "i < cov_end (h_cov h)" by linarith
    then show "sparse s' i = set_length (cov_end (h_cov h)) sz (sparse (h, st)) i"
    proof cases
      case new
      then show ?thesis using nth [of i] old [of i] e(2) F(2) by (auto simp: sparse_def s' set_length_def h2 pts)
    next
      case kept
      have "nat i < length F" "0 \<le> i" if "i \<in> points (h_cov h)" using that subsetD [OF can(2)] by fastforce+
      then show ?thesis using kept nth [of i] F(2) by (auto simp: sparse_def s' set_length_def h2 pts)
    qed (auto simp: sparse_def s' set_length_def h2 pts)
  qed
  have "?F ! j = nul" if "j < nat sz" "int j \<notin> points (h_cov h2)" for j
    using nth [of "int j"] z F(2) that by (auto simp: gaps_zero_def pts)
  then show "gaps_zero s'" by (simp add: s' gaps_zero_def h2)
qed

end
