(* ===== verification/Upload_Demo.thy ===== *)
theory Upload_Demo
  imports Upload_Session Demo_Tree
begin

text \<open>
  An upload to the example store: a handle is opened on a new path and written, once from the start
  and once with a gap.
\<close>

definition up_env :: xenv where
  "up_env = \<lparr>x_root = ''/d'', x_src = None, x_gate = None, x_io = (\<lambda>_. None), x_short = 0, x_clock = (\<lambda>_. 50),
     x_rand = Inr ''k''\<rparr>"

definition up_env2 :: xenv where
  "up_env2 = up_env\<lparr>x_rand := Inr ''l''\<rparr>"

definition up_open :: "(error + UploadHandle) \<times> mem store" where
  "up_open = openUpload mem_bolt up_env ''t'' ''new/f'' ''s3'' ModeTruncate False demo_store"

definition up_handle :: UploadHandle where
  "up_handle = (case fst up_open of Inr h \<Rightarrow> h | Inl e \<Rightarrow> new_handle [] [] [] ModeTruncate False False)"

lemma demo_stages: "stages_ok ''/d'' (b_get mem_bolt (v_db demo_store))"
proof -
  have "b_get mem_bolt (v_db demo_store) BUploads uid = None" for uid by (simp add: demo_store_def demo_cells_def mem_bolt_def)
  moreover have "slash \<notin> set ''o1'' \<and> blob_of ''/d'' demo_ob1 = blobPath ''/d'' (o_Tenant demo_ob1) ''o1''"
    "slash \<notin> set ''o2'' \<and> blob_of ''/d'' demo_ob2 = blobPath ''/d'' (o_Tenant demo_ob2) ''o2''"
    "slash \<notin> set ''o3'' \<and> blob_of ''/d'' demo_ob3 = blobPath ''/d'' (o_Tenant demo_ob3) ''o3''" by code_simp+
  ultimately show ?thesis unfolding stages_ok_def using demo_objects_only by fastforce
qed

lemma demo_fine: "store_fine mem_bolt demo_store"
  using demo_ok demo_tree by (simp add: store_fine_def)

lemma up_fresh: "fresh_rand mem_bolt up_env demo_store"
proof -
  have "hex_encode ''k'' \<notin> {''o1'', ''o2'', ''o3''}" by code_simp
  then show ?thesis by (auto simp: fresh_rand_def up_env_def demo_store_def demo_cells_def mem_bolt_def)
qed

lemma up_opened: "fst up_open = Inr up_handle"
  by code_simp

definition up_written :: "mem hs" where
  "up_written = snd (WriteAt mem_bolt up_env2 ''hi'' 0 (up_handle, snd up_open))"

declare sha256_def [code del]

definition up_gap :: "mem hs" where
  "up_gap = snd (WriteAt mem_bolt up_env2 ''hi'' 2 (up_handle, snd up_open))"

lemma up_close: "fst (Close mem_bolt up_env2 up_written) = Inr ()"
  by code_simp

lemma up_open_eq: "up_open = (Inr up_handle, snd up_open)"
  using up_opened by (metis prod.collapse)

lemma up_ready: "handle_inv mem_bolt ''/d'' (up_handle, snd up_open)" "unreserved up_handle"
  "h_failed up_handle = None" "\<not> h_closed up_handle" "h_resolved up_handle" "\<not> h_fillPrefix up_handle"
proof -
  have "opened mem_bolt (x_root up_env) ''t'' ''new/f'' demo_store (Inr up_handle) (snd up_open)"
    using mem.openUpload_ok [OF demo_fine _ _ up_fresh up_open_eq [unfolded up_open_def]] demo_stages
    by (simp add: up_open_def [symmetric]) (simp add: up_env_def)
  then show "handle_inv mem_bolt ''/d'' (up_handle, snd up_open)" "unreserved up_handle" "h_failed up_handle = None" "\<not> h_closed up_handle"
    by (simp_all add: opened_def) (simp add: up_env_def)
  show "h_resolved up_handle" "\<not> h_fillPrefix up_handle" by code_simp+
qed

lemma up_ready_bal: "res_bal (up_handle, snd up_open) = (0, 0, 1)"
  by code_simp

lemma up_fresh2: "fresh_rand mem_bolt up_env2 demo_store"
proof -
  have "hex_encode ''l'' \<notin> {''o1'', ''o2'', ''o3''}" by code_simp
  then show ?thesis by (auto simp: fresh_rand_def up_env2_def up_env_def demo_store_def demo_cells_def mem_bolt_def)
qed

lemma up_wrote:
  "fresh_rand mem_bolt up_env2 (snd up_open)" "fresh_rand mem_bolt up_env2 (snd up_written)"
  "session mem_bolt ''/d'' (up_handle, snd up_open) up_written"
proof -
  have x: "x_rand up_env2 = Inr ''l''" "x_root up_env2 = ''/d''" by (simp_all add: up_env2_def up_env_def)
  have "map (\<lambda>B. b_get mem_bolt (v_db (snd up_open)) B (hex_encode ''l'')) [BUploads, BObjects, BTombstones, BGC] = [None, None, None, None]"
    "map (\<lambda>B. b_get mem_bolt (v_db (snd up_written)) B (hex_encode ''l'')) [BUploads, BObjects, BTombstones, BGC] = [None, None, None, None]"
    by code_simp+
  then show f: "fresh_rand mem_bolt up_env2 (snd up_open)" "fresh_rand mem_bolt up_env2 (snd up_written)"
    by (auto simp: fresh_rand_def x)
  show "session mem_bolt ''/d'' (up_handle, snd up_open) up_written"
    unfolding up_written_def by (rule session.writes [OF session.begins x(2)]) (use f in simp)
qed

text \<open>An upload that was interrupted after two bytes, opened again to be resumed.\<close>

definition parked_upload :: upload where
  "parked_upload = \<lparr>u_ID = ''u1'', u_Tenant = ''t'', u_Path = ''g'', u_Protocol = ''ftp'', u_StagingPath = ''/d/staging/t/u1.partial'',
     u_State = StateInterrupted, u_CreatedAt = 30, u_UpdatedAt = 40, u_Error = ''lost''\<rparr>"

definition up_parked :: "mem store" where
  "up_parked = demo_store\<lparr>
     v_db := (\<lambda>B. case B of
         BUploads \<Rightarrow> [(''u1'', CUpload parked_upload)]
       | BUploadPaths \<Rightarrow> [(uploadPathKey ''t'' ''g'' ''u1'', CRaw [])]
       | BStale \<Rightarrow> [(timeIDKey 40 ''u1'', CRaw [])]
       | _ \<Rightarrow> demo_cells B, demo_seqs),
     v_files := (v_files demo_store)(''/d/staging/t/u1.partial'' \<mapsto> ''hi'')\<rparr>"

definition up_resumed :: UploadHandle where
  "up_resumed = (new_handle ''t'' ''g'' ''ftp'' ModeResume False False)\<lparr>h_candidates := [BaseInterrupted parked_upload 2]\<rparr>"

end
