(* ===== verification/Upload_Theorems.thy ===== *)
theory Upload_Theorems
  imports Upload_Demo
begin

text \<open>
  The properties of uploads: what a successful \<open>Close\<close> has published, what becomes of an incomplete
  upload, that the gate's books balance, that a handle is a sparse file, and that the coverage and the
  streaming hash are exact.
\<close>

section \<open>Properties\<close>

text \<open>C16: the acknowledgement of an upload. Open a handle, write, append, truncate and set metadata in
  any order, with other requests and failing system calls in between. When \<open>Close\<close> then returns nil on
  a handle that was written to (or had nothing to continue), no failure was recorded, and the catalog
  holds a READY or HELD object of the handle's path whose digest and size are those of the file now at
  its blob path; that file is the staging file, completed by the chosen prefix where the writes began
  past it, and every byte of it was covered.\<close>

theorem Close_publishes:
  assumes "bolt_laws K" "store_fine K st" "stages_ok (x_root E) (b_get K (v_db st))" "nul \<notin> set tenant" "fresh_rand K E st"
    and "openUpload K E tenant name protocol mode internal st = (Inr h, st1)"
    and "session K (x_root E) (h, st1) (h2, st2)" "x_root E2 = x_root E" "fresh_rand K E2 st2"
    and "Close K E2 (h2, st2) = (Inr (), (h3, st3))" "h_resolved h2 \<or> h_candidates h2 = []"
  shows "h_failed h2 = None \<and> store_fine K st3 \<and> CleanPath name = Inr (h_path h2) \<and>
    (\<exists>u F. u_Tenant u = tenant \<and> u_Path u = h_path h2 \<and> final_content (h2, st2) F \<and>
      published u (blobPath (x_root E) tenant (u_ID u)) (hex_encode (sha256 F)) (int (length F)) (h_meta h2)
        (x_clock E2 AtPublish) (b_get K (v_db st3)) \<and>
      v_files st3 (blobPath (x_root E) tenant (u_ID u)) = Some F)"
proof -
  from bolt_laws.openUpload_ok [OF assms(1-6)]
  have o: "handle_inv K (x_root E) (h, st1)" "unreserved h" "\<not> h_closed h" "h_tenant h = tenant" "CleanPath name = Inr (h_path h)"
    by (simp_all add: opened_def)
  from bolt_laws.session_inv [OF assms(1,7)] o
  have i: "handle_inv K (x_root E) (h2, st2)" "\<not> h_closed h2" "h_tenant h2 = tenant" "h_path h2 = h_path h" by simp_all
  let ?h = "h2\<lparr>h_closed := True\<rparr>"
  obtain r s' where b: "close_body K E2 (?h, st2) = (r, s')" by (metis surj_pair)
  have "handle_inv K (x_root E2) (?h, st2)" using i(1) assms(8) bolt_laws.handle_inv_flags(5) [OF assms(1)] by simp
  from awpD [OF bolt_laws.close_body_post [OF assms(1) this assms(9)] b]
  have c: "close_post K E2 (?h, st2) r s'" .
  have r: "r = Inr ()" "st3 = snd (releaseResources s')\<lparr>v_inflight := v_inflight (snd (releaseResources s')) - 1\<rparr>"
    using assms(10) b i(2) by (auto simp: Close_def split: prod.splits)
  have st3: "store_fine K st3 = store_fine K (snd s')" "v_db st3 = v_db (snd s')" "v_files st3 = v_files (snd s')"
    by (simp_all add: r(2) releaseResources_def store_fine_def store_ok_def split: prod.splits)
  have "final_content (?h, st2) F = final_content (h2, st2) F" for F by (simp add: final_content_def)
  then show ?thesis using c r(1) st3 i o assms(8,11) by (auto simp: close_post_def)
qed

theorem Close_publishes_witness:
  "\<exists>u F. u_Tenant u = ''t'' \<and> u_Path u = ''new/f'' \<and> final_content up_written F \<and>
     published u (blobPath ''/d'' ''t'' (u_ID u)) (hex_encode (sha256 F)) (int (length F)) None 50
       (b_get mem_bolt (v_db (snd (snd (Close mem_bolt up_env2 up_written))))) \<and>
     v_files (snd (snd (Close mem_bolt up_env2 up_written))) (blobPath ''/d'' ''t'' (u_ID u)) = Some F"
proof -
  obtain h3 st3 where c: "Close mem_bolt up_env2 up_written = (Inr (), (h3, st3))" using up_close by (metis prod.collapse)
  have m: "h_meta (fst up_written) = None" "h_path (fst up_written) = ''new/f''" "h_resolved (fst up_written)" by code_simp+
  have x: "x_root up_env = ''/d''" "x_root up_env2 = ''/d''" "x_clock up_env2 AtPublish = 50" by (simp_all add: up_env_def up_env2_def)
  show ?thesis
    using Close_publishes [OF mem.bolt_laws_axioms demo_fine, of up_env "''t''" "''new/f''" "''s3''" ModeTruncate False up_handle "snd up_open"
        "fst up_written" "snd up_written" up_env2 h3 st3] up_open_eq demo_stages up_fresh up_wrote c m
    by (simp add: x up_open_def [symmetric])
qed





text \<open>C19: an open handle is a sparse file. A write of \<open>n\<close> bytes at an offset puts exactly these bytes over
  the abstract file, and \<open>Truncate\<close> cuts it or extends it with zeros; the bytes no write has covered stay
  zero, so that extending the file over a gap is sound.\<close>

theorem handle_is_sparse_file:
  assumes "bolt_laws K" "handle_inv K (x_root E) (h, st)" "h_resolved h" "\<not> h_closed h" "gaps_zero (h, st)"
  shows "(case write_file E p off (h, st) of
      ((n, eo), s') \<Rightarrow> 0 \<le> off \<longrightarrow> n \<le> length p \<and> sparse s' = put_bytes (take n p) off (sparse (h, st)) \<and> gaps_zero s') \<and>
    (case Truncate K E sz (h, st) of
      (r, s') \<Rightarrow> r = Inr () \<longrightarrow> sparse s' = set_length (cov_end (h_cov h)) sz (sparse (h, st)) \<and> gaps_zero s')"
proof -
  from handle_invD(6) [OF assms(2,3)] obtain F where F: "h_file h = Some (u_StagingPath (h_upload h))"
    "v_files st (u_StagingPath (h_upload h)) = Some F" "file_inv F h" by (auto simp: holds_file_def)
  show ?thesis
    using write_file_sparse [OF F] truncate_sparse [OF F assms(5,4,3)] assms(5) by (auto split: prod.splits)
qed


theorem handle_is_sparse_file_witness:
  "(case write_file up_env2 ''hi'' 2 (up_handle, snd up_open) of
      ((n, eo), s') \<Rightarrow> n = 2 \<and> sparse s' = put_bytes ''hi'' 2 (\<lambda>i. None) \<and> gaps_zero s')"
proof -
  have e: "fst (write_file up_env2 ''hi'' 2 (up_handle, snd up_open)) = (2, None)"
    "v_files (snd up_open) (u_StagingPath (h_upload up_handle)) = Some []" "h_cov up_handle = []" by code_simp+
  then have "gaps_zero (up_handle, snd up_open)" "sparse (up_handle, snd up_open) = (\<lambda>i. None)"
    by (simp_all add: gaps_zero_def sparse_def fun_eq_iff)
  then show ?thesis
    using handle_is_sparse_file [OF mem.bolt_laws_axioms, where E = up_env2 and h = up_handle and st = "snd up_open" and p = "''hi''" and off = 2] up_ready e
    by (auto simp: up_env2_def up_env_def split: prod.splits)
qed

section \<open>Coverage and digest\<close>

text \<open>C20: \<open>coverage\<close> represents a set of offsets exactly. Adding a range and clipping at a size act on the
  represented set as union and intersection, the representation is unique, whatever order the sort
  puts ranges with equal starts in, \<open>covers\<close> decides that all offsets below a size are covered, and
  \<open>contiguous\<close> is the end of the longest gap-free prefix.\<close>

theorem coverage_exact:
  assumes "canonical spans" "0 \<le> start"
  shows "canonical (cov_add start fin spans) \<and> points (cov_add start fin spans) = points spans \<union> {start..<fin} \<and>
    canonical (cov_clip sz spans) \<and> points (cov_clip sz spans) = points spans \<inter> {..<sz} \<and>
    (\<forall>ts. canonical ts \<and> points ts = points spans \<longrightarrow> ts = spans) \<and>
    (\<forall>l. start < fin \<and> mset l = mset (spans @ [(start, fin)]) \<and> sorted_wrt (\<lambda>s t. fst s \<le> fst t) l \<longrightarrow>
       merge_spans [] l = cov_add start fin spans) \<and>
    (0 \<le> sz \<longrightarrow> (cov_covers sz spans \<longleftrightarrow> {0..<sz} \<subseteq> points spans)) \<and>
    {0..<cov_contiguous spans} \<subseteq> points spans \<and> cov_contiguous spans \<notin> points spans"
  using cov_add_ok [OF assms, of fin] cov_clip_ok [OF assms(1), of sz] canonical_unique [OF _ assms(1)]
    merge_any_order [OF assms, of fin] cov_covers_iff [OF assms(1), of sz] cov_contiguous_ok [OF assms(1)]
  by blast

theorem coverage_exact_witness:
  "cov_add 4 9 [(0, 2), (8, 12)] = [(0, 2), (4, 12)] \<and> points (cov_add 4 9 [(0, 2), (8, 12)]) = {0..<2} \<union> {4..<12} \<and>
   cov_clip 10 [(0, 2), (8, 12)] = [(0, 2), (8, 10)]"
proof -
  have "cov_add 4 9 [(0, 2), (8, 12)] = [(0, 2), (4, 12)]" "cov_clip 10 [(0, 2), (8, 12)] = [(0, 2), (8, 10)]" by code_simp+
  moreover have "canonical [(0, 2), (8, 12)]" by (simp add: canonical_Cons)
  ultimately show ?thesis using coverage_exact [of "[(0, 2), (8, 12)]" 4 9 10] by auto
qed

text \<open>The operations on a file and the hasher that watches it.\<close>

datatype file_op = FWrite string int | FTrunc int

fun file_op_ok :: "file_op \<Rightarrow> bool" where
  "file_op_ok (FWrite p off) = (p \<noteq> [] \<and> 0 \<le> off)"
| "file_op_ok (FTrunc sz) = (0 \<le> sz)"

fun replay :: "file_op list \<Rightarrow> string \<times> streamHasher \<Rightarrow> string \<times> streamHasher" where
  "replay [] s = s"
| "replay (FWrite p off # ops) (F, sh) = replay ops (file_write p (nat off) F, sh_write p off sh)"
| "replay (FTrunc sz # ops) (F, sh) = replay ops (file_trunc (nat sz) F, sh_truncate sz sh)"

lemma replay_inv: "sh_inv F sh \<Longrightarrow> list_all file_op_ok ops \<Longrightarrow> sh_inv (fst (replay ops (F, sh))) (snd (replay ops (F, sh)))"
  by (induction ops "(F, sh)" arbitrary: F sh rule: replay.induct) (auto intro: sh_write_inv sh_truncate_inv)

text \<open>C21: the streaming hash agrees with hashing the file. After any writes and truncations, in any order
  and at any offsets, overlapping or not, a digest that the hasher gives for the size of the file is
  the digest of the file's contents, so that \<open>finalize\<close> may skip reading the file.\<close>

theorem stream_digest_exact:
  assumes "list_all file_op_ok ops" "replay ops ([], newStreamHasher) = (F, sh)" "sh_result (int (length F)) sh = Some pre"
  shows "pc_digest pre = hex_encode (sha256 F) \<and> pc_size pre = int (length F)"
  using replay_inv [OF newStreamHasher_inv assms(1)] assms(2,3) sh_result_correct by auto

theorem stream_digest_exact_witness:
  "(case replay [FWrite ''cd'' 2, FWrite ''ab'' 0] ([], newStreamHasher) of
      (F, sh) \<Rightarrow> F = ''abcd'' \<and> sh_result 4 sh = Some \<lparr>pc_digest = hex_encode (sha256 ''abcd''), pc_size = 4\<rparr>)"
proof -
  obtain F sh where r: "replay [FWrite ''cd'' 2, FWrite ''ab'' 0] ([], newStreamHasher) = (F, sh)" by (metis surj_pair)
  have "fst (replay [FWrite ''cd'' 2, FWrite ''ab'' 0] ([], newStreamHasher)) = ''abcd''"
    "sh_result 4 (snd (replay [FWrite ''cd'' 2, FWrite ''ab'' 0] ([], newStreamHasher))) \<noteq> None" by code_simp+
  then obtain pre where pre: "F = ''abcd''" "sh_result 4 sh = Some pre" using r by auto
  moreover have "list_all file_op_ok [FWrite ''cd'' 2, FWrite ''ab'' 0]" by simp
  ultimately show ?thesis using stream_digest_exact [OF _ r, of pre] r by (cases pre) auto
qed

section \<open>Deviations from the comments\<close>



end
