(* ===== verification/Maintain.thy ===== *)
theory Maintain
  imports Upload Rebuild Delivery
begin

text \<open>
  Recovery and background maintenance, \<^verbatim>\<open>internal/store/maintain.go\<close>, with the opening and closing of
  a store and the removal of a tenant. Between the read that collects what is due and the write
  transactions that act on it other requests may run: \<open>env i\<close> is what they do to the store before the
  \<open>i\<close>-th write. \<open>ctx i\<close> is what the context reports at the \<open>i\<close>-th check. The files a directory walk
  meets are given as a list of relative paths with their modification times (nothing when \<open>Info\<close>
  fails). Error lists joined by \<open>errors.Join\<close> are reduced to their first error.
\<close>

section \<open>Unlinking\<close>

text \<open>\<open>collect\<close> in the environment of a request.\<close>

definition collect_in :: "xenv \<Rightarrow> string \<Rightarrow> string \<Rightarrow> string \<Rightarrow> int \<Rightarrow> 'db store \<Rightarrow> 'db store" where
  "collect_in E oid tenant blob sz =
     collect (x_root E) (\<lambda>b. x_io E (OpRemove b) \<noteq> None) (x_gate E \<noteq> None) oid tenant blob sz"

definition collect_object :: "xenv \<Rightarrow> object_version \<Rightarrow> 'db store \<Rightarrow> 'db store" where
  "collect_object E ob = collect_in E (o_ID ob) (o_Tenant ob) (o_BlobPath ob) (o_Size ob)"

fun cell_gc :: "string \<times> cell \<Rightarrow> (string \<times> gc_entry) list" where
  "cell_gc (k, CGC e) = [(k, e)]"
| "cell_gc _ = []"

definition sweepGC :: "'db bolt \<Rightarrow> xenv \<Rightarrow> 'db store \<Rightarrow> 'db store" where
  "sweepGC K E st =
     (let pending = concat (map cell_gc (b_seek K (v_db st) BGC []))
      in flushGC K (fold (\<lambda>(oid, e). collect_in E oid (g_Tenant e) (g_Blob e) 0) pending st))"

section \<open>Recovery\<close>

definition restarted :: "gotime \<Rightarrow> upload \<Rightarrow> upload" where
  "restarted now u = u\<lparr>u_State := StateInterrupted, u_UpdatedAt := now, u_Error := ''server restarted during upload''\<rparr>"

definition recover_one :: "'db bolt \<Rightarrow> gotime \<Rightarrow> upload \<Rightarrow> ('db, unit) txn" where
  "recover_one K now u =
     tseq (tput K BUploads (u_ID u) (CUpload (restarted now u)))
          (tput K BStale (timeIDKey now (u_ID u)) (CRaw []))"

definition recover_tx :: "'db bolt \<Rightarrow> gotime \<Rightarrow> ('db, upload list) txn" where
  "recover_tx K now =
     tbind (tread (\<lambda>db. concat (map (cell_upload \<circ> snd) (b_seek K db BUploads [])))) (\<lambda>us.
     tseq (tfor (filter (\<lambda>u. u_State u = StateUploading) us) (recover_one K now))
          (ret (filter (\<lambda>u. u_State u = StateFinalizing) us)))"

definition recoverFinalizing :: "'db bolt \<Rightarrow> xenv \<Rightarrow> upload \<Rightarrow> ('db store, unit) act" where
  "recoverFinalizing K E u st =
     (case os_Stat E (u_StagingPath u) st of
        (Inr _, _) \<Rightarrow> finalize K E u None None st
      | (Inl _, _) \<Rightarrow>
          (let blob = blobPath (x_root E) (u_Tenant u) (u_ID u)
           in acatch (abind (hashFile E blob) (\<lambda>(digest, sz). publish K E u blob digest sz None)) (fail K E u) st))"

fun recover_loop :: "'db bolt \<Rightarrow> (nat \<Rightarrow> xenv) \<Rightarrow> (nat \<Rightarrow> error option) \<Rightarrow> nat \<Rightarrow> upload list \<Rightarrow> ('db store, unit) act" where
  "recover_loop K E ctx i [] st = (Inr (), st)"
| "recover_loop K E ctx i (u # us) st =
     (case ctx i of
        Some e \<Rightarrow> (Inl e, st)
      | None \<Rightarrow> recover_loop K E ctx (Suc i) us (snd (recoverFinalizing K (E i) u st)))"

definition Recover :: "'db bolt \<Rightarrow> gotime \<Rightarrow> (nat \<Rightarrow> xenv) \<Rightarrow> (nat \<Rightarrow> error option) \<Rightarrow> ('db store, unit) act" where
  "Recover K now E ctx st =
     (case update K (recover_tx K now) st of
        (Inl e, st1) \<Rightarrow> (Inl e, st1)
      | (Inr finalizing, st1) \<Rightarrow>
          (case recover_loop K E ctx 0 finalizing (recount K st1) of
             (Inl e, st2) \<Rightarrow> (Inl e, st2)
           | (Inr _, st2) \<Rightarrow> (Inr (), sweepGC K (E (length finalizing)) st2)))"

section \<open>Expired leases\<close>

definition due_leases :: "'db bolt \<Rightarrow> gotime \<Rightarrow> 'db \<Rightarrow> string list" where
  "due_leases K now db =
     map (snd \<circ> parseTimeIDKey \<circ> fst)
       (takeWhile (\<lambda>e. \<not> now < fst (parseTimeIDKey (fst e))) (b_seek K db BLeases []))"

text \<open>One iteration for an object that is found LEASED with a lapsed lease, up to \<open>afterDelivery\<close>.\<close>

definition drop_lease :: "'db bolt \<Rightarrow> object_version \<Rightarrow> ('db, unit) txn" where
  "drop_lease K ob =
     tseq (tdel K BLeases (timeIDKey (o_LeaseUntil ob) (o_ID ob)))
    (tbind (tget K BClaims (o_LeaseID ob)) (\<lambda>c.
       twhen (c \<noteq> None) (tseq (tdel K BClaims (o_LeaseID ob)) (tmod (\<lambda>d. d\<lparr>d_claims := d_claims d - 1\<rparr>)))))"

definition lease_expired :: "ReleaseOptions" where
  "lease_expired = \<lparr>ro_Reason = ''lease expired'', ro_RetryAfter = 0, ro_Permanent = False, ro_Uncounted = False\<rparr>"

text \<open>The write transaction; beside its outcome it leaves the list of retracted objects it has met, which
  the code keeps even when the transaction fails. \<open>later oid\<close> is the clock when \<open>afterDelivery\<close> is called for
  an object.\<close>

fun expire_run ::
    "'db bolt \<Rightarrow> (string \<Rightarrow> policy) option \<Rightarrow> gotime \<Rightarrow> (string \<Rightarrow> gotime) \<Rightarrow> object_version list \<Rightarrow> string list \<Rightarrow> 'db \<times> delta \<Rightarrow>
     object_version list \<times> (error + unit \<times> ('db \<times> delta))" where
  "expire_run K src now later acc [] s = (acc, Inr ((), s))"
| "expire_run K src now later acc (oid # ids) s =
     (case json_object (b_get K (fst s) BObjects oid) of
        Inl _ \<Rightarrow> expire_run K src now later acc ids s
      | Inr ob \<Rightarrow>
          if o_State ob \<noteq> StateLeased \<or> now < o_LeaseUntil ob then expire_run K src now later acc ids s
          else case drop_lease K ob s of
            Inl e \<Rightarrow> (acc, Inl e)
          | Inr (_, s1) \<Rightarrow>
              let acc' = (if o_Retracted ob then acc @ [ob] else acc)
              in case afterDelivery K src (later oid) ob lease_expired s1 of
                   Inl e \<Rightarrow> (acc', Inl e)
                 | Inr (_, s2) \<Rightarrow> expire_run K src now later acc' ids s2)"

definition ExpireLeases :: "'db bolt \<Rightarrow> xenv \<Rightarrow> gotime \<Rightarrow> (string \<Rightarrow> gotime) \<Rightarrow> ('db store \<Rightarrow> 'db store) \<Rightarrow> ('db store, unit) act" where
  "ExpireLeases K E now later env st =
     (let due = due_leases K now (v_db st)
      in if due = [] then (Inr (), st)
         else
           let st1 = env st;
               retracted = fst (expire_run K (x_src E) now later [] due (v_db st1, delta0))
           in case update K (\<lambda>s. snd (expire_run K (x_src E) now later [] due s)) st1 of
                (r, st2) \<Rightarrow> (r, fold (collect_object E) retracted st2))"

section \<open>The maintenance pass\<close>

definition due_before :: "'db bolt \<Rightarrow> bkt \<Rightarrow> gotime \<Rightarrow> 'db \<Rightarrow> string list" where
  "due_before K B cutoff db =
     map (snd \<circ> parseTimeIDKey \<circ> fst) (takeWhile (\<lambda>e. fst (parseTimeIDKey (fst e)) < cutoff) (b_seek K db B []))"

definition reclaim_tx :: "'db bolt \<Rightarrow> string \<Rightarrow> gotime \<Rightarrow> ('db, upload option) txn" where
  "reclaim_tx K uid cutoff =
     tbind (getUpload K uid) (\<lambda>r. case r of
       Inl _ \<Rightarrow> ret None
     | Inr u \<Rightarrow>
         if (u_State u \<noteq> StateInterrupted \<and> u_State u \<noteq> StateFailed) \<or> \<not> u_UpdatedAt u < cutoff then ret None
         else tseq (ttry (tdel K BStale (timeIDKey (u_UpdatedAt u) (u_ID u))))
             (tseq (ttry (tdel K BUploadPaths (uploadPathKey (u_Tenant u) (u_Path u) (u_ID u))))
             (tseq (tmod (\<lambda>d. d\<lparr>d_uploads := d_uploads d - 1\<rparr>))
             (tseq (tdel K BUploads uid) (ret (Some u))))))"

definition reclaimUpload :: "'db bolt \<Rightarrow> xenv \<Rightarrow> string \<Rightarrow> gotime \<Rightarrow> ('db store, unit) act" where
  "reclaimUpload K E uid cutoff =
     abind (update K (reclaim_tx K uid cutoff)) (\<lambda>victim. case victim of
       None \<Rightarrow> areturn ()
     | Some u \<Rightarrow>
         aseq (aignore (os_Remove E (u_StagingPath u)))
        (abind (aget (\<lambda>st. Object K st (u_ID u))) (\<lambda>r.
           if r = Inl ErrNotFound then aignore (os_Remove E (blobPath (x_root E) (u_Tenant u) (u_ID u)))
           else areturn ())))"

definition delete_if_tx :: "'db bolt \<Rightarrow> gotime \<Rightarrow> string \<Rightarrow> (object_version \<Rightarrow> bool) \<Rightarrow> string \<Rightarrow> ('db, object_version option) txn" where
  "delete_if_tx K now oid pred reason =
     tbind (getObject K oid) (\<lambda>r. case r of
       Inl _ \<Rightarrow> ret None
     | Inr ob \<Rightarrow> if pred ob then tseq (deleteObjectTx K now ob reason) (ret (Some ob)) else ret None)"

definition deleteIf :: "'db bolt \<Rightarrow> xenv \<Rightarrow> gotime \<Rightarrow> string \<Rightarrow> (object_version \<Rightarrow> bool) \<Rightarrow> string \<Rightarrow> ('db store, unit) act" where
  "deleteIf K E now oid pred reason =
     abind (update K (delete_if_tx K now oid pred reason)) (\<lambda>victim. case victim of
       None \<Rightarrow> areturn ()
     | Some ob \<Rightarrow> amod (collect_object E ob))"

definition drop_tomb :: "'db bolt \<Rightarrow> string \<Rightarrow> ('db, unit) txn" where
  "drop_tomb K oid =
     tbind (getTomb K oid) (\<lambda>r.
     tseq (case r of Inl _ \<Rightarrow> ret () | Inr t \<Rightarrow> ttry (tdel K BTombTimes (timeIDKey (t_DeletedAt t) oid)))
          (tdel K BTombstones oid))"

definition drop_tombs_tx :: "'db bolt \<Rightarrow> gotime \<Rightarrow> string list \<Rightarrow> ('db, unit) txn" where
  "drop_tombs_tx K cutoff tombs =
     tseq (tfor tombs (drop_tomb K))
    (tbind (tread (\<lambda>db. map fst (takeWhile (\<lambda>e. fst (parseTimeIDKey (fst e)) < cutoff) (b_seek K db BTombTimes [])))) (\<lambda>drop.
       tfor drop (tdel K BTombTimes)))"

text \<open>A loop that stops when the context ends and otherwise goes on, keeping the first error.\<close>

fun each_until :: "(nat \<Rightarrow> error option) \<Rightarrow> (nat \<Rightarrow> 's \<Rightarrow> 's) \<Rightarrow> (nat \<Rightarrow> 'x \<Rightarrow> ('s, unit) act) \<Rightarrow> nat \<Rightarrow> error option \<Rightarrow> 'x list \<Rightarrow>
    's \<Rightarrow> (error + nat \<times> error option) \<times> 's" where
  "each_until ctx env f i err [] s = (Inr (i, err), s)"
| "each_until ctx env f i err (x # xs) s =
     (case ctx i of
        Some e \<Rightarrow> (Inl e, s)
      | None \<Rightarrow>
          (case f i x (env i s) of
             (Inl e, s') \<Rightarrow> each_until ctx env f (Suc i) (if err = None then Some e else err) xs s'
           | (Inr _, s') \<Rightarrow> each_until ctx env f (Suc i) err xs s'))"

definition held_expired :: "gotime \<Rightarrow> object_version \<Rightarrow> bool" where
  "held_expired cutoff ob \<longleftrightarrow> o_State ob = StateHeld \<and> o_CreatedAt ob < cutoff"

text \<open>The three parts of the pass after the expiry of leases.\<close>

definition drop_tombs :: "'db bolt \<Rightarrow> gotime \<Rightarrow> string list \<Rightarrow> ('db store, unit) act" where
  "drop_tombs K cutoff tombs = (if tombs = [] then areturn () else update K (drop_tombs_tx K cutoff tombs))"

definition maintenance_rest ::
    "'db bolt \<Rightarrow> (nat \<Rightarrow> xenv) \<Rightarrow> (nat \<Rightarrow> gotime) \<Rightarrow> (nat \<Rightarrow> error option) \<Rightarrow> (nat \<Rightarrow> 'db store \<Rightarrow> 'db store) \<Rightarrow>
     gotime \<Rightarrow> gotime \<Rightarrow> string list \<Rightarrow> string list \<Rightarrow> string list \<Rightarrow> ('db store, unit) act" where
  "maintenance_rest K E clock ctx env cutoff tombCutoff stale held tombs st =
     (case each_until ctx env (\<lambda>i uid. reclaimUpload K (E i) uid cutoff) 1 None stale st of
        (Inl e, st1) \<Rightarrow> (Inl e, st1)
      | (Inr (i, err1), st1) \<Rightarrow>
          (case each_until ctx env (\<lambda>i oid. deleteIf K (E i) (clock i) oid (held_expired cutoff) ''held-expired'') i err1 held st1 of
             (Inl e, st2) \<Rightarrow> (Inl e, st2)
           | (Inr (j, err2), st2) \<Rightarrow>
               (case drop_tombs K tombCutoff tombs (env j st2) of
                  (r, st3) \<Rightarrow>
                    let err3 = (case (err2, r) of (None, Inl e) \<Rightarrow> Some e | _ \<Rightarrow> err2)
                    in (case err3 of None \<Rightarrow> Inr () | Some e \<Rightarrow> Inl e, sweepGC K (E j) st3))))"

definition maintenancePass ::
    "'db bolt \<Rightarrow> (nat \<Rightarrow> xenv) \<Rightarrow> (nat \<Rightarrow> gotime) \<Rightarrow> (nat \<Rightarrow> error option) \<Rightarrow> (nat \<Rightarrow> 'db store \<Rightarrow> 'db store) \<Rightarrow>
     int \<Rightarrow> int \<Rightarrow> gotime \<Rightarrow> gotime \<Rightarrow> (string \<Rightarrow> gotime) \<Rightarrow> ('db store, unit) act" where
  "maintenancePass K E clock ctx env tombstoneTTL partialTTL now now1 later st =
     (case ExpireLeases K (E 0) now1 later (env 0) st of
        (Inl e, st1) \<Rightarrow> (Inl e, st1)
      | (Inr _, st1) \<Rightarrow>
          let cutoff = now - partialTTL; tombCutoff = now - tombstoneTTL; db = v_db st1;
              stale = (if 0 < partialTTL then due_before K BStale cutoff db else []);
              held = (if 0 < partialTTL then due_before K BHeld cutoff db else []);
              tombs = due_before K BTombTimes tombCutoff db
          in maintenance_rest K E clock ctx env cutoff tombCutoff stale held tombs st1)"

section \<open>Reconciliation and checking\<close>

type_synonym walk = "(string \<times> gotime option) list"

fun trim_suffix :: "string \<Rightarrow> string \<Rightarrow> string" where
  "trim_suffix suf s = (if length suf \<le> length s \<and> drop (length s - length suf) s = suf then take (length s - length suf) s else s)"

text \<open>The identifier a file name stands for, when it is one of the store's.\<close>

definition file_id :: "string \<Rightarrow> (string \<times> string) option" where
  "file_id rel =
     (case cut_at slash rel of
        (tenant, file, ok) \<Rightarrow>
          if \<not> ok \<or> slash \<in> set file \<or> tenant = ''s3-multipart'' then None
          else
            let oid = trim_suffix ''.blob'' (trim_suffix ''.partial'' file)
            in if oid = file then None else Some (tenant, oid))"

fun reconcile_walk ::
    "xenv \<Rightarrow> string \<Rightarrow> (string \<Rightarrow> 'db store \<Rightarrow> bool) \<Rightarrow> gotime \<Rightarrow> (nat \<Rightarrow> error option) \<Rightarrow> nat \<Rightarrow> walk \<Rightarrow> ('db store, unit) act" where
  "reconcile_walk E dir known cutoff ctx i [] st = (Inr (), st)"
| "reconcile_walk E dir known cutoff ctx i ((rel, info) # rest) st =
     (case ctx i of
        Some e \<Rightarrow> (Inl e, st)
      | None \<Rightarrow>
          (case (file_id rel, info) of
             (Some (tenant, oid), Some modTime) \<Rightarrow>
               if cutoff < modTime \<or> known oid st then reconcile_walk E dir known cutoff ctx (Suc i) rest st
               else reconcile_walk E dir known cutoff ctx (Suc i) rest (snd (os_Remove E (filepath_Join [dir, rel]) st))
           | _ \<Rightarrow> reconcile_walk E dir known cutoff ctx (Suc i) rest st))"

definition knownUpload :: "'db bolt \<Rightarrow> string \<Rightarrow> 'db store \<Rightarrow> bool" where
  "knownUpload K oid st \<longleftrightarrow> b_get K (v_db st) BUploads oid \<noteq> None"

definition knownObject :: "'db bolt \<Rightarrow> string \<Rightarrow> 'db store \<Rightarrow> bool" where
  "knownObject K oid st \<longleftrightarrow>
     b_get K (v_db st) BObjects oid \<noteq> None \<or> b_get K (v_db st) BUploads oid \<noteq> None \<or> b_get K (v_db st) BGC oid \<noteq> None"

definition Reconcile ::
    "'db bolt \<Rightarrow> xenv \<Rightarrow> gotime \<Rightarrow> int \<Rightarrow> (nat \<Rightarrow> error option) \<Rightarrow> walk \<Rightarrow> walk \<Rightarrow> ('db store, unit) act" where
  "Reconcile K E now minAge ctx staging objects =
     aseq (reconcile_walk E (filepath_Join [x_root E, ''staging'']) (knownUpload K) (now - minAge) ctx 0 staging)
          (reconcile_walk E (filepath_Join [x_root E, ''objects'']) (knownObject K) (now - minAge) ctx (length staging) objects)"

definition StagingBytes :: "xenv \<Rightarrow> walk \<Rightarrow> 'db store \<Rightarrow> int" where
  "StagingBytes E staging st =
     sum_list (map (\<lambda>(rel, info).
       case (info, v_files st (filepath_Join [filepath_Join [x_root E, ''staging''], rel])) of
         (Some _, Some F) \<Rightarrow> int (length F) | _ \<Rightarrow> 0) staging)"

text \<open>What \<open>Check\<close> reports about a record.\<close>

definition check_object :: "'db bolt \<Rightarrow> xenv \<Rightarrow> 'db store \<Rightarrow> string \<times> cell \<Rightarrow> string list" where
  "check_object K E st e =
     (case json_object (Some (snd e)) of
        Inl _ \<Rightarrow> [''object '' @ fst e @ '': undecodable record'']
      | Inr ob \<Rightarrow>
          (case fst (os_Stat E (o_BlobPath ob) st) of
             Inl _ \<Rightarrow> [''object '' @ o_ID ob @ '' ('' @ o_Tenant ob @ ''/'' @ o_Path ob @ ''): blob missing'']
           | Inr _ \<Rightarrow> []) @
          (case o_State ob of
             StateReady \<Rightarrow>
               if o_QueueSeq ob = 0 \<or> b_get K (v_db st) BQueue (queueKey (o_Tenant ob) (o_QueueSeq ob) (o_ID ob)) = None
               then [''object '' @ o_ID ob @ '': READY but not queued''] else []
           | StateLeased \<Rightarrow>
               if b_get K (v_db st) BLeases (timeIDKey (o_LeaseUntil ob) (o_ID ob)) = None
               then [''object '' @ o_ID ob @ '': LEASED without a lease index entry''] else []
           | _ \<Rightarrow> []))"

definition Check :: "'db bolt \<Rightarrow> xenv \<Rightarrow> 'db store \<Rightarrow> string list" where
  "Check K E st = concat (map (check_object K E st) (b_seek K (v_db st) BObjects []))"

section \<open>The background loop\<close>

record MaintainOptions =
  mo_Interval :: int
  mo_PartialTTL :: int
  mo_PressureTTL :: int
  mo_Pressure :: "bool option"       \<comment> \<open>nothing when no function is set, else its answer at the time\<close>
  mo_ReconcileEvery :: int

datatype tick = Fast | Slow

definition second :: int where
  "second = 1000000000"

definition maintain_defaults :: "MaintainOptions \<Rightarrow> MaintainOptions" where
  "maintain_defaults opts =
     (let o1 = (if mo_Interval opts \<le> 0 then opts\<lparr>mo_Interval := 30 * second\<rparr> else opts)
      in if mo_ReconcileEvery o1 \<le> 0 then o1\<lparr>mo_ReconcileEvery := 3600 * second\<rparr> else o1)"

definition effective_ttl :: "MaintainOptions \<Rightarrow> int" where
  "effective_ttl opts =
     (if mo_Pressure opts = Some True \<and> 0 < mo_PressureTTL opts \<and> mo_PressureTTL opts < mo_PartialTTL opts
      then mo_PressureTTL opts else mo_PartialTTL opts)"

text \<open>What the loop meets at a tick: the clock and the environment of the operations, the pressure
  function's answer and the directory walks.\<close>

record 'db tick_env =
  te_now :: gotime
  te_E :: "nat \<Rightarrow> xenv"
  te_clock :: "nat \<Rightarrow> gotime"
  te_later :: "string \<Rightarrow> gotime"
  te_ctx :: "nat \<Rightarrow> error option"
  te_env :: "nat \<Rightarrow> 'db store \<Rightarrow> 'db store"
  te_pressure :: "bool option"
  te_staging :: walk
  te_objects :: walk

definition maintain_step ::
    "'db bolt \<Rightarrow> int \<Rightarrow> MaintainOptions \<Rightarrow> tick \<Rightarrow> 'db tick_env \<Rightarrow> gotime \<times> 'db store \<Rightarrow> gotime \<times> 'db store" where
  "maintain_step K tombstoneTTL opts t T s =
     (case s of (lastReconcile, st) \<Rightarrow>
        case t of
          Fast \<Rightarrow> (lastReconcile, flushGC K (snd (ExpireLeases K (te_E T 0) (te_now T) (te_later T) (te_env T 0) st)))
        | Slow \<Rightarrow>
            let st1 = snd (maintenancePass K (te_E T) (te_clock T) (te_ctx T) (te_env T) tombstoneTTL
                        (effective_ttl (opts\<lparr>mo_Pressure := te_pressure T\<rparr>)) (te_now T) (te_now T) (te_later T) st)
            in if mo_ReconcileEvery opts \<le> te_now T - lastReconcile
               then (te_now T, snd (Reconcile K (te_E T 0) (te_now T) (mo_PartialTTL opts) (te_ctx T) (te_staging T) (te_objects T) st1))
               else (lastReconcile, st1))"

text \<open>The loop over the ticks until the context ends, which flushes once more.\<close>

definition MaintainWith ::
    "'db bolt \<Rightarrow> int \<Rightarrow> MaintainOptions \<Rightarrow> gotime \<Rightarrow> (tick \<times> 'db tick_env) list \<Rightarrow> 'db store \<Rightarrow> 'db store" where
  "MaintainWith K tombstoneTTL opts start ticks st =
     flushGC K (snd (fold (\<lambda>(t, T). maintain_step K tombstoneTTL (maintain_defaults opts) t T) ticks (start, st)))"

section \<open>Opening and closing a store, removing a tenant\<close>

text \<open>\<open>OpenWithOptions\<close> after the directories and the database were opened: the counters are empty, the
  indexes are migrated and the store recovers.\<close>

definition fresh_store :: "'db \<Rightarrow> (string \<Rightarrow> string option) \<Rightarrow> 'db store" where
  "fresh_store db files =
     \<lparr>v_db = db,
      v_count = \<lparr>k_stats = \<lparr>s_objects = 0, s_DeletePending = 0, s_Uploads = 0, s_Claims = 0\<rparr>, k_tenants = []\<rparr>,
      v_notify = notifier_init, v_gcDone = [], v_files = files, v_draining = False, v_observed = [], v_inflight = 0,
      v_slots = 0, v_reserved = 0\<rparr>"

definition default_tombstoneTTL :: "int \<Rightarrow> int" where
  "default_tombstoneTTL ttl = (if ttl \<le> 0 then 7 * 24 * 3600 * second else ttl)"

text \<open>\<open>opened\<close> is what \<open>bolt.Open\<close> returns; the result is the store with its time to keep tombstones. A
  failing migration or recovery closes the database again.\<close>

definition OpenWithOptions ::
    "'db bolt \<Rightarrow> xenv \<Rightarrow> int \<Rightarrow> error + 'db \<Rightarrow> gotime \<Rightarrow> (nat \<Rightarrow> xenv) \<Rightarrow> (string \<Rightarrow> string option) \<Rightarrow> error + 'db store \<times> int" where
  "OpenWithOptions K E0 ttl opened now E files =
     (case List.find (\<lambda>eo. eo \<noteq> None)
             (map (\<lambda>dir. x_io E0 (OpMkdirAll (filepath_Join [x_root E0, dir]))) [''staging'', ''objects'', ''metadata'']) of
        Some (Some e) \<Rightarrow> Inl e
      | _ \<Rightarrow>
          (case opened of
             Inl e \<Rightarrow> Inl e
           | Inr db \<Rightarrow>
               (case migrate K now (fresh_store db files) of
                  (Inl e, _) \<Rightarrow> Inl e
                | (Inr _, st1) \<Rightarrow>
                    (case Recover K now E (\<lambda>_. None) st1 of
                       (Inl e, _) \<Rightarrow> Inl e
                     | (Inr _, st2) \<Rightarrow> Inr (st2, default_tombstoneTTL ttl)))))"

definition CloseStore :: "'db bolt \<Rightarrow> 'db store \<Rightarrow> 'db store" where
  "CloseStore K st = flushGC K st"

definition Draining :: "'db store \<Rightarrow> bool" where
  "Draining st = v_draining st"

definition InFlight :: "'db store \<Rightarrow> int" where
  "InFlight st = v_inflight st"

text \<open>\<open>WaitIdle\<close> polls; each element of the list is a poll: the number of open handles then, and what the
  context reports if it ends the wait. Nothing is the result when the polls run out.\<close>

fun WaitIdle :: "(int \<times> error option) list \<Rightarrow> error option option" where
  "WaitIdle [] = None"
| "WaitIdle ((n, fin) # polls) =
     (if \<not> 0 < n then Some None else case fin of Some e \<Rightarrow> Some (Some e) | None \<Rightarrow> WaitIdle polls)"

definition decodeObject :: "cell \<Rightarrow> error + object_version" where
  "decodeObject v = json_object (Some v)"

definition decodeUpload :: "cell \<Rightarrow> error + upload" where
  "decodeUpload v = json_upload (Some v)"

definition purge_ids :: "'db bolt \<Rightarrow> string \<Rightarrow> 'db \<Rightarrow> string list \<times> string list" where
  "purge_ids K tenant db =
     (map fst (filter (\<lambda>e. case decodeObject (snd e) of Inl _ \<Rightarrow> False | Inr ob \<Rightarrow> o_Tenant ob = tenant) (b_seek K db BObjects [])),
      map fst (filter (\<lambda>e. case decodeUpload (snd e) of
                         Inl _ \<Rightarrow> False
                       | Inr u \<Rightarrow> u_Tenant u = tenant \<and> (u_State u = StateInterrupted \<or> u_State u = StateFailed))
                 (b_seek K db BUploads [])))"

fun purge_objects :: "'db bolt \<Rightarrow> (nat \<Rightarrow> xenv) \<Rightarrow> (nat \<Rightarrow> gotime) \<Rightarrow> string \<Rightarrow> nat \<Rightarrow> string list \<Rightarrow> 'db store \<Rightarrow>
    (nat \<times> error option) \<times> 'db store" where
  "purge_objects K E clock tenant n [] st = ((n, None), st)"
| "purge_objects K E clock tenant n (oid # ids) st =
     (case DeleteObject K (x_root (E n)) (\<lambda>b. x_io (E n) (OpRemove b) \<noteq> None) (x_gate (E n) \<noteq> None) (clock n) tenant oid ''purged'' st of
        (Inl e, st') \<Rightarrow> if e \<noteq> ErrNotFound then ((n, Some e), st') else purge_objects K E clock tenant (Suc n) ids st'
      | (Inr _, st') \<Rightarrow> purge_objects K E clock tenant (Suc n) ids st')"

definition PurgeTenant :: "'db bolt \<Rightarrow> (nat \<Rightarrow> xenv) \<Rightarrow> (nat \<Rightarrow> gotime) \<Rightarrow> string \<Rightarrow> 'db store \<Rightarrow> (nat \<times> error option) \<times> 'db store" where
  "PurgeTenant K E clock tenant st =
     (case purge_ids K tenant (v_db st) of
        (ids, uploads) \<Rightarrow>
          (case purge_objects K E clock tenant 0 ids st of
             ((n, Some e), st1) \<Rightarrow> ((n, Some e), st1)
           | ((n, None), st1) \<Rightarrow>
               (case afor uploads (\<lambda>uid. reclaimUpload K (E n) uid (clock n + 3600 * second)) st1 of
                  (Inl e, st2) \<Rightarrow> ((n, Some e), st2)
                | (Inr _, st2) \<Rightarrow> ((n, None), st2))))"

end
