(* ===== verification/Maintain_Correct.thy ===== *)
theory Maintain_Correct
  imports Maintain Upload_Handle Delivery_Correct
begin

text \<open>
  Correctness of maintenance. A time index is walked in order, so the walk that stops at the first
  entry past the cutoff has met every record that is due. Each write transaction of a pass keeps the
  contract of theory \<open>Ledger\<close>: an expired lease is dropped and its object settled, a stale upload is
  dropped with its index entries, an expired HELD object is deleted, old tombstones are forgotten.
\<close>

section \<open>Time indexes\<close>

text \<open>The instant a time index keeps of a time: its nanoseconds, clamped to what a key can hold.\<close>

definition key_time :: "gotime \<Rightarrow> int" where
  "key_time t = max 0 (wrap64 t)"

lemma key_time_ok: "ts_ok t \<Longrightarrow> key_time t = t"
  by (simp add: key_time_def ts_ok_def)

lemma parse_time_key: "parseTimeIDKey (timeIDKey t oid) = (key_time t, oid)"
  by (simp add: parse_timeIDKey key_time_def)

lemma timeIDKey_mono:
  assumes "key_time s < key_time t"
  shows "timeIDKey s a < timeIDKey t b"
proof -
  have "tskey s < tskey t"
    using assms tskey_u64 [of s] tskey_u64 [of t] u64key_less [of "nat (key_time s)" "nat (key_time t)"]
    by (simp add: key_time_def)
  then have "tskey s @ nul # a < tskey t @ nul # b" by (subst append_less_iff) simp_all
  then show ?thesis by (simp add: timeIDKey_def)
qed

text \<open>The buckets whose keys start with a time, and which record has which time there.\<close>

definition timed :: "bkt \<Rightarrow> bool" where
  "timed B \<longleftrightarrow> B \<in> {BLeases, BHeld, BStale, BTombTimes}"

lemma timed_entry:
  assumes "catalog_ok g n" "timed B" "g B k = Some v"
  obtains t oid c where "k = timeIDKey t oid" "g (primary_of B) oid = Some c" "index_entry B c = Some (timeIDKey t oid, v)"
proof -
  note D = catalog_okD [OF assms(1)]
  have "in_sync B g" using D(2) assms(2) by (auto simp: timed_def indexes_ok_iff)
  from index_iff [OF this D(1)] assms(3) obtain oid c where
    c: "g (primary_of B) oid = Some c" "index_entry B c = Some (k, v)" by auto
  moreover have "cell_id c = oid" using keyedD [OF primary_keyed [OF D(1)] c(1)] by simp
  moreover have "\<exists>t. k = timeIDKey t (cell_id c)"
    using c(2) assms(2) by (cases c) (auto simp: timed_def split: if_splits)
  ultimately show thesis using that by metis
qed

lemma sorted_takeWhile:
  assumes "sorted_wrt R l" "\<And>x y. R x y \<Longrightarrow> x \<in> set l \<Longrightarrow> y \<in> set l \<Longrightarrow> P y \<Longrightarrow> P x"
  shows "takeWhile P l = filter P l"
  using assms
proof (induction l)
  case (Cons a l)
  have IH: "takeWhile P l = filter P l" by (rule Cons.IH) (use Cons.prems in auto)
  show ?case
  proof (cases "P a")
    case False
    then have "\<not> P y" if "y \<in> set l" for y using Cons.prems that by auto
    with False show ?thesis by (simp add: filter_empty_conv)
  qed (simp add: IH)
qed simp

context bolt_laws
begin

lemma time_walk:
  assumes cat: "catalog_ok (b_get K db) n" and B: "timed B" and P: "\<And>a b. a \<le> b \<Longrightarrow> P b \<Longrightarrow> P (a :: int)"
  shows "takeWhile (\<lambda>e. P (fst (parseTimeIDKey (fst e)))) (b_seek K db B []) =
    filter (\<lambda>e. P (fst (parseTimeIDKey (fst e)))) (b_seek K db B [])"
proof (rule sorted_takeWhile [OF seek_sorted])
  fix x y :: "string \<times> cell"
  assume lt: "fst x < fst y" and m: "x \<in> set (b_seek K db B [])" "y \<in> set (b_seek K db B [])"
    and Py: "P (fst (parseTimeIDKey (fst y)))"
  have "b_get K db B (fst x) = Some (snd x)" "b_get K db B (fst y) = Some (snd y)" using m by (auto simp: seek_set)
  then obtain s a t b where k: "fst x = timeIDKey s a" "fst y = timeIDKey t b"
    using timed_entry [OF cat B] by metis
  have "key_time s \<le> key_time t"
  proof (rule ccontr)
    assume "\<not> ?thesis"
    then have "fst y < fst x" using timeIDKey_mono [of t s b a] k by simp
    with lt show False by simp
  qed
  then show "P (fst (parseTimeIDKey (fst x)))" using P Py k by (simp add: parse_time_key)
qed

lemma due_walk:
  assumes cat: "catalog_ok (b_get K db) n" and B: "timed B" and P: "\<And>a b. a \<le> b \<Longrightarrow> P b \<Longrightarrow> P (a :: int)"
  shows "set (map (snd \<circ> parseTimeIDKey \<circ> fst) (takeWhile (\<lambda>e. P (fst (parseTimeIDKey (fst e)))) (b_seek K db B []))) =
    {oid. \<exists>t v c. b_get K db (primary_of B) oid = Some c \<and> index_entry B c = Some (timeIDKey t oid, v) \<and> P (key_time t)}"
    (is "?L = ?R")
proof -
  have sync: "in_sync B (b_get K db)" "records_ok (b_get K db)"
    using catalog_okD(1,2) [OF cat] B by (auto simp: timed_def indexes_ok_iff)
  have "?L = (\<lambda>e. snd (parseTimeIDKey (fst e))) ` {(k, v). b_get K db B k = Some v \<and> P (fst (parseTimeIDKey k))}"
    using time_walk [of db n B P, OF cat B P] by (auto simp: seek_set image_iff)
  also have "\<dots> = ?R"
  proof (intro equalityI subsetI)
    fix oid assume "oid \<in> (\<lambda>e. snd (parseTimeIDKey (fst e))) ` {(k, v). b_get K db B k = Some v \<and> P (fst (parseTimeIDKey k))}"
    then obtain k v where k: "b_get K db B k = Some v" "P (fst (parseTimeIDKey k))" "oid = snd (parseTimeIDKey k)" by auto
    from cat B k(1) obtain t i c where "k = timeIDKey t i" "b_get K db (primary_of B) i = Some c" "index_entry B c = Some (timeIDKey t i, v)"
      by (rule timed_entry)
    with k show "oid \<in> ?R" by (auto simp: parse_time_key)
  next
    fix oid assume "oid \<in> ?R"
    then obtain t v c where c: "b_get K db (primary_of B) oid = Some c" "index_entry B c = Some (timeIDKey t oid, v)" "P (key_time t)" by auto
    then have "b_get K db B (timeIDKey t oid) = Some v" using index_iff [OF sync] by blast
    with c(3) show "oid \<in> (\<lambda>e. snd (parseTimeIDKey (fst e))) ` {(k, v). b_get K db B k = Some v \<and> P (fst (parseTimeIDKey k))}"
      by (intro image_eqI [of _ _ "(timeIDKey t oid, v)"]) (simp_all add: parse_time_key)
  qed
  finally show ?thesis .
qed

lemma due_leases_iff:
  assumes "catalog_ok (b_get K db) n"
  shows "oid \<in> set (due_leases K now db) \<longleftrightarrow>
    (\<exists>ob. b_get K db BObjects oid = Some (CObject ob) \<and> o_State ob = StateLeased \<and> key_time (o_LeaseUntil ob) \<le> now)"
proof -
  have "oid \<in> set (due_leases K now db) \<longleftrightarrow>
    (\<exists>t v c. b_get K db BObjects oid = Some c \<and> lease_entry c = Some (timeIDKey t oid, v) \<and> key_time t \<le> now)"
    using due_walk [OF assms, of BLeases "\<lambda>t. \<not> now < t"] by (auto simp: due_leases_def timed_def not_less)
  also have "\<dots> \<longleftrightarrow> (\<exists>ob. b_get K db BObjects oid = Some (CObject ob) \<and> o_State ob = StateLeased \<and> key_time (o_LeaseUntil ob) \<le> now)"
  proof
    assume "\<exists>t v c. b_get K db BObjects oid = Some c \<and> lease_entry c = Some (timeIDKey t oid, v) \<and> key_time t \<le> now"
    then obtain t v c where c: "b_get K db BObjects oid = Some c" "lease_entry c = Some (timeIDKey t oid, v)" "key_time t \<le> now" by auto
    from c(2) obtain ob where ob: "c = CObject ob" "o_State ob = StateLeased" "timeIDKey (o_LeaseUntil ob) (o_ID ob) = timeIDKey t oid"
      by (cases c) (auto split: if_splits)
    then have "key_time (o_LeaseUntil ob) = key_time t" by (metis parse_time_key fst_conv)
    with ob c show "\<exists>ob. b_get K db BObjects oid = Some (CObject ob) \<and> o_State ob = StateLeased \<and> key_time (o_LeaseUntil ob) \<le> now" by auto
  next
    assume "\<exists>ob. b_get K db BObjects oid = Some (CObject ob) \<and> o_State ob = StateLeased \<and> key_time (o_LeaseUntil ob) \<le> now"
    then show "\<exists>t v c. b_get K db BObjects oid = Some c \<and> lease_entry c = Some (timeIDKey t oid, v) \<and> key_time t \<le> now"
      using catalog_object(2) [OF assms] by fastforce
  qed
  finally show ?thesis .
qed

end

section \<open>Expired leases\<close>

definition lapsed :: "gotime \<Rightarrow> cell option \<Rightarrow> bool" where
  "lapsed now c \<longleftrightarrow> (\<exists>ob. c = Some (CObject ob) \<and> o_State ob = StateLeased \<and> o_LeaseUntil ob \<le> now)"

text \<open>What becomes of an object whose lease has lapsed: a retracted one is deleted, one that has used up
  its attempts is parked, any other is queued again at once.\<close>

definition settled_as :: "(string \<Rightarrow> policy) option \<Rightarrow> gotime \<Rightarrow> object_version \<Rightarrow> cell option \<Rightarrow> bool" where
  "settled_as src at ob r \<longleftrightarrow>
     (let ob1 = ob\<lparr>o_LeaseID := [], o_LeaseClient := [], o_LeaseUntil := zero_time, o_UpdatedAt := at, o_LastError := ''lease expired''\<rparr>
      in if o_Retracted ob then r = None
         else if p_MaxAttempts (policyFor src (o_Tenant ob)) \<le> o_Attempts ob
         then r = Some (CObject (ob1\<lparr>o_State := StateParked, o_ParkedAt := at\<rparr>))
         else \<exists>seq. seq \<noteq> 0 \<and> r = Some (CObject (ob1\<lparr>o_State := StateReady, o_QueueSeq := seq, o_VisibleAt := at\<rparr>)))"

lemma unleased_expired:
  "unleased at lease_expired (o_Attempts ob) ob =
     ob\<lparr>o_LeaseID := [], o_LeaseClient := [], o_LeaseUntil := zero_time, o_UpdatedAt := at, o_LastError := ''lease expired''\<rparr>"
  by (simp add: unleased_def lease_expired_def Delivery.truncate_def)

lemma settled_not_leased: "settled_as src at ob (Some (CObject ob')) \<Longrightarrow> o_State ob' \<noteq> StateLeased"
  by (auto simp: settled_as_def Let_def split: if_splits)

lemma settled_not_lapsed: "settled_as src at ob r \<Longrightarrow> \<not> lapsed now r"
  using settled_not_leased by (auto simp: lapsed_def)

context bolt_laws
begin

lemma drop_lease_eff:
  assumes cat: "cat K s" and ob: "contents K s BObjects oid = Some (CObject ob)" "o_State ob = StateLeased"
    and run: "drop_lease K ob s = Inr (x, s')"
  shows "contents K s' = upd (upd (contents K s) BClaims (o_LeaseID ob) None) BLeases (timeIDKey (o_LeaseUntil ob) (o_ID ob)) None"
    "seqs K s' = seqs K s" "snd s' = (snd s)\<lparr>d_claims := d_claims (snd s) - 1\<rparr>"
proof -
  from leased_claim [OF catalog_okD(4) [OF cat [unfolded cat_def]] ob] obtain cl where
    cl: "contents K s BClaims (o_LeaseID ob) = Some (CClaim cl)" by blast
  from run obtain s1 where s1: "tdel K BLeases (timeIDKey (o_LeaseUntil ob) (o_ID ob)) s = Inr ((), s1)"
    and rest: "twhen (contents K s1 BClaims (o_LeaseID ob) \<noteq> None)
      (tseq (tdel K BClaims (o_LeaseID ob)) (tmod (\<lambda>d. d\<lparr>d_claims := d_claims d - 1\<rparr>))) s1 = Inr (x, s')"
    by (auto simp: drop_lease_def tseq_Inr tbind_Inr tget_Inr)
  note e1 = tdel_eff [OF s1]
  from rest e1 cl have "tseq (tdel K BClaims (o_LeaseID ob)) (tmod (\<lambda>d. d\<lparr>d_claims := d_claims d - 1\<rparr>)) s1 = Inr (x, s')"
    by (simp add: twhen_Inr)
  then have e2: "contents K s' = upd (contents K s1) BClaims (o_LeaseID ob) None" "seqs K s' = seqs K s1"
    "snd s' = (snd s1)\<lparr>d_claims := d_claims (snd s1) - 1\<rparr>"
    by (auto simp: txn_simps dest!: tdel_eff)
  show "contents K s' = upd (upd (contents K s) BClaims (o_LeaseID ob) None) BLeases (timeIDKey (o_LeaseUntil ob) (o_ID ob)) None"
    using e1 e2 by (auto simp: upd_def fun_eq_iff)
  show "seqs K s' = seqs K s" "snd s' = (snd s)\<lparr>d_claims := d_claims (snd s) - 1\<rparr>" using e1 e2 by simp_all
qed

lemma drop_lease_total: "\<exists>s'. drop_lease K ob s = Inr ((), s')"
proof -
  have d: "\<exists>s'. tdel K B k s = Inr ((), s')" for B k s
    using tdel_Inl by (cases "tdel K B k s") auto
  obtain s1 where s1: "tdel K BLeases (timeIDKey (o_LeaseUntil ob) (o_ID ob)) s = Inr ((), s1)" using d by blast
  obtain s2 where s2: "tdel K BClaims (o_LeaseID ob) s1 = Inr ((), s2)" using d by blast
  show ?thesis
    by (simp add: drop_lease_def tseq_def tbind_def tget_def twhen_def tmod_def ret_def s1 s2)
qed

text \<open>The records after \<open>afterDelivery\<close>: only that of the object changes.\<close>

lemma after_expiry:
  assumes cat: "cat K s0" and ob: "contents K s0 BObjects oid = Some (CObject ob)" "o_State ob = StateLeased"
    and s: "drop_lease K ob s0 = Inr (y, s)" and run: "afterDelivery K src at ob lease_expired s = Inr (x, s')"
  shows "good K s0 s'" "\<exists>r. contents K s' BObjects = (contents K s0 BObjects)(oid := r) \<and> settled_as src at ob r"
    "o_Retracted ob \<Longrightarrow> contents K s' BGC oid = Some (CGC (gc_of ob))"
proof -
  note c = cat [unfolded cat_def]
  note o = catalog_object [OF c ob(1)]
  note e = drop_lease_eff [OF cat ob s]
  have st: "contents K s0 BObjects (o_ID ob) = Some (CObject ob)" using ob(1) o(2) by simp
  have run': "afterDelivery K src at (ob\<lparr>o_Attempts := o_Attempts ob\<rparr>) lease_expired s = Inr (x, s')" using run by simp
  show "good K s0 s'" by (rule afterDelivery_good [OF cat st ob(2) e run'])
  let ?ob1 = "unleased at lease_expired (o_Attempts ob) ob"
  have objs: "contents K s BObjects = contents K s0 BObjects" by (simp add: e(1))
  note r = run' [unfolded afterDelivery_eq Let_def]
  consider (retracted) "o_Retracted ob" "deleteObjectTx K at ?ob1 ''retracted'' s = Inr (x, s')"
    | (park) "\<not> o_Retracted ob" "p_MaxAttempts (policyFor src (o_Tenant ob)) \<le> o_Attempts ob"
      "contents K s' BObjects = (contents K s BObjects)(o_ID ob \<mapsto> CObject (?ob1\<lparr>o_LastError := park_error ?ob1, o_State := StateParked, o_ParkedAt := at\<rparr>))"
    | (ready) seq where "\<not> o_Retracted ob" "\<not> p_MaxAttempts (policyFor src (o_Tenant ob)) \<le> o_Attempts ob" "seq \<noteq> 0"
      "contents K s' BObjects = (contents K s BObjects)(o_ID ob \<mapsto> CObject (?ob1\<lparr>o_State := StateReady, o_QueueSeq := seq, o_VisibleAt := at\<rparr>))"
  proof (cases "o_Retracted ob")
    case True
    then show thesis using r by (intro retracted) simp_all
  next
    case False
    show thesis
    proof (cases "p_MaxAttempts (policyFor src (o_Tenant ob)) \<le> o_Attempts ob")
      case True
      then show thesis using r False by (intro park) (auto simp: txn_simps dest!: step_effs)
    next
      case no: False
      from r False no obtain ob2 s1 s2 where q: "enqueue K (?ob1\<lparr>o_State := StateReady\<rparr>) (at + ro_RetryAfter lease_expired) s = Inr (ob2, s1)"
        and p: "putObject K ob2 s2 = Inr (x, s')" "contents K s2 = contents K s1"
        by (auto simp: txn_simps lease_expired_def)
      note q' = enqueue_eff [OF q]
      have "contents K s' BObjects = (contents K s BObjects)(o_ID ob2 \<mapsto> CObject ob2)"
        using putObject_eff [OF p(1)] p(2) q'(5) by simp
      then show thesis by (intro ready [of "Suc (seqs K s BQueue)"]) (use False no q'(1) in \<open>simp_all add: lease_expired_def\<close>)
    qed
  qed
  then have "(\<exists>r. contents K s' BObjects = (contents K s0 BObjects)(oid := r) \<and> settled_as src at ob r) \<and>
      (o_Retracted ob \<longrightarrow> contents K s' BGC oid = Some (CGC (gc_of ob)))"
  proof cases
    case retracted
    note d = delete_released [of "contents K s0", OF c st ob(2) e(1), of ?ob1, OF _ _ _ _ _ _ _ _ e(3)]
    have v: "contents K s' = delete_view at ''retracted'' ob (contents K s0)"
      using deleteObjectTx_eff(1) [OF retracted(2)] d o(4) o(2) by simp
    show ?thesis
      using retracted(1) o(2) unfolding v
      by (intro conjI exI [of _ None]) (simp_all add: settled_as_def delete_view_def drop_rec_def write_rec_def indexBuckets_def free_claim_def free_name_def Let_def)
  next
    case park
    show ?thesis
      by (intro conjI exI [of _ "Some (CObject (?ob1\<lparr>o_LastError := park_error ?ob1, o_State := StateParked, o_ParkedAt := at\<rparr>))"])
        (use park objs o(2) in \<open>simp_all add: settled_as_def unleased_expired park_error_def\<close>)
  next
    case (ready seq)
    have "settled_as src at ob (Some (CObject (?ob1\<lparr>o_State := StateReady, o_QueueSeq := seq, o_VisibleAt := at\<rparr>)))"
      using ready(1,2) unfolding settled_as_def Let_def unleased_expired
      by (simp only: if_False) (rule exI [of _ seq], simp add: ready(3))
    then show ?thesis using ready objs o(2) by auto
  qed
  then show "\<exists>r. contents K s' BObjects = (contents K s0 BObjects)(oid := r) \<and> settled_as src at ob r"
    "o_Retracted ob \<Longrightarrow> contents K s' BGC oid = Some (CGC (gc_of ob))" by auto
qed

end

text \<open>The whole transaction: every listed object whose lease has lapsed is settled, nothing else changes;
  what is handed on for unlinking are the retracted objects among them.\<close>

definition expired_to :: "(string \<Rightarrow> policy) option \<Rightarrow> gotime \<Rightarrow> (string \<Rightarrow> gotime) \<Rightarrow> string set \<Rightarrow> view \<Rightarrow> view \<Rightarrow> bool" where
  "expired_to src now later ids g g' \<longleftrightarrow>
     (\<forall>oid ob. oid \<in> ids \<and> g BObjects oid = Some (CObject ob) \<and> lapsed now (g BObjects oid) \<longrightarrow>
        settled_as src (later oid) ob (g' BObjects oid)) \<and>
     (\<forall>oid. \<not> (oid \<in> ids \<and> lapsed now (g BObjects oid)) \<longrightarrow> g' BObjects oid = g BObjects oid)"

context bolt_laws
begin

lemma expire_run_spec:
  assumes "expire_run K src now later acc ids s = (acc', Inr (x, s'))" "cat K s"
  shows "good K s s' \<and> expired_to src now later (set ids) (contents K s) (contents K s')"
  using assms
proof (induction ids arbitrary: acc s)
  case Nil
  then show ?case by (auto simp: expired_to_def good_refl)
next
  case (Cons oid ids)
  let ?c = "contents K s BObjects oid"
  show ?case
  proof (cases "lapsed now ?c")
    case False
    then have "expire_run K src now later acc ids s = (acc', Inr (x, s'))"
      using Cons.prems(1) by (cases "json_object ?c") (auto simp: contents_fst lapsed_def split: if_splits)
    from Cons.IH [OF this Cons.prems(2)] False show ?thesis
      unfolding expired_to_def by auto
  next
    case True
    then obtain ob where ob: "?c = Some (CObject ob)" "o_State ob = StateLeased" "o_LeaseUntil ob \<le> now"
      by (auto simp: lapsed_def)
    obtain s1 where s1: "drop_lease K ob s = Inr ((), s1)" using drop_lease_total by blast
    let ?acc = "if o_Retracted ob then acc @ [ob] else acc"
    from Cons.prems(1) ob s1 obtain y s2 where s2: "afterDelivery K src (later oid) ob lease_expired s1 = Inr (y, s2)"
      and rest: "expire_run K src now later ?acc ids s2 = (acc', Inr (x, s'))"
      by (auto simp: contents_fst Let_def split: sum.splits)
    note a = after_expiry [OF Cons.prems(2) ob(1,2) s1 s2]
    from a(2) obtain r where r: "contents K s2 BObjects = (contents K s BObjects)(oid := r)" "settled_as src (later oid) ob r" by blast
    note IH = Cons.IH [OF rest good_cat [OF a(1)]]
    have nl: "\<not> lapsed now (contents K s2 BObjects oid)" using settled_not_lapsed [OF r(2)] r(1) by simp
    have "expired_to src now later (set (oid # ids)) (contents K s) (contents K s')"
      unfolding expired_to_def
    proof (intro conjI allI impI)
      fix i o1 assume i: "i \<in> set (oid # ids) \<and> contents K s BObjects i = Some (CObject o1) \<and> lapsed now (contents K s BObjects i)"
      show "settled_as src (later i) o1 (contents K s' BObjects i)"
      proof (cases "i = oid")
        case True
        have "contents K s' BObjects oid = contents K s2 BObjects oid"
          using conjunct2 [OF IH] nl unfolding expired_to_def by blast
        then show ?thesis using True i ob r by simp
      next
        case False
        then have "i \<in> set ids" "contents K s2 BObjects i = contents K s BObjects i" using i r(1) by auto
        then show ?thesis using conjunct2 [OF IH] i unfolding expired_to_def by metis
      qed
    next
      fix i assume i: "\<not> (i \<in> set (oid # ids) \<and> lapsed now (contents K s BObjects i))"
      then have "i \<noteq> oid" using True by auto
      then have "contents K s2 BObjects i = contents K s BObjects i" using r(1) by simp
      then show "contents K s' BObjects i = contents K s BObjects i"
        using conjunct2 [OF IH] i unfolding expired_to_def by auto
    qed
    then show ?thesis using good_trans [OF a(1)] IH by blast
  qed
qed

text \<open>The objects handed on are retracted ones the store held, whatever the outcome.\<close>

lemma expire_run_retracted:
  assumes "ob \<in> set (fst (expire_run K src now later acc ids s))" "cat K s"
  shows "ob \<in> set acc \<or> contents K s BObjects (o_ID ob) = Some (CObject ob) \<and> o_Retracted ob \<and> o_State ob = StateLeased \<and> o_ID ob \<in> set ids"
  using assms
proof (induction ids arbitrary: acc s)
  case (Cons oid ids)
  let ?c = "contents K s BObjects oid"
  show ?case
  proof (cases "lapsed now ?c")
    case False
    then have "expire_run K src now later acc (oid # ids) s = expire_run K src now later acc ids s"
      by (cases "json_object ?c") (auto simp: contents_fst lapsed_def split: if_splits)
    then have "ob \<in> set (fst (expire_run K src now later acc ids s))" using Cons.prems(1) by metis
    from Cons.IH [OF this Cons.prems(2)] show ?thesis by auto
  next
    case True
    then obtain o1 where o1: "?c = Some (CObject o1)" "o_State o1 = StateLeased" "o_LeaseUntil o1 \<le> now"
      by (auto simp: lapsed_def)
    note o = catalog_object [OF Cons.prems(2) [unfolded cat_def] o1(1)]
    obtain s1 where s1: "drop_lease K o1 s = Inr ((), s1)" using drop_lease_total by blast
    let ?acc = "if o_Retracted o1 then acc @ [o1] else acc"
    show ?thesis
    proof (cases "afterDelivery K src (later oid) o1 lease_expired s1")
      case (Inl e)
      then have "ob \<in> set ?acc" using Cons.prems(1) o1 s1 by (simp add: contents_fst Let_def)
      then show ?thesis using o1 o by (auto split: if_splits)
    next
      case (Inr p)
      obtain y s2 where p: "p = (y, s2)" by (cases p)
      note a = after_expiry [OF Cons.prems(2) o1(1,2) s1 Inr [unfolded p]]
      have "ob \<in> set (fst (expire_run K src now later ?acc ids s2))"
        using Cons.prems(1) o1 s1 Inr p by (simp add: contents_fst Let_def)
      from Cons.IH [OF this good_cat [OF a(1)]] consider "ob \<in> set ?acc"
        | "contents K s2 BObjects (o_ID ob) = Some (CObject ob)" "o_Retracted ob" "o_State ob = StateLeased" "o_ID ob \<in> set ids" by auto
      then show ?thesis
      proof cases
        case 1
        then show ?thesis using o1 o by (auto split: if_splits)
      next
        case 2
        from a(2) obtain r where r: "contents K s2 BObjects = (contents K s BObjects)(oid := r)" "settled_as src (later oid) o1 r" by blast
        have "o_ID ob \<noteq> oid" using 2(1,3) r settled_not_leased by (metis fun_upd_same)
        then show ?thesis using 2 r(1) by simp
      qed
    qed
  qed
qed simp

end

lemma collect_object_simps [simp]:
  "store_ok K (collect_in E oid tenant blob sz st) = store_ok K st" "v_db (collect_in E oid tenant blob sz st) = v_db st"
  "store_ok K (collect_object E ob st) = store_ok K st" "v_db (collect_object E ob st) = v_db st"
  by (simp_all add: collect_in_def collect_object_def collect_ok)

lemma collect_objects:
  "store_ok K (fold (collect_object E) obs st) = store_ok K st" "v_db (fold (collect_object E) obs st) = v_db st"
  by (induction obs arbitrary: st) simp_all

context bolt_laws
begin

lemma ExpireLeases_keeps:
  assumes ok: "store_ok K st" "store_ok K (env st)"
  shows "store_ok K (snd (ExpireLeases K E now later env st))"
proof -
  let ?due = "due_leases K now (v_db st)"
  let ?fn = "\<lambda>s. snd (expire_run K (x_src E) now later [] ?due s)"
  have "store_ok K (snd (update K ?fn (env st)))"
  proof (rule update_good [OF ok(2)])
    fix x s' assume cat: "cat K (v_db (env st), delta0)" and run: "?fn (v_db (env st), delta0) = Inr (x, s')"
    obtain acc where "expire_run K (x_src E) now later [] ?due (v_db (env st), delta0) = (acc, Inr (x, s'))"
      using run by (metis prod.collapse)
    from expire_run_spec [OF this cat] show "good K (v_db (env st), delta0) s'" by simp
  qed
  then show ?thesis using ok(1) by (auto simp: ExpireLeases_def Let_def collect_objects split: prod.splits)
qed

text \<open>After a successful run every object whose lease had lapsed is settled, and no other object changed.
  The environment only has to take no lease that is lapsed already.\<close>

lemma ExpireLeases_spec:
  assumes ok: "store_ok K st" "store_ok K (env st)"
    and env: "\<And>oid. lapsed now (b_get K (v_db (env st)) BObjects oid) \<Longrightarrow> lapsed now (b_get K (v_db st) BObjects oid)"
    and ts: "\<And>oid ob. b_get K (v_db st) BObjects oid = Some (CObject ob) \<Longrightarrow> o_State ob = StateLeased \<Longrightarrow> ts_ok (o_LeaseUntil ob)"
    and run: "ExpireLeases K E now later env st = (Inr (), st')"
  shows "expired_to (x_src E) now later UNIV
    (b_get K (v_db (if due_leases K now (v_db st) = [] then st else env st))) (b_get K (v_db st'))"
proof -
  let ?due = "due_leases K now (v_db st)" and ?g = "b_get K (v_db (env st))"
  let ?fn = "\<lambda>s. snd (expire_run K (x_src E) now later [] ?due s)"
  have due: "oid \<in> set ?due" if "lapsed now (b_get K (v_db st) BObjects oid)" for oid
    using that ts due_leases_iff [of "v_db st" _ oid now] ok(1) key_time_ok
    unfolding lapsed_def store_ok_def by metis
  show ?thesis
  proof (cases "?due = []")
    case True
    then have "st' = st" "\<And>oid. \<not> lapsed now (b_get K (v_db st) BObjects oid)" using run due by (auto simp: ExpireLeases_def)
    then show ?thesis using True by (simp add: expired_to_def)
  next
    case False
    with run obtain st2 where u: "update K ?fn (env st) = (Inr (), st2)" and db: "v_db st' = v_db st2"
      by (auto simp: ExpireLeases_def Let_def collect_objects split: prod.splits)
    obtain db d where f: "?fn (v_db (env st), delta0) = Inr ((), (db, d))" "v_db st2 = db" using update_Inr [OF u] by metis
    obtain acc where acc: "expire_run K (x_src E) now later [] ?due (v_db (env st), delta0) = (acc, Inr ((), (db, d)))"
      using f(1) by (metis prod.collapse)
    have cat: "cat K (v_db (env st), delta0)" using ok(2) by (simp add: store_ok_def cat_def)
    from expire_run_spec [OF acc cat] have "expired_to (x_src E) now later (set ?due) ?g (b_get K (v_db st'))"
      using db f(2) by simp
    then have "expired_to (x_src E) now later UNIV ?g (b_get K (v_db st'))" using due env unfolding expired_to_def by blast
    then show ?thesis using False by simp
  qed
qed

lemma expired_to_none:
  assumes "expired_to src now later UNIV g g'"
  shows "\<not> lapsed now (g' BObjects oid)"
proof (cases "lapsed now (g BObjects oid)")
  case True
  then obtain ob where "g BObjects oid = Some (CObject ob)" by (auto simp: lapsed_def)
  with True assms have "settled_as src (later oid) ob (g' BObjects oid)" unfolding expired_to_def by blast
  then show ?thesis by (rule settled_not_lapsed)
qed (use assms in \<open>simp add: expired_to_def\<close>)

section \<open>Stale uploads, held objects and tombstones\<close>

lemma reclaim_run:
  assumes cat: "cat K s" and run: "reclaim_tx K uid cutoff s = Inr (v, s')"
  obtains (keep) "v = None" "s' = s" "\<forall>u. contents K s BUploads uid = Some (CUpload u) \<longrightarrow> busy u \<or> cutoff \<le> u_UpdatedAt u \<or> u_State u \<notin> {StateInterrupted, StateFailed}"
  | (drop) u where "v = Some u" "contents K s BUploads uid = Some (CUpload u)" "u_State u \<in> {StateInterrupted, StateFailed}"
      "u_UpdatedAt u < cutoff" "contents K s' = drop_rec BUploads uid (contents K s)" "good K s s'"
proof (cases "\<exists>u. contents K s BUploads uid = Some (CUpload u) \<and> u_State u \<in> {StateInterrupted, StateFailed} \<and> u_UpdatedAt u < cutoff")
  case False
  have "v = None \<and> s' = s"
    using run False by (cases "json_upload (contents K s BUploads uid)") (auto simp: reclaim_tx_def txn_simps split: if_splits)
  with False show thesis by (intro keep) auto
next
  case True
  then obtain u where u: "contents K s BUploads uid = Some (CUpload u)" "u_State u \<in> {StateInterrupted, StateFailed}" "u_UpdatedAt u < cutoff"
    by blast
  have id: "u_ID u = uid" using graves_upload(5) [OF cat [unfolded cat_def] u(1)] .
  from run u obtain s1 s2 where s1: "ttry (tdel K BStale (timeIDKey (u_UpdatedAt u) (u_ID u))) s = Inr ((), s1)"
    and s2: "ttry (tdel K BUploadPaths (uploadPathKey (u_Tenant u) (u_Path u) (u_ID u))) s1 = Inr ((), s2)"
    and s3: "tdel K BUploads uid (fst s2, (snd s2)\<lparr>d_uploads := d_uploads (snd s2) - 1\<rparr>) = Inr ((), s')" and v: "v = Some u"
    by (auto simp: reclaim_tx_def txn_simps)
  note e = ttry_tdel_eff [OF s1] ttry_tdel_eff [OF s2] tdel_eff [OF s3]
  have c: "contents K s' = drop_rec BUploads uid (contents K s)"
  proof
    fix B show "contents K s' B = drop_rec BUploads uid (contents K s) B"
      using u id e by (cases B) (auto simp: drop_rec_def indexBuckets_def contents_fst)
  qed
  have "good K s s'" by (rule upload_drop_good [OF cat c]) (use e u in \<open>simp_all add: contents_fst\<close>)
  with v u c show thesis by (intro drop)
qed

lemma reclaim_sound: "sound K (reclaim_tx K uid cutoff)"
proof (rule soundI)
  fix s v s' assume cat: "cat K s" and run: "reclaim_tx K uid cutoff s = Inr (v, s')"
  show "good K s s'" using cat run by (cases rule: reclaim_run [OF cat run]) (simp_all add: good_refl)
qed

lemma delete_if_run:
  assumes cat: "cat K s" and run: "delete_if_tx K now oid pred reason s = Inr (v, s')"
  obtains (keep) "v = None" "s' = s" "\<forall>ob. contents K s BObjects oid = Some (CObject ob) \<longrightarrow> \<not> pred ob"
  | (drop) ob where "v = Some ob" "contents K s BObjects oid = Some (CObject ob)" "pred ob"
      "contents K s' = delete_view now reason ob (contents K s)" "good K s s'"
proof (cases "\<exists>ob. contents K s BObjects oid = Some (CObject ob) \<and> pred ob")
  case False
  have "v = None \<and> s' = s"
    using run False by (cases "json_object (contents K s BObjects oid)") (auto simp: delete_if_tx_def txn_simps split: if_splits)
  with False show thesis by (intro keep) auto
next
  case True
  then obtain ob where ob: "contents K s BObjects oid = Some (CObject ob)" "pred ob" by blast
  with run have r: "deleteObjectTx K now ob reason s = Inr ((), s')" "v = Some ob"
    by (auto simp: delete_if_tx_def txn_simps)
  note d = deletable_stored [OF cat [unfolded cat_def] ob(1)]
  show thesis
    by (rule drop [OF r(2) ob deleteObjectTx_eff(1) [OF r(1) d(1,3)] delete_good [OF cat ob(1) r(1)]])
qed

lemma delete_if_sound: "sound K (delete_if_tx K now oid pred reason)"
proof (rule soundI)
  fix s v s' assume cat: "cat K s" and run: "delete_if_tx K now oid pred reason s = Inr (v, s')"
  show "good K s s'" by (cases rule: delete_if_run [OF cat run]) (simp_all add: good_refl cat)
qed

lemma drop_tomb_good:
  assumes cat: "cat K s" and run: "drop_tomb K oid s = Inr (x, s')"
  shows "good K s s' \<and> contents K s' = drop_rec BTombstones oid (contents K s)"
proof -
  note c = cat [unfolded cat_def]
  let ?g = "contents K s" and ?g' = "drop_rec BTombstones oid (contents K s)"
  have e: "contents K s' = ?g' \<and> seqs K s' = seqs K s \<and> snd s' = snd s"
  proof (cases "?g BTombstones oid")
    case None
    then have "tdel K BTombstones oid s = Inr (x, s')" using run by (auto simp: drop_tomb_def txn_simps)
    from tdel_eff [OF this] None show ?thesis
      by (auto simp: drop_rec_def upd_def fun_eq_iff)
  next
    case (Some v)
    then obtain t where t: "?g BTombstones oid = Some (CTomb t)" "t_ObjectID t = oid"
      using records_kind(4) [OF catalog_okD(1) [OF c] Some] by auto
    then obtain s1 where s1: "ttry (tdel K BTombTimes (timeIDKey (t_DeletedAt t) oid)) s = Inr ((), s1)"
      and s2: "tdel K BTombstones oid s1 = Inr (x, s')"
      using run by (auto simp: drop_tomb_def txn_simps)
    note e = ttry_tdel_eff [OF s1] tdel_eff [OF s2]
    have "contents K s' B = ?g' B" for B using e t by (cases B) (auto simp: drop_rec_def indexBuckets_def)
    then show ?thesis using e by auto
  qed
  note D = catalog_okD [OF c]
  have "catalog_ok ?g' (seqs K s BQueue)"
    unfolding catalog_ok_def
  proof (intro conjI)
    show "records_ok ?g'" by (rule drop_rec_records [OF D(1)])
    show "indexes_ok ?g'" by (rule drop_rec_indexes [OF D(2,1), where P' = BTombTimes]) simp
    have same: "?g' B = ?g B" if "B \<notin> {BTombstones, BTombTimes}" for B
      using that by (cases B) (simp_all add: drop_rec_def indexBuckets_def)
    have eqs: "?g' BObjects = ?g BObjects" "?g' BClaims = ?g BClaims" "?g' BNamespace = ?g BNamespace"
      "?g' BUploads = ?g BUploads" "?g' BGC = ?g BGC" by (simp_all add: same)
    show "objects_ok ?g'" using D(3) unfolding objects_ok_def eqs .
    show "claims_ok ?g'" using D(4) unfolding claims_ok_def eqs .
    show "names_ok ?g'" using D(5) unfolding names_ok_def eqs .
    show "queue_seq_ok ?g' (seqs K s BQueue)" using D(7) unfolding queue_seq_ok_def eqs .
    show "graves_ok ?g'" using D(6) unfolding graves_ok_def eqs by (auto simp: drop_rec_def)
  qed
  then have "good K s s'"
    using e by (intro frame_good) (auto simp: drop_rec_def indexBuckets_def)
  with e show ?thesis by simp
qed

lemma drop_tombs_loop:
  assumes "tfor ids (drop_tomb K) s = Inr (x, s')" "cat K s"
  shows "good K s s' \<and> contents K s' BTombstones = (contents K s BTombstones) |` (- set ids) \<and>
    (\<forall>B. B \<notin> {BTombstones, BTombTimes} \<longrightarrow> contents K s' B = contents K s B)"
  using assms
proof (induction ids arbitrary: s)
  case Nil
  then show ?case by (auto simp: txn_simps good_refl)
next
  case (Cons oid ids)
  then obtain s1 where s1: "drop_tomb K oid s = Inr ((), s1)" and rest: "tfor ids (drop_tomb K) s1 = Inr (x, s')"
    by (auto simp: tseq_Inr)
  note g = drop_tomb_good [OF Cons.prems(2) s1]
  note IH = Cons.IH [OF rest good_cat [OF conjunct1 [OF g]]]
  have "contents K s1 BTombstones = (contents K s BTombstones)(oid := None)" using g by (simp add: drop_rec_def)
  moreover have "B \<notin> {BTombstones, BTombTimes} \<Longrightarrow> contents K s1 B = contents K s B" for B
    using g by (cases B) (simp_all add: drop_rec_def indexBuckets_def)
  moreover have "good K s s'" using good_trans [OF conjunct1 [OF g] conjunct1 [OF IH]] .
  ultimately show ?case using IH by (auto simp: restrict_map_def fun_eq_iff)
qed

end

text \<open>Every tombstone that is due is in the list.\<close>

definition tombs_listed :: "gotime \<Rightarrow> string list \<Rightarrow> view \<Rightarrow> bool" where
  "tombs_listed cutoff tombs g \<longleftrightarrow>
     (\<forall>oid t. g BTombstones oid = Some (CTomb t) \<and> key_time (t_DeletedAt t) < cutoff \<longrightarrow> oid \<in> set tombs)"

context bolt_laws
begin

lemma due_tombs_listed:
  assumes "catalog_ok (b_get K db) n"
  shows "tombs_listed cutoff (due_before K BTombTimes cutoff db) (b_get K db)"
proof -
  have "oid \<in> set (due_before K BTombTimes cutoff db)"
    if t: "b_get K db BTombstones oid = Some (CTomb t)" "key_time (t_DeletedAt t) < cutoff" for oid t
  proof -
    have "t_ObjectID t = oid" using records_id(4) [OF catalog_okD(1) [OF assms] t(1)] by simp
    then show ?thesis
      using due_walk [OF assms, of BTombTimes "\<lambda>t. t < cutoff"] t
      by (auto simp: due_before_def timed_def intro: exI [of _ "CTomb t"] exI [of _ "t_DeletedAt t"])
  qed
  then show ?thesis by (auto simp: tombs_listed_def)
qed

text \<open>When the list is complete the second loop of the transaction finds nothing left to do.\<close>

lemma drop_tombs_good:
  assumes cat: "cat K s" and all: "tombs_listed cutoff tombs (contents K s)"
    and run: "drop_tombs_tx K cutoff tombs s = Inr (x, s')"
  shows "good K s s' \<and> contents K s' BTombstones = (contents K s BTombstones) |` (- set tombs) \<and>
    (\<forall>B. B \<notin> {BTombstones, BTombTimes} \<longrightarrow> contents K s' B = contents K s B)"
proof -
  from run obtain s1 where s1: "tfor tombs (drop_tomb K) s = Inr ((), s1)"
    and rest: "tfor (map fst (takeWhile (\<lambda>e. fst (parseTimeIDKey (fst e)) < cutoff) (b_seek K (fst s1) BTombTimes [])))
        (tdel K BTombTimes) s1 = Inr (x, s')"
    by (auto simp: drop_tombs_tx_def tseq_Inr tbind_Inr tread_Inr)
  note l = drop_tombs_loop [OF s1 cat]
  have c1: "catalog_ok (b_get K (fst s1)) (seqs K s1 BQueue)" using l by (simp add: good_def cat_def contents_def)
  have "takeWhile (\<lambda>e. fst (parseTimeIDKey (fst e)) < cutoff) (b_seek K (fst s1) BTombTimes []) = []" (is "?w = []")
  proof (rule ccontr)
    assume "?w \<noteq> []"
    then obtain e where "e \<in> set ?w" by (meson last_in_set)
    then have "e \<in> set (b_seek K (fst s1) BTombTimes [])" and lt: "fst (parseTimeIDKey (fst e)) < cutoff"
      using set_takeWhileD by metis+
    then have e: "b_get K (fst s1) BTombTimes (fst e) = Some (snd e)" "fst (parseTimeIDKey (fst e)) < cutoff"
      by (auto simp: seek_set)
    from timed_entry [OF c1 _ e(1)] obtain t oid c where k: "fst e = timeIDKey t oid" "b_get K (fst s1) BTombstones oid = Some c"
      "index_entry BTombTimes c = Some (timeIDKey t oid, snd e)" by (auto simp: timed_def)
    from k(3) obtain tb where tb: "c = CTomb tb" "timeIDKey (t_DeletedAt tb) (t_ObjectID tb) = timeIDKey t oid" by (cases c) auto
    have "key_time (t_DeletedAt tb) < cutoff" using e(2) k(1) tb(2) by (metis fst_conv parse_time_key)
    moreover have "contents K s BTombstones oid = Some (CTomb tb)" "oid \<notin> set tombs"
      using k(2) l tb(1) by (auto simp: contents_def [symmetric] restrict_map_def split: if_splits)
    ultimately show False using all by (auto simp: tombs_listed_def)
  qed
  then have "s' = s1" using rest by (simp add: txn_simps)
  then show ?thesis using l by simp
qed

lemma drop_tombs_keeps:
  assumes "store_ok K st" "tombs_listed cutoff tombs (b_get K (v_db st))"
  shows "store_ok K (snd (drop_tombs K cutoff tombs st))"
proof -
  have "store_ok K (snd (update K (drop_tombs_tx K cutoff tombs) st))"
    by (rule update_good [OF assms(1)]) (use drop_tombs_good assms(2) in auto)
  then show ?thesis using assms(1) by (simp add: drop_tombs_def areturn_def)
qed

end

section \<open>What reclaiming touches\<close>

lemma os_Remove_run:
  "snd (os_Remove E p st) = (if x_io E (OpRemove p) = None then st\<lparr>v_files := (v_files st)(p := None)\<rparr> else st)"
  by (auto simp: os_Remove_def aseq_def abind_def acheck_def file_at_def put_file_def amod_def fun_upd_idem_None split: option.splits)

context bolt_laws
begin

text \<open>An upload is dropped only when it is INTERRUPTED or FAILED and old; its staging file goes with it,
  and its blob unless an object of the same identifier exists.\<close>

lemma reclaim_effect:
  assumes ok: "store_ok K st" and run: "reclaimUpload K E uid cutoff st = (r, st')"
  obtains (keep) "b_get K (v_db st') = b_get K (v_db st)" "v_files st' = v_files st"
      "r = Inr () \<Longrightarrow> \<forall>u. b_get K (v_db st) BUploads uid = Some (CUpload u) \<longrightarrow>
         u_State u \<notin> {StateInterrupted, StateFailed} \<or> cutoff \<le> u_UpdatedAt u"
  | (drop) u where "b_get K (v_db st) BUploads uid = Some (CUpload u)" "u_State u \<in> {StateInterrupted, StateFailed}" "u_UpdatedAt u < cutoff"
      "b_get K (v_db st') = drop_rec BUploads uid (b_get K (v_db st))"
      "\<And>p. v_files st' p \<noteq> v_files st p \<Longrightarrow> v_files st' p = None \<and> (p = u_StagingPath u \<or>
         p = blobPath (x_root E) (u_Tenant u) uid \<and> b_get K (v_db st) BObjects uid = None)"
proof (cases rule: update_cases [of K "reclaim_tx K uid cutoff" st])
  case (fail e)
  then show thesis using run by (intro keep) (auto simp: reclaimUpload_def abind_def)
next
  case (commit v db d)
  have cat: "cat K (v_db st, delta0)" using ok by (simp add: store_ok_def cat_def)
  let ?st = "st\<lparr>v_db := db, v_count := apply_delta d (v_count st), v_notify := fold notifier_signal (d_touched d) (v_notify st)\<rparr>"
  show thesis
  proof (cases rule: reclaim_run [OF cat commit(1)])
    case 1
    then show thesis using run commit by (intro keep) (auto simp: reclaimUpload_def abind_def areturn_def busy_def)
  next
    case (2 u)
    have id: "u_ID u = uid" using graves_upload(5) [OF cat [unfolded cat_def] 2(2)] .
    let ?r = "aseq (aignore (os_Remove E (u_StagingPath u)))
        (abind (aget (\<lambda>st. Object K st (u_ID u))) (\<lambda>r.
           if r = Inl ErrNotFound then aignore (os_Remove E (blobPath (x_root E) (u_Tenant u) (u_ID u))) else areturn ())) ?st"
    have st': "st' = snd ?r" using run commit 2(1) by (simp add: reclaimUpload_def abind_def)
    define F where "F = (if x_io E (OpRemove (u_StagingPath u)) = None then (v_files st)(u_StagingPath u := None) else v_files st)"
    have none: "b_get K (v_db st) BObjects uid = None" using graves_upload(3) [OF cat [unfolded cat_def] 2(2)] by simp
    have files: "st' = ?st\<lparr>v_files := F\<rparr> \<or> st' = ?st\<lparr>v_files := F(blobPath (x_root E) (u_Tenant u) uid := None)\<rparr> \<and> b_get K (v_db st) BObjects uid = None"
      using none by (auto simp: st' F_def id aseq_def abind_def aignore_def aget_def areturn_def os_Remove_run)
    show thesis
    proof (rule drop [OF 2(2) [unfolded contents_pair]])
      show "u_State u \<in> {StateInterrupted, StateFailed}" "u_UpdatedAt u < cutoff" using 2(3,4) by simp_all
      show "b_get K (v_db st') = drop_rec BUploads uid (b_get K (v_db st))" using 2(5) files by auto
      show "v_files st' p \<noteq> v_files st p \<Longrightarrow> v_files st' p = None \<and> (p = u_StagingPath u \<or>
         p = blobPath (x_root E) (u_Tenant u) uid \<and> b_get K (v_db st) BObjects uid = None)" for p
        using files by (auto simp: F_def split: if_splits)
    qed
  qed
qed

end

section \<open>The pass\<close>

text \<open>What a pass keeps between its steps: a sound store in which every due tombstone is listed. Both
  depend on the catalog and the counters only.\<close>

definition pass_inv :: "'db bolt \<Rightarrow> gotime \<Rightarrow> string list \<Rightarrow> 'db store \<Rightarrow> bool" where
  "pass_inv K cutoff tombs st \<longleftrightarrow> store_ok K st \<and> tombs_listed cutoff tombs (b_get K (v_db st))"

lemma pass_inv_cong: "v_db st' = v_db st \<Longrightarrow> v_count st' = v_count st \<Longrightarrow> pass_inv K cutoff tombs st' = pass_inv K cutoff tombs st"
  by (simp add: pass_inv_def store_ok_def)

lemma reclaim_frame:
  "v_db (snd (reclaimUpload K E uid cutoff st)) = v_db (snd (update K (reclaim_tx K uid cutoff) st))"
  "v_count (snd (reclaimUpload K E uid cutoff st)) = v_count (snd (update K (reclaim_tx K uid cutoff) st))"
  by (simp_all add: reclaimUpload_def abind_def aseq_def aignore_def aget_def areturn_def os_Remove_run split: prod.splits sum.splits option.splits)

lemma collect_frame:
  "v_db (collect_in E oid tenant blob sz st) = v_db st" "v_count (collect_in E oid tenant blob sz st) = v_count st"
  "v_db (collect_object E ob st) = v_db st" "v_count (collect_object E ob st) = v_count st"
  by (simp_all add: collect_in_def collect_object_def collect_def Let_def)

lemma collect_pending:
  "store_ok K (fold (\<lambda>(oid, e). collect_in E oid (g_Tenant e) (g_Blob e) 0) l st) = store_ok K st"
proof (induction l arbitrary: st)
  case (Cons p l)
  show ?case unfolding fold_simps Cons.IH by (cases p) simp
qed simp

lemma deleteIf_frame:
  "v_db (snd (deleteIf K E now oid pred reason st)) = v_db (snd (update K (delete_if_tx K now oid pred reason) st))"
  "v_count (snd (deleteIf K E now oid pred reason st)) = v_count (snd (update K (delete_if_tx K now oid pred reason) st))"
  by (simp_all add: deleteIf_def abind_def areturn_def amod_def collect_frame split: prod.splits sum.splits option.splits)

lemma each_until_keeps:
  assumes "P s" "\<And>i s. P s \<Longrightarrow> P (env i s)" "\<And>i x s. P s \<Longrightarrow> P (snd (f i x s))"
  shows "P (snd (each_until ctx env f i err xs s))"
  using assms(1)
proof (induction xs arbitrary: i err s)
  case (Cons x xs)
  have f: "P (snd (f i x (env i s)))" using assms(2,3) Cons.prems by blast
  obtain r s' where r: "f i x (env i s) = (r, s')" by fastforce
  with f have "P s'" by simp
  then show ?case using Cons r by (auto split: option.splits sum.splits)
qed simp

context bolt_laws
begin

lemma update_inv:
  assumes inv: "pass_inv K cutoff tombs st"
    and step: "\<And>x s'. cat K (v_db st, delta0) \<Longrightarrow> fn (v_db st, delta0) = Inr (x, s') \<Longrightarrow>
      good K (v_db st, delta0) s' \<and> tombs_listed cutoff tombs (contents K s')"
  shows "pass_inv K cutoff tombs (snd (update K fn st))"
proof -
  have ok: "store_ok K st" using inv by (simp add: pass_inv_def)
  have "store_ok K (snd (update K fn st))" by (rule update_good [OF ok]) (use step in blast)
  moreover have "tombs_listed cutoff tombs (b_get K (v_db (snd (update K fn st))))"
  proof (cases rule: update_cases [of K fn st])
    case (commit x db d)
    have "cat K (v_db st, delta0)" using ok by (simp add: store_ok_def cat_def)
    from step [OF this commit(1)] commit(2) show ?thesis by simp
  qed (use inv in \<open>simp add: pass_inv_def\<close>)
  ultimately show ?thesis by (simp add: pass_inv_def)
qed

lemma reclaim_inv:
  assumes inv: "pass_inv K tc tombs st"
  shows "pass_inv K tc tombs (snd (reclaimUpload K E uid cutoff st))"
  unfolding pass_inv_cong [OF reclaim_frame]
proof (rule update_inv [OF inv])
  fix x s' assume cat: "cat K (v_db st, delta0)" and run: "reclaim_tx K uid cutoff (v_db st, delta0) = Inr (x, s')"
  have t: "tombs_listed tc tombs (b_get K (v_db st))" using inv by (simp add: pass_inv_def)
  show "good K (v_db st, delta0) s' \<and> tombs_listed tc tombs (contents K s')"
    by (cases rule: reclaim_run [OF cat run])
      (use t cat in \<open>simp_all add: good_refl tombs_listed_def drop_rec_def indexBuckets_def\<close>)
qed

lemma deleteIf_inv:
  assumes inv: "pass_inv K tc tombs st" and now: "tc \<le> key_time now"
  shows "pass_inv K tc tombs (snd (deleteIf K E now oid pred reason st))"
  unfolding pass_inv_cong [OF deleteIf_frame]
proof (rule update_inv [OF inv])
  fix x s' assume cat: "cat K (v_db st, delta0)" and run: "delete_if_tx K now oid pred reason (v_db st, delta0) = Inr (x, s')"
  have t: "tombs_listed tc tombs (b_get K (v_db st))" using inv by (simp add: pass_inv_def)
  show "good K (v_db st, delta0) s' \<and> tombs_listed tc tombs (contents K s')"
    by (cases rule: delete_if_run [OF cat run])
      (use t cat now in \<open>auto simp: good_refl tombs_listed_def delete_view_frame tomb_of_def\<close>)
qed

lemma sweepGC_keeps:
  assumes "store_ok K st"
  shows "store_ok K (sweepGC K E st)"
  unfolding sweepGC_def Let_def by (rule flushGC_keeps) (simp add: collect_pending assms)

lemma maintenance_rest_keeps:
  assumes inv: "pass_inv K tombCutoff tombs st" and env: "\<And>i st. pass_inv K tombCutoff tombs st \<Longrightarrow> pass_inv K tombCutoff tombs (env i st)"
    and clock: "\<And>i. tombCutoff \<le> key_time (clock i)"
  shows "store_ok K (snd (maintenance_rest K E clock ctx env cutoff tombCutoff stale held tombs st))"
proof -
  let ?P = "pass_inv K tombCutoff tombs"
  define p where "p = each_until ctx env (\<lambda>i uid. reclaimUpload K (E i) uid cutoff) 1 None stale st"
  have 1: "?P (snd p)" unfolding p_def by (rule each_until_keeps) (use inv env reclaim_inv in blast)+
  show ?thesis
  proof (cases p)
    case (Pair r st1)
    show ?thesis
    proof (cases r)
      case (Inl e)
      then show ?thesis using 1 Pair unfolding maintenance_rest_def p_def [symmetric] by (simp add: pass_inv_def)
    next
      case (Inr q)
      obtain i err1 where q: "q = (i, err1)" by (cases q)
      define p2 where "p2 = each_until ctx env (\<lambda>i oid. deleteIf K (E i) (clock i) oid (held_expired cutoff) ''held-expired'') i err1 held st1"
      have 2: "?P (snd p2)" unfolding p2_def by (rule each_until_keeps) (use 1 Pair env deleteIf_inv clock in auto)
      show ?thesis
      proof (cases p2)
        case p2: (Pair r2 st2)
        have 3: "store_ok K (snd (drop_tombs K tombCutoff tombs (env j st2)))" for j
          using drop_tombs_keeps env [of st2 j] 2 p2 by (auto simp: pass_inv_def)
        show ?thesis
          using 2 3 p2 Pair Inr q unfolding maintenance_rest_def p_def [symmetric]
          by (auto simp: p2_def [symmetric] pass_inv_def Let_def sweepGC_keeps split: sum.splits prod.splits)
            (metis snd_conv sweepGC_keeps)
      qed
    qed
  qed
qed

end

end
