(* ===== verification/Recover_Correct.thy ===== *)
theory Recover_Correct
  imports Maintain_Correct Rebuild_Correct
begin

text \<open>
  Correctness of recovery. Uploads that were being written become INTERRUPTED and can be continued;
  uploads that were being published are published now or fail. What the operations on one upload do
  to other uploads is tracked by a relation that every transaction and every file operation respects.
\<close>

section \<open>Other uploads\<close>

text \<open>Only uploads in \<open>S\<close> change, and none of them becomes UPLOADING.\<close>

definition settles :: "string set \<Rightarrow> view \<Rightarrow> view \<Rightarrow> bool" where
  "settles S g g' \<longleftrightarrow>
     (\<forall>uid. uid \<notin> S \<longrightarrow> g' BUploads uid = g BUploads uid) \<and>
     (\<forall>uid u. g' BUploads uid = Some (CUpload u) \<and> u_State u = StateUploading \<longrightarrow> g BUploads uid = Some (CUpload u))"

lemma settles_refl: "settles S g g"
  by (simp add: settles_def)

lemma settles_trans: "settles S g g' \<Longrightarrow> settles S g' g'' \<Longrightarrow> settles S g g''"
  unfolding settles_def by (intro conjI allI impI; elim conjE; metis)

lemma settles_same: "uploads_same g g' \<Longrightarrow> settles S g g'"
  by (simp add: settles_def uploads_same_def)

lemma settles_upd:
  "B \<noteq> BUploads \<Longrightarrow> settles S g (upd g B k c)"
  "k \<in> S \<Longrightarrow> settles S g (upd g BUploads k None)"
  "k \<in> S \<Longrightarrow> u_State u \<noteq> StateUploading \<Longrightarrow> settles S g (upd g BUploads k (Some (CUpload u)))"
  by (auto simp: settles_def)

lemma settles_other: "settles S g g' \<Longrightarrow> uid \<notin> S \<Longrightarrow> g' BUploads uid = g BUploads uid"
  unfolding settles_def by blast

sublocale bolt_laws \<subseteq> stl: step_relation K "settles S" for S
  by unfold_locales (auto intro: settles_refl settles_trans)

text \<open>Actions that leave the database alone, or change it by a transaction that respects the relation.\<close>

definition settled_since :: "'db bolt \<Rightarrow> string set \<Rightarrow> view \<Rightarrow> 'db store \<Rightarrow> bool" where
  "settled_since K S g0 st \<longleftrightarrow> settles S g0 (b_get K (v_db st))"

lemma settled_files:
  "akeeps (settled_since K S g0) (file_at p)" "akeeps (settled_since K S g0) (put_file p F)"
  "akeeps (settled_since K S g0) (os_MkdirAll E d)" "akeeps (settled_since K S g0) (syncDir E d)"
  by (auto simp: akeeps_def settled_since_def file_at_def put_file_def os_MkdirAll_def syncDir_def acheck_def split: option.splits)

lemma settled_os:
  "akeeps (settled_since K S g0) (os_Remove E p)" "akeeps (settled_since K S g0) (os_Rename E p q)"
  "akeeps (settled_since K S g0) (hashFile E p)"
  by (auto simp: os_Remove_def os_Rename_def hashFile_def os_Open_def intro!: akeeps_bind akeeps_seq settled_files)

lemma settled_collect: "akeeps (settled_since K S g0) (amod (collect root rm gated oid tenant blob sz))"
  by (simp add: akeeps_def amod_def settled_since_def)

lemmas settled_acts = settled_files settled_os settled_collect akeeps_bind akeeps_seq akeeps_catch akeeps_ignore akeeps_base

context bolt_laws
begin

lemma stl_ups: "ups.stays m \<Longrightarrow> stl.stays S m"
  using settles_same unfolding ups.stays_def stl.stays_def by blast

lemma stl_put: "B \<noteq> BUploads \<Longrightarrow> stl.stays S (tput K B k c)"
  by (rule stl.stays_put) (rule settles_upd)

lemma stl_del: "B \<noteq> BUploads \<Longrightarrow> stl.stays S (tdel K B k)"
  by (rule stl.stays_del) (rule settles_upd)

lemma stl_upload:
  "k \<in> S \<Longrightarrow> stl.stays S (tdel K BUploads k)"
  "k \<in> S \<Longrightarrow> u_State u \<noteq> StateUploading \<Longrightarrow> stl.stays S (tput K BUploads k (CUpload u))"
  by (rule stl.stays_del, erule settles_upd(2)) (rule stl.stays_put, erule (1) settles_upd(3))

lemma ups_place: "ups.stays (place K ob from pol now)"
  by (auto simp: place_def intro!: ups_intros ups_queue)

lemma stl_publish: "u_ID u \<in> S \<Longrightarrow> stl.stays S (publish_tx K pol now u blob digest sz meta)"
  unfolding publish_tx_def drop_upload_def
  by (intro stl.stays_intros stl_put stl_del stl_upload stl_ups [OF ups_place] stl_ups [OF ups_replacePath] allI impI) simp_all

lemma stl_mark:
  "u_ID u \<in> S \<Longrightarrow> u_State u \<noteq> StateUploading \<Longrightarrow> stl.stays S (mark_tx K prev u)"
  unfolding mark_tx_def Let_def
  by (intro stl.stays_intros stl_put stl_del stl_upload) simp_all

lemma settled_update:
  assumes "stl.stays S fn"
  shows "akeeps (settled_since K S g0) (update K fn)"
proof (rule akeepsI)
  fix st assume st: "settled_since K S g0 st"
  show "settled_since K S g0 (snd (update K fn st))"
  proof (cases rule: update_cases [of K fn st])
    case (commit x db d)
    from stl.staysD [OF assms commit(1)] st commit(2) show ?thesis
      by (auto simp: settled_since_def intro: settles_trans)
  qed (use st in simp)
qed

lemma settled_fail: "u_ID u \<in> S \<Longrightarrow> akeeps (settled_since K S g0) (fail K E u e)"
  unfolding fail_def markUpload_def
  by (intro settled_acts settled_update stl_mark) simp_all

lemma settled_publish: "u_ID u \<in> S \<Longrightarrow> akeeps (settled_since K S g0) (publish K E u blob digest sz meta)"
  unfolding publish_def
  by (rule akeeps_bind [OF settled_update [OF stl_publish]]) (auto intro: settled_acts split: option.splits)

lemma settled_finalize:
  assumes "u_ID u \<in> S"
  shows "akeeps (settled_since K S g0) (finalize K E u pre meta)"
proof -
  have "akeeps (settled_since K S g0) (case pre of Some p \<Rightarrow> areturn (pc_digest p, pc_size p) | None \<Rightarrow> hashFile E f)" for f
    by (cases pre) (simp_all add: settled_acts)
  then show ?thesis
    using assms unfolding finalize_def finalize_move_def Let_def
    by (auto intro!: settled_acts settled_update stl_upload settled_fail settled_publish)
qed

lemma settled_recoverFinalizing:
  assumes "u_ID u \<in> S"
  shows "akeeps (settled_since K S g0) (recoverFinalizing K E u)"
proof (rule akeepsI)
  fix st assume st: "settled_since K S g0 st"
  have "akeeps (settled_since K S g0) (acatch (abind (hashFile E b) (\<lambda>(digest, sz). publish K E u b digest sz None)) (fail K E u))" for b
    by (intro settled_acts settled_fail assms) (auto intro: settled_publish [OF assms])
  then have "settled_since K S g0 (snd (acatch (abind (hashFile E b) (\<lambda>(digest, sz). publish K E u b digest sz None)) (fail K E u) st))" for b
    unfolding akeeps_def using st by blast
  then show "settled_since K S g0 (snd (recoverFinalizing K E u st))"
    using akeepsD [OF settled_finalize [OF assms] st]
    by (auto simp: recoverFinalizing_def Let_def split: prod.splits sum.splits)
qed

end

section \<open>Publishing after a crash\<close>

lemma awp_state: "awp m (\<lambda>r st'. P st') st = P (snd (m st))"
  by (simp add: awp_def split: prod.splits)

context bolt_laws
begin

text \<open>Whatever files are left, publishing an upload that is owned leaves a sound store.\<close>

lemma finalize_fine:
  assumes fine: "store_fine K st" and own: "owned (b_get K (v_db st)) u"
  shows "awp (finalize K E u pre meta) (\<lambda>r st'. store_fine K st') st"
proof -
  let ?u = "u\<lparr>u_State := StateFinalizing, u_UpdatedAt := x_clock E AtFinalize\<rparr>"
  define P where "P st' \<longleftrightarrow> store_fine K st' \<and> owned (b_get K (v_db st')) ?u" for st'
  let ?R = "\<lambda>r st'. case r of Inl e \<Rightarrow> awp (fail K E ?u e :: ('db store, unit) act) (\<lambda>r st'. store_fine K st') st' | Inr (x :: unit) \<Rightarrow> store_fine K st'"
  have bad: "awp (fail K E ?u e :: ('db store, unit) act) (\<lambda>r st'. store_fine K st') st'" if "P st'" for e st'
    by (rule fail_wp) (use that in \<open>auto simp: P_def\<close>)
  have P0: "P st" using fine own by (simp add: P_def owned_def)
  have Pf: "P (st'\<lparr>v_files := fs\<rparr>) = P st'" for st' fs by (simp add: P_def)
  have pub: "awp (publish K E ?u blob digest sz meta) ?R st'" if "P st'" for st' blob digest sz
    by (rule publish_wp) (use that bad in \<open>auto simp: P_def\<close>)
  have sync: "awp (aseq (syncDir E dir) (publish K E ?u blob digest sz meta)) ?R st'" if "P st'" for st' blob digest sz dir
    using that pub bad by (simp split: option.splits)
  have rn: "awp (aseq (os_Rename E p blob) (aseq (syncDir E dir) (publish K E ?u blob digest sz meta))) ?R st'"
    if "P st'" for st' p blob digest sz dir
    unfolding awp_seq [of "os_Rename E p blob"]
    by (rule awp_os_Rename) (use that bad in \<open>auto intro!: sync simp: Pf simp del: awp_seq\<close>)
  have move: "awp (finalize_move K E ?u meta r) ?R st'" if P: "P st'" for st' r
    using rn [OF P] bad [OF P]
    by (auto simp: finalize_move_def Let_def split: option.splits simp del: awp_seq) (simp_all split: option.splits)
  have rest: "awp (abind (case pre of Some p \<Rightarrow> areturn (pc_digest p, pc_size p) | None \<Rightarrow> hashFile E (u_StagingPath u))
      (finalize_move K E ?u meta)) ?R st'" if "P st'" for st'
    unfolding awp_bind by (cases pre) (use that bad move in \<open>auto intro!: awp_hashFile\<close>)
  have start: "awp (update K (tput K BUploads (u_ID u) (CUpload ?u))) R st"
    if "\<And>e. R (Inl e) st" "\<And>st'. P st' \<Longrightarrow> R (Inr ()) st'" for R
  proof (rule awp_update_good [OF fine])
    have own': "owned (contents K (v_db st, delta0)) ?u" using own by (simp add: owned_def)
    have cat: "cat K (v_db st, delta0)" using fine by (simp add: store_fine_def store_ok_def cat_def)
    show "R (Inl e) st" for e by (rule that(1))
    fix x :: unit and s' assume run: "tput K BUploads (u_ID u) (CUpload ?u) (v_db st, delta0) = Inr (x, s')"
    note f = finalizing_good [OF cat own', of x s']
    show "good K (v_db st, delta0) s' \<and> tree_ok (contents K s')"
      using f run fine write_rec_tree by (simp add: store_fine_def)
    fix st' assume st': "store_fine K st'" "b_get K (v_db st') = contents K s'"
    have g: "b_get K (v_db st') = write_rec BUploads (CUpload ?u) (b_get K (v_db st))" using f(2) run st'(2) by simp
    have "b_get K (v_db st') BUploads (u_ID u) = Some (CUpload ?u)" by (simp add: g write_rec_def)
    then have "P st'" using st'(1) own by (simp add: P_def owned_def busy_def)
    then show "R (Inr x) st'" using that(2) by simp
  qed
  have "awp (aseq (update K (tput K BUploads (u_ID u) (CUpload ?u)))
      (abind (case pre of Some p \<Rightarrow> areturn (pc_digest p, pc_size p) | None \<Rightarrow> hashFile E (u_StagingPath u))
         (finalize_move K E ?u meta))) ?R st"
    unfolding awp_seq by (rule start) (use rest bad P0 in \<open>simp_all del: awp_bind\<close>)
  moreover have "u_StagingPath ?u = u_StagingPath u" "u_ID ?u = u_ID u" by simp_all
  ultimately show ?thesis unfolding finalize_def Let_def awp_catch by presburger
qed

lemma recoverFinalizing_fine:
  assumes fine: "store_fine K st" and own: "owned (b_get K (v_db st)) u"
  shows "store_fine K (snd (recoverFinalizing K E u st))"
proof -
  have bad: "awp (fail K E u e :: ('db store, unit) act) (\<lambda>r st'. store_fine K st') st" for e
    by (rule fail_wp [OF fine own])
  have pub: "awp (publish K E u b digest sz None) (\<lambda>r st'. case r of Inl e \<Rightarrow> awp (fail K E u e :: ('db store, unit) act) (\<lambda>r st'. store_fine K st') st'
      | Inr (x :: unit) \<Rightarrow> store_fine K st') st" for b digest sz
    by (rule publish_wp [OF fine own]) (use bad in auto)
  have "awp (acatch (abind (hashFile E b) (\<lambda>(digest, sz). publish K E u b digest sz None)) (fail K E u)) (\<lambda>r st'. store_fine K st') st" for b
    unfolding awp_catch awp_bind by (rule awp_hashFile) (use bad pub in auto)
  then have "store_fine K (snd (acatch (abind (hashFile E b) (\<lambda>(digest, sz). publish K E u b digest sz None)) (fail K E u) st))" for b
    unfolding awp_state .
  moreover have "store_fine K (snd (finalize K E u None None st))"
    using finalize_fine [OF fine own] unfolding awp_state .
  ultimately show ?thesis by (auto simp: recoverFinalizing_def Let_def split: prod.splits sum.splits)
qed

lemma recover_loop_fine:
  assumes "store_fine K st" "\<And>u. u \<in> set us \<Longrightarrow> owned (b_get K (v_db st)) u" "distinct (map u_ID us)"
  shows "store_fine K (snd (recover_loop K E ctx i us st)) \<and>
    settles (u_ID ` set us) (b_get K (v_db st)) (b_get K (v_db (snd (recover_loop K E ctx i us st))))"
  using assms
proof (induction us arbitrary: i st)
  case Nil
  then show ?case by (simp add: settles_refl)
next
  case (Cons u us)
  let ?st = "snd (recoverFinalizing K (E i) u st)"
  have fine: "store_fine K ?st" by (rule recoverFinalizing_fine) (use Cons.prems in auto)
  have one: "settles {u_ID u} (b_get K (v_db st)) (b_get K (v_db ?st))"
    using akeepsD [OF settled_recoverFinalizing [of u "{u_ID u}" "b_get K (v_db st)"], of st]
    by (simp add: settled_since_def settles_refl)
  have "owned (b_get K (v_db ?st)) v" if v: "v \<in> set us" for v
  proof -
    have "u_ID v \<noteq> u_ID u" using v Cons.prems(3) by (auto simp: image_iff)
    then have "b_get K (v_db ?st) BUploads (u_ID v) = b_get K (v_db st) BUploads (u_ID v)" using settles_other [OF one] by simp
    then show ?thesis using Cons.prems(2) [of v] v by (simp add: owned_def)
  qed
  with Cons.IH [OF fine, of "Suc i"] Cons.prems(3)
  have IH: "store_fine K (snd (recover_loop K E ctx (Suc i) us ?st))"
    "settles (u_ID ` set us) (b_get K (v_db ?st)) (b_get K (v_db (snd (recover_loop K E ctx (Suc i) us ?st))))" by auto
  have mono: "settles S g g' \<Longrightarrow> S \<subseteq> T \<Longrightarrow> settles T g g'" for S T g g' unfolding settles_def by blast
  have "settles (u_ID ` set (u # us)) (b_get K (v_db st)) (b_get K (v_db (snd (recover_loop K E ctx (Suc i) us ?st))))"
    by (rule settles_trans [OF mono [OF one] mono [OF IH(2)]]) auto
  then show ?case using IH(1) Cons.prems(1) by (cases "ctx i") (simp_all add: settles_refl)
qed

end

section \<open>The transaction of recovery\<close>

text \<open>The uploads after it: those that were being written are INTERRUPTED.\<close>

definition restart :: "gotime \<Rightarrow> cell \<Rightarrow> cell" where
  "restart now c =
     (case c of CUpload u \<Rightarrow> if u_State u = StateUploading then CUpload (restarted now u) else c | _ \<Rightarrow> c)"

context bolt_laws
begin

lemma recover_one_good:
  assumes cat: "cat K s" and u: "contents K s BUploads (u_ID u) = Some (CUpload u)" "u_State u = StateUploading"
    and run: "recover_one K now u s = Inr (x, s')"
  shows "good K s s'" "contents K s' = write_rec BUploads (CUpload (restarted now u)) (contents K s)"
proof -
  let ?u = "restarted now u"
  from run obtain s1 where s1: "tput K BUploads (u_ID u) (CUpload ?u) s = Inr ((), s1)"
    and s2: "tput K BStale (timeIDKey now (u_ID u)) (CRaw []) s1 = Inr (x, s')"
    by (auto simp: recover_one_def txn_simps)
  note e = tput_eff [OF s1] tput_eff [OF s2]
  have f: "u_ID ?u = u_ID u" "u_Tenant ?u = u_Tenant u" "u_Path ?u = u_Path u" "u_State ?u = StateInterrupted" "u_UpdatedAt ?u = now"
    by (simp_all add: restarted_def)
  have c: "contents K s' = upd (upd (contents K s) BStale (timeIDKey now (u_ID ?u)) (Some (CRaw []))) BUploads (u_ID ?u) (Some (CUpload ?u))"
    using e f(1) by (auto simp: upd_def fun_eq_iff)
  show v: "contents K s' = write_rec BUploads (CUpload ?u) (contents K s)"
    by (rule busy_write_view [OF cat _ _ _ _ c, of u]) (use u f in \<open>simp_all add: busy_def\<close>)
  note g = graves_upload [OF cat [unfolded cat_def] u(1)]
  show "good K s s'"
    by (rule upload_write_good [OF cat v]) (use e f g u in simp_all)
qed

lemma recover_ones_good:
  assumes "tfor us (recover_one K now) s = Inr (x, s')" "cat K s" "distinct (map u_ID us)"
    "\<And>u. u \<in> set us \<Longrightarrow> contents K s BUploads (u_ID u) = Some (CUpload u) \<and> u_State u = StateUploading"
  shows "good K s s' \<and> (\<forall>B. B \<notin> {BUploads, BStale} \<longrightarrow> contents K s' B = contents K s B) \<and>
    (\<forall>uid. contents K s' BUploads uid =
       (if uid \<in> u_ID ` set us then map_option (restart now) (contents K s BUploads uid) else contents K s BUploads uid))"
  using assms
proof (induction us arbitrary: s)
  case Nil
  then show ?case by (auto simp: txn_simps good_refl)
next
  case (Cons u us)
  then obtain s1 where s1: "recover_one K now u s = Inr ((), s1)" and rest: "tfor us (recover_one K now) s1 = Inr (x, s')"
    by (auto simp: tseq_Inr)
  have u: "contents K s BUploads (u_ID u) = Some (CUpload u)" "u_State u = StateUploading" using Cons.prems(4) by auto
  note g = recover_one_good [OF Cons.prems(2) u s1]
  have ups: "contents K s1 BUploads = (contents K s BUploads)(u_ID u \<mapsto> CUpload (restarted now u))"
    using g(2) by (simp add: write_rec_def restarted_def)
  have path: "contents K s1 B = contents K s B" if "B \<notin> {BUploads, BStale}" for B
  proof (cases "B = BUploadPaths")
    case True
    have "contents K s BUploadPaths (uploadPathKey (u_Tenant u) (u_Path u) (u_ID u)) = Some (CRaw [])"
      using catalog_okD(2) [OF Cons.prems(2) [unfolded cat_def]] u graves_upload(4,5) [OF Cons.prems(2) [unfolded cat_def] u(1)]
      by (simp add: indexes_ok_iff in_sync_def derived_def key_simps)
    then show ?thesis using True g(2) u by (auto simp: write_rec_def indexBuckets_def restarted_def fun_eq_iff)
  qed (use that g(2) in \<open>cases B, auto simp: write_rec_def indexBuckets_def\<close>)
  have "contents K s1 BUploads (u_ID v) = Some (CUpload v) \<and> u_State v = StateUploading" if "v \<in> set us" for v
    using Cons.prems(3,4) that by (auto simp: ups image_iff)
  from Cons.IH [OF rest good_cat [OF g(1)] _ this] Cons.prems(3)
  have IH: "good K s1 s'" "\<And>B. B \<notin> {BUploads, BStale} \<Longrightarrow> contents K s' B = contents K s1 B"
    "\<And>uid. contents K s' BUploads uid =
       (if uid \<in> u_ID ` set us then map_option (restart now) (contents K s1 BUploads uid) else contents K s1 BUploads uid)" by auto
  have "contents K s' BUploads uid =
       (if uid \<in> u_ID ` set (u # us) then map_option (restart now) (contents K s BUploads uid) else contents K s BUploads uid)" for uid
    using IH(3) [of uid] Cons.prems(3) u by (auto simp: ups restart_def image_iff)
  then show ?case using good_trans [OF g(1) IH(1)] IH(2) path by simp
qed

lemma stored_uploads:
  assumes "catalog_ok (b_get K db) n"
  defines "us \<equiv> concat (map (cell_upload \<circ> snd) (b_seek K db BUploads []))"
  shows "u \<in> set us \<longleftrightarrow> b_get K db BUploads (u_ID u) = Some (CUpload u)" "distinct (map u_ID us)"
proof -
  let ?l = "b_seek K db BUploads []"
  have eq: "map CUpload us = map snd ?l"
    using stored_cells(2) [of "(db, delta0)"] catalog_okD(1) [OF assms(1)] by (simp add: us_def)
  have id: "(k, c) \<in> set ?l \<Longrightarrow> cell_id c = k" for k c
    using graves_upload(5) [OF assms(1)] records_kind(2) [OF catalog_okD(1) [OF assms(1)]] by (fastforce simp: seek_set)
  have "map u_ID us = map cell_id (map CUpload us)" by simp
  also have "\<dots> = map fst ?l" unfolding eq using id by auto
  finally show "distinct (map u_ID us)" using seek_distinct by simp
  have "u \<in> set us \<longleftrightarrow> CUpload u \<in> set (map CUpload us)" by auto
  also have "\<dots> \<longleftrightarrow> (\<exists>k. b_get K db BUploads k = Some (CUpload u))" unfolding eq by (force simp: seek_set)
  also have "\<dots> \<longleftrightarrow> b_get K db BUploads (u_ID u) = Some (CUpload u)"
    using graves_upload(5) [OF assms(1)] by blast
  finally show "u \<in> set us \<longleftrightarrow> b_get K db BUploads (u_ID u) = Some (CUpload u)" .
qed

lemma recover_tx_good:
  assumes cat: "cat K s" and run: "recover_tx K now s = Inr (fin, s')"
  shows "good K s s' \<and> (\<forall>B. B \<notin> {BUploads, BStale} \<longrightarrow> contents K s' B = contents K s B) \<and>
    (\<forall>uid. contents K s' BUploads uid = map_option (restart now) (contents K s BUploads uid)) \<and>
    distinct (map u_ID fin) \<and>
    (\<forall>u. u \<in> set fin \<longleftrightarrow> contents K s BUploads (u_ID u) = Some (CUpload u) \<and> u_State u = StateFinalizing)"
proof -
  define us where "us = concat (map (cell_upload \<circ> snd) (b_seek K (fst s) BUploads []))"
  note c = cat [unfolded cat_def, unfolded contents_def]
  note st = stored_uploads [OF c, folded us_def contents_def]
  from run have loop: "tfor (filter (\<lambda>u. u_State u = StateUploading) us) (recover_one K now) s = Inr ((), s')"
    and fin: "fin = filter (\<lambda>u. u_State u = StateFinalizing) us"
    by (auto simp: recover_tx_def us_def tbind_Inr tread_Inr tseq_Inr ret_Inr)
  have dist: "distinct (map u_ID (filter P us))" for P using st(2) by (induction us) auto
  have up: "contents K s BUploads (u_ID u) = Some (CUpload u) \<and> u_State u = StateUploading"
    if "u \<in> set (filter (\<lambda>u. u_State u = StateUploading) us)" for u
    using that st(1) by auto
  note l = recover_ones_good [OF loop cat dist up]
  have "contents K s' BUploads uid = map_option (restart now) (contents K s BUploads uid)" for uid
  proof (cases "uid \<in> u_ID ` set (filter (\<lambda>u. u_State u = StateUploading) us)")
    case False
    have "map_option (restart now) (contents K s BUploads uid) = contents K s BUploads uid"
    proof (cases "contents K s BUploads uid")
      case (Some c')
      then obtain u where u: "c' = CUpload u" "u_ID u = uid" using records_kind(2) [OF catalog_okD(1) [OF cat [unfolded cat_def]]] by blast
      then have "u \<in> set us" using st(1) Some by simp
      then have "u_State u \<noteq> StateUploading" using False u(2) by force
      then show ?thesis using Some u by (simp add: restart_def)
    qed simp
    then show ?thesis using l False by simp
  qed (use l in simp)
  moreover have "distinct (map u_ID fin)" unfolding fin by (rule dist)
  moreover have "\<forall>u. u \<in> set fin \<longleftrightarrow> contents K s BUploads (u_ID u) = Some (CUpload u) \<and> u_State u = StateFinalizing"
    using st(1) by (auto simp: fin)
  ultimately show ?thesis using l by blast
qed

end

section \<open>Unlinking changes the garbage-collection bucket only\<close>

definition gc_only :: "view \<Rightarrow> view \<Rightarrow> bool" where
  "gc_only g g' \<longleftrightarrow> (\<forall>B. B \<noteq> BGC \<longrightarrow> g' B = g B)"

sublocale bolt_laws \<subseteq> gco: step_relation K gc_only
  by unfold_locales (auto simp: gc_only_def)

context bolt_laws
begin

lemma gc_flush: "gco.stays (flush_ids K ids)"
proof (induction ids)
  case (Cons oid ids)
  have "gco.stays (tdel K BGC oid)" by (rule gco.stays_del) (simp add: gc_only_def)
  with Cons show ?case by (auto intro!: gco.stays_intros)
qed (simp add: gco.stays_intros)

lemma flushGC_frame: "gc_only (b_get K (v_db st)) (b_get K (v_db (flushGC K st)))"
proof -
  let ?fn = "tseq (tmod (\<lambda>d. d\<lparr>d_gc := 0\<rparr>)) (flush_ids K (v_gcDone st))" and ?st = "st\<lparr>v_gcDone := []\<rparr>"
  have st: "gco.stays ?fn" by (intro gco.stays_intros gc_flush)
  have "gc_only (b_get K (v_db st)) (b_get K (v_db (snd (update K ?fn ?st))))"
  proof (cases rule: update_cases [of K ?fn ?st])
    case (commit x db d)
    from gco.staysD [OF st commit(1)] commit(2) show ?thesis by simp
  qed (simp add: gco.R_refl)
  then show ?thesis by (auto simp: flushGC_def Let_def gco.R_refl split: prod.splits sum.splits)
qed

lemma sweepGC_frame: "gc_only (b_get K (v_db st)) (b_get K (v_db (sweepGC K E st)))"
proof -
  let ?st = "fold (\<lambda>(oid, e). collect_in E oid (g_Tenant e) (g_Blob e) 0) (concat (map cell_gc (b_seek K (v_db st) BGC []))) st"
  have db: "v_db (fold (\<lambda>(oid, e). collect_in E oid (g_Tenant e) (g_Blob e) 0) l st) = v_db st" for l
  proof (induction l arbitrary: st)
    case (Cons p l)
    show ?case unfolding fold_simps Cons.IH by (cases p) simp
  qed simp
  have "gc_only (b_get K (v_db ?st)) (b_get K (v_db (flushGC K ?st)))" by (rule flushGC_frame)
  then show ?thesis unfolding sweepGC_def Let_def db .
qed

end

section \<open>Recover\<close>

text \<open>What a store looks like after a crash: a sound catalog, of which nothing about the counters in
  memory is known.\<close>

definition crashed :: "'db bolt \<Rightarrow> 'db store \<Rightarrow> bool" where
  "crashed K st \<longleftrightarrow>
     (let g = b_get K (v_db st)
      in catalog_ok g (b_seq K (v_db st) BQueue) \<and> tree_ok g \<and>
         (\<forall>uid u. g BUploads uid = Some (CUpload u) \<longrightarrow> uid \<noteq> [] \<and> clean_path (u_Path u) \<and> nul \<notin> set (u_Tenant u)))"

text \<open>What recovery promises about the uploads.\<close>

definition recovered :: "gotime \<Rightarrow> view \<Rightarrow> view \<Rightarrow> bool" where
  "recovered now g g' \<longleftrightarrow>
     (\<forall>uid u. g' BUploads uid = Some (CUpload u) \<longrightarrow> u_State u \<noteq> StateUploading) \<and>
     (\<forall>uid u. g BUploads uid = Some (CUpload u) \<and> u_State u = StateUploading \<longrightarrow>
        g' BUploads uid = Some (CUpload (restarted now u))) \<and>
     (\<forall>uid u. g BUploads uid = Some (CUpload u) \<and> u_State u \<noteq> StateUploading \<and> u_State u \<noteq> StateFinalizing \<longrightarrow>
        g' BUploads uid = Some (CUpload u))"

lemma recount_frame: "v_db (recount K st) = v_db st"
  by (simp add: recount_def Let_def)

context bolt_laws
begin

lemma recover_start:
  assumes cr: "crashed K st" and run: "update K (recover_tx K now) st = (Inr fin, st1)"
  defines "g \<equiv> b_get K (v_db st)" and "g1 \<equiv> b_get K (v_db st1)"
  shows "store_fine K (recount K st1)" "\<And>uid. g1 BUploads uid = map_option (restart now) (g BUploads uid)"
    "distinct (map u_ID fin)" "\<And>u. u \<in> set fin \<Longrightarrow> owned g1 u"
    "\<And>u. u \<in> set fin \<longleftrightarrow> g BUploads (u_ID u) = Some (CUpload u) \<and> u_State u = StateFinalizing"
proof -
  obtain db d where tx: "recover_tx K now (v_db st, delta0) = Inr (fin, (db, d))" "v_db st1 = db" using update_Inr [OF run] by metis
  have cat: "cat K (v_db st, delta0)" using cr by (simp add: crashed_def cat_def Let_def)
  note r = recover_tx_good [OF cat tx(1), simplified, folded g_def tx(2), folded g1_def]
  show up: "g1 BUploads uid = map_option (restart now) (g BUploads uid)" for uid using r by blast
  show "distinct (map u_ID fin)" using r by blast
  show mem: "u \<in> set fin \<longleftrightarrow> g BUploads (u_ID u) = Some (CUpload u) \<and> u_State u = StateFinalizing" for u using r by blast
  show "owned g1 u" if "u \<in> set fin" for u
  proof -
    have u: "g BUploads (u_ID u) = Some (CUpload u)" "u_State u = StateFinalizing" using mem that by auto
    then have "u_ID u \<noteq> [] \<and> clean_path (u_Path u) \<and> nul \<notin> set (u_Tenant u)" using cr unfolding crashed_def g_def Let_def by blast
    with u up [of "u_ID u"] show ?thesis by (simp add: owned_def restart_def busy_def)
  qed
  have "tree_shrinks g g1" using r by (auto simp: tree_shrinks_def)
  then have "tree_ok g1" using cr tree_ok_shrinks by (auto simp: crashed_def g_def Let_def)
  moreover have c: "catalog_ok g1 (b_seq K (v_db st1) BQueue)" using r by (simp add: good_def cat_def g1_def tx(2))
  moreover have "counts_ok g1 (v_count (recount K st1))"
    using recount_ok [of st1] catalog_okD(3) [OF c] by (simp add: g1_def)
  ultimately show "store_fine K (recount K st1)" by (simp add: store_fine_def store_ok_def g1_def recount_frame)
qed

lemma Recover_sound:
  assumes cr: "crashed K st" and run: "Recover K now E ctx st = (Inr (), st')"
  shows "store_fine K st' \<and> recovered now (b_get K (v_db st)) (b_get K (v_db st'))"
proof -
  let ?g = "b_get K (v_db st)"
  obtain fin st1 where tx: "update K (recover_tx K now) st = (Inr fin, st1)"
    using run by (auto simp: Recover_def split: prod.splits sum.splits)
  note r = recover_start [OF cr tx]
  let ?st2 = "snd (recover_loop K E ctx 0 fin (recount K st1))"
  have st': "st' = sweepGC K (E (length fin)) ?st2"
    using run tx by (auto simp: Recover_def split: prod.splits sum.splits)
  have l: "store_fine K ?st2" "settles (u_ID ` set fin) (b_get K (v_db st1)) (b_get K (v_db ?st2))"
    using recover_loop_fine [OF r(1) _ r(3), of E ctx 0] r(4) by (simp_all add: recount_frame)
  note sw = sweepGC_frame [of ?st2 "E (length fin)", folded st']
  have "tree_ok (b_get K (v_db st'))"
    using sw l(1) by (auto simp: store_fine_def gc_only_def intro: tree_ok_shrinks [of "b_get K (v_db ?st2)"] simp: tree_shrinks_def)
  then have fine: "store_fine K st'" using sweepGC_keeps [of ?st2 "E (length fin)"] l(1) by (simp add: store_fine_def st')
  have ups: "b_get K (v_db st') BUploads = b_get K (v_db ?st2) BUploads" using sw by (simp add: gc_only_def)
  have none: "u_State u \<noteq> StateUploading" if u: "b_get K (v_db st') BUploads uid = Some (CUpload u)" for uid u
  proof
    assume "u_State u = StateUploading"
    then have "b_get K (v_db st1) BUploads uid = Some (CUpload u)" using l(2) u ups unfolding settles_def by metis
    then have "map_option (restart now) (?g BUploads uid) = Some (CUpload u)" using r(2) by simp
    then obtain c where c: "restart now c = CUpload u" by auto
    with \<open>u_State u = StateUploading\<close> show False by (cases c) (auto simp: restart_def restarted_def split: if_splits)
  qed
  have keep: "b_get K (v_db st') BUploads uid = Some (restart now (CUpload u))"
    if u: "?g BUploads uid = Some (CUpload u)" "u_State u \<noteq> StateFinalizing" for uid u
  proof -
    have "u_ID u = uid" using cr u(1) graves_upload(5) unfolding crashed_def Let_def by blast
    then have "uid \<notin> u_ID ` set fin" using r(5) u by force
    from settles_other [OF l(2) this] r(2) u(1) ups show ?thesis by simp
  qed
  show ?thesis using fine none keep unfolding recovered_def by (auto simp: restart_def)
qed

end

section \<open>Opening a store\<close>

context step_relation
begin

lemma stays_clear: "(\<And>g. R g (g(B := Map.empty))) \<Longrightarrow> stays (tclear K B)"
  by (auto simp: stays_def dest!: tclear_eff)

lemma stays_throwaway:
  assumes "stays m"
  shows "stays (throwaway m)"
  unfolding stays_def
proof (intro allI impI)
  fix s x s' assume run: "throwaway m s = Inr (x, s')"
  then obtain s1 where s1: "m (fst s, delta0) = Inr (x, s1)" "s' = (fst s1, snd s)"
    by (auto simp: throwaway_def split: sum.splits)
  from staysD [OF assms s1(1)] show "R (contents K s) (contents K s')" by (simp add: s1(2) contents_def)
qed

end

context bolt_laws
begin

lemma tree_rebuild: "tree.stays (rebuildIndexes K now)"
proof -
  have cl: "tree.stays (tclear K B)" if "B \<in> set indexBuckets" for B
    by (rule tree.stays_clear) (use that in \<open>auto simp: tree_shrinks_def indexBuckets_def\<close>)
  have ob: "tree.stays (rebuild_object K now ob)" for ob
    by (cases "o_State ob") (auto simp: rebuild_object_def Let_def intro!: tree_intros tree_queue tree.stays_throwaway tree_delete)
  have up: "tree.stays (rebuild_upload K u)" for u by (auto simp: rebuild_upload_def intro!: tree_intros)
  show ?thesis unfolding rebuildIndexes_def by (intro tree_intros cl ob up) (auto intro!: tree_intros)
qed

lemma uploads_rebuild: "stl.stays {} (rebuildIndexes K now)"
proof -
  have cl: "stl.stays {} (tclear K B)" if "B \<in> set indexBuckets" for B
    by (rule stl.stays_clear) (use that in \<open>auto simp: settles_def indexBuckets_def\<close>)
  have ob: "stl.stays {} (rebuild_object K now ob)" for ob
    by (cases "o_State ob") (auto simp: rebuild_object_def Let_def putObject_def
        intro!: stl.stays_intros stl_put stl_del stl_ups [OF ups_queue(2)] stl.stays_throwaway stl_ups [OF ups_delete])
  have up: "stl.stays {} (rebuild_upload K u)" for u by (auto simp: rebuild_upload_def intro!: stl.stays_intros stl_put)
  show ?thesis unfolding rebuildIndexes_def by (intro stl.stays_intros cl ob up) (auto intro!: stl.stays_intros stl_put stl_del)
qed

lemma migrate_crashed:
  assumes cr: "crashed K st" and run: "migrate K now st = (Inr (), st')"
  shows "crashed K st'" "b_get K (v_db st') BUploads = b_get K (v_db st) BUploads"
proof -
  let ?g = "b_get K (v_db st)" and ?g' = "b_get K (v_db st')"
  let ?fn = "tbind (tread (schemaVersion K)) (\<lambda>version.
          if version = SchemaVersion then ret ()
          else if SchemaVersion < version then throw (ErrOther ''catalog schema is newer than this server supports'')
          else tseq (rebuildIndexes K now) (tput K BMeta ''schema'' (CRaw ''2'')))"
  from run obtain db d where tx: "?fn (v_db st, delta0) = Inr ((), (db, d))" and st': "st' = st\<lparr>v_db := db\<rparr>"
    unfolding migrate_def by (rule db_Update_Inr)
  have "tree.stays ?fn" by (intro tree_intros tree_rebuild) simp_all
  from tree.staysD [OF this tx] have sh: "tree_shrinks ?g ?g'" by (simp add: st')
  have "stl.stays {} ?fn" by (intro stl.stays_intros uploads_rebuild stl_put) simp
  from stl.staysD [OF this tx] have "settles {} ?g ?g'" by (simp add: st')
  then show ups: "?g' BUploads = ?g BUploads" using settles_other [of "{}"] by blast
  have cat: "catalog_ok ?g (b_seq K (v_db st) BQueue)" using cr by (simp add: crashed_def Let_def)
  have "catalog_ok ?g' (b_seq K (v_db st') BQueue)"
  proof (cases "schemaVersion K (v_db st) < SchemaVersion")
    case True
    from migrate_sound [OF catalog_rebuildable [OF cat] True run] show ?thesis by simp
  next
    case False
    then have "v_db st' = v_db st" using tx st' by (auto simp: tbind_def tread_def ret_def throw_def split: if_splits)
    then show ?thesis using cat by simp
  qed
  with cr sh ups show "crashed K st'" using tree_ok_shrinks unfolding crashed_def Let_def by metis
qed

lemma Open_sound:
  assumes cr: "crashed K (fresh_store db files)" and run: "OpenWithOptions K E0 ttl (Inr db) now E files = Inr (st', ttl')"
  shows "store_fine K st' \<and> recovered now (b_get K db) (b_get K (v_db st'))"
proof -
  let ?st = "fresh_store db files"
  have db: "v_db ?st = db" by (simp add: fresh_store_def)
  from run obtain st1 where m: "migrate K now ?st = (Inr (), st1)" and r: "Recover K now E (\<lambda>_. None) st1 = (Inr (), st')"
    by (auto simp: OpenWithOptions_def split: option.splits prod.splits sum.splits)
  note c = migrate_crashed [OF cr m]
  note R = Recover_sound [OF c(1) r]
  have "recovered now (b_get K db) (b_get K (v_db st')) = recovered now (b_get K (v_db st1)) (b_get K (v_db st'))"
    unfolding recovered_def c(2) db ..
  with R show ?thesis by blast
qed

end

end
