(* ===== verification/Reconcile_Correct.thy ===== *)
theory Reconcile_Correct
  imports Maintain_Correct Upload_Invariant
begin

text \<open>
  Correctness of \<open>Reconcile\<close> and \<open>Check\<close>. A file is unlinked only when it has a name of the store's, is
  old enough and has no record; the staging files of uploads and the blobs of objects therefore stay,
  which rests on the layout of the data directory: the last three parts of a path give the kind of
  file, the tenant and the identifier. On a sound store \<open>Check\<close> reports the missing blobs only.
\<close>

section \<open>Parts of paths\<close>

lemma split_on_sep: "split_on c (xs @ c # ys) = split_on c xs @ split_on c ys"
proof (induction xs)
  case (Cons x xs)
  then show ?case by (cases "split_on c xs") simp_all
qed simp

lemma split_on_join_with: "xs \<noteq> [] \<Longrightarrow> split_on c (join_with c xs) = concat (map (split_on c) xs)"
  by (induction c xs rule: join_with.induct) (simp_all add: split_on_sep)

lemma clean_comps_tail: "list_all real_segment cs \<Longrightarrow> clean_comps r st (ys @ cs) = clean_comps r st ys @ cs"
proof (induction cs rule: rev_induct)
  case (snoc c cs)
  then show ?case using clean_comps_snoc [of c r st "ys @ cs"] by (simp add: real_segment_def)
qed simp

text \<open>Real segments at the end of a path survive cleaning.\<close>

lemma path_Clean_parts:
  assumes cs: "list_all real_segment cs" "cs \<noteq> []" and p: "split_on slash p = ys @ cs"
  shows "\<exists>zs. split_on slash (path_Clean p) = zs @ cs"
proof -
  let ?r = "hd p = slash"
  let ?zs = "clean_comps ?r [] ys"
  have ne: "p \<noteq> []"
  proof
    assume "p = []"
    then have "ys @ cs = [[]]" using p by simp
    then show False using cs by (cases ys) (auto simp: real_segment_def)
  qed
  have comps: "clean_comps ?r [] (split_on slash p) = ?zs @ cs" using clean_comps_tail [OF cs(1)] p by simp
  have "slash \<notin> set x" if x: "x \<in> set (?zs @ cs)" for x
  proof -
    have "x \<in> insert ''..'' (set (split_on slash p))" using x clean_comps_set [of ?r "[]" ys] p by auto
    then show ?thesis using split_on_no_sep [of x slash p] by auto
  qed
  then have split: "split_on slash (join_with slash (?zs @ cs)) = ?zs @ cs" using cs(2) by (intro split_on_join) auto
  have "join_with slash (zs @ cs) \<noteq> []" for zs
    using cs by (auto simp: real_segment_def append_eq_Cons_conv)
  from this [of ?zs] have "join_with slash (?zs @ cs) \<noteq> []" .
  moreover have "path_Clean p = (let s = join_with slash (clean_comps ?r [] (split_on slash p))
      in if ?r then slash # s else if s = [] then ''.'' else s)" using ne by (simp add: path_Clean_def Let_def)
  ultimately have "path_Clean p = join_with slash (?zs @ cs) \<or> path_Clean p = slash # join_with slash (?zs @ cs)"
    unfolding comps Let_def by presburger
  then have "split_on slash (path_Clean p) = ?zs @ cs \<or> split_on slash (path_Clean p) = ([] # ?zs) @ cs"
    using split by auto
  then show ?thesis by blast
qed

lemma filepath_Join_parts:
  assumes "list_all real_segment cs" "cs \<noteq> []" "concat (map (split_on slash) (filter (\<lambda>e. e \<noteq> []) es)) = ys @ cs"
  shows "\<exists>zs. split_on slash (filepath_Join es) = zs @ cs"
proof -
  let ?es = "filter (\<lambda>e. e \<noteq> []) es"
  have "?es \<noteq> []" using assms(2,3) by auto
  then show ?thesis
    using path_Clean_parts [OF assms(1,2), of "join_with slash ?es" ys] assms(3) split_on_join_with [of ?es slash]
    by (simp add: filepath_Join_def)
qed

lemma blobPath_parts:
  assumes "real_segment tenant" "slash \<notin> set tenant" "slash \<notin> set oid"
  shows "\<exists>zs. split_on slash (blobPath root tenant oid) = zs @ [''objects'', tenant, oid @ ''.blob'']"
  unfolding blobPath_def
proof (rule filepath_Join_parts)
  show "list_all real_segment [''objects'', tenant, oid @ ''.blob'']"
    using assms(1) ext_segment(1) [OF assms(3)] by (simp add: real_segment_def)
  have "tenant \<noteq> []" using assms(1) by (simp add: real_segment_def)
  then show "concat (map (split_on slash) (filter (\<lambda>e. e \<noteq> []) [root, ''objects'', tenant, oid @ ''.blob''])) =
      (if root = [] then [] else split_on slash root) @ [''objects'', tenant, oid @ ''.blob'']"
    using assms by (simp add: split_on_id split_on.simps(1))
qed simp

text \<open>A file met below a directory of the store.\<close>

lemma walked_parts:
  assumes "real_segment d" "slash \<notin> set d" "list_all real_segment (split_on slash rel)" "rel \<noteq> []"
  shows "\<exists>zs. split_on slash (filepath_Join [filepath_Join [root, d], rel]) = zs @ d # split_on slash rel"
proof -
  have d: "d \<noteq> []" using assms(1) by (simp add: real_segment_def)
  have "\<exists>zs. split_on slash (filepath_Join [root, d]) = zs @ [d]"
    by (rule filepath_Join_parts [of _ _ "if root = [] then [] else split_on slash root"])
      (use assms d in \<open>simp_all add: split_on_id\<close>)
  then obtain zs where zs: "split_on slash (filepath_Join [root, d]) = zs @ [d]" by blast
  then have "filepath_Join [root, d] \<noteq> []" using d by (cases zs) auto
  then show ?thesis
    by (intro filepath_Join_parts [of _ _ zs]) (use assms zs in simp_all)
qed

lemma stagePath_parts:
  assumes "real_segment tenant" "slash \<notin> set tenant" "slash \<notin> set uid"
  shows "\<exists>zs. split_on slash (stagePath root tenant uid) = zs @ [''staging'', tenant, uid @ ''.partial'']"
proof -
  have t: "tenant \<noteq> []" using assms(1) by (simp add: real_segment_def)
  have "\<exists>zs. split_on slash (filepath_Join [root, ''staging'', tenant]) = zs @ [''staging'', tenant]"
    by (rule filepath_Join_parts [of _ _ "if root = [] then [] else split_on slash root"])
      (use assms t in \<open>simp_all add: split_on_id real_segment_def\<close>)
  then obtain zs where zs: "split_on slash (filepath_Join [root, ''staging'', tenant]) = zs @ [''staging'', tenant]" by blast
  then have "filepath_Join [root, ''staging'', tenant] \<noteq> []" using t by (cases zs) auto
  then show ?thesis unfolding stagePath_def
    by (intro filepath_Join_parts [of _ _ zs])
      (use assms zs ext_segment(2) [OF assms(3)] in \<open>simp_all add: split_on_id real_segment_def\<close>)
qed

section \<open>What a walk removes\<close>

text \<open>A file the walk takes for an orphan.\<close>

definition orphan :: "(string \<Rightarrow> bool) \<Rightarrow> gotime \<Rightarrow> string \<times> gotime option \<Rightarrow> bool" where
  "orphan known cutoff f \<longleftrightarrow> (\<exists>t oid m. file_id (fst f) = Some (t, oid) \<and> snd f = Some m \<and> m \<le> cutoff \<and> \<not> known oid)"

lemma os_Remove_gone: "x_io E (OpRemove p) = None \<Longrightarrow> v_files (snd (os_Remove E p st)) p = None"
  by (simp add: os_Remove_run)

lemma reconcile_walk_files:
  assumes "reconcile_walk E dir known cutoff ctx i ws st = (r, st')" "\<And>oid F. known oid (st\<lparr>v_files := F\<rparr>) = known oid st"
  shows "\<exists>F. st' = st\<lparr>v_files := F\<rparr> \<and>
    (\<forall>p. F p = v_files st p \<or> F p = None \<and> (\<exists>w\<in>set ws. orphan (\<lambda>oid. known oid st) cutoff w \<and> p = filepath_Join [dir, fst w])) \<and>
    (r = Inr () \<longrightarrow> (\<forall>w\<in>set ws. orphan (\<lambda>oid. known oid st) cutoff w \<and> x_io E (OpRemove (filepath_Join [dir, fst w])) = None \<longrightarrow>
       F (filepath_Join [dir, fst w]) = None))"
  using assms
proof (induction ws arbitrary: i st)
  case Nil
  then show ?case by (intro exI [of _ "v_files st"]) auto
next
  case (Cons w ws)
  obtain rel info where w: "w = (rel, info)" by (cases w)
  let ?k = "\<lambda>oid. known oid st" and ?p = "filepath_Join [dir, rel]"
  show ?case
  proof (cases "ctx i")
    case (Some e)
    then show ?thesis using Cons.prems(1) w by (intro exI [of _ "v_files st"]) auto
  next
    case None
    show ?thesis
    proof (cases "orphan ?k cutoff w")
      case False
      then have rest: "reconcile_walk E dir known cutoff ctx (Suc i) ws st = (r, st')"
        using Cons.prems(1) None w by (auto simp: orphan_def not_le split: option.splits prod.splits if_splits)
      from Cons.IH [OF rest Cons.prems(2)] False show ?thesis by auto
    next
      case True
      define st1 where "st1 = snd (os_Remove E ?p st)"
      from True obtain t oid m where f: "file_id rel = Some (t, oid)" "info = Some m" "m \<le> cutoff" "\<not> ?k oid"
        by (auto simp: orphan_def w)
      have rest: "reconcile_walk E dir known cutoff ctx (Suc i) ws st1 = (r, st')"
        using Cons.prems(1) None w f by (simp add: st1_def not_less [symmetric])
      obtain F1 where F1: "st1 = st\<lparr>v_files := F1\<rparr>" "\<And>p. p \<noteq> ?p \<Longrightarrow> F1 p = v_files st p" "F1 ?p = v_files st ?p \<or> F1 ?p = None"
          "x_io E (OpRemove ?p) = None \<Longrightarrow> F1 ?p = None"
        by (rule that [of "v_files st1"]) (auto simp: st1_def os_Remove_run)
      have k1: "known oid (st1\<lparr>v_files := F\<rparr>) = known oid st1" for oid F using Cons.prems(2) F1(1) by simp
      have same: "(\<lambda>oid. known oid st1) = ?k" using Cons.prems(2) F1(1) by simp
      from Cons.IH [OF rest k1, unfolded same] obtain F where F: "st' = st1\<lparr>v_files := F\<rparr>"
        "\<And>p. F p = v_files st1 p \<or> F p = None \<and> (\<exists>w\<in>set ws. orphan ?k cutoff w \<and> p = filepath_Join [dir, fst w])"
        "r = Inr () \<Longrightarrow> \<forall>w\<in>set ws. orphan ?k cutoff w \<and> x_io E (OpRemove (filepath_Join [dir, fst w])) = None \<longrightarrow>
           F (filepath_Join [dir, fst w]) = None" by blast
      have "F p = v_files st p \<or> F p = None \<and> (\<exists>w\<in>set (w # ws). orphan ?k cutoff w \<and> p = filepath_Join [dir, fst w])" for p
        using F(2) [of p] F1 True w by (cases "p = ?p") auto
      moreover have "F ?p = None" if "x_io E (OpRemove ?p) = None" using F(2) [of ?p] F1(1,4) that by auto
      ultimately show ?thesis using F F1(1) w by (intro exI [of _ F]) auto
    qed
  qed
qed

section \<open>Reconcile keeps the files of the records\<close>

text \<open>Identifiers and tenants as the store makes them: an identifier is hexadecimal, a tenant is one part
  of a path.\<close>

definition names_fit :: "view \<Rightarrow> bool" where
  "names_fit g \<longleftrightarrow>
     (\<forall>uid u. g BUploads uid = Some (CUpload u) \<longrightarrow> CHR ''.'' \<notin> set uid \<and> real_segment (u_Tenant u) \<and> slash \<notin> set (u_Tenant u)) \<and>
     (\<forall>oid ob. g BObjects oid = Some (CObject ob) \<longrightarrow> CHR ''.'' \<notin> set oid \<and> real_segment (o_Tenant ob) \<and> slash \<notin> set (o_Tenant ob))"

text \<open>\<open>filepath.WalkDir\<close> reports clean relative paths.\<close>

definition walk_clean :: "walk \<Rightarrow> bool" where
  "walk_clean ws \<longleftrightarrow> (\<forall>w\<in>set ws. list_all real_segment (split_on slash (fst w)))"

lemma trim_suffix_append: "trim_suffix suf (x @ suf) = x"
  by simp

lemma trim_suffix_other: "\<not> suffix suf s \<Longrightarrow> trim_suffix suf s = s"
  by (metis suffixI append_take_drop_id trim_suffix.simps)

lemma file_ids:
  assumes "CHR ''.'' \<notin> set x"
  shows "trim_suffix ''.blob'' (trim_suffix ''.partial'' (x @ ''.partial'')) = x"
    "trim_suffix ''.blob'' (trim_suffix ''.partial'' (x @ ''.blob'')) = x"
proof -
  have "\<not> suffix ''.blob'' x" using assms by (auto simp: suffix_def)
  then show "trim_suffix ''.blob'' (trim_suffix ''.partial'' (x @ ''.partial'')) = x"
    by (simp only: trim_suffix_append trim_suffix_other not_False_eq_True)
  have "\<not> suffix ''.partial'' (x @ ''.blob'')"
  proof
    assume "suffix ''.partial'' (x @ ''.blob'')"
    then obtain y where "x @ ''.blob'' = y @ ''.partial''" by (auto simp: suffix_def)
    then show False using arg_cong [of "x @ ''.blob''" "y @ ''.partial''" last] by simp
  qed
  then show "trim_suffix ''.blob'' (trim_suffix ''.partial'' (x @ ''.blob'')) = x"
    by (simp only: trim_suffix_append trim_suffix_other not_False_eq_True)
qed

text \<open>The identifier of a walked file is read off the last part of its path.\<close>

lemma walked_id:
  assumes rel: "file_id rel = Some (t, oid)" "list_all real_segment (split_on slash rel)"
    and d: "real_segment d" "slash \<notin> set d"
    and parts: "split_on slash (filepath_Join [filepath_Join [root, d], rel]) = zs @ [d', t', f']"
  shows "d' = d" "oid = trim_suffix ''.blob'' (trim_suffix ''.partial'' f')"
proof -
  obtain t0 nm ok where c0: "cut_at slash rel = (t0, nm, ok)" by (metis prod_cases3)
  then have "t0 = t" using rel(1) by (auto simp: file_id_def Let_def simp del: trim_suffix.simps split: if_splits)
  then have c: "cut_at slash rel = (t, nm, ok)" using c0 by simp
  have f: "ok" "slash \<notin> set nm" "oid = trim_suffix ''.blob'' (trim_suffix ''.partial'' nm)"
    using rel(1) c by (auto simp: file_id_def Let_def simp del: trim_suffix.simps split: if_splits)
  have "slash \<in> set rel" using c f(1) cut_at_no_sep [of slash rel] by auto
  then obtain a b where ab: "rel = a @ slash # b" "slash \<notin> set a" using split_list_first [of slash rel] by blast
  then have r: "rel = t @ slash # nm" "slash \<notin> set t" using c by simp_all
  have "split_on slash rel = [t, nm]" using r f(2) by (simp add: split_on_append split_on_id)
  moreover from walked_parts [OF d rel(2)] r(1) obtain ws where
    "split_on slash (filepath_Join [filepath_Join [root, d], rel]) = ws @ d # split_on slash rel" by blast
  ultimately have "zs @ [d', t', f'] = ws @ [d, t, nm]" using parts by simp
  then have "rev (zs @ [d', t', f']) = rev (ws @ [d, t, nm])" by (rule arg_cong)
  then show "d' = d" "oid = trim_suffix ''.blob'' (trim_suffix ''.partial'' f')" using f(3) by auto
qed

lemma Reconcile_frame:
  assumes "Reconcile K E now minAge ctx staging objects st = (r, st')"
  obtains F where "st' = st\<lparr>v_files := F\<rparr>"
    "\<And>p. F p = v_files st p \<or> F p = None \<and>
       ((\<exists>w\<in>set staging. orphan (\<lambda>oid. knownUpload K oid st) (now - minAge) w \<and> p = filepath_Join [filepath_Join [x_root E, ''staging''], fst w]) \<or>
        (\<exists>w\<in>set objects. orphan (\<lambda>oid. knownObject K oid st) (now - minAge) w \<and> p = filepath_Join [filepath_Join [x_root E, ''objects''], fst w]))"
    "\<And>w. r = Inr () \<Longrightarrow> w \<in> set staging \<Longrightarrow> orphan (\<lambda>oid. knownUpload K oid st) (now - minAge) w \<Longrightarrow>
       x_io E (OpRemove (filepath_Join [filepath_Join [x_root E, ''staging''], fst w])) = None \<Longrightarrow>
       F (filepath_Join [filepath_Join [x_root E, ''staging''], fst w]) = None"
    "\<And>w. r = Inr () \<Longrightarrow> w \<in> set objects \<Longrightarrow> orphan (\<lambda>oid. knownObject K oid st) (now - minAge) w \<Longrightarrow>
       x_io E (OpRemove (filepath_Join [filepath_Join [x_root E, ''objects''], fst w])) = None \<Longrightarrow>
       F (filepath_Join [filepath_Join [x_root E, ''objects''], fst w]) = None"
proof -
  let ?S = "filepath_Join [x_root E, ''staging'']" and ?O = "filepath_Join [x_root E, ''objects'']"
  have kn: "knownUpload K oid (s\<lparr>v_files := G\<rparr>) = knownUpload K oid s" "knownObject K oid (s\<lparr>v_files := G\<rparr>) = knownObject K oid s" for oid s G
    by (simp_all add: knownUpload_def knownObject_def)
  obtain r1 st1 where w1: "reconcile_walk E ?S (knownUpload K) (now - minAge) ctx 0 staging st = (r1, st1)" by fastforce
  from reconcile_walk_files [OF w1 kn(1)] obtain F1 where F1: "st1 = st\<lparr>v_files := F1\<rparr>"
    "\<And>p. F1 p = v_files st p \<or> F1 p = None \<and> (\<exists>w\<in>set staging. orphan (\<lambda>oid. knownUpload K oid st) (now - minAge) w \<and> p = filepath_Join [?S, fst w])"
    "r1 = Inr () \<longrightarrow> (\<forall>w\<in>set staging. orphan (\<lambda>oid. knownUpload K oid st) (now - minAge) w \<and> x_io E (OpRemove (filepath_Join [?S, fst w])) = None \<longrightarrow>
       F1 (filepath_Join [?S, fst w]) = None)" by blast
  show thesis
  proof (cases r1)
    case (Inl e)
    then have "r \<noteq> Inr ()" "st' = st1" using assms w1 by (auto simp: Reconcile_def aseq_def abind_def)
    then show thesis using F1(1,2) by (intro that [of F1]) auto
  next
    case (Inr u)
    have w2: "reconcile_walk E ?O (knownObject K) (now - minAge) ctx (length staging) objects st1 = (r, st')"
      using assms w1 Inr by (simp add: Reconcile_def aseq_def abind_def)
    have same: "(\<lambda>oid. knownObject K oid st1) = (\<lambda>oid. knownObject K oid st)" using F1(1) kn by simp
    from reconcile_walk_files [OF w2 kn(2), unfolded same] obtain F where F: "st' = st1\<lparr>v_files := F\<rparr>"
      "\<And>p. F p = v_files st1 p \<or> F p = None \<and> (\<exists>w\<in>set objects. orphan (\<lambda>oid. knownObject K oid st) (now - minAge) w \<and> p = filepath_Join [?O, fst w])"
      "r = Inr () \<longrightarrow> (\<forall>w\<in>set objects. orphan (\<lambda>oid. knownObject K oid st) (now - minAge) w \<and> x_io E (OpRemove (filepath_Join [?O, fst w])) = None \<longrightarrow>
         F (filepath_Join [?O, fst w]) = None)" by blast
    have fs: "v_files st1 = F1" using F1(1) by simp
    show thesis
    proof (rule that [of F])
      show "st' = st\<lparr>v_files := F\<rparr>" using F(1) F1(1) by simp
      show "F p = v_files st p \<or> F p = None \<and>
         ((\<exists>w\<in>set staging. orphan (\<lambda>oid. knownUpload K oid st) (now - minAge) w \<and> p = filepath_Join [?S, fst w]) \<or>
          (\<exists>w\<in>set objects. orphan (\<lambda>oid. knownObject K oid st) (now - minAge) w \<and> p = filepath_Join [?O, fst w]))" for p
        using F(2) [of p] F1(2) [of p] fs by metis
      show "F (filepath_Join [?S, fst w]) = None" if "w \<in> set staging" "orphan (\<lambda>oid. knownUpload K oid st) (now - minAge) w"
        "x_io E (OpRemove (filepath_Join [?S, fst w])) = None" for w
        using F1(3) F(2) [of "filepath_Join [?S, fst w]"] that fs Inr by auto
      show "F (filepath_Join [?O, fst w]) = None" if "r = Inr ()" "w \<in> set objects" "orphan (\<lambda>oid. knownObject K oid st) (now - minAge) w"
        "x_io E (OpRemove (filepath_Join [?O, fst w])) = None" for w
        using F(3) that by blast
    qed
  qed
qed

lemma Reconcile_safe:
  assumes run: "Reconcile K E now minAge ctx staging objects st = (r, st')"
    and lay: "stages_ok (x_root E) (b_get K (v_db st))" "names_fit (b_get K (v_db st))" "walk_clean staging" "walk_clean objects"
  shows "b_get K (v_db st) BUploads uid = Some (CUpload u) \<Longrightarrow> v_files st' (u_StagingPath u) = v_files st (u_StagingPath u)"
    "b_get K (v_db st) BObjects oid = Some (CObject ob) \<Longrightarrow> v_files st' (blob_of (x_root E) ob) = v_files st (blob_of (x_root E) ob)"
proof -
  let ?g = "b_get K (v_db st)" and ?S = "filepath_Join [x_root E, ''staging'']" and ?O = "filepath_Join [x_root E, ''objects'']"
  from Reconcile_frame [OF run] obtain F where F: "st' = st\<lparr>v_files := F\<rparr>"
    "\<And>p. F p = v_files st p \<or> F p = None \<and>
       ((\<exists>w\<in>set staging. orphan (\<lambda>oid. knownUpload K oid st) (now - minAge) w \<and> p = filepath_Join [?S, fst w]) \<or>
        (\<exists>w\<in>set objects. orphan (\<lambda>oid. knownObject K oid st) (now - minAge) w \<and> p = filepath_Join [?O, fst w]))" by blast
  have dirs: "real_segment ''staging''" "slash \<notin> set ''staging''" "real_segment ''objects''" "slash \<notin> set ''objects''"
    by (simp_all add: real_segment_def)
  have id: "d' = d \<and> \<not> known (trim_suffix ''.blob'' (trim_suffix ''.partial'' f'))"
    if "w \<in> set ws" "orphan known cutoff w" "p = filepath_Join [filepath_Join [x_root E, d], fst w]" "walk_clean ws"
      "real_segment d" "slash \<notin> set d" "split_on slash p = zs @ [d', t', f']" for w ws known cutoff p d d' t' f' zs
  proof -
    from that(2) obtain t oid where o: "file_id (fst w) = Some (t, oid)" "\<not> known oid" by (auto simp: orphan_def)
    have c: "list_all real_segment (split_on slash (fst w))" using that(1,4) by (simp add: walk_clean_def)
    from walked_id [OF o(1) c that(5,6) that(7) [unfolded that(3)]] o(2) show ?thesis by simp
  qed
  {
    assume u: "?g BUploads uid = Some (CUpload u)"
    then have p: "u_StagingPath u = stagePath (x_root E) (u_Tenant u) uid" "slash \<notin> set uid" using lay(1) unfolding stages_ok_def by blast+
    have n: "CHR ''.'' \<notin> set uid" "real_segment (u_Tenant u)" "slash \<notin> set (u_Tenant u)" using lay(2) u unfolding names_fit_def by blast+
    from stagePath_parts [OF n(2,3) p(2)] obtain zs where
      zs: "split_on slash (u_StagingPath u) = zs @ [''staging'', u_Tenant u, uid @ ''.partial'']" unfolding p(1) by blast
    have k: "knownUpload K uid st" using u by (simp add: knownUpload_def)
    have "F (u_StagingPath u) = v_files st (u_StagingPath u)"
      using F(2) [of "u_StagingPath u"] id [OF _ _ _ lay(3) dirs(1,2) zs] id [OF _ _ _ lay(4) dirs(3,4) zs] k
      unfolding file_ids(1) [OF n(1)] by fastforce
    then show "v_files st' (u_StagingPath u) = v_files st (u_StagingPath u)" by (simp add: F(1))
  }
  {
    assume ob: "?g BObjects oid = Some (CObject ob)"
    let ?p = "blob_of (x_root E) ob"
    have p: "?p = blobPath (x_root E) (o_Tenant ob) oid" "slash \<notin> set oid" using lay(1) ob unfolding stages_ok_def by blast+
    have n: "CHR ''.'' \<notin> set oid" "real_segment (o_Tenant ob)" "slash \<notin> set (o_Tenant ob)" using lay(2) ob unfolding names_fit_def by blast+
    from blobPath_parts [OF n(2,3) p(2)] obtain zs where
      zs: "split_on slash ?p = zs @ [''objects'', o_Tenant ob, oid @ ''.blob'']" unfolding p(1) by blast
    have k: "knownObject K oid st" using ob by (simp add: knownObject_def)
    have "F ?p = v_files st ?p"
      using F(2) [of ?p] id [OF _ _ _ lay(3) dirs(1,2) zs] id [OF _ _ _ lay(4) dirs(3,4) zs] k
      unfolding file_ids(2) [OF n(1)] by fastforce
    then show "v_files st' ?p = v_files st ?p" by (simp add: F(1))
  }
qed

section \<open>Check\<close>

text \<open>On a sound store the indexes are never at fault.\<close>

lemma check_object_sound:
  assumes ok: "catalog_ok (b_get K (v_db st)) n" and ob: "b_get K (v_db st) BObjects oid = Some (CObject ob)"
  shows "check_object K E st (oid, CObject ob) =
    (case fst (os_Stat E (o_BlobPath ob) st) of
       Inl _ \<Rightarrow> [''object '' @ oid @ '' ('' @ o_Tenant ob @ ''/'' @ o_Path ob @ ''): blob missing'']
     | Inr _ \<Rightarrow> [])"
proof -
  let ?g = "b_get K (v_db st)"
  note o = catalog_object [OF ok ob] and D = catalog_okD [OF ok]
  have sync: "in_sync BQueue ?g" "in_sync BLeases ?g" using D(2) by (simp_all add: indexes_ok_iff)
  have q: "o_QueueSeq ob \<noteq> 0 \<and> ?g BQueue (queueKey (o_Tenant ob) (o_QueueSeq ob) (o_ID ob)) \<noteq> None" if "o_State ob = StateReady"
  proof -
    have s: "o_QueueSeq ob \<noteq> 0" using o(1) that by (simp add: obj_ok_def)
    then have "?g BQueue (queueKey (o_Tenant ob) (o_QueueSeq ob) (o_ID ob)) = Some (CRaw (queueValue (o_VisibleAt ob) (o_Path ob)))"
      using ob unfolding index_iff [OF sync(1) D(1)] by (intro exI [of _ oid] exI [of _ "CObject ob"]) simp
    with s show ?thesis by simp
  qed
  have l: "?g BLeases (timeIDKey (o_LeaseUntil ob) (o_ID ob)) \<noteq> None" if "o_State ob = StateLeased"
  proof -
    have "?g BLeases (timeIDKey (o_LeaseUntil ob) (o_ID ob)) = Some (CRaw (o_LeaseID ob))"
      using ob that unfolding index_iff [OF sync(2) D(1)] by (intro exI [of _ oid] exI [of _ "CObject ob"]) simp
    then show ?thesis by simp
  qed
  show ?thesis using q l o(2) by (auto simp: check_object_def split: sum.splits state.splits)
qed

end
