(* ===== verification/Purge_Correct.thy ===== *)
theory Purge_Correct
  imports Maintain_Correct
begin

text \<open>
  Correctness of \<open>PurgeTenant\<close>: what is left of a tenant are objects whose lease is still running, and
  these are retracted. The transactions it runs fail only when the database does, so an error
  \<open>ErrNotFound\<close> does mean that the object is gone.
\<close>

section \<open>Errors\<close>

text \<open>A transaction whose only errors are those of the database.\<close>

definition db_errs :: "('db, 'a) txn \<Rightarrow> bool" where
  "db_errs m \<longleftrightarrow> (\<forall>s e. m s = Inl e \<longrightarrow> db_error e)"

lemma db_errsD: "db_errs m \<Longrightarrow> m s = Inl e \<Longrightarrow> db_error e"
  unfolding db_errs_def by blast

lemma db_errs_base:
  "db_errs (ret x)" "db_errs (tget K B k)" "db_errs (tseek K B k)" "db_errs (tread f)" "db_errs (tmod h)" "db_errs (ttry m)"
  by (auto simp: db_errs_def ret_def tget_def tseek_def tread_def tmod_def ttry_def split: sum.splits prod.splits)

lemma db_errs_bind: "db_errs m \<Longrightarrow> (\<And>x. db_errs (f x)) \<Longrightarrow> db_errs (tbind m f)"
  unfolding db_errs_def tbind_def by (auto split: sum.splits prod.splits)

lemma db_errs_seq: "db_errs m \<Longrightarrow> db_errs n \<Longrightarrow> db_errs (tseq m n)"
  unfolding tseq_def by (rule db_errs_bind)

lemma db_errs_when: "db_errs m \<Longrightarrow> db_errs (twhen b m)"
  by (simp add: twhen_def db_errs_base)

lemma db_errs_if: "db_errs m \<Longrightarrow> db_errs n \<Longrightarrow> db_errs (if b then m else n)"
  by simp

context bolt_laws
begin

lemma db_errs_ops: "db_errs (tput K B k c)" "db_errs (tdel K B k)" "db_errs (tnext K B)" "db_errs (putObject K ob)"
  unfolding db_errs_def putObject_def using tput_Inl tdel_Inl tnext_Inl by blast+

lemmas db_errs_intros = db_errs_base db_errs_bind db_errs_seq db_errs_when db_errs_ops

lemma db_errs_delete: "db_errs (deleteObjectTx K now ob reason)"
  unfolding deleteObjectTx_def dequeue_def delete_lease_def delete_state_entry_def bury_def delete_record_def
  by (cases "o_State ob") (auto simp: Let_def intro!: db_errs_intros split: state.splits)

lemma delete_tx_errs:
  assumes "contents K s BObjects oid = Some (CObject ob)" "o_Tenant ob = tenant" "delete_tx K now tenant oid reason s = Inl e"
  shows "db_error e"
proof -
  let ?k = "nsKey (o_Tenant ob) (o_Path ob)"
  let ?retract = "tseq (twhen (raw_string (contents K s BNamespace ?k) = o_ID ob) (tdel K BNamespace ?k))
    (tseq (putObject K (ob\<lparr>o_Retracted := True\<rparr>)) (ret (None :: object_version option)))"
  have "?retract s = Inl e \<or> tseq (deleteObjectTx K now ob reason) (ret (Some ob)) s = Inl e"
    using assms by (auto simp: delete_tx_def tbind_def getObject_def tget_def ret_def contents_def split: if_splits)
  moreover have "db_errs ?retract" "db_errs (tseq (deleteObjectTx K now ob reason) (ret (Some ob)))"
    by (intro db_errs_intros db_errs_delete)+
  ultimately show ?thesis by (auto dest: db_errsD)
qed

text \<open>What a deletion leaves under the identifier.\<close>

lemma delete_tx_result:
  assumes cat: "cat K s" and ob: "contents K s BObjects oid = Some (CObject ob)" "o_Tenant ob = tenant"
    and run: "delete_tx K now tenant oid reason s = Inr (v, s')"
  shows "contents K s' BObjects = (contents K s BObjects)(oid :=
      if o_State ob = StateLeased then Some (CObject (ob\<lparr>o_Retracted := True\<rparr>)) else None)"
    "contents K s' BUploads = contents K s BUploads"
proof -
  note c = cat [unfolded cat_def]
  note o = catalog_object [OF c ob(1)]
  have "contents K s' BObjects = (contents K s BObjects)(oid :=
      if o_State ob = StateLeased then Some (CObject (ob\<lparr>o_Retracted := True\<rparr>)) else None) \<and>
      contents K s' BUploads = contents K s BUploads"
  proof (cases "o_State ob = StateLeased")
    case False
    with run ob have "deleteObjectTx K now ob reason s = Inr ((), s')"
      by (auto simp: delete_tx_def txn_simps split: if_splits)
    from deleteObjectTx_eff(1) [OF this deletable_stored(1,3) [OF c ob(1)]] False o(2) show ?thesis
      by (simp add: delete_view_frame)
  next
    case True
    with run ob obtain s1 where
      s1: "twhen (raw_string (contents K s BNamespace (nsKey (o_Tenant ob) (o_Path ob))) = o_ID ob)
             (tdel K BNamespace (nsKey (o_Tenant ob) (o_Path ob))) s = Inr ((), s1)"
      and p: "putObject K (ob\<lparr>o_Retracted := True\<rparr>) s1 = Inr ((), s')"
      by (auto simp: delete_tx_def tbind_Inr tseq_Inr getters_Inr ret_Inr tget_Inr split: if_splits)
    have "contents K s1 B = contents K s B" if "B \<noteq> BNamespace" for B
      using s1 that by (auto simp: txn_simps dest!: tdel_eff split: if_splits)
    then show ?thesis using putObject_eff [OF p] True o(2) by simp
  qed
  then show "contents K s' BObjects = (contents K s BObjects)(oid :=
      if o_State ob = StateLeased then Some (CObject (ob\<lparr>o_Retracted := True\<rparr>)) else None)"
    "contents K s' BUploads = contents K s BUploads" by blast+
qed

lemma DeleteObject_effect:
  assumes ok: "store_ok K st" and run: "DeleteObject K root rm gated now tenant oid reason st = (r, st')"
    and ob: "b_get K (v_db st) BObjects oid = Some (CObject ob)" "o_Tenant ob = tenant" and r: "r = Inr () \<or> r = Inl ErrNotFound"
  shows "store_ok K st'" "b_get K (v_db st') BUploads = b_get K (v_db st) BUploads"
    "b_get K (v_db st') BObjects = (b_get K (v_db st) BObjects)(oid :=
       if o_State ob = StateLeased then Some (CObject (ob\<lparr>o_Retracted := True\<rparr>)) else None)"
proof -
  let ?fn = "delete_tx K now tenant oid reason"
  have cat: "cat K (v_db st, delta0)" using ok by (simp add: store_ok_def cat_def)
  have c: "contents K (v_db st, delta0) BObjects oid = Some (CObject ob)" using ob(1) by simp
  have "store_ok K (snd (update K ?fn st))" by (rule update_ok [OF delete_sound ok])
  then show "store_ok K st'" using run by (auto simp: DeleteObject_def collect_ok split: prod.splits sum.splits option.splits)
  have "\<exists>v db d. ?fn (v_db st, delta0) = Inr (v, (db, d)) \<and> v_db st' = db"
  proof (cases "?fn (v_db st, delta0)")
    case (Inl e)
    then have "update K ?fn st = (Inl e, st)" by (simp add: update_def)
    then have "r = Inl e" using run by (simp add: DeleteObject_def)
    with r delete_tx_errs [OF c ob(2) Inl] show ?thesis by (auto simp: db_error_def)
  next
    case (Inr p)
    obtain v db d where p: "p = (v, (db, d))" by (cases p) auto
    show ?thesis
    proof (cases "b_commit K db")
      case (Some e)
      then have "update K ?fn st = (Inl e, st)" using Inr p by (simp add: update_def)
      then have "r = Inl e" using run by (simp add: DeleteObject_def)
      with r commit_err [OF Some] show ?thesis by (auto simp: db_error_def)
    next
      case None
      then show ?thesis using Inr p run by (auto simp: update_def DeleteObject_def collect_def Let_def split: option.splits if_splits)
    qed
  qed
  then obtain v db d where f: "?fn (v_db st, delta0) = Inr (v, (db, d))" "v_db st' = db" by blast
  from delete_tx_result [OF cat c ob(2) f(1)] f(2)
  show "b_get K (v_db st') BUploads = b_get K (v_db st) BUploads"
    "b_get K (v_db st') BObjects = (b_get K (v_db st) BObjects)(oid :=
       if o_State ob = StateLeased then Some (CObject (ob\<lparr>o_Retracted := True\<rparr>)) else None)" by simp_all
qed

section \<open>Purging\<close>

lemma purge_objects_effect:
  assumes "purge_objects K E clock tenant n ids st = ((m, None), st')" "store_ok K st" "distinct ids"
    "\<And>oid. oid \<in> set ids \<Longrightarrow> \<exists>ob. b_get K (v_db st) BObjects oid = Some (CObject ob) \<and> o_Tenant ob = tenant"
  shows "m = n + length ids \<and> store_ok K st' \<and> b_get K (v_db st') BUploads = b_get K (v_db st) BUploads \<and>
    (\<forall>oid. oid \<notin> set ids \<longrightarrow> b_get K (v_db st') BObjects oid = b_get K (v_db st) BObjects oid) \<and>
    (\<forall>oid ob. oid \<in> set ids \<and> b_get K (v_db st) BObjects oid = Some (CObject ob) \<longrightarrow>
       b_get K (v_db st') BObjects oid = (if o_State ob = StateLeased then Some (CObject (ob\<lparr>o_Retracted := True\<rparr>)) else None))"
  using assms
proof (induction ids arbitrary: n st)
  case (Cons oid ids)
  obtain r st1 where d: "DeleteObject K (x_root (E n)) (\<lambda>b. x_io (E n) (OpRemove b) \<noteq> None) (x_gate (E n) \<noteq> None) (clock n) tenant oid ''purged'' st = (r, st1)"
    by fastforce
  have r: "r = Inr () \<or> r = Inl ErrNotFound" and rest: "purge_objects K E clock tenant (Suc n) ids st1 = ((m, None), st')"
    using Cons.prems(1) d by (auto split: sum.splits if_splits)
  obtain ob where ob: "b_get K (v_db st) BObjects oid = Some (CObject ob)" "o_Tenant ob = tenant" using Cons.prems(4) by auto
  note e = DeleteObject_effect [OF Cons.prems(2) d ob r]
  have "\<exists>ob. b_get K (v_db st1) BObjects i = Some (CObject ob) \<and> o_Tenant ob = tenant" if "i \<in> set ids" for i
    using Cons.prems(3,4) that e(3) by auto
  from Cons.IH [OF rest e(1) _ this] Cons.prems(3)
  have IH: "m = Suc n + length ids" "store_ok K st'" "b_get K (v_db st') BUploads = b_get K (v_db st1) BUploads"
    "\<And>i. i \<notin> set ids \<Longrightarrow> b_get K (v_db st') BObjects i = b_get K (v_db st1) BObjects i"
    "\<And>i ob. i \<in> set ids \<Longrightarrow> b_get K (v_db st1) BObjects i = Some (CObject ob) \<Longrightarrow>
       b_get K (v_db st') BObjects i = (if o_State ob = StateLeased then Some (CObject (ob\<lparr>o_Retracted := True\<rparr>)) else None)"
    by auto
  have "b_get K (v_db st') BObjects i = (if o_State o1 = StateLeased then Some (CObject (o1\<lparr>o_Retracted := True\<rparr>)) else None)"
    if i: "i \<in> set (oid # ids)" "b_get K (v_db st) BObjects i = Some (CObject o1)" for i o1
  proof (cases "i = oid")
    case True
    then have "b_get K (v_db st') BObjects i = b_get K (v_db st1) BObjects i" using Cons.prems(3) IH(4) by simp
    then show ?thesis using True e(3) i(2) ob(1) by simp
  next
    case False
    then show ?thesis using i IH(5) [of i o1] e(3) by simp
  qed
  moreover have "b_get K (v_db st') BObjects i = b_get K (v_db st) BObjects i" if "i \<notin> set (oid # ids)" for i
    using that IH(4) e(3) by simp
  ultimately show ?case using IH(1-3) e(2) by simp
qed simp

lemma reclaim_all_effect:
  assumes "afor uids (\<lambda>uid. reclaimUpload K E uid cutoff) st = (Inr (), st')" "store_ok K st"
  shows "store_ok K st' \<and> b_get K (v_db st') BObjects = b_get K (v_db st) BObjects \<and>
    (\<forall>uid. b_get K (v_db st') BUploads uid = b_get K (v_db st) BUploads uid \<or> b_get K (v_db st') BUploads uid = None) \<and>
    (\<forall>uid u. uid \<in> set uids \<and> b_get K (v_db st) BUploads uid = Some (CUpload u) \<and>
       u_State u \<in> {StateInterrupted, StateFailed} \<and> u_UpdatedAt u < cutoff \<longrightarrow> b_get K (v_db st') BUploads uid = None)"
  using assms
proof (induction uids arbitrary: st)
  case Nil
  then show ?case by (simp add: areturn_def)
next
  case (Cons uid uids)
  obtain st1 where r: "reclaimUpload K E uid cutoff st = (Inr (), st1)"
    and rest: "afor uids (\<lambda>uid. reclaimUpload K E uid cutoff) st1 = (Inr (), st')"
    using Cons.prems(1) by (auto simp: aseq_Inr)
  have "store_ok K (snd (update K (reclaim_tx K uid cutoff) st))" by (rule update_ok [OF reclaim_sound Cons.prems(2)])
  then have ok1: "store_ok K st1" using reclaim_frame [of K E uid cutoff st] r by (simp add: store_ok_def)
  have one: "b_get K (v_db st1) BObjects = b_get K (v_db st) BObjects \<and>
      (\<forall>i. i \<noteq> uid \<longrightarrow> b_get K (v_db st1) BUploads i = b_get K (v_db st) BUploads i) \<and>
      (b_get K (v_db st1) BUploads uid = b_get K (v_db st) BUploads uid \<and>
         (\<forall>u. b_get K (v_db st) BUploads uid = Some (CUpload u) \<longrightarrow> u_State u \<notin> {StateInterrupted, StateFailed} \<or> cutoff \<le> u_UpdatedAt u) \<or>
       b_get K (v_db st1) BUploads uid = None)"
    by (cases rule: reclaim_effect [OF Cons.prems(2) r]) (auto simp: drop_rec_def indexBuckets_def)
  note IH = Cons.IH [OF rest ok1]
  have "b_get K (v_db st') BUploads i = b_get K (v_db st) BUploads i \<or> b_get K (v_db st') BUploads i = None" for i
    using one IH by (cases "i = uid") metis+
  moreover have "b_get K (v_db st') BUploads i = None"
    if i: "i \<in> set (uid # uids)" "b_get K (v_db st) BUploads i = Some (CUpload u)" "u_State u \<in> {StateInterrupted, StateFailed}" "u_UpdatedAt u < cutoff" for i u
  proof (cases "i = uid")
    case True
    then have "b_get K (v_db st1) BUploads i = None" using one i by auto
    then show ?thesis using IH by metis
  next
    case False
    then have "i \<in> set uids" "b_get K (v_db st1) BUploads i = Some (CUpload u)" using one i by auto
    then show ?thesis using IH i(3,4) by blast
  qed
  ultimately show ?case using IH one by auto
qed

lemma purge_ids_objects:
  assumes ok: "store_ok K st"
  shows "oid \<in> set (fst (purge_ids K tenant (v_db st))) \<longleftrightarrow>
      (\<exists>ob. b_get K (v_db st) BObjects oid = Some (CObject ob) \<and> o_Tenant ob = tenant)"
    "distinct (fst (purge_ids K tenant (v_db st)))"
    "b_get K (v_db st) BUploads uid = Some (CUpload u) \<Longrightarrow> u_Tenant u = tenant \<Longrightarrow> u_State u \<in> {StateInterrupted, StateFailed} \<Longrightarrow>
      uid \<in> set (snd (purge_ids K tenant (v_db st)))"
proof -
  have dec: "(case decodeObject c of Inl _ \<Rightarrow> False | Inr ob \<Rightarrow> o_Tenant ob = tenant) \<longleftrightarrow> (\<exists>ob. c = CObject ob \<and> o_Tenant ob = tenant)" for c
    by (cases c) (simp_all add: decodeObject_def)
  have split: "oid \<in> set (map fst (filter P (b_seek K db B []))) \<longleftrightarrow> (\<exists>c. b_get K db B oid = Some c \<and> P (oid, c))" for P db B oid
    by (force simp: seek_set)
  show "oid \<in> set (fst (purge_ids K tenant (v_db st))) \<longleftrightarrow>
      (\<exists>ob. b_get K (v_db st) BObjects oid = Some (CObject ob) \<and> o_Tenant ob = tenant)"
    unfolding purge_ids_def fst_conv split by (auto simp: dec)
  show "distinct (fst (purge_ids K tenant (v_db st)))"
    using seek_distinct [of "v_db st" BObjects "[]"] by (simp add: purge_ids_def distinct_map inj_on_def)
  show "b_get K (v_db st) BUploads uid = Some (CUpload u) \<Longrightarrow> u_Tenant u = tenant \<Longrightarrow> u_State u \<in> {StateInterrupted, StateFailed} \<Longrightarrow>
      uid \<in> set (snd (purge_ids K tenant (v_db st)))"
    unfolding purge_ids_def snd_conv split by (auto simp: decodeUpload_def)
qed

lemma PurgeTenant_effect:
  assumes ok: "store_ok K st" and run: "PurgeTenant K E clock tenant st = ((n, None), st')"
  shows "store_ok K st' \<and>
    (\<forall>oid ob. b_get K (v_db st) BObjects oid = Some (CObject ob) \<longrightarrow>
       b_get K (v_db st') BObjects oid =
         (if o_Tenant ob \<noteq> tenant then Some (CObject ob)
          else if o_State ob = StateLeased then Some (CObject (ob\<lparr>o_Retracted := True\<rparr>)) else None)) \<and>
    (\<forall>uid u. b_get K (v_db st) BUploads uid = Some (CUpload u) \<and> u_Tenant u = tenant \<and>
       u_State u \<in> {StateInterrupted, StateFailed} \<and> u_UpdatedAt u < clock n + 3600 * second \<longrightarrow> b_get K (v_db st') BUploads uid = None)"
proof -
  obtain ids ups where ids: "purge_ids K tenant (v_db st) = (ids, ups)" by fastforce
  note m = purge_ids_objects(1) [OF ok, where tenant=tenant, unfolded ids fst_conv]
    purge_ids_objects(2) [OF ok, where tenant=tenant, unfolded ids fst_conv]
    purge_ids_objects(3) [OF ok, where tenant=tenant, unfolded ids snd_conv]
  obtain k st1 where p: "purge_objects K E clock tenant 0 ids st = ((k, None), st1)"
    and r: "afor ups (\<lambda>uid. reclaimUpload K (E n) uid (clock n + 3600 * second)) st1 = (Inr (), st')" and k: "k = n"
    using run ids by (auto simp: PurgeTenant_def split: prod.splits option.splits sum.splits)
  have all: "\<exists>ob. b_get K (v_db st) BObjects oid = Some (CObject ob) \<and> o_Tenant ob = tenant" if "oid \<in> set ids" for oid
    using m(1) that by blast
  note P = purge_objects_effect [OF p ok m(2) all]
  have ok1: "store_ok K st1" using P by blast
  note R = reclaim_all_effect [OF r ok1]
  have "b_get K (v_db st') BObjects oid =
      (if o_Tenant ob \<noteq> tenant then Some (CObject ob) else if o_State ob = StateLeased then Some (CObject (ob\<lparr>o_Retracted := True\<rparr>)) else None)"
    if ob: "b_get K (v_db st) BObjects oid = Some (CObject ob)" for oid ob
  proof (cases "o_Tenant ob = tenant")
    case True
    then have "oid \<in> set ids" using m(1) ob by blast
    then show ?thesis using P R ob True by auto
  next
    case False
    then have "oid \<notin> set ids" using m(1) [of oid] ob by auto
    then show ?thesis using P R ob False by auto
  qed
  moreover have "b_get K (v_db st') BUploads uid = None"
    if "b_get K (v_db st) BUploads uid = Some (CUpload u)" "u_Tenant u = tenant" "u_State u \<in> {StateInterrupted, StateFailed}"
      "u_UpdatedAt u < clock n + 3600 * second" for uid u
    using m(3) [OF that(1-3)] P R that by metis
  ultimately show ?thesis using R by blast
qed

end

end
