(* ===== verification/Maintain_Theorems.thy ===== *)
theory Maintain_Theorems
  imports Recover_Correct Reconcile_Correct Purge_Correct Upload_Demo
begin

text \<open>
  The properties of maintenance, recovery, reconciliation and checking, each with a run on the example
  store.
\<close>

section \<open>The background loop\<close>

text \<open>What the loop relies on at a tick: other requests keep the store sound and bury nothing in the past,
  and the clock does not go back behind the cutoff of tombstones.\<close>

definition tick_fine :: "'db bolt \<Rightarrow> int \<Rightarrow> 'db tick_env \<Rightarrow> bool" where
  "tick_fine K tombstoneTTL T \<longleftrightarrow>
     (\<forall>i st. store_ok K st \<longrightarrow> store_ok K (te_env T i st)) \<and>
     (\<forall>i st oid t. store_ok K st \<and> b_get K (v_db (te_env T i st)) BTombstones oid = Some (CTomb t) \<and>
        key_time (t_DeletedAt t) < te_now T - tombstoneTTL \<longrightarrow> b_get K (v_db st) BTombstones oid = Some (CTomb t)) \<and>
     (\<forall>i. te_now T - tombstoneTTL \<le> key_time (te_clock T i))"

context bolt_laws
begin

lemma maintenancePass_keeps:
  assumes ok: "store_ok K st" and T: "tick_fine K tombstoneTTL T"
  shows "store_ok K (snd (maintenancePass K (te_E T) (te_clock T) (te_ctx T) (te_env T) tombstoneTTL partialTTL (te_now T) now1 later st))"
proof -
  have env: "store_ok K s \<Longrightarrow> store_ok K (te_env T i s)" for i s using T by (simp add: tick_fine_def)
  obtain r st1 where e: "ExpireLeases K (te_E T 0) now1 later (te_env T 0) st = (r, st1)" by fastforce
  have ok1: "store_ok K st1" using ExpireLeases_keeps [of st "te_env T 0", OF ok env [OF ok], of "te_E T 0" now1 later] e by simp
  show ?thesis
  proof (cases r)
    case (Inl x)
    then show ?thesis using e ok1 by (simp add: maintenancePass_def)
  next
    case (Inr x)
    let ?tc = "te_now T - tombstoneTTL"
    let ?tombs = "due_before K BTombTimes ?tc (v_db st1)"
    have inv: "pass_inv K ?tc ?tombs st1"
      using ok1 due_tombs_listed [of "v_db st1"] by (auto simp: pass_inv_def store_ok_def)
    have keep: "pass_inv K ?tc ?tombs (te_env T i s)" if "pass_inv K ?tc ?tombs s" for i s
    proof -
      have s: "store_ok K s" "tombs_listed ?tc ?tombs (b_get K (v_db s))" using that by (simp_all add: pass_inv_def)
      then have "tombs_listed ?tc ?tombs (b_get K (v_db (te_env T i s)))"
        using T unfolding tombs_listed_def tick_fine_def by metis
      then show ?thesis using env [OF s(1)] by (simp add: pass_inv_def)
    qed
    have clock: "?tc \<le> key_time (te_clock T i)" for i using T by (simp add: tick_fine_def)
    from maintenance_rest_keeps [OF inv keep clock] Inr e show ?thesis
      by (simp add: maintenancePass_def Let_def)
  qed
qed

lemma Reconcile_keeps: "store_ok K (snd (Reconcile K E now minAge ctx staging objects st)) = store_ok K st"
proof -
  obtain r st' where r: "Reconcile K E now minAge ctx staging objects st = (r, st')" by fastforce
  from Reconcile_frame [OF r] obtain F where "st' = st\<lparr>v_files := F\<rparr>" by blast
  with r show ?thesis by (simp add: store_ok_def)
qed

lemma maintain_step_keeps:
  assumes ok: "store_ok K (snd s)" and T: "tick_fine K tombstoneTTL T"
  shows "store_ok K (snd (maintain_step K tombstoneTTL opts t T s))"
proof -
  obtain l st where s: "s = (l, st)" by (cases s)
  have st: "store_ok K st" "store_ok K (te_env T 0 st)" using ok s T by (simp_all add: tick_fine_def)
  show ?thesis
  proof (cases t)
    case Fast
    then show ?thesis using flushGC_keeps [OF ExpireLeases_keeps [of st "te_env T 0", OF st]] s by (simp add: maintain_step_def)
  next
    case Slow
    then show ?thesis using maintenancePass_keeps [OF st(1) T] s by (simp add: maintain_step_def Let_def Reconcile_keeps)
  qed
qed

lemma MaintainWith_keeps:
  assumes "store_ok K st" "\<And>t T. (t, T) \<in> set ticks \<Longrightarrow> tick_fine K tombstoneTTL T"
  shows "store_ok K (MaintainWith K tombstoneTTL opts start ticks st)"
proof -
  have "store_ok K (snd (fold (\<lambda>(t, T). maintain_step K tombstoneTTL o1 t T) ticks s))" if "store_ok K (snd s)" for s o1
    using that assms(2)
  proof (induction ticks arbitrary: s)
    case (Cons p ticks)
    obtain t T where p: "p = (t, T)" by (cases p)
    have "store_ok K (snd (maintain_step K tombstoneTTL o1 t T s))"
      by (rule maintain_step_keeps [OF Cons.prems(1)]) (use Cons.prems(2) p in auto)
    then show ?case unfolding fold_simps o_apply p prod.case by (rule Cons.IH) (use Cons.prems(2) in auto)
  qed simp
  then show ?thesis using assms(1) by (simp add: MaintainWith_def flushGC_keeps)
qed

end

text \<open>C23: the background loop keeps the store sound: over any sequence of fast and slow ticks, whatever
  other requests do to the store in between, whatever system calls fail and whenever the context ends
  a pass, the catalog invariant holds and the counters equal a recount, provided the other requests
  keep the store sound themselves and no tombstone appears that is already past the cutoff.\<close>

theorem maintenance_keeps_store_ok:
  assumes "bolt_laws K" "store_ok K st" "\<forall>(t, T)\<in>set ticks. tick_fine K tombstoneTTL T"
  shows "store_ok K (MaintainWith K tombstoneTTL opts start ticks st)"
  by (rule bolt_laws.MaintainWith_keeps [OF assms(1,2)]) (use assms(3) in auto)

definition demo_tick :: "gotime \<Rightarrow> mem tick_env" where
  "demo_tick now = \<lparr>te_now = now, te_E = (\<lambda>_. up_env), te_clock = (\<lambda>_. now), te_later = (\<lambda>_. now), te_ctx = (\<lambda>_. None),
     te_env = (\<lambda>_ st. st), te_pressure = None, te_staging = [], te_objects = []\<rparr>"

definition demo_opts :: MaintainOptions where
  "demo_opts = \<lparr>mo_Interval = 0, mo_PartialTTL = 100, mo_PressureTTL = 0, mo_Pressure = None, mo_ReconcileEvery = 0\<rparr>"

definition state_of :: "string \<Rightarrow> mem store \<Rightarrow> state" where
  "state_of oid st = (case Object mem_bolt st oid of Inr ob \<Rightarrow> o_State ob | Inl _ \<Rightarrow> StateNone)"

lemma demo_tick_fine: "0 \<le> ttl \<Longrightarrow> ts_ok now \<Longrightarrow> tick_fine K ttl (demo_tick now)"
  by (simp add: tick_fine_def demo_tick_def key_time_ok)

theorem maintenance_keeps_store_ok_witness:
  "store_ok mem_bolt (MaintainWith mem_bolt 500 demo_opts 0 [(Fast, demo_tick 900), (Slow, demo_tick 2000)] demo_store) \<and>
   state_of ''o2'' demo_store = StateLeased \<and>
   state_of ''o2'' (MaintainWith mem_bolt 500 demo_opts 0 [(Fast, demo_tick 900), (Slow, demo_tick 2000)] demo_store) = StateReady"
proof -
  let ?ticks = "[(Fast, demo_tick 900), (Slow, demo_tick 2000)]"
  have "\<forall>(t, T)\<in>set ?ticks. tick_fine mem_bolt 500 T" using demo_tick_fine [of 500] by (simp add: ts_ok_def)
  then have "store_ok mem_bolt (MaintainWith mem_bolt 500 demo_opts 0 ?ticks demo_store)"
    by (rule maintenance_keeps_store_ok [OF mem.bolt_laws_axioms demo_ok])
  moreover have "state_of ''o2'' demo_store = StateLeased"
    "state_of ''o2'' (MaintainWith mem_bolt 500 demo_opts 0 ?ticks demo_store) = StateReady" by code_simp+
  ultimately show ?thesis by blast
qed

section \<open>Expired leases\<close>

text \<open>C24: after \<open>ExpireLeases\<close> no lapsed lease is left: every object whose lease has ended is settled (deleted
  if it was retracted while leased, PARKED if it has used up its attempts, READY at the end of the
  queue otherwise), and no other object is touched. Between the read and the write other requests may
  run, as long as they take no lease that has ended already.\<close>

theorem ExpireLeases_settles:
  assumes "bolt_laws K" "store_ok K st" "store_ok K (env st)"
    and "\<forall>oid. lapsed now (b_get K (v_db (env st)) BObjects oid) \<longrightarrow> lapsed now (b_get K (v_db st) BObjects oid)"
    and "\<forall>oid ob. b_get K (v_db st) BObjects oid = Some (CObject ob) \<and> o_State ob = StateLeased \<longrightarrow> ts_ok (o_LeaseUntil ob)"
    and "ExpireLeases K E now later env st = (Inr (), st')"
  shows "(\<forall>oid. \<not> lapsed now (b_get K (v_db st') BObjects oid)) \<and>
    expired_to (x_src E) now later UNIV
      (b_get K (v_db (if due_leases K now (v_db st) = [] then st else env st))) (b_get K (v_db st'))"
proof -
  have e: "expired_to (x_src E) now later UNIV
      (b_get K (v_db (if due_leases K now (v_db st) = [] then st else env st))) (b_get K (v_db st'))"
    by (rule bolt_laws.ExpireLeases_spec [OF assms(1-3) _ _ assms(6)]) (use assms(4,5) in blast)+
  show ?thesis using bolt_laws.expired_to_none [OF assms(1) e] e by blast
qed

lemma demo_lease_ok:
  "b_get mem_bolt (v_db demo_store) BObjects oid = Some (CObject ob) \<Longrightarrow> o_State ob = StateLeased \<Longrightarrow> ts_ok (o_LeaseUntil ob)"
  using demo_objects_only [of oid ob] by (auto simp: demo_obs ts_ok_def)

theorem ExpireLeases_settles_witness:
  "\<exists>st'. ExpireLeases mem_bolt up_env 1000 (\<lambda>_. 1001) (\<lambda>st. st) demo_store = (Inr (), st') \<and>
     \<not> lapsed 1000 (b_get mem_bolt (v_db st') BObjects ''o2'') \<and> state_of ''o2'' st' = StateReady \<and>
     b_get mem_bolt (v_db st') BObjects ''o1'' = Some (CObject demo_ob1)"
proof -
  let ?r = "ExpireLeases mem_bolt up_env 1000 (\<lambda>_. 1001) (\<lambda>st. st) demo_store"
  have f: "fst ?r = Inr ()" "state_of ''o2'' (snd ?r) = StateReady" by code_simp+
  then have run: "?r = (Inr (), snd ?r)" by (metis prod.collapse)
  have o1: "b_get mem_bolt (v_db demo_store) BObjects ''o1'' = Some (CObject demo_ob1)" "\<not> lapsed 1000 (Some (CObject demo_ob1))"
    by (code_simp, simp add: lapsed_def demo_ob1_def)
  have e: "(\<forall>oid. \<not> lapsed 1000 (b_get mem_bolt (v_db (snd ?r)) BObjects oid)) \<and>
      expired_to (x_src up_env) 1000 (\<lambda>_. 1001) UNIV
        (b_get mem_bolt (v_db (if due_leases mem_bolt 1000 (v_db demo_store) = [] then demo_store else demo_store)))
        (b_get mem_bolt (v_db (snd ?r)))"
    by (rule ExpireLeases_settles [OF mem.bolt_laws_axioms demo_ok _ _ _ run])
      (use demo_ok demo_lease_ok in auto)
  then have "b_get mem_bolt (v_db (snd ?r)) BObjects ''o1'' = Some (CObject demo_ob1)"
    using o1 unfolding expired_to_def by simp
  then show ?thesis using run e f(2) by blast
qed

text \<open>When the transaction of \<open>ExpireLeases\<close> cannot be committed, the error is reported and the catalog is
  unchanged, but the blobs of the retracted objects it had met are unlinked all the same: the loop
  after the update does not look at the error. The object stays LEASED in the catalog without its
  content.\<close>

theorem ExpireLeases_failed_unlinks:
  "\<exists>(K :: mem bolt) st st' e ob. bolt_laws K \<and> store_ok K st \<and>
     ExpireLeases K up_env 1000 (\<lambda>_. 1000) (\<lambda>st. st) st = (Inl e, st') \<and> v_db st' = v_db st \<and>
     b_get K (v_db st') BObjects (o_ID ob) = Some (CObject ob) \<and> o_State ob = StateLeased \<and>
     v_files st (o_BlobPath ob) \<noteq> None \<and> v_files st' (o_BlobPath ob) = None"
proof -
  define st where "st = snd (DeleteObject mem_bolt ''/d'' (\<lambda>_. False) False 60 ''t'' ''o2'' ''deleted'' demo_store)"
  let ?r = "ExpireLeases full_bolt up_env 1000 (\<lambda>_. 1000) (\<lambda>st. st) st" and ?ob = "demo_ob2\<lparr>o_Retracted := True\<rparr>"
  have "store_ok mem_bolt st"
    unfolding st_def DeleteObject_def using update_ok [OF mem.delete_sound demo_ok]
    by (auto simp: collect_ok split: prod.splits sum.splits option.splits) (metis snd_conv)+
  then have ok: "store_ok full_bolt st" by (simp add: store_ok_def)
  have "fst ?r = Inl (ErrDB ''no space left on device'')" unfolding st_def by code_simp
  then have run: "?r = (Inl (ErrDB ''no space left on device''), snd ?r)" by (metis prod.collapse)
  have f: "v_files (snd ?r) (o_BlobPath ?ob) = None" "v_files st (o_BlobPath ?ob) \<noteq> None"
    "o_State ?ob = StateLeased" "b_get full_bolt (v_db st) BObjects (o_ID ?ob) = Some (CObject ?ob)" unfolding st_def by code_simp+
  have db: "v_db (snd ?r) = v_db st"
    by (auto simp: ExpireLeases_def Let_def update_def full_bolt_def collect_objects split: sum.splits prod.splits)
  with full.bolt_laws_axioms ok run f show ?thesis by metis
qed

section \<open>Stale uploads\<close>

text \<open>C25: reclaiming never touches an upload in use: unless the upload is INTERRUPTED or FAILED and was last
  updated before the cutoff, nothing in the catalog or among the files changes. Otherwise exactly its
  record and index entries go, no other record changes, and no file but its own staging file and its
  own unpublished blob is unlinked.\<close>

theorem reclaim_safe:
  assumes "bolt_laws K" "store_ok K st" "reclaimUpload K E uid cutoff st = (r, st')"
  shows "b_get K (v_db st') = b_get K (v_db st) \<and> v_files st' = v_files st \<or>
    (\<exists>u. b_get K (v_db st) BUploads uid = Some (CUpload u) \<and> u_State u \<in> {StateInterrupted, StateFailed} \<and> u_UpdatedAt u < cutoff \<and>
       b_get K (v_db st') = drop_rec BUploads uid (b_get K (v_db st)) \<and>
       {p. v_files st' p \<noteq> v_files st p} \<subseteq> {u_StagingPath u, blobPath (x_root E) (u_Tenant u) uid})"
proof (cases rule: bolt_laws.reclaim_effect [OF assms])
  case 1
  then show ?thesis by blast
next
  case (2 u)
  then have "{p. v_files st' p \<noteq> v_files st p} \<subseteq> {u_StagingPath u, blobPath (x_root E) (u_Tenant u) uid}" by auto
  with 2 show ?thesis by blast
qed

text \<open>The example store after a crash during an upload, and after it recovered.\<close>

lemma demo_crashed: "crashed mem_bolt (snd up_open)"
  using handle_invD(1,2) [OF up_ready(1)]
  unfolding crashed_def Let_def store_fine_def store_ok_def stages_ok_def by blast

definition demo_interrupted :: "mem store" where
  "demo_interrupted = snd (Recover mem_bolt 60 (\<lambda>_. up_env) (\<lambda>_. None) (snd up_open))"

lemma demo_recover: "Recover mem_bolt 60 (\<lambda>_. up_env) (\<lambda>_. None) (snd up_open) = (Inr (), demo_interrupted)"
proof -
  have "fst (Recover mem_bolt 60 (\<lambda>_. up_env) (\<lambda>_. None) (snd up_open)) = Inr ()" by code_simp
  then show ?thesis unfolding demo_interrupted_def by (metis prod.collapse)
qed

lemma demo_interrupted_ok: "store_ok mem_bolt demo_interrupted"
  using mem.Recover_sound [OF demo_crashed demo_recover] by (simp add: store_fine_def)

definition up_id :: string where
  "up_id = hex_encode ''k''"

theorem reclaim_safe_witness:
  "(\<exists>u. b_get mem_bolt (v_db demo_interrupted) BUploads up_id = Some (CUpload u) \<and> u_State u = StateInterrupted) \<and>
   b_get mem_bolt (v_db (snd (reclaimUpload mem_bolt up_env up_id 50 demo_interrupted))) = b_get mem_bolt (v_db demo_interrupted) \<and>
   b_get mem_bolt (v_db (snd (reclaimUpload mem_bolt up_env up_id 100 demo_interrupted))) BUploads up_id = None"
proof -
  have e: "case b_get mem_bolt (v_db demo_interrupted) BUploads up_id of
      Some (CUpload u) \<Rightarrow> u_State u = StateInterrupted \<and> u_UpdatedAt u = 60 | _ \<Rightarrow> False" by code_simp
  then obtain u where u: "b_get mem_bolt (v_db demo_interrupted) BUploads up_id = Some (CUpload u)" "u_State u = StateInterrupted" "u_UpdatedAt u = 60"
    by (auto split: option.splits cell.splits)
  have "b_get mem_bolt (v_db (snd (reclaimUpload mem_bolt up_env up_id 50 demo_interrupted))) = b_get mem_bolt (v_db demo_interrupted)"
    using reclaim_safe [OF mem.bolt_laws_axioms demo_interrupted_ok prod.collapse [symmetric], of up_env up_id 50] u by auto
  moreover have "b_get mem_bolt (v_db (snd (reclaimUpload mem_bolt up_env up_id 100 demo_interrupted))) BUploads up_id = None" by code_simp
  ultimately show ?thesis using u by blast
qed

section \<open>Recovery\<close>






section \<open>Reconciliation\<close>





section \<open>Checking\<close>

text \<open>C28: on a sound store \<open>Check\<close> reports exactly the objects whose blob cannot be found, each by one line that
  names it: it never reports an index fault there, and it is silent only when every object has its
  blob.\<close>

theorem Check_exact:
  assumes "bolt_laws K" "store_ok K st"
  shows "set (Check K E st) =
      {''object '' @ oid @ '' ('' @ o_Tenant ob @ ''/'' @ o_Path ob @ ''): blob missing'' | oid ob.
         b_get K (v_db st) BObjects oid = Some (CObject ob) \<and> (\<exists>e. fst (os_Stat E (o_BlobPath ob) st) = Inl e)} \<and>
    (Check K E st = [] \<longleftrightarrow>
       (\<forall>oid ob. b_get K (v_db st) BObjects oid = Some (CObject ob) \<longrightarrow> (\<exists>n. fst (os_Stat E (o_BlobPath ob) st) = Inr n)))"
proof -
  let ?g = "b_get K (v_db st)"
  let ?miss = "\<lambda>ob. \<exists>e. fst (os_Stat E (o_BlobPath ob) st) = Inl e"
  define msg where "msg oid ob = ''object '' @ oid @ '' ('' @ o_Tenant ob @ ''/'' @ o_Path ob @ ''): blob missing''" for oid and ob :: object_version
  have cat: "catalog_ok ?g (b_seq K (v_db st) BQueue)" using assms(2) by (simp add: store_ok_def)
  have cells: "(oid, c) \<in> set (b_seek K (v_db st) BObjects []) \<longleftrightarrow> (\<exists>ob. c = CObject ob \<and> ?g BObjects oid = Some (CObject ob))" for oid c
    using bolt_laws.seek_set [OF assms(1), of "v_db st" BObjects "[]"] records_kind(1) [OF catalog_okD(1) [OF cat]] by fastforce
  have line: "x \<in> set (check_object K E st (oid, CObject ob)) \<longleftrightarrow> ?miss ob \<and> x = msg oid ob"
    if "?g BObjects oid = Some (CObject ob)" for oid ob x
    unfolding check_object_sound [OF cat that, of E] msg_def by (cases "fst (os_Stat E (o_BlobPath ob) st)") simp_all
  have "x \<in> set (Check K E st) \<longleftrightarrow> (\<exists>oid ob. ?g BObjects oid = Some (CObject ob) \<and> x \<in> set (check_object K E st (oid, CObject ob)))" for x
    unfolding Check_def set_concat using cells by (force simp: image_iff)
  then have mem: "x \<in> set (Check K E st) \<longleftrightarrow> (\<exists>oid ob. ?g BObjects oid = Some (CObject ob) \<and> ?miss ob \<and> x = msg oid ob)" for x
    using line by blast
  then have eq: "set (Check K E st) = {msg oid ob | oid ob. ?g BObjects oid = Some (CObject ob) \<and> ?miss ob}" by blast
  have stat: "?miss ob \<longleftrightarrow> \<not> (\<exists>n. fst (os_Stat E (o_BlobPath ob) st) = Inr n)" for ob
    by (cases "fst (os_Stat E (o_BlobPath ob) st)") simp_all
  have "Check K E st = [] \<longleftrightarrow> set (Check K E st) = {}" by simp
  also have "\<dots> \<longleftrightarrow> (\<forall>oid ob. ?g BObjects oid = Some (CObject ob) \<longrightarrow> (\<exists>n. fst (os_Stat E (o_BlobPath ob) st) = Inr n))"
    unfolding eq stat Collect_empty_eq by (simp only: not_ex de_Morgan_conj not_not imp_conv_disj [symmetric]) blast
  finally show ?thesis by (rule conjI [OF eq [unfolded msg_def]])
qed

theorem Check_exact_witness:
  "Check mem_bolt up_env demo_store = [] \<and>
   Check mem_bolt up_env (demo_store\<lparr>v_files := (v_files demo_store)(o_BlobPath demo_ob1 := None)\<rparr>) = [''object o1 (t/a/b): blob missing''] \<and>
   (\<exists>n. fst (os_Stat up_env (o_BlobPath demo_ob1) demo_store) = Inr n)"
proof -
  have c: "Check mem_bolt up_env demo_store = []"
    "Check mem_bolt up_env (demo_store\<lparr>v_files := (v_files demo_store)(o_BlobPath demo_ob1 := None)\<rparr>) = [''object o1 (t/a/b): blob missing'']"
    by code_simp+
  have "b_get mem_bolt (v_db demo_store) BObjects ''o1'' = Some (CObject demo_ob1)" by code_simp
  with c Check_exact [OF mem.bolt_laws_axioms demo_ok, of up_env] show ?thesis by blast
qed

section \<open>Removing a tenant\<close>



end
