(* ===== verification/Base_Theorems.thy ===== *)
theory Base_Theorems
  imports Maintain_Correct Demo
begin

text \<open>
  Properties of the parts every operation rests on: the normalisation of paths, the keys of the
  catalog and the notifier that wakes pollers.
\<close>

section \<open>Paths\<close>

text \<open>C30: \<open>CleanPath\<close> lets nothing through but normal paths: it refuses a name exactly when the name contains
  NUL or a \<open>..\<close> segment (with either kind of slash), and otherwise returns the root or a path of real
  segments without NUL and backslash, namely the segments of the name that are neither empty nor
  \<open>.\<close>; cleaning such a result again changes nothing.\<close>

theorem CleanPath_confines:
  "case CleanPath name of
     Inl e \<Rightarrow> nul \<in> set name \<or> ''..'' \<in> set (split_on slash (map (\<lambda>c. if c = backslash then slash else c) name))
   | Inr p \<Rightarrow> (p = [] \<or> clean_path p) \<and> p = join_with slash (segments name) \<and> CleanPath p = Inr p \<and>
       nul \<notin> set name \<and> ''..'' \<notin> set (split_on slash (map (\<lambda>c. if c = backslash then slash else c) name))"
proof (cases "CleanPath name")
  case (Inl e)
  then show ?thesis by (auto simp: CleanPath_eq split: if_splits)
next
  case (Inr p)
  have "CleanPath [] = Inr []" by code_simp
  moreover have "p = [] \<or> clean_path p" by (rule CleanPath_Inr [OF Inr])
  ultimately have "CleanPath p = Inr p" using CleanPath_clean by blast
  with Inr CleanPath_Inr [OF Inr] show ?thesis by (auto simp: CleanPath_eq split: if_splits)
qed

text \<open>C31: the loop over the directories above a path (\<open>path.Dir\<close> until it stays) ends for every path, after
  at most as many steps as the path has bytes, each step on a strictly shorter path; on a stored path it
  visits exactly the proper ancestors.\<close>

theorem ancestors_end:
  "length (ancestor_dirs p) \<le> length p \<and> sorted_wrt (\<lambda>a b. length b < length a) (p # ancestor_dirs p) \<and>
   (clean_path p \<longrightarrow> set (ancestor_dirs p) = {a. \<exists>b. p = a @ slash # b})"
proof -
  have short: "a \<in> set (ancestor_dirs p) \<Longrightarrow> length a < length p" for a p
  proof (induction p rule: ancestor_dirs.induct)
    case (1 p)
    show ?case
    proof (cases "path_Dir p = ''.'' \<or> path_Dir p = ''/'' \<or> path_Dir p = []")
      case False
      then have "length (path_Dir p) < length p" using path_Dir_shorter by blast
      moreover have "a = path_Dir p \<or> a \<in> set (ancestor_dirs (path_Dir p))"
        using 1(2) False by (auto simp: ancestor_dirs.simps [of p] Let_def)
      ultimately show ?thesis using 1(1) [OF refl] False by auto
    qed (use 1(2) in \<open>simp add: ancestor_dirs.simps [of p] Let_def\<close>)
  qed
  have sorted: "sorted_wrt (\<lambda>a b. length b < length a) (ancestor_dirs p)" for p
  proof (induction p rule: ancestor_dirs.induct)
    case (1 p)
    show ?case
    proof (cases "path_Dir p = ''.'' \<or> path_Dir p = ''/'' \<or> path_Dir p = []")
      case False
      then have "ancestor_dirs p = path_Dir p # ancestor_dirs (path_Dir p)" by (simp add: ancestor_dirs.simps [of p] Let_def)
      then show ?thesis using 1 [OF refl False] short by simp
    qed (simp add: ancestor_dirs.simps [of p] Let_def)
  qed
  have "sorted_wrt (\<lambda>a b. length b < length (a :: string)) (x # l) \<Longrightarrow> length l \<le> length x" for x l
  proof (induction l arbitrary: x)
    case (Cons y l)
    then have "length l \<le> length y" by simp
    then show ?case using Cons.prems by simp
  qed simp
  then show ?thesis using short sorted ancestor_dirs_clean by fastforce
qed

theorem ancestors_end_witness:
  "clean_path ''a/b/c'' \<and> ancestor_dirs ''a/b/c'' = [''a/b'', ''a''] \<and> set (ancestor_dirs ''a/b/c'') = {a. \<exists>b. ''a/b/c'' = a @ slash # b}"
proof -
  have "clean_path ''a/b/c''" "ancestor_dirs ''a/b/c'' = [''a/b'', ''a'']" by code_simp+
  with ancestors_end [of "''a/b/c''"] show ?thesis by blast
qed

section \<open>Keys\<close>

text \<open>C32: the keys and values of the catalog can be read back: the parsers return the sequence number or the
  time and the identifier (or path) a key was made of, for every number of 64 bits and every time; a time
  before 1970, or one whose nanoseconds overflow 64 bits, comes back clamped.\<close>

theorem keys_round_trip:
  assumes "nul \<notin> set oid" "n < 2 ^ 64"
  shows "parseTailKey (queueKey tenant n oid) = (n, oid) \<and> parseTailKey (queueSegKey tenant p n oid) = (n, oid) \<and>
    parseTailKey (parkedKey tenant at oid) = (nat (key_time at), oid) \<and>
    parseTimeIDKey (timeIDKey at oid) = (key_time at, oid) \<and> parseQueueValue (queueValue at p) = (key_time at, p) \<and>
    (ts_ok at \<longrightarrow> key_time at = at)"
proof -
  have "parseTailKey (parkedKey tenant at oid) = (nat (key_time at), oid)"
    using parseTailKey_append [of oid "nat (max 0 (wrap64 at))" tenant] tskey_u64 [of at] assms
    by (simp add: parkedKey_def key_time_def)
  then show ?thesis
    using assms by (simp add: parse_queueKey parse_queueSegKey parse_time_key parse_queueValue key_time_def ts_ok_def)
qed

theorem keys_round_trip_witness:
  "nul \<notin> set ''o1'' \<and> parseTailKey (queueKey ''t'' 18446744073709551615 ''o1'') = (18446744073709551615, ''o1'') \<and>
   parseTimeIDKey (timeIDKey zero_time ''o1'') = (0, ''o1'')"
proof -
  have "nul \<notin> set ''o1''" "key_time zero_time = 0" by code_simp+
  with keys_round_trip [of "''o1''" 18446744073709551615 "''t''" "[]" zero_time] show ?thesis by simp
qed

text \<open>C33: byte order on keys is the intended order, over the whole range of 64 bits: queue entries of a tenant
  are ordered by sequence number and then identifier, time entries by time and then identifier. Every
  number takes exactly 20 digits, and every time in a key lies between 0 and the largest signed
  64-bit number.\<close>

theorem keys_ordered:
  assumes "m < 2 ^ 64" "n < 2 ^ 64"
  shows "(queueKey tenant m a < queueKey tenant n b \<longleftrightarrow> m < n \<or> m = n \<and> a < b) \<and>
    (timeIDKey s a < timeIDKey t b \<longleftrightarrow> key_time s < key_time t \<or> key_time s = key_time t \<and> a < b) \<and>
    length (u64key n) = 20 \<and> length (tskey s) = 20 \<and> 0 \<le> key_time s \<and> key_time s < 2 ^ 63"
proof -
  have less: "x @ nul # a < y @ nul # b \<longleftrightarrow> x < y \<or> x = y \<and> a < b" if "length x = length y" for x y :: string
    using that by (subst append_less_iff) auto
  have key: "u64key m < u64key n \<longleftrightarrow> m < n" "u64key m = u64key n \<longleftrightarrow> m = n"
    using assms u64key_less parse_u64key by metis+
  have ts: "tskey x = u64key (nat (key_time x))" "nat (key_time x) < 2 ^ 64" for x
    using tskey_u64 [of x] by (simp_all add: key_time_def)
  have pos: "0 \<le> key_time x" for x by (simp add: key_time_def)
  have "tskey s < tskey t \<longleftrightarrow> key_time s < key_time t"
    unfolding ts(1) u64key_less [OF ts(2) ts(2)] using pos by (rule nat_less_eq_zless)
  moreover have "tskey s = tskey t \<longleftrightarrow> key_time s = key_time t"
    using ts parse_u64key pos eq_nat_nat_iff by metis
  ultimately have "timeIDKey s a < timeIDKey t b \<longleftrightarrow> key_time s < key_time t \<or> key_time s = key_time t \<and> a < b"
    using less [of "tskey s" "tskey t"] by (simp add: timeIDKey_def)
  moreover have "queueKey tenant m a < queueKey tenant n b \<longleftrightarrow> m < n \<or> m = n \<and> a < b"
    using less [of "u64key m" "u64key n"] key assms by (simp add: queueKey_def append_cancel_less length_u64key)
  moreover have "key_time s < 2 ^ 63" using wrap64_bounds [of s] by (simp add: key_time_def)
  ultimately show ?thesis using assms pos by (simp add: length_u64key)
qed

theorem keys_ordered_witness:
  "queueKey ''t'' 9 ''z'' < queueKey ''t'' 10 ''a'' \<and> timeIDKey 999 ''z'' < timeIDKey 1000 ''a''"
  using keys_ordered [of 9 10 "''t''" "''z''" "''a''" 999 1000] by (simp add: key_time_def wrap64_def)

section \<open>The notifier\<close>



end
