(* ===== verification/Accounts.thy ===== *)
theory Accounts
  imports Glob Sha256
begin

text \<open>
  The accounts: the struct \<open>Tenant\<close> with its effective settings and the validation of an account list
  (\<^verbatim>\<open>internal/config/config.go\<close>), the salted password digests (\<^verbatim>\<open>internal/config/secrets.go\<close>), and the live
  account table every front end reads (\<^verbatim>\<open>internal/tenant/registry.go\<close>). The main lemma is that a validated
  list makes every credential name at most one account, which is the one the table's lookups return.
\<close>

section \<open>Tenants\<close>

record Tenant =
  tn_ID :: string
  tn_Disabled :: bool
  tn_Weight :: int
  tn_APIKeySHA256 :: string
  tn_SFTPUser :: string
  tn_SFTPPassword :: string
  tn_SFTPPasswordHash :: string
  tn_AuthorizedKeys :: "string list"
  tn_FTPUser :: string
  tn_FTPPassword :: string
  tn_FTPPasswordHash :: string
  tn_AllowPlainFTP :: bool
  tn_S3Bucket :: string
  tn_S3AccessKey :: string
  tn_S3SecretKey :: string
  tn_MaxUploadBPS :: int
  tn_MaxConcurrent :: int
  tn_MaxStoredBytes :: int
  tn_Overwrite :: string
  tn_HoldPatterns :: "string list option"   \<comment> \<open>\<open>None\<close> is the nil slice\<close>
  tn_NoHold :: bool
  tn_PublishDelay :: duration
  tn_MaxAttempts :: int

definition DefaultHoldPatterns :: "string list" where
  "DefaultHoldPatterns = [''*.filepart'', ''*.partial'', ''*.tmp'']"

definition OverwriteSupersede :: string where
  "OverwriteSupersede = ''supersede''"

definition OverwriteKeep :: string where
  "OverwriteKeep = ''keep''"

definition EffectiveHoldPatterns :: "Tenant \<Rightarrow> string list" where
  "EffectiveHoldPatterns t =
     (if tn_NoHold t then []
      else case tn_HoldPatterns t of None \<Rightarrow> DefaultHoldPatterns | Some ps \<Rightarrow> ps)"

definition EffectiveOverwrite :: "Tenant \<Rightarrow> string" where
  "EffectiveOverwrite t = (if tn_Overwrite t = [] then OverwriteSupersede else tn_Overwrite t)"

section \<open>Password digests\<close>

text \<open>\<open>hex.DecodeString\<close>: an odd length or a character that is not a hexadecimal digit is an error.\<close>

definition hex_value :: "char \<Rightarrow> nat option" where
  "hex_value c =
     (let n = (of_char c :: nat)
      in if 48 \<le> n \<and> n \<le> 57 then Some (n - 48)
         else if 97 \<le> n \<and> n \<le> 102 then Some (n - 87)
         else if 65 \<le> n \<and> n \<le> 70 then Some (n - 55)
         else None)"

fun hex_decode :: "string \<Rightarrow> string option" where
  "hex_decode [] = Some []"
| "hex_decode [c] = None"
| "hex_decode (a # b # cs) =
     (case (hex_value a, hex_value b, hex_decode cs) of
        (Some x, Some y, Some ds) \<Rightarrow> Some (char_of (16 * x + y) # ds)
      | _ \<Rightarrow> None)"

definition secretHashPrefix :: string where
  "secretHashPrefix = ''sha256:''"

text \<open>\<open>salt\<close> is what \<open>rand.Read\<close> puts into the sixteen bytes, or its error.\<close>

definition HashSecret :: "error + string \<Rightarrow> string \<Rightarrow> error + string" where
  "HashSecret salt secret =
     (case salt of
        Inl e \<Rightarrow> Inl e
      | Inr s \<Rightarrow> Inr (secretHashPrefix @ hex_encode s @ '':'' @ hex_encode (sha256 (s @ secret))))"

definition splitSecretHash :: "string \<Rightarrow> (string \<times> string) option" where
  "splitSecretHash h =
     (if \<not> prefix secretHashPrefix h then None
      else case cut_at CHR '':'' (drop (length secretHashPrefix) h) of
        (saltHex, sumHex, ok) \<Rightarrow>
          if \<not> ok then None
          else case (hex_decode saltHex, hex_decode sumHex) of
            (Some salt, Some s) \<Rightarrow> if length salt < 8 \<or> length s \<noteq> 32 then None else Some (salt, s)
          | _ \<Rightarrow> None)"

definition isSecretHash :: "string \<Rightarrow> bool" where
  "isSecretHash h \<longleftrightarrow> splitSecretHash h \<noteq> None"

text \<open>\<open>subtle.ConstantTimeCompare\<close> is equality of byte strings.\<close>

definition VerifySecret :: "string \<Rightarrow> string \<Rightarrow> string \<Rightarrow> bool" where
  "VerifySecret presented h legacyPlain =
     (case splitSecretHash h of
        Some (salt, want) \<Rightarrow> sha256 (salt @ presented) = want
      | None \<Rightarrow> if legacyPlain = [] then False else sha256 presented = sha256 legacyPlain)"

definition validSecret :: "string \<Rightarrow> string \<Rightarrow> bool" where
  "validSecret plain h = (if h \<noteq> [] then isSecretHash h else 12 \<le> length plain)"

section \<open>Validation\<close>

text \<open>\<^verbatim>\<open>^[A-Za-z0-9][A-Za-z0-9._-]{0,63}$\<close>, not reserved and without two dots in a row.\<close>

definition id_char :: "char \<Rightarrow> bool" where
  "id_char c =
     (let n = (of_char c :: nat) in (48 \<le> n \<and> n \<le> 57) \<or> (65 \<le> n \<and> n \<le> 90) \<or> (97 \<le> n \<and> n \<le> 122))"

definition tenantIDPattern :: "string \<Rightarrow> bool" where
  "tenantIDPattern s =
     (case s of
        [] \<Rightarrow> False
      | c # cs \<Rightarrow> id_char c \<and> length cs \<le> 63 \<and> list_all (\<lambda>d. id_char d \<or> d = CHR ''.'' \<or> d = CHR ''_'' \<or> d = CHR ''-'') cs)"

definition ValidTenantID :: "string \<Rightarrow> bool" where
  "ValidTenantID s \<longleftrightarrow> tenantIDPattern s \<and> s \<noteq> ''s3-multipart'' \<and> \<not> sublist ''..'' s"

text \<open>The errors of \<open>ValidateTenants\<close>, by message, with the ID (and pattern) they quote.\<close>

datatype account_error =
    BadTenantID string
  | BadLimit string
  | BadOverwrite string
  | BadHoldPattern string string
  | BadAPIKey string
  | BadSFTP string
  | BadFTP string
  | BadS3 string

text \<open>\<open>strings.ToLower\<close>; a digest that passes the validation is ASCII.\<close>

definition ToLower :: "string \<Rightarrow> string" where
  "ToLower s = map ascii_lower s"

record seen =
  sn_ids :: "string set"
  sn_sftp :: "string set"
  sn_ftp :: "string set"
  sn_access :: "string set"
  sn_buckets :: "string set"
  sn_api :: "string set"

definition seen0 :: seen where
  "seen0 = \<lparr>sn_ids = {}, sn_sftp = {}, sn_ftp = {}, sn_access = {}, sn_buckets = {}, sn_api = {}\<rparr>"

definition bad_pattern :: "string \<Rightarrow> bool" where
  "bad_pattern p \<longleftrightarrow> path_Match p [] = None \<or> slash \<in> set p"

definition hold_list :: "Tenant \<Rightarrow> string list" where
  "hold_list t = (case tn_HoldPatterns t of None \<Rightarrow> [] | Some ps \<Rightarrow> ps)"

text \<open>The body of the loop: the error of an account, and what is noted of it.\<close>

definition check_tenant :: "bool \<Rightarrow> bool \<Rightarrow> bool \<Rightarrow> seen \<Rightarrow> Tenant \<Rightarrow> account_error option" where
  "check_tenant sftp ftp s3 s t =
     (if \<not> ValidTenantID (tn_ID t) \<or> tn_ID t \<in> sn_ids s then Some (BadTenantID (tn_ID t))
      else if tn_Weight t < 0 \<or> tn_MaxConcurrent t < 0 \<or> tn_MaxUploadBPS t < 0 \<or> tn_MaxStoredBytes t < 0
        \<or> tn_MaxAttempts t < 0 \<or> tn_PublishDelay t < 0 then Some (BadLimit (tn_ID t))
      else if tn_Overwrite t \<noteq> [] \<and> tn_Overwrite t \<noteq> OverwriteSupersede \<and> tn_Overwrite t \<noteq> OverwriteKeep
        then Some (BadOverwrite (tn_ID t))
      else case find bad_pattern (hold_list t) of
        Some p \<Rightarrow> Some (BadHoldPattern (tn_ID t) p)
      | None \<Rightarrow>
          if hex_decode (tn_APIKeySHA256 t) = None \<or> length (tn_APIKeySHA256 t) \<noteq> 64 \<or> ToLower (tn_APIKeySHA256 t) \<in> sn_api s
            then Some (BadAPIKey (tn_ID t))
          else if sftp \<and> (tn_SFTPUser t = [] \<or> tn_SFTPUser t \<in> sn_sftp s
              \<or> \<not> (validSecret (tn_SFTPPassword t) (tn_SFTPPasswordHash t) \<or> tn_AuthorizedKeys t \<noteq> []))
            then Some (BadSFTP (tn_ID t))
          else if ftp \<and> (tn_FTPUser t = [] \<or> tn_FTPUser t \<in> sn_ftp s \<or> \<not> validSecret (tn_FTPPassword t) (tn_FTPPasswordHash t))
            then Some (BadFTP (tn_ID t))
          else if s3 \<and> (tn_S3Bucket t = [] \<or> tn_S3AccessKey t = [] \<or> length (tn_S3SecretKey t) < 16
              \<or> tn_S3AccessKey t \<in> sn_access s \<or> tn_S3Bucket t \<in> sn_buckets s)
            then Some (BadS3 (tn_ID t))
          else None)"

definition note_tenant :: "bool \<Rightarrow> bool \<Rightarrow> bool \<Rightarrow> seen \<Rightarrow> Tenant \<Rightarrow> seen" where
  "note_tenant sftp ftp s3 s t =
     \<lparr>sn_ids = insert (tn_ID t) (sn_ids s),
      sn_sftp = (if sftp then insert (tn_SFTPUser t) (sn_sftp s) else sn_sftp s),
      sn_ftp = (if ftp then insert (tn_FTPUser t) (sn_ftp s) else sn_ftp s),
      sn_access = (if s3 then insert (tn_S3AccessKey t) (sn_access s) else sn_access s),
      sn_buckets = (if s3 then insert (tn_S3Bucket t) (sn_buckets s) else sn_buckets s),
      sn_api = insert (ToLower (tn_APIKeySHA256 t)) (sn_api s)\<rparr>"

fun validate_loop :: "bool \<Rightarrow> bool \<Rightarrow> bool \<Rightarrow> seen \<Rightarrow> Tenant list \<Rightarrow> account_error option" where
  "validate_loop sftp ftp s3 s [] = None"
| "validate_loop sftp ftp s3 s (t # ts) =
     (case check_tenant sftp ftp s3 s t of
        Some e \<Rightarrow> Some e
      | None \<Rightarrow> validate_loop sftp ftp s3 (note_tenant sftp ftp s3 s t) ts)"

definition ValidateTenants :: "Tenant list \<Rightarrow> bool \<Rightarrow> bool \<Rightarrow> bool \<Rightarrow> account_error option" where
  "ValidateTenants ts sftp ftp s3 = validate_loop sftp ftp s3 seen0 ts"

section \<open>The account table\<close>

text \<open>\<open>Snapshot\<close> of package \<open>tenant\<close>. The pointers of its indexes go into the immutable list \<open>all\<close>, so an index
  maps a key to the account itself.\<close>

record accounts =
  ac_all :: "Tenant list"
  ac_byID :: "string \<rightharpoonup> Tenant"
  ac_bySFTP :: "string \<rightharpoonup> Tenant"
  ac_byFTP :: "string \<rightharpoonup> Tenant"
  ac_byAccess :: "string \<rightharpoonup> Tenant"
  ac_byBucket :: "string \<rightharpoonup> Tenant"
  ac_byAPIKey :: "string \<rightharpoonup> Tenant"

definition put_key :: "string \<Rightarrow> Tenant \<Rightarrow> (string \<rightharpoonup> Tenant) \<Rightarrow> (string \<rightharpoonup> Tenant)" where
  "put_key key t m = (if key \<noteq> [] then m(key \<mapsto> t) else m)"

definition index_tenant :: "Tenant \<Rightarrow> accounts \<Rightarrow> accounts" where
  "index_tenant t s =
     s\<lparr>ac_byID := (ac_byID s)(tn_ID t \<mapsto> t),
       ac_bySFTP := put_key (tn_SFTPUser t) t (ac_bySFTP s),
       ac_byFTP := put_key (tn_FTPUser t) t (ac_byFTP s),
       ac_byAccess := put_key (tn_S3AccessKey t) t (ac_byAccess s),
       ac_byBucket := put_key (tn_S3Bucket t) t (ac_byBucket s),
       ac_byAPIKey := put_key (ToLower (tn_APIKeySHA256 t)) t (ac_byAPIKey s)\<rparr>"

definition newSnapshot :: "Tenant list \<Rightarrow> accounts" where
  "newSnapshot ts =
     fold index_tenant ts
       \<lparr>ac_all = ts, ac_byID = Map.empty, ac_bySFTP = Map.empty, ac_byFTP = Map.empty,
        ac_byAccess = Map.empty, ac_byBucket = Map.empty, ac_byAPIKey = Map.empty\<rparr>"

definition Get :: "accounts \<Rightarrow> string \<Rightarrow> Tenant option" where
  "Get s i = ac_byID s i"

definition Active :: "accounts \<Rightarrow> string \<Rightarrow> bool" where
  "Active s i = (case ac_byID s i of None \<Rightarrow> False | Some t \<Rightarrow> \<not> tn_Disabled t)"

definition active :: "Tenant option \<Rightarrow> Tenant option" where
  "active t = (case t of None \<Rightarrow> None | Some u \<Rightarrow> if tn_Disabled u then None else Some u)"

definition BySFTPUser :: "accounts \<Rightarrow> string \<Rightarrow> Tenant option" where
  "BySFTPUser s user = active (ac_bySFTP s user)"

definition ByFTPUser :: "accounts \<Rightarrow> string \<Rightarrow> Tenant option" where
  "ByFTPUser s user = active (ac_byFTP s user)"

definition ByAccessKey :: "accounts \<Rightarrow> string \<Rightarrow> Tenant option" where
  "ByAccessKey s key = active (ac_byAccess s key)"

definition ByBucket :: "accounts \<Rightarrow> string \<Rightarrow> Tenant option" where
  "ByBucket s bucket = active (ac_byBucket s bucket)"

definition ByAPIKey :: "accounts \<Rightarrow> string \<Rightarrow> Tenant option" where
  "ByAPIKey s key =
     (if key = [] then None
      else let digest = hex_encode (sha256 key)
           in case ac_byAPIKey s digest of
                None \<Rightarrow> None
              | Some t \<Rightarrow> if ToLower (tn_APIKeySHA256 t) \<noteq> digest then None else active (Some t))"

text \<open>The registry: the current table and the callbacks that run after a replacement, as functions on the
  state \<open>'s\<close> of their owners.\<close>

record 's registry =
  rg_current :: accounts
  rg_subs :: "(accounts \<Rightarrow> 's \<Rightarrow> 's) list"

definition NewRegistry :: "Tenant list \<Rightarrow> 's registry" where
  "NewRegistry ts = \<lparr>rg_current = newSnapshot ts, rg_subs = []\<rparr>"

definition Subscribe :: "(accounts \<Rightarrow> 's \<Rightarrow> 's) \<Rightarrow> 's registry \<Rightarrow> 's registry" where
  "Subscribe f r = r\<lparr>rg_subs := rg_subs r @ [f]\<rparr>"

definition Replace :: "Tenant list \<Rightarrow> 's registry \<times> 's \<Rightarrow> 's registry \<times> 's" where
  "Replace ts = (\<lambda>(r, w). let snap = newSnapshot ts in (r\<lparr>rg_current := snap\<rparr>, fold (\<lambda>f. f snap) (rg_subs r) w))"

text \<open>The policy source that \<open>RunWithOptions\<close> gives the store (\<open>policyFor\<close> of \<^verbatim>\<open>internal/app/app.go\<close>). An
  unknown account has the settings of the zero \<open>Tenant\<close>.\<close>

definition zero_tenant :: Tenant where
  "zero_tenant =
     \<lparr>tn_ID = [], tn_Disabled = False, tn_Weight = 0, tn_APIKeySHA256 = [], tn_SFTPUser = [], tn_SFTPPassword = [],
      tn_SFTPPasswordHash = [], tn_AuthorizedKeys = [], tn_FTPUser = [], tn_FTPPassword = [], tn_FTPPasswordHash = [],
      tn_AllowPlainFTP = False, tn_S3Bucket = [], tn_S3AccessKey = [], tn_S3SecretKey = [], tn_MaxUploadBPS = 0,
      tn_MaxConcurrent = 0, tn_MaxStoredBytes = 0, tn_Overwrite = [], tn_HoldPatterns = None, tn_NoHold = False,
      tn_PublishDelay = 0, tn_MaxAttempts = 0\<rparr>"

definition app_policyFor :: "'s registry \<Rightarrow> int \<Rightarrow> string \<Rightarrow> policy" where
  "app_policyFor reg maxAttempts i =
     (let t = (case Get (rg_current reg) i of None \<Rightarrow> zero_tenant | Some t \<Rightarrow> t);
          max = (if tn_MaxAttempts t \<le> 0 then maxAttempts else tn_MaxAttempts t)
      in \<lparr>p_Supersede = (EffectiveOverwrite t = OverwriteSupersede),
          p_HoldPatterns = EffectiveHoldPatterns t,
          p_PublishDelay = tn_PublishDelay t,
          p_MaxAttempts = max,
          p_MaxStoredBytes = tn_MaxStoredBytes t\<rparr>)"

section \<open>What the validation guarantees\<close>

lemma find_append: "find P (xs @ ys) = (case find P xs of None \<Rightarrow> find P ys | Some x \<Rightarrow> Some x)"
  by (induction xs) auto

text \<open>The last account of the list that has the key.\<close>

definition owner :: "(Tenant \<Rightarrow> string) \<Rightarrow> Tenant list \<Rightarrow> string \<Rightarrow> Tenant option" where
  "owner key ts k = find (\<lambda>t. key t = k) (rev ts)"

lemma owner_Some: "owner key ts k = Some t \<Longrightarrow> t \<in> set ts \<and> key t = k"
  by (auto simp: owner_def dest: find_Some_iff)

lemma owner_unique:
  assumes "distinct (map key ts)"
  shows "owner key ts k = Some t \<longleftrightarrow> t \<in> set ts \<and> key t = k"
proof
  assume t: "t \<in> set ts \<and> key t = k"
  then have "find (\<lambda>t. key t = k) (rev ts) \<noteq> None"
    by (auto simp: find_None_iff)
  then obtain u where "find (\<lambda>t. key t = k) (rev ts) = Some u"
    by blast
  then have u: "owner key ts k = Some u"
    by (simp add: owner_def)
  then have "u = t"
    using owner_Some [OF u] t assms by (auto simp: distinct_map inj_on_def)
  then show "owner key ts k = Some t"
    using u by simp
qed (rule owner_Some)

lemma index_fold:
  "ac_all (fold index_tenant ts s) = ac_all s"
  "ac_byID (fold index_tenant ts s) k = (case owner tn_ID ts k of None \<Rightarrow> ac_byID s k | Some t \<Rightarrow> Some t)"
  "k \<noteq> [] \<Longrightarrow> ac_bySFTP (fold index_tenant ts s) k = (case owner tn_SFTPUser ts k of None \<Rightarrow> ac_bySFTP s k | Some t \<Rightarrow> Some t)"
  "k \<noteq> [] \<Longrightarrow> ac_byFTP (fold index_tenant ts s) k = (case owner tn_FTPUser ts k of None \<Rightarrow> ac_byFTP s k | Some t \<Rightarrow> Some t)"
  "k \<noteq> [] \<Longrightarrow> ac_byAccess (fold index_tenant ts s) k = (case owner tn_S3AccessKey ts k of None \<Rightarrow> ac_byAccess s k | Some t \<Rightarrow> Some t)"
  "k \<noteq> [] \<Longrightarrow> ac_byBucket (fold index_tenant ts s) k = (case owner tn_S3Bucket ts k of None \<Rightarrow> ac_byBucket s k | Some t \<Rightarrow> Some t)"
  "k \<noteq> [] \<Longrightarrow> ac_byAPIKey (fold index_tenant ts s) k =
     (case owner (\<lambda>t. ToLower (tn_APIKeySHA256 t)) ts k of None \<Rightarrow> ac_byAPIKey s k | Some t \<Rightarrow> Some t)"
  by (induction ts arbitrary: s)
     (auto simp: owner_def index_tenant_def put_key_def find_append split: option.splits)

lemma index_empty:
  "ac_bySFTP (fold index_tenant ts s) [] = ac_bySFTP s []"
  "ac_byFTP (fold index_tenant ts s) [] = ac_byFTP s []"
  "ac_byAccess (fold index_tenant ts s) [] = ac_byAccess s []"
  "ac_byBucket (fold index_tenant ts s) [] = ac_byBucket s []"
  by (induction ts arbitrary: s) (auto simp: index_tenant_def put_key_def)

definition lookup_owner :: "(Tenant \<Rightarrow> string) \<Rightarrow> Tenant list \<Rightarrow> string \<Rightarrow> Tenant option" where
  "lookup_owner key ts k = (if k = [] then None else active (owner key ts k))"

text \<open>Every lookup returns the enabled owner of a key that is not empty.\<close>

lemma lookups:
  "Get (newSnapshot ts) k = owner tn_ID ts k"
  "BySFTPUser (newSnapshot ts) k = lookup_owner tn_SFTPUser ts k"
  "ByFTPUser (newSnapshot ts) k = lookup_owner tn_FTPUser ts k"
  "ByAccessKey (newSnapshot ts) k = lookup_owner tn_S3AccessKey ts k"
  "ByBucket (newSnapshot ts) k = lookup_owner tn_S3Bucket ts k"
  by (auto simp: Get_def BySFTPUser_def ByFTPUser_def ByAccessKey_def ByBucket_def newSnapshot_def index_fold index_empty
      lookup_owner_def active_def split: option.splits)

lemma digest_ne [simp]: "hex_encode (sha256 m) \<noteq> []"
proof
  assume "hex_encode (sha256 m) = []"
  then have "sha256 m = []"
    by (cases "sha256 m") auto
  then show False
    using length_sha256 [of m] by simp
qed

lemma ByAPIKey_lookup:
  "ByAPIKey (newSnapshot ts) key =
    (if key = [] then None else active (owner (\<lambda>t. ToLower (tn_APIKeySHA256 t)) ts (hex_encode (sha256 key))))"
  by (auto simp: ByAPIKey_def newSnapshot_def index_fold Let_def active_def dest: owner_Some split: option.splits)

text \<open>What the loop establishes for a key: no two accounts of the list share it, and none has a key in \<open>S\<close>.\<close>

definition fresh :: "(Tenant \<Rightarrow> string) \<Rightarrow> string set \<Rightarrow> Tenant list \<Rightarrow> bool" where
  "fresh key S ts \<longleftrightarrow> distinct (map key ts) \<and> key ` set ts \<inter> S = {}"

lemma fresh_Nil: "fresh key S []"
  by (simp add: fresh_def)

lemma fresh_Cons: "fresh key S (t # ts) \<longleftrightarrow> key t \<notin> S \<and> fresh key (insert (key t) S) ts"
  by (auto simp: fresh_def)

definition unique_keys :: "bool \<Rightarrow> bool \<Rightarrow> bool \<Rightarrow> seen \<Rightarrow> Tenant list \<Rightarrow> bool" where
  "unique_keys sftp ftp s3 s ts \<longleftrightarrow>
     fresh tn_ID (sn_ids s) ts \<and> fresh (\<lambda>t. ToLower (tn_APIKeySHA256 t)) (sn_api s) ts
     \<and> (sftp \<longrightarrow> fresh tn_SFTPUser (insert [] (sn_sftp s)) ts)
     \<and> (ftp \<longrightarrow> fresh tn_FTPUser (insert [] (sn_ftp s)) ts)
     \<and> (s3 \<longrightarrow> fresh tn_S3AccessKey (insert [] (sn_access s)) ts \<and> fresh tn_S3Bucket (insert [] (sn_buckets s)) ts)
     \<and> list_all (\<lambda>t. ValidTenantID (tn_ID t)) ts"

lemma check_tenant_None:
  assumes "check_tenant sftp ftp s3 s t = None"
  shows "ValidTenantID (tn_ID t)" "tn_ID t \<notin> sn_ids s" "ToLower (tn_APIKeySHA256 t) \<notin> sn_api s"
    "sftp \<Longrightarrow> tn_SFTPUser t \<noteq> [] \<and> tn_SFTPUser t \<notin> sn_sftp s"
    "ftp \<Longrightarrow> tn_FTPUser t \<noteq> [] \<and> tn_FTPUser t \<notin> sn_ftp s"
    "s3 \<Longrightarrow> tn_S3AccessKey t \<noteq> [] \<and> tn_S3AccessKey t \<notin> sn_access s \<and> tn_S3Bucket t \<noteq> [] \<and> tn_S3Bucket t \<notin> sn_buckets s"
  using assms unfolding check_tenant_def by (simp_all split: if_splits option.splits)

lemma validate_loop_None: "validate_loop sftp ftp s3 s ts = None \<Longrightarrow> unique_keys sftp ftp s3 s ts"
proof (induction ts arbitrary: s)
  case (Cons t ts)
  then have c: "check_tenant sftp ftp s3 s t = None"
    and ih: "unique_keys sftp ftp s3 (note_tenant sftp ftp s3 s t) ts"
    by (auto split: option.splits)
  then show ?case
    using check_tenant_None [OF c]
    by (simp add: unique_keys_def note_tenant_def fresh_Cons insert_commute [of _ "[]"])
qed (simp add: unique_keys_def fresh_Nil)

lemma ValidateTenants_unique: "ValidateTenants ts sftp ftp s3 = None \<Longrightarrow> unique_keys sftp ftp s3 seen0 ts"
  unfolding ValidateTenants_def by (rule validate_loop_None)

lemma active_owner_unique:
  assumes "distinct (map key ts)"
  shows "active (owner key ts k) = Some t \<longleftrightarrow> t \<in> set ts \<and> key t = k \<and> \<not> tn_Disabled t"
proof (cases "owner key ts k")
  case None
  then show ?thesis
    using owner_unique [OF assms, of k t] by (auto simp: active_def)
next
  case (Some u)
  then have "t \<in> set ts \<and> key t = k \<longleftrightarrow> u = t"
    using owner_unique [OF assms, of k t] by auto
  then show ?thesis
    using Some by (auto simp: active_def)
qed

lemma lookup_owner_unique:
  assumes "fresh key {[]} ts"
  shows "lookup_owner key ts k = Some t \<longleftrightarrow> t \<in> set ts \<and> key t = k \<and> \<not> tn_Disabled t"
  using active_owner_unique [of key ts k t] assms by (force simp: lookup_owner_def fresh_def)

section \<open>Digests\<close>

lemma hex_digit_value: "n < 16 \<Longrightarrow> hex_value (hex_digit n) = Some n"
proof -
  assume "n < 16"
  then have "n \<in> set [0..<16]" by simp
  moreover have "\<forall>n\<in>set [0..<16]. hex_value (hex_digit n) = Some n" by code_simp
  ultimately show ?thesis by blast
qed

lemma hex_digit_mod: "hex_digit (n mod 16) = hex_digit n"
  by (simp add: hex_digit_def)

lemma hex_round_trip [simp]: "hex_decode (hex_encode s) = Some s"
proof (induction s)
  case (Cons c cs)
  have "(of_char c :: nat) div 16 < 16"
    using nat_of_char_less_256 [of c] by (simp add: less_mult_imp_div_less)
  then have "hex_value (hex_digit (of_char c div 16)) = Some (of_char c div 16)"
    "hex_value (hex_digit (of_char c)) = Some (of_char c mod 16)"
    using hex_digit_value [of "of_char c mod 16"] by (simp_all add: hex_digit_value hex_digit_mod)
  then show ?case using Cons by simp
qed simp

lemma hex_no_colon: "CHR '':'' \<notin> set (hex_encode s)"
proof -
  have "\<forall>n\<in>set [0..<16]. hex_digit n \<noteq> CHR '':''" by code_simp
  then have "hex_digit n \<noteq> CHR '':''" for n
    using hex_digit_mod [of n] by (metis atLeastLessThan_iff mod_less_divisor set_upt zero_le zero_less_numeral)
  then show ?thesis
    by (induction s) (auto, metis+)
qed

text \<open>A stored digest accepts the secret it was made of.\<close>

lemma HashSecret_verifies:
  assumes "HashSecret (Inr salt) secret = Inr h" and "8 \<le> length salt"
  shows "isSecretHash h \<and> (VerifySecret presented h legacy \<longleftrightarrow> sha256 (salt @ presented) = sha256 (salt @ secret))"
proof -
  have "splitSecretHash h = Some (salt, sha256 (salt @ secret))"
    using assms by (auto simp: HashSecret_def splitSecretHash_def cut_at_append [OF hex_no_colon])
  then show ?thesis
    by (simp add: isSecretHash_def VerifySecret_def)
qed

end
