(* ===== verification/Float64.thy ===== *)
theory Float64
  imports Complex_Main "HOL-Library.Log_Nat"
begin

text \<open>
  The finite \<open>float64\<close> values of Go and their arithmetic, for the capacity controller. A value is the rational
  number it denotes; an operation is the exact operation on rationals followed by \<open>rnd64\<close>, the rounding of
  IEEE 754 binary64 to nearest, ties to even, with 53 bits of precision and the exponent range of subnormal
  numbers. The controller reaches no value near the overflow threshold \<open>2 ^ 1024\<close>, and none of its operations
  divides by zero under a validated configuration, so NaN and the negative infinity have no counterpart;
  where the code uses \<open>+Inf\<close> the model has a datatype for it. Multiply and add are not fused.
\<close>

definition exp2 :: "int \<Rightarrow> rat" where
  "exp2 e = (if 0 \<le> e then 2 ^ nat e else 1 / 2 ^ nat (- e))"

text \<open>The exponent of the leading bit of a positive rational.\<close>

definition ilog2 :: "rat \<Rightarrow> int" where
  "ilog2 x = (case quotient_of x of (p, q) \<Rightarrow>
     let e = bitlen p - bitlen q in if exp2 e \<le> x then e else e - 1)"

definition round_even :: "rat \<Rightarrow> int" where
  "round_even x =
     (let f = \<lfloor>x\<rfloor>; d = x - of_int f
      in if d < 1 / 2 then f else if 1 / 2 < d then f + 1 else if even f then f else f + 1)"

definition rnd64 :: "rat \<Rightarrow> rat" where
  "rnd64 x =
     (if x = 0 then 0
      else let e = max (ilog2 \<bar>x\<bar> - 52) (- 1074) in of_int (round_even (x / exp2 e)) * exp2 e)"

section \<open>What the rounding keeps\<close>

lemma exp2_pos [simp]: "0 < exp2 e"
  by (simp add: exp2_def)

lemma exp2_ne_0 [simp]: "exp2 e \<noteq> 0"
  by (simp add: exp2_def)

lemma exp2_int: "e \<le> 0 \<Longrightarrow> \<exists>k. x / exp2 e = x * of_int k \<and> k = 2 ^ nat (- e)"
  by (cases "e = 0") (auto simp: exp2_def)

lemma round_even_int [simp]: "round_even (of_int n) = n"
  by (simp add: round_even_def)

lemma round_even_nearest: "\<bar>x - of_int (round_even x)\<bar> \<le> 1 / 2"
proof -
  have "of_int \<lfloor>x\<rfloor> \<le> x" "x < of_int \<lfloor>x\<rfloor> + 1"
    by linarith+
  then show ?thesis
    by (auto simp: round_even_def Let_def)
qed

lemma round_even_nonneg: "0 \<le> x \<Longrightarrow> 0 \<le> round_even x"
  by (simp add: round_even_def Let_def)

lemma rnd64_nonneg [simp]: "0 \<le> x \<Longrightarrow> 0 \<le> rnd64 x"
  by (simp add: rnd64_def Let_def round_even_nonneg less_imp_le)

lemma rnd64_0 [simp]: "rnd64 0 = 0"
  by (simp add: rnd64_def)

text \<open>Integers below \<open>2 ^ 53\<close> are represented exactly.\<close>

lemma ilog2_int:
  assumes "0 < n" and "n < 2 ^ 53"
  shows "ilog2 (of_int n) \<le> 52"
proof -
  have "bitlen n \<le> 53"
    using assms bitlen_le_iff_power [of n 53] by simp
  moreover have "quotient_of (of_int n) = (n, 1)"
    by (simp add: of_int_rat quotient_of_Fract Rat.normalize_def)
  moreover have "bitlen 1 = 1"
    by (simp add: bitlen_def floorlog_def)
  ultimately show ?thesis
    by (simp add: ilog2_def Let_def)
qed

lemma rnd64_int [simp]:
  assumes "\<bar>n\<bar> < 2 ^ 53"
  shows "rnd64 (of_int n) = of_int n"
proof (cases "n = 0")
  case False
  define e where "e = max (ilog2 \<bar>of_int n\<bar> - 52) (- 1074)"
  have "ilog2 \<bar>of_int n\<bar> \<le> 52"
    using ilog2_int [of "\<bar>n\<bar>"] assms False by (simp flip: of_int_abs)
  then have "e \<le> 0"
    by (simp add: e_def)
  then obtain k where k: "of_int n / exp2 e = of_int n * of_int k" "k = 2 ^ nat (- e)"
    using exp2_int by blast
  then have "of_int (round_even (of_int n / exp2 e)) = of_int n / exp2 e"
    by (metis of_int_mult round_even_int)
  then show ?thesis
    using False unfolding rnd64_def Let_def e_def [symmetric] by simp
qed simp

text \<open>The relative error of one operation on a normal number is at most half a unit in the last place.\<close>

lemma rnd64_error:
  assumes "x \<noteq> 0"
  shows "\<bar>x - rnd64 x\<bar> \<le> exp2 (max (ilog2 \<bar>x\<bar> - 52) (- 1074)) / 2"
proof -
  define e where "e = max (ilog2 \<bar>x\<bar> - 52) (- 1074)"
  have "x - rnd64 x = (x / exp2 e - of_int (round_even (x / exp2 e))) * exp2 e"
    using assms by (simp add: rnd64_def Let_def e_def [symmetric] left_diff_distrib)
  then have "\<bar>x - rnd64 x\<bar> = \<bar>x / exp2 e - of_int (round_even (x / exp2 e))\<bar> * exp2 e"
    by (simp add: abs_mult abs_of_pos)
  also have "\<dots> \<le> 1 / 2 * exp2 e"
    by (rule mult_right_mono [OF round_even_nearest]) (simp add: less_imp_le)
  finally show ?thesis
    by (simp add: e_def)
qed

end
