(* ===== verification/Capacity.thy ===== *)
theory Capacity
  imports Accounts Float64
begin

text \<open>
  The capacity controller (\<^verbatim>\<open>internal/capacity/controller.go\<close>): it measures the disk every second, derives the
  watermarks and the upload budget, hands out upload slots and reservations of disk space, and accounts the
  transferred bytes. Counters of type \<open>uint64\<close> are 64-bit words, \<open>int64\<close> and \<open>int\<close> values are integers with
  \<open>wrap64\<close>, \<open>float64\<close> values rationals rounded by \<open>rnd64\<close>.

  The rate limiter is a library: of it the model keeps the limit that the controller sets and reads, and what
  \<open>WaitN\<close> answers is an argument. Tenant states and the channels used as semaphores are shared by reference
  with uploads in flight, so they live in a store under addresses; a release function that runs at most once is
  a token of that store.
\<close>

section \<open>Data\<close>

text \<open>A limit or rate: \<open>rate.Inf\<close> and \<open>math.Inf(1)\<close>, or a finite number of bytes per second.\<close>

datatype limit = Inf | Lim rat

datatype capacity_error =
    ErrCriticalCapacity
  | ErrUploadsRejected
  | ErrTooManyUploads
  | ErrWait string           \<comment> \<open>reported by a rate limiter or by the context of the request\<close>

record CapacityConfig =
  cf_SoftPercent :: rat
  cf_HardPercent :: rat
  cf_CriticalPercent :: rat
  cf_TargetRunway :: duration
  cf_MaxUploadBPS :: int
  cf_MinFreeBytes :: "64 word"
  cf_UploadSlotWait :: duration

record TenantSnapshot =
  tp_UploadBPS :: rat
  tp_UploadLimitBPS :: limit
  tp_ActiveUploads :: nat
  tp_SlotRejections :: "64 word"

record Snapshot =
  sp_TotalBytes :: "64 word"
  sp_AvailableBytes :: "64 word"
  sp_ReservedBytes :: "64 word"
  sp_UsedPercent :: rat
  sp_UploadBPS :: rat
  sp_DownloadBPS :: rat
  sp_DeleteBPS :: rat
  sp_UploadLimitBPS :: limit
  sp_Throttled :: bool
  sp_RejectNew :: bool
  sp_Critical :: bool
  sp_StatErrors :: "64 word"
  sp_MeasuredAt :: gotime
  sp_Tenants :: "(string \<times> TenantSnapshot) list"

definition zero_snapshot :: Snapshot where
  "zero_snapshot =
     \<lparr>sp_TotalBytes = 0, sp_AvailableBytes = 0, sp_ReservedBytes = 0, sp_UsedPercent = 0, sp_UploadBPS = 0,
      sp_DownloadBPS = 0, sp_DeleteBPS = 0, sp_UploadLimitBPS = Lim 0, sp_Throttled = False, sp_RejectNew = False,
      sp_Critical = False, sp_StatErrors = 0, sp_MeasuredAt = zero_time, sp_Tenants = []\<rparr>"

text \<open>\<open>ts_sem\<close> is the address of the channel, or nothing for the nil channel.\<close>

record tenantState =
  ts_limit :: limit
  ts_weight :: int
  ts_max :: int
  ts_sem :: "nat option"
  ts_lastActive :: int
  ts_bytes :: "64 word"
  ts_lastBytes :: "64 word"
  ts_ewma :: rat
  ts_rejected :: "64 word"

record semaphore =
  sm_cap :: int
  sm_len :: nat

text \<open>The functions that \<open>Reserve\<close> and \<open>AcquireUpload\<close> return, with their \<open>sync.Once\<close>: they give bytes back, or
  receive from a channel, the first time they are called.\<close>

datatype token = BytesToken int bool | SlotToken nat bool

datatype release = NoRelease | Release nat

record Controller =
  ct_cfg :: CapacityConfig
  ct_global :: limit
  ct_snapshot :: Snapshot
  ct_tenants :: "(string \<times> nat) list"      \<comment> \<open>the map \<open>tenants\<close>, with the address of each state\<close>
  ct_states :: "tenantState list"            \<comment> \<open>the tenant states by address\<close>
  ct_sems :: "semaphore list"                \<comment> \<open>the channels by address\<close>
  ct_tokens :: "token list"                  \<comment> \<open>the release functions handed out\<close>
  ct_reserved :: int
  ct_statErrors :: "64 word"
  ct_uploaded :: "64 word"
  ct_downloaded :: "64 word"
  ct_deleted :: "64 word"
  ct_lastUploaded :: "64 word"
  ct_lastDownloaded :: "64 word"
  ct_lastDel :: "64 word"
  ct_ewmaUpload :: rat
  ct_ewmaDownload :: rat
  ct_ewmaDelete :: rat
  ct_drainEstimate :: rat
  ct_sampledOnce :: bool

text \<open>The constant \<open>burst\<close>, as an \<open>int\<close> and as a number of bytes. The fields \<open>burst\<close> and \<open>activityWindow\<close> are constants set by the constructor.\<close>

definition burst_bytes :: int where
  "burst_bytes = 4 * 2 ^ 20"

definition burst :: nat where
  "burst = 4 * 2 ^ 20"

lemma burst_int: "int burst = burst_bytes"
  by (simp add: burst_def burst_bytes_def)

definition activityWindow :: duration where
  "activityWindow = 10 * second"

section \<open>Accounts\<close>

definition upd_state :: "nat \<Rightarrow> (tenantState \<Rightarrow> tenantState) \<Rightarrow> Controller \<Rightarrow> Controller" where
  "upd_state a f c = c\<lparr>ct_states := (ct_states c)[a := f (ct_states c ! a)]\<rparr>"

definition tenant_state :: "Controller \<Rightarrow> string \<Rightarrow> nat option" where
  "tenant_state c i = map_of (ct_tenants c) i"

definition new_state :: tenantState where
  "new_state =
     \<lparr>ts_limit = Inf, ts_weight = 0, ts_max = 0, ts_sem = None, ts_lastActive = 0, ts_bytes = 0, ts_lastBytes = 0,
      ts_ewma = 0, ts_rejected = 0\<rparr>"

definition find_state :: "string \<Rightarrow> Controller \<Rightarrow> nat \<times> Controller" where
  "find_state i c =
     (case tenant_state c i of
        Some a \<Rightarrow> (a, c)
      | None \<Rightarrow>
          (length (ct_states c),
           c\<lparr>ct_tenants := ct_tenants c @ [(i, length (ct_states c))], ct_states := ct_states c @ [new_state]\<rparr>))"

definition set_limits :: "int \<Rightarrow> int \<Rightarrow> tenantState \<Rightarrow> tenantState" where
  "set_limits w mx st =
     st\<lparr>ts_weight := w, ts_max := mx,
        ts_limit := (if 0 < mx \<and> ts_limit st = Inf then Lim (rnd64 (of_int mx)) else ts_limit st)\<rparr>"

definition set_sem :: "nat \<Rightarrow> int \<Rightarrow> Controller \<Rightarrow> Controller" where
  "set_sem a maxConcurrent c =
     (if (case ts_sem (ct_states c ! a) of None \<Rightarrow> True | Some s \<Rightarrow> sm_cap (ct_sems c ! s) \<noteq> maxConcurrent)
      then upd_state a (\<lambda>st. st\<lparr>ts_sem := Some (length (ct_sems c))\<rparr>)
             (c\<lparr>ct_sems := ct_sems c @ [\<lparr>sm_cap = maxConcurrent, sm_len = 0\<rparr>]\<rparr>)
      else c)"

definition sync_one :: "Tenant \<Rightarrow> Controller \<Rightarrow> Controller" where
  "sync_one t c =
     (let w = (if tn_Weight t \<le> 0 then 1 else tn_Weight t);
          maxConcurrent = (if tn_MaxConcurrent t \<le> 0 then 8 else tn_MaxConcurrent t)
      in case find_state (tn_ID t) c of
           (a, c1) \<Rightarrow> set_sem a maxConcurrent (upd_state a (set_limits w (tn_MaxUploadBPS t)) c1))"

definition SyncTenants :: "Tenant list \<Rightarrow> Controller \<Rightarrow> Controller" where
  "SyncTenants ts c =
     (let c1 = fold sync_one ts c
      in c1\<lparr>ct_tenants := filter (\<lambda>(i, a). i \<in> set (map tn_ID ts)) (ct_tenants c1)\<rparr>)"

definition NewWithStatFS :: "CapacityConfig \<Rightarrow> Tenant list \<Rightarrow> Controller" where
  "NewWithStatFS cfg ts =
     SyncTenants ts
       \<lparr>ct_cfg = cfg,
        ct_global = (if 0 < cf_MaxUploadBPS cfg then Lim (rnd64 (of_int (cf_MaxUploadBPS cfg))) else Inf),
        ct_snapshot = zero_snapshot, ct_tenants = [], ct_states = [], ct_sems = [], ct_tokens = [], ct_reserved = 0,
        ct_statErrors = 0, ct_uploaded = 0, ct_downloaded = 0, ct_deleted = 0, ct_lastUploaded = 0, ct_lastDownloaded = 0,
        ct_lastDel = 0, ct_ewmaUpload = 0, ct_ewmaDownload = 0, ct_ewmaDelete = 0, ct_drainEstimate = 0,
        ct_sampledOnce = False\<rparr>"

section \<open>Measurement\<close>

text \<open>\<open>uint64(f)\<close> truncates; a value outside the range of \<open>uint64\<close>, for which Go leaves the result to the
  machine, does not arise below \<open>2 ^ 63\<close> total bytes.\<close>

definition float_of :: "64 word \<Rightarrow> rat" where
  "float_of w = rnd64 (of_int (uint w))"

definition uint64_of :: "rat \<Rightarrow> 64 word" where
  "uint64_of x = word_of_int \<lfloor>x\<rfloor>"

definition reserveFloor :: "CapacityConfig \<Rightarrow> 64 word \<Rightarrow> 64 word" where
  "reserveFloor cfg tot =
     (let criticalFree = uint64_of (rnd64 (rnd64 (float_of tot * rnd64 (100 - cf_CriticalPercent cfg)) / 100))
      in if cf_MinFreeBytes cfg < criticalFree then criticalFree else cf_MinFreeBytes cfg)"

text \<open>\<open>Duration.Seconds()\<close>.\<close>

definition Seconds :: "duration \<Rightarrow> rat" where
  "Seconds d = rnd64 (rnd64 (of_int (d div second)) + rnd64 (rnd64 (of_int (d mod second)) / 1000000000))"

definition fast :: rat where
  "fast = rnd64 (3 / 10)"

definition slow :: rat where
  "slow = rnd64 (1 / 20)"

definition ewma :: "rat \<Rightarrow> rat \<Rightarrow> rat \<Rightarrow> rat" where
  "ewma k inst old = rnd64 (old + rnd64 (k * rnd64 (inst - old)))"

definition used_bytes :: "int \<Rightarrow> 64 word" where
  "used_bytes reserved = word_of_int (max reserved 0)"

definition eff_avail :: "64 word \<Rightarrow> 64 word \<Rightarrow> 64 word" where
  "eff_avail avail reserved = (if reserved < avail then avail - reserved else 0)"

definition used_percent :: "64 word \<Rightarrow> 64 word \<Rightarrow> rat" where
  "used_percent tot effAvail =
     (if 0 < tot then rnd64 (rnd64 (100 * float_of (tot - min effAvail tot)) / float_of tot) else 0)"

text \<open>The rates and the drain estimate.\<close>

definition measure_rates :: "Controller \<Rightarrow> Controller" where
  "measure_rates c =
     (let instantU = float_of (ct_uploaded c - ct_lastUploaded c);
          instantD = float_of (ct_downloaded c - ct_lastDownloaded c);
          instantDel = float_of (ct_deleted c - ct_lastDel c);
          c1 = c\<lparr>ct_lastUploaded := ct_uploaded c, ct_lastDownloaded := ct_downloaded c, ct_lastDel := ct_deleted c\<rparr>
      in if \<not> ct_sampledOnce c
         then c1\<lparr>ct_ewmaUpload := instantU, ct_ewmaDownload := instantD, ct_ewmaDelete := instantDel,
                 ct_drainEstimate := instantDel, ct_sampledOnce := True\<rparr>
         else c1\<lparr>ct_ewmaUpload := ewma fast instantU (ct_ewmaUpload c), ct_ewmaDownload := ewma fast instantD (ct_ewmaDownload c),
                 ct_ewmaDelete := ewma fast instantDel (ct_ewmaDelete c),
                 ct_drainEstimate := ewma slow instantDel (ct_drainEstimate c)\<rparr>)"

fun less_limit :: "rat \<Rightarrow> limit \<Rightarrow> bool" where
  "less_limit x Inf = True"
| "less_limit x (Lim y) = (x < y)"

definition is_critical :: "CapacityConfig \<Rightarrow> rat \<Rightarrow> 64 word \<Rightarrow> bool" where
  "is_critical cfg usedPct effAvail \<longleftrightarrow> cf_CriticalPercent cfg \<le> usedPct \<or> effAvail \<le> cf_MinFreeBytes cfg"

text \<open>The upload budget and whether it throttles.\<close>

definition desired_budget :: "CapacityConfig \<Rightarrow> rat \<Rightarrow> 64 word \<Rightarrow> 64 word \<Rightarrow> rat \<Rightarrow> limit \<times> bool" where
  "desired_budget cfg drain tot effAvail usedPct =
     (let desired = (if 0 < cf_MaxUploadBPS cfg then Lim (rnd64 (of_int (cf_MaxUploadBPS cfg))) else Inf);
          flo = reserveFloor cfg tot;
          spare = (if flo < effAvail then float_of (effAvail - flo) else 0);
          budget = rnd64 (drain + rnd64 (spare / Seconds (cf_TargetRunway cfg)));
          (desired', throttled) =
            (if cf_SoftPercent cfg \<le> usedPct \<and> less_limit budget desired then (Lim budget, True) else (desired, False))
      in if is_critical cfg usedPct effAvail then (Lim 0, True) else (desired', throttled))"

text \<open>Cut at once, recover gradually.\<close>

definition next_limit :: "limit \<Rightarrow> limit \<Rightarrow> limit" where
  "next_limit desired current =
     (case desired of
        Inf \<Rightarrow> Inf
      | Lim d \<Rightarrow>
          (case current of
             Inf \<Rightarrow> Lim (max d 1)
           | Lim cur \<Rightarrow>
               if d < cur then Lim (max d 1)
               else Lim (max 1 (min d (rnd64 (rnd64 (cur * (5 / 4)) + of_int burst_bytes))))))"

definition sem_len :: "Controller \<Rightarrow> tenantState \<Rightarrow> nat" where
  "sem_len c st = (case ts_sem st of None \<Rightarrow> 0 | Some s \<Rightarrow> sm_len (ct_sems c ! s))"

definition recently_active :: "gotime \<Rightarrow> tenantState \<Rightarrow> bool" where
  "recently_active now st \<longleftrightarrow> now - ts_lastActive st < activityWindow"

definition active_weight :: "gotime \<Rightarrow> Controller \<Rightarrow> int" where
  "active_weight now c =
     fold (\<lambda>(i, a) w. let st = ct_states c ! a
                      in if recently_active now st \<or> 0 < sem_len c st then wrap64 (w + ts_weight st) else w)
       (ct_tenants c) 0"

text \<open>The share of an account: its weight in the pool of active accounts.\<close>

definition tenant_share :: "gotime \<Rightarrow> int \<Rightarrow> Controller \<Rightarrow> tenantState \<Rightarrow> limit" where
  "tenant_share now activeWeight c st =
     (let share = (case ct_global c of
            Inf \<Rightarrow> Inf
          | Lim g \<Rightarrow>
              let pool = (if \<not> recently_active now st \<and> sem_len c st = 0 then wrap64 (activeWeight + ts_weight st) else activeWeight);
                  pool' = (if pool = 0 then ts_weight st else pool)
              in Lim (rnd64 (rnd64 (g * rnd64 (of_int (ts_weight st))) / rnd64 (of_int pool'))));
          mx = rnd64 (of_int (ts_max st))
      in if 0 < ts_max st \<and> (case share of Inf \<Rightarrow> True | Lim s \<Rightarrow> mx < s) then Lim mx else share)"

definition retune :: "gotime \<Rightarrow> int \<Rightarrow> string \<times> nat \<Rightarrow> Controller \<times> (string \<times> TenantSnapshot) list \<Rightarrow>
    Controller \<times> (string \<times> TenantSnapshot) list" where
  "retune now activeWeight = (\<lambda>(i, a) (c, out).
     let st = ct_states c ! a;
         b = ts_bytes st;
         inst = float_of (b - ts_lastBytes st);
         share = tenant_share now activeWeight c st;
         st' = st\<lparr>ts_lastBytes := b, ts_ewma := ewma fast inst (ts_ewma st),
                  ts_limit := (case share of Inf \<Rightarrow> Inf | Lim s \<Rightarrow> Lim (max 1 s))\<rparr>
     in (upd_state a (\<lambda>_. st') c,
         out @ [(i, \<lparr>tp_UploadBPS = ts_ewma st', tp_UploadLimitBPS = share, tp_ActiveUploads = sem_len c st,
                     tp_SlotRejections = ts_rejected st\<rparr>)]))"

text \<open>\<open>stat\<close> is what \<open>statfs\<close> reports, \<open>None\<close> its error. A measurement is taken as one step.\<close>

definition stat_failed :: "Controller \<Rightarrow> Controller" where
  "stat_failed c =
     (let n = ct_statErrors c + 1
      in c\<lparr>ct_statErrors := n,
           ct_snapshot := (ct_snapshot c)\<lparr>sp_Critical := True, sp_RejectNew := True, sp_StatErrors := n\<rparr>\<rparr>)"

definition measured :: "64 word \<Rightarrow> 64 word \<Rightarrow> gotime \<Rightarrow> Controller \<Rightarrow> Controller" where
  "measured tot avail now c =
     (let reserved = used_bytes (ct_reserved c);
          effAvail = eff_avail avail reserved;
          usedPct = used_percent tot effAvail;
          c1 = measure_rates c;
          (desired, throttled) = desired_budget (ct_cfg c) (ct_drainEstimate c1) tot effAvail usedPct;
          critical = is_critical (ct_cfg c) usedPct effAvail;
          c2 = c1\<lparr>ct_global := next_limit desired (ct_global c1)\<rparr>;
          (c3, tenants) = fold (retune now (active_weight now c2)) (ct_tenants c2) (c2, [])
      in c3\<lparr>ct_snapshot :=
           \<lparr>sp_TotalBytes = tot, sp_AvailableBytes = avail, sp_ReservedBytes = reserved, sp_UsedPercent = usedPct,
            sp_UploadBPS = ct_ewmaUpload c1, sp_DownloadBPS = ct_ewmaDownload c1, sp_DeleteBPS = ct_ewmaDelete c1,
            sp_UploadLimitBPS = ct_global c2, sp_Throttled = throttled,
            sp_RejectNew = (cf_HardPercent (ct_cfg c) \<le> usedPct \<or> critical), sp_Critical = critical,
            sp_StatErrors = ct_statErrors c, sp_MeasuredAt = now, sp_Tenants = tenants\<rparr>\<rparr>)"

definition Sample :: "(64 word \<times> 64 word) option \<Rightarrow> gotime \<Rightarrow> Controller \<Rightarrow> Controller" where
  "Sample stat now c = (case stat of None \<Rightarrow> stat_failed c | Some (tot, avail) \<Rightarrow> measured tot avail now c)"

text \<open>\<open>Run\<close> measures at once and at every tick until its context ends; the ticks it sees are a list.\<close>

definition Run :: "((64 word \<times> 64 word) option \<times> gotime) list \<Rightarrow> Controller \<Rightarrow> Controller" where
  "Run ticks = fold (\<lambda>(stat, now). Sample stat now) ticks"

section \<open>Admission and reservations\<close>

definition Controller_AdmitUpload :: "Controller \<Rightarrow> capacity_error option" where
  "Controller_AdmitUpload c =
     (if sp_Critical (ct_snapshot c) then Some ErrCriticalCapacity
      else if sp_RejectNew (ct_snapshot c) then Some ErrUploadsRejected
      else None)"

definition Controller_AllowNewUpload :: "Controller \<Rightarrow> bool" where
  "Controller_AllowNewUpload c \<longleftrightarrow> Controller_AdmitUpload c = None"

definition CheckCritical :: "Controller \<Rightarrow> capacity_error option" where
  "CheckCritical c = (if sp_Critical (ct_snapshot c) then Some ErrCriticalCapacity else None)"

definition no_room :: "CapacityConfig \<Rightarrow> Snapshot \<Rightarrow> int \<Rightarrow> int \<Rightarrow> bool" where
  "no_room cfg s res n \<longleftrightarrow>
     0 < sp_TotalBytes s
     \<and> (let reserved = used_bytes res; flo = reserveFloor cfg (sp_TotalBytes s)
        in sp_AvailableBytes s < reserved + flo \<or> sp_AvailableBytes s - reserved - flo < word_of_int n)"

definition Controller_Reserve :: "int \<Rightarrow> Controller \<Rightarrow> release option \<times> Controller" where
  "Controller_Reserve n c =
     (if n \<le> 0 then (Some NoRelease, c)
      else let s = ct_snapshot c
           in if sp_Critical s \<or> sp_RejectNew s then (None, c)
              else if no_room (ct_cfg c) s (ct_reserved c) n then (None, c)
              else (Some (Release (length (ct_tokens c))),
                    c\<lparr>ct_reserved := wrap64 (ct_reserved c + n), ct_tokens := ct_tokens c @ [BytesToken n False]\<rparr>))"

text \<open>Receiving from a channel takes one element out of it.\<close>

definition recv :: "nat \<Rightarrow> Controller \<Rightarrow> Controller" where
  "recv s c = c\<lparr>ct_sems := (ct_sems c)[s := (ct_sems c ! s)\<lparr>sm_len := sm_len (ct_sems c ! s) - 1\<rparr>]\<rparr>"

definition call_release :: "release \<Rightarrow> Controller \<Rightarrow> Controller" where
  "call_release r c =
     (case r of
        NoRelease \<Rightarrow> c
      | Release k \<Rightarrow>
          if k < length (ct_tokens c)
          then (case ct_tokens c ! k of
                  BytesToken n used \<Rightarrow>
                    if used then c
                    else c\<lparr>ct_reserved := wrap64 (ct_reserved c - n), ct_tokens := (ct_tokens c)[k := BytesToken n True]\<rparr>
                | SlotToken s used \<Rightarrow>
                    if used then c else recv s (c\<lparr>ct_tokens := (ct_tokens c)[k := SlotToken s True]\<rparr>))
          else c)"

definition AllowBytes :: "int \<Rightarrow> Controller \<Rightarrow> bool \<times> Controller" where
  "AllowBytes n c =
     (case Controller_Reserve n c of
        (Some r, c') \<Rightarrow> (True, call_release r c')
      | (None, c') \<Rightarrow> (False, c'))"

section \<open>Upload slots\<close>

text \<open>How the wait for a slot ends: a slot is free, the timer fires, or the context of the request ends.\<close>

datatype slot_event = SlotFree | Timer | CtxDone string

definition has_slot :: "nat \<Rightarrow> Controller \<Rightarrow> bool" where
  "has_slot s c \<longleftrightarrow> int (sm_len (ct_sems c ! s)) < sm_cap (ct_sems c ! s)"

definition send :: "nat \<Rightarrow> Controller \<Rightarrow> release \<times> Controller" where
  "send s c =
     (Release (length (ct_tokens c)),
      c\<lparr>ct_sems := (ct_sems c)[s := (ct_sems c ! s)\<lparr>sm_len := Suc (sm_len (ct_sems c ! s))\<rparr>],
        ct_tokens := ct_tokens c @ [SlotToken s False]\<rparr>)"

definition reject_slot :: "nat \<Rightarrow> Controller \<Rightarrow> (capacity_error + release) \<times> Controller" where
  "reject_slot a c = (Inl ErrTooManyUploads, upd_state a (\<lambda>st. st\<lparr>ts_rejected := ts_rejected st + 1\<rparr>) c)"

text \<open>\<open>env\<close> is what other calls do while this one waits, \<open>ev\<close> what ends the wait. An account in the table always has
  a channel; sending on the nil channel of the model's type is never ready.\<close>

definition AcquireUpload ::
    "(Controller \<Rightarrow> Controller) \<Rightarrow> slot_event \<Rightarrow> string \<Rightarrow> Controller \<Rightarrow> (capacity_error + release) \<times> Controller" where
  "AcquireUpload env ev tenant c =
     (case tenant_state c tenant of
        None \<Rightarrow> (Inr NoRelease, c)
      | Some a \<Rightarrow>
          (case ts_sem (ct_states c ! a) of
             None \<Rightarrow> reject_slot a c
           | Some s \<Rightarrow>
               if has_slot s c then (case send s c of (r, c') \<Rightarrow> (Inr r, c'))
               else if cf_UploadSlotWait (ct_cfg c) \<le> 0 then reject_slot a c
               else let c1 = env c
                    in case ev of
                         SlotFree \<Rightarrow> if has_slot s c1 then (case send s c1 of (r, c') \<Rightarrow> (Inr r, c')) else reject_slot a c1
                       | Timer \<Rightarrow> reject_slot a c1
                       | CtxDone e \<Rightarrow> (Inl (ErrWait e), c1)))"

section \<open>Rate limiting and accounting\<close>

definition account_tenant :: "gotime \<Rightarrow> nat \<Rightarrow> nat \<Rightarrow> Controller \<Rightarrow> Controller" where
  "account_tenant now a m = upd_state a (\<lambda>st. st\<lparr>ts_bytes := ts_bytes st + of_nat m, ts_lastActive := now\<rparr>)"

text \<open>The loop of \<open>WaitN\<close> over chunks. For the \<open>k\<close>-th chunk \<open>gw k m\<close> and \<open>tw k m\<close> are the errors of the
  global limiter and of the account's, \<open>env k\<close> is what other calls do while this one waits for them, \<open>clock k\<close> the
  time.\<close>

function wait_chunks ::
    "(nat \<Rightarrow> nat \<Rightarrow> string option) \<Rightarrow> (nat \<Rightarrow> nat \<Rightarrow> string option) \<Rightarrow> (nat \<Rightarrow> Controller \<Rightarrow> Controller) \<Rightarrow> (nat \<Rightarrow> gotime) \<Rightarrow>
     nat option \<Rightarrow> nat \<Rightarrow> nat \<Rightarrow> Controller \<Rightarrow> capacity_error option \<times> Controller" where
  "wait_chunks gw tw env clock st k remaining c =
     (if remaining = 0 then (None, c)
      else let m = min remaining burst; c1 = env k c
           in case gw k m of
                Some e \<Rightarrow> (Some (ErrWait e), c1)
              | None \<Rightarrow>
                  (case st of
                     Some a \<Rightarrow>
                       (case tw k m of
                          Some e \<Rightarrow> (Some (ErrWait e), c1)
                        | None \<Rightarrow>
                            let c2 = account_tenant (clock k) a m c1
                            in wait_chunks gw tw env clock st (Suc k) (remaining - m) (c2\<lparr>ct_uploaded := ct_uploaded c2 + of_nat m\<rparr>))
                   | None \<Rightarrow> wait_chunks gw tw env clock st (Suc k) (remaining - m) (c1\<lparr>ct_uploaded := ct_uploaded c1 + of_nat m\<rparr>)))"
  by pat_completeness auto
termination
  by (relation "measure (\<lambda>(gw, tw, env, clock, st, k, remaining, c). remaining)") (auto simp: burst_def)

definition WaitN ::
    "(nat \<Rightarrow> nat \<Rightarrow> string option) \<Rightarrow> (nat \<Rightarrow> nat \<Rightarrow> string option) \<Rightarrow> (nat \<Rightarrow> Controller \<Rightarrow> Controller) \<Rightarrow> (nat \<Rightarrow> gotime) \<Rightarrow>
     string \<Rightarrow> int \<Rightarrow> Controller \<Rightarrow> capacity_error option \<times> Controller" where
  "WaitN gw tw env clock tenant n c =
     (if n \<le> 0 then (None, c)
      else if sp_Critical (ct_snapshot c) then (Some ErrCriticalCapacity, c)
      else wait_chunks gw tw env clock (tenant_state c tenant) 0 (nat n) c)"

definition ObserveDownload :: "int \<Rightarrow> Controller \<Rightarrow> Controller" where
  "ObserveDownload n c = (if 0 < n then c\<lparr>ct_downloaded := ct_downloaded c + word_of_int n\<rparr> else c)"

definition ObserveDelete :: "int \<Rightarrow> Controller \<Rightarrow> Controller" where
  "ObserveDelete n c = (if 0 < n then c\<lparr>ct_deleted := ct_deleted c + word_of_int n\<rparr> else c)"

definition TenantIDs :: "Controller \<Rightarrow> string list" where
  "TenantIDs c = sort (map fst (ct_tenants c))"

end
