(* ===== verification/Capacity_Correct.thy ===== *)
theory Capacity_Correct
  imports Capacity
begin

text \<open>
  Correctness of the capacity controller. Its state is shared by all requests, so the invariant is stated over the
  steps that they and the measuring loop interleave (\<open>cstep\<close>): the reserved bytes are the sum of the
  reservations not yet released, the elements of every channel are the upload slots not yet released and never
  exceed its capacity, and a measurement precedes every reservation. Operations that wait are sequences of such
  steps whatever runs in between.
\<close>

section \<open>Steps\<close>

text \<open>What a file system smaller than \<open>2 ^ 63\<close> bytes reports.\<close>

definition plausible :: "CapacityConfig \<Rightarrow> (64 word \<times> 64 word) option \<Rightarrow> bool" where
  "plausible cfg stat =
     (case stat of
        None \<Rightarrow> True
      | Some (tot, avail) \<Rightarrow> 0 < tot \<and> avail \<le> tot \<and> tot < 2 ^ 63 \<and> reserveFloor cfg tot < 2 ^ 63)"

inductive cstep :: "Controller \<Rightarrow> Controller \<Rightarrow> bool" where
  sync: "cstep c (SyncTenants ts c)"
| sample: "plausible (ct_cfg c) stat \<Longrightarrow> cstep c (Sample stat now c)"
| reserve: "n < 2 ^ 63 \<Longrightarrow> cstep c (snd (Controller_Reserve n c))"
| release: "cstep c (call_release r c)"
| slot: "s < length (ct_sems c) \<Longrightarrow> has_slot s c \<Longrightarrow> cstep c (snd (send s c))"
| reject: "a < length (ct_states c) \<Longrightarrow> cstep c (snd (reject_slot a c))"
| charge: "a < length (ct_states c) \<Longrightarrow> cstep c (account_tenant now a m c)"
| upload: "cstep c (c\<lparr>ct_uploaded := u\<rparr>)"
| download: "cstep c (ObserveDownload n c)"
| delete: "cstep c (ObserveDelete n c)"

abbreviation csteps :: "Controller \<Rightarrow> Controller \<Rightarrow> bool" where
  "csteps \<equiv> cstep\<^sup>*\<^sup>*"

section \<open>The invariant\<close>

definition outstanding :: "token list \<Rightarrow> int" where
  "outstanding ts = (\<Sum>t\<leftarrow>ts. case t of BytesToken n used \<Rightarrow> if used then 0 else n | _ \<Rightarrow> 0)"

definition holders :: "nat \<Rightarrow> token list \<Rightarrow> nat" where
  "holders s ts = length (filter (\<lambda>t. t = SlotToken s False) ts)"

definition bytes_ok :: "Controller \<Rightarrow> bool" where
  "bytes_ok c \<longleftrightarrow>
     ct_reserved c = outstanding (ct_tokens c) \<and> outstanding (ct_tokens c) < 2 ^ 63
     \<and> (\<forall>n used. BytesToken n used \<in> set (ct_tokens c) \<longrightarrow> 0 < n)"

definition slots_ok :: "Controller \<Rightarrow> bool" where
  "slots_ok c \<longleftrightarrow>
     (\<forall>s<length (ct_sems c). sm_len (ct_sems c ! s) = holders s (ct_tokens c)
        \<and> int (holders s (ct_tokens c)) \<le> sm_cap (ct_sems c ! s))
     \<and> (\<forall>s used. SlotToken s used \<in> set (ct_tokens c) \<longrightarrow> s < length (ct_sems c))"

definition states_ok :: "Controller \<Rightarrow> bool" where
  "states_ok c \<longleftrightarrow>
     (\<forall>(i, a)\<in>set (ct_tenants c). a < length (ct_states c) \<and> ts_sem (ct_states c ! a) \<noteq> None)
     \<and> (\<forall>st\<in>set (ct_states c). \<forall>s. ts_sem st = Some s \<longrightarrow> s < length (ct_sems c))"

definition snapshot_ok :: "Controller \<Rightarrow> bool" where
  "snapshot_ok c \<longleftrightarrow>
     sp_Critical (ct_snapshot c)
     \<or> plausible (ct_cfg c) (Some (sp_TotalBytes (ct_snapshot c), sp_AvailableBytes (ct_snapshot c)))"

lemma outstanding_simps [simp]:
  "outstanding [] = 0"
  "outstanding (t # ts) = (case t of BytesToken n used \<Rightarrow> if used then 0 else n | _ \<Rightarrow> 0) + outstanding ts"
  "outstanding (ts @ us) = outstanding ts + outstanding us"
  by (simp_all add: outstanding_def)

lemma holders_simps [simp]:
  "holders s [] = 0"
  "holders s (t # ts) = (if t = SlotToken s False then 1 else 0) + holders s ts"
  "holders s (ts @ us) = holders s ts + holders s us"
  by (simp_all add: holders_def)

lemma outstanding_nonneg: "(\<forall>n used. BytesToken n used \<in> set ts \<longrightarrow> 0 < n) \<Longrightarrow> 0 \<le> outstanding ts"
proof (induction ts)
  case (Cons t ts)
  then have "0 \<le> outstanding ts" by auto
  moreover have "0 \<le> (case t of BytesToken n used \<Rightarrow> if used then 0 else n | _ \<Rightarrow> 0)"
    using Cons.prems by (cases t) (auto simp: less_imp_le)
  ultimately show ?case by simp
qed simp

text \<open>Marking a token as used.\<close>

lemma outstanding_use:
  "k < length ts \<Longrightarrow> ts ! k = BytesToken n False \<Longrightarrow> outstanding (ts[k := BytesToken n True]) = outstanding ts - n"
  "k < length ts \<Longrightarrow> ts ! k = SlotToken s False \<Longrightarrow> outstanding (ts[k := SlotToken s True]) = outstanding ts"
  by (induction ts arbitrary: k) (auto simp: nth_Cons split: nat.splits)

lemma holders_use:
  "k < length ts \<Longrightarrow> ts ! k = BytesToken n False \<Longrightarrow> holders s (ts[k := BytesToken n True]) = holders s ts"
  "k < length ts \<Longrightarrow> ts ! k = SlotToken s False \<Longrightarrow> holders s (ts[k := SlotToken s True]) = holders s ts - 1"
  "k < length ts \<Longrightarrow> ts ! k = SlotToken s False \<Longrightarrow> s' \<noteq> s \<Longrightarrow> holders s' (ts[k := SlotToken s True]) = holders s' ts"
  "k < length ts \<Longrightarrow> ts ! k = SlotToken s False \<Longrightarrow> 0 < holders s ts"
proof -
  show "k < length ts \<Longrightarrow> ts ! k = SlotToken s False \<Longrightarrow> 0 < holders s ts"
    by (metis (mono_tags, lifting) filter_empty_conv holders_def length_greater_0_conv nth_mem)
  show "k < length ts \<Longrightarrow> ts ! k = BytesToken n False \<Longrightarrow> holders s (ts[k := BytesToken n True]) = holders s ts"
    "k < length ts \<Longrightarrow> ts ! k = SlotToken s False \<Longrightarrow> s' \<noteq> s \<Longrightarrow> holders s' (ts[k := SlotToken s True]) = holders s' ts"
    by (induction ts arbitrary: k) (auto simp: nth_Cons split: nat.splits)
  show "k < length ts \<Longrightarrow> ts ! k = SlotToken s False \<Longrightarrow> holders s (ts[k := SlotToken s True]) = holders s ts - 1"
  proof (induction ts arbitrary: k)
    case (Cons t ts)
    show ?case
    proof (cases k)
      case (Suc j)
      then have "j < length ts" "ts ! j = SlotToken s False" using Cons.prems by auto
      moreover from this have "SlotToken s False \<in> set ts" by (metis nth_mem)
      then have "0 < holders s ts" by (auto simp: holders_def filter_empty_conv)
      ultimately show ?thesis using Cons.IH [of j] Suc by simp
    qed (use Cons.prems in simp)
  qed simp
qed

section \<open>Reservations\<close>

lemma uint_used_bytes: "0 \<le> r \<Longrightarrow> r < 2 ^ 63 \<Longrightarrow> uint (used_bytes r) = r"
  by (simp add: used_bytes_def uint_word_of_int_eq take_bit_int_eq_self_iff)

text \<open>A reservation that passes leaves the floor free.\<close>

lemma no_room_exact:
  assumes "plausible cfg (Some (sp_TotalBytes s, sp_AvailableBytes s))"
    and "0 \<le> r" "r < 2 ^ 63" "0 < n" "n < 2 ^ 63"
  shows "no_room cfg s r n \<longleftrightarrow> uint (sp_AvailableBytes s) < r + uint (reserveFloor cfg (sp_TotalBytes s)) + n"
proof -
  define F where "F = reserveFloor cfg (sp_TotalBytes s)"
  define R where "R = used_bytes r"
  define A where "A = sp_AvailableBytes s"
  have R: "uint R = r" using uint_used_bytes assms by (simp add: R_def)
  have F: "uint F < 2 ^ 63" using assms(1) by (simp add: plausible_def F_def word_less_def)
  have N: "uint (word_of_int n :: 64 word) = n" using assms by (simp add: uint_word_of_int_eq take_bit_int_eq_self_iff)
  have RF: "uint (R + F) = r + uint F"
    using uint_add_lem [of R F] R F assms(3) by simp
  have "no_room cfg s r n \<longleftrightarrow> uint A < r + uint F \<or> uint (A - R - F) < n"
    using assms(1) unfolding no_room_def Let_def F_def [symmetric] R_def [symmetric] A_def [symmetric]
    by (simp add: plausible_def word_less_def RF N)
  moreover have "uint (A - R - F) = uint A - (r + uint F)" if "\<not> uint A < r + uint F"
  proof -
    have "A - R - F = A - (R + F)" by simp
    then show ?thesis
      using uint_sub_lem [of "R + F" A] RF that by (metis not_less)
  qed
  ultimately show ?thesis
    using assms(4) unfolding F_def A_def by linarith
qed

lemma Reserve_cases:
  obtains "Controller_Reserve n c = (None, c)"
  | "n \<le> 0" "Controller_Reserve n c = (Some NoRelease, c)"
  | "0 < n" "\<not> sp_Critical (ct_snapshot c)" "\<not> sp_RejectNew (ct_snapshot c)"
    "\<not> no_room (ct_cfg c) (ct_snapshot c) (ct_reserved c) n"
    "Controller_Reserve n c = (Some (Release (length (ct_tokens c))),
       c\<lparr>ct_reserved := wrap64 (ct_reserved c + n), ct_tokens := ct_tokens c @ [BytesToken n False]\<rparr>)"
proof (cases "n \<le> 0 \<or> sp_Critical (ct_snapshot c) \<or> sp_RejectNew (ct_snapshot c) \<or> no_room (ct_cfg c) (ct_snapshot c) (ct_reserved c) n")
  case True
  then have "Controller_Reserve n c = (None, c) \<or> (n \<le> 0 \<and> Controller_Reserve n c = (Some NoRelease, c))"
    unfolding Controller_Reserve_def Let_def by auto
  then show ?thesis
    using that(1,2) by blast
next
  case False
  then show ?thesis
    by (intro that(3)) (simp_all add: Controller_Reserve_def Let_def)
qed

lemma Reserve_leaves_floor:
  assumes "bytes_ok c" and "snapshot_ok c" and "0 < n" "n < 2 ^ 63"
    and "Controller_Reserve n c = (Some r, c')"
  shows "ct_reserved c' = ct_reserved c + n"
    and "ct_reserved c' + uint (reserveFloor (ct_cfg c) (sp_TotalBytes (ct_snapshot c))) \<le> uint (sp_AvailableBytes (ct_snapshot c))"
    and "uint (sp_AvailableBytes (ct_snapshot c)) < 2 ^ 63"
proof -
  have c: "\<not> sp_Critical (ct_snapshot c)" "\<not> no_room (ct_cfg c) (ct_snapshot c) (ct_reserved c) n"
    and c': "ct_reserved c' = wrap64 (ct_reserved c + n)"
    using assms(3,5) by (cases rule: Reserve_cases [of n c]; auto)+
  have p: "plausible (ct_cfg c) (Some (sp_TotalBytes (ct_snapshot c), sp_AvailableBytes (ct_snapshot c)))"
    using assms(2) c by (simp add: snapshot_ok_def)
  have r: "0 \<le> ct_reserved c" "ct_reserved c < 2 ^ 63"
    using assms(1) outstanding_nonneg by (auto simp: bytes_ok_def)
  have le: "ct_reserved c + uint (reserveFloor (ct_cfg c) (sp_TotalBytes (ct_snapshot c))) + n \<le> uint (sp_AvailableBytes (ct_snapshot c))"
    using no_room_exact [OF p r assms(3,4)] c by simp
  show a: "uint (sp_AvailableBytes (ct_snapshot c)) < 2 ^ 63"
    using p by (simp add: plausible_def word_less_def word_le_def)
  have "ct_reserved c + n < 2 ^ 63"
    using le a uint_ge_0 [of "reserveFloor (ct_cfg c) (sp_TotalBytes (ct_snapshot c))"] by linarith
  then show "ct_reserved c' = ct_reserved c + n"
    using c' r assms(3) by simp
  then show "ct_reserved c' + uint (reserveFloor (ct_cfg c) (sp_TotalBytes (ct_snapshot c))) \<le> uint (sp_AvailableBytes (ct_snapshot c))"
    using le by simp
qed

lemma reserveFloor_min: "cf_MinFreeBytes cfg \<le> reserveFloor cfg tot"
  by (simp add: reserveFloor_def Let_def less_imp_le)

section \<open>Preservation\<close>

lemma upd_state_sel [simp]:
  "ct_cfg (upd_state a f c) = ct_cfg c" "ct_snapshot (upd_state a f c) = ct_snapshot c"
  "ct_tenants (upd_state a f c) = ct_tenants c" "ct_sems (upd_state a f c) = ct_sems c"
  "ct_tokens (upd_state a f c) = ct_tokens c" "ct_reserved (upd_state a f c) = ct_reserved c"
  "ct_global (upd_state a f c) = ct_global c" "ct_uploaded (upd_state a f c) = ct_uploaded c"
  "ct_statErrors (upd_state a f c) = ct_statErrors c"
  "ct_states (upd_state a f c) = (ct_states c)[a := f (ct_states c ! a)]"
  by (simp_all add: upd_state_def)

text \<open>Steps that leave the books alone.\<close>

definition same_core :: "Controller \<Rightarrow> Controller \<Rightarrow> bool" where
  "same_core c c' \<longleftrightarrow>
     ct_cfg c' = ct_cfg c \<and> ct_reserved c' = ct_reserved c \<and> ct_tokens c' = ct_tokens c \<and> ct_sems c' = ct_sems c
     \<and> ct_tenants c' = ct_tenants c \<and> map ts_sem (ct_states c') = map ts_sem (ct_states c)"

lemma same_core_refl [simp]: "same_core c c"
  by (simp add: same_core_def)

lemma same_core_trans [trans]: "same_core c c' \<Longrightarrow> same_core c' c'' \<Longrightarrow> same_core c c''"
  by (simp add: same_core_def)

lemma same_core_upd:
  assumes "ts_sem (f (ct_states c ! a)) = ts_sem (ct_states c ! a)"
  shows "same_core c (upd_state a f c)"
proof -
  have "map ts_sem ((ct_states c)[a := f (ct_states c ! a)]) = map ts_sem (ct_states c)"
    using assms by (cases "a < length (ct_states c)") (auto intro!: nth_equalityI simp: nth_list_update)
  then show ?thesis
    by (simp add: same_core_def)
qed

lemma states_ok_map:
  "states_ok c \<longleftrightarrow>
     (\<forall>(i, a)\<in>set (ct_tenants c). a < length (map ts_sem (ct_states c)) \<and> map ts_sem (ct_states c) ! a \<noteq> None)
     \<and> (\<forall>x\<in>set (map ts_sem (ct_states c)). \<forall>s. x = Some s \<longrightarrow> s < length (ct_sems c))"
  unfolding states_ok_def by (auto cong: conj_cong)

definition books_ok :: "Controller \<Rightarrow> bool" where
  "books_ok c \<longleftrightarrow> bytes_ok c \<and> slots_ok c \<and> states_ok c"

lemma same_core_books: "same_core c c' \<Longrightarrow> books_ok c \<Longrightarrow> books_ok c'"
  unfolding books_ok_def same_core_def bytes_ok_def slots_ok_def states_ok_map by (elim conjE, intro conjI) (simp_all only: simp_thms)

lemma same_core_account: "same_core c (account_tenant now a m c)"
  unfolding account_tenant_def by (rule same_core_upd) simp

lemma same_core_reject: "same_core c (snd (reject_slot a c))"
  unfolding reject_slot_def snd_conv by (rule same_core_upd) simp

lemma same_core_fields:
  "same_core c (c\<lparr>ct_uploaded := u\<rparr>)" "same_core c (ObserveDownload n c)" "same_core c (ObserveDelete n c)"
  "same_core c (c\<lparr>ct_snapshot := sp\<rparr>)" "same_core c (c\<lparr>ct_global := g\<rparr>)" "same_core c (measure_rates c)"
  "same_core c (stat_failed c)"
  by (simp_all add: same_core_def ObserveDownload_def ObserveDelete_def measure_rates_def stat_failed_def Let_def)

lemma retune_core: "same_core c (fst p) \<Longrightarrow> same_core c (fst (retune now w ia p)) \<and> ct_global (fst (retune now w ia p)) = ct_global (fst p)"
  unfolding retune_def Let_def
  by (cases ia; cases p) (auto elim!: same_core_trans intro!: same_core_upd)

lemma retune_fold:
  "same_core c (fst (fold (retune now w) ias p)) \<and> ct_global (fst (fold (retune now w) ias p)) = ct_global (fst p)"
  if "same_core c (fst p)"
  using that
proof (induction ias arbitrary: p)
  case (Cons ia ias)
  then show ?case
    using retune_core [OF Cons.prems] Cons.IH [of "retune now w ia p"] by simp
qed simp

text \<open>What a measurement sets.\<close>

lemma measured_effect:
  fixes c :: Controller and tot avail :: "64 word" and now :: gotime
  defines "eff \<equiv> eff_avail avail (used_bytes (ct_reserved c))"
  defines "pct \<equiv> used_percent tot eff"
  defines "c' \<equiv> measured tot avail now c"
  shows "same_core c c'"
    and "ct_global c' = next_limit (fst (desired_budget (ct_cfg c) (ct_drainEstimate (measure_rates c)) tot eff pct)) (ct_global c)"
    and "sp_TotalBytes (ct_snapshot c') = tot" "sp_AvailableBytes (ct_snapshot c') = avail"
    and "sp_Critical (ct_snapshot c') \<longleftrightarrow> is_critical (ct_cfg c) pct eff"
    and "sp_RejectNew (ct_snapshot c') \<longleftrightarrow> cf_HardPercent (ct_cfg c) \<le> pct \<or> is_critical (ct_cfg c) pct eff"
proof -
  define b where "b = desired_budget (ct_cfg c) (ct_drainEstimate (measure_rates c)) tot eff pct"
  define c2 where "c2 = (measure_rates c)\<lparr>ct_global := next_limit (fst b) (ct_global (measure_rates c))\<rparr>"
  define q where "q = fold (retune now (active_weight now c2)) (ct_tenants c2) (c2, [])"
  obtain sp where m: "measured tot avail now c = (fst q)\<lparr>ct_snapshot := sp\<rparr>"
    and sp: "sp_TotalBytes sp = tot" "sp_AvailableBytes sp = avail"
      "sp_Critical sp \<longleftrightarrow> is_critical (ct_cfg c) pct eff"
      "sp_RejectNew sp \<longleftrightarrow> cf_HardPercent (ct_cfg c) \<le> pct \<or> is_critical (ct_cfg c) pct eff"
    unfolding measured_def Let_def q_def c2_def b_def pct_def eff_def by (auto simp: case_prod_beta)
  have "same_core c c2"
    unfolding c2_def by (rule same_core_trans [OF same_core_fields(6) same_core_fields(5)])
  then have q: "same_core c (fst q)" "ct_global (fst q) = ct_global c2"
    using retune_fold [of c "(c2, [])"] by (simp_all add: q_def)
  show "same_core c c'"
    unfolding c'_def m by (rule same_core_trans [OF q(1) same_core_fields(4)])
  have "ct_global (measure_rates c) = ct_global c"
    by (simp add: measure_rates_def Let_def)
  then show "ct_global c' = next_limit (fst (desired_budget (ct_cfg c) (ct_drainEstimate (measure_rates c)) tot eff pct)) (ct_global c)"
    using q(2) unfolding c'_def m c2_def b_def by simp
  show "sp_TotalBytes (ct_snapshot c') = tot" "sp_AvailableBytes (ct_snapshot c') = avail"
    "sp_Critical (ct_snapshot c') \<longleftrightarrow> is_critical (ct_cfg c) pct eff"
    "sp_RejectNew (ct_snapshot c') \<longleftrightarrow> cf_HardPercent (ct_cfg c) \<le> pct \<or> is_critical (ct_cfg c) pct eff"
    unfolding c'_def m using sp by simp_all
qed

text \<open>Replacing the accounts: new channels are empty, and channels in use stay where they are.\<close>

definition sync_frame :: "Controller \<Rightarrow> Controller \<Rightarrow> bool" where
  "sync_frame c c' \<longleftrightarrow>
     ct_cfg c' = ct_cfg c \<and> ct_reserved c' = ct_reserved c \<and> ct_tokens c' = ct_tokens c \<and> ct_snapshot c' = ct_snapshot c"

lemma slots_ok_new:
  assumes "slots_ok c" and "0 < n"
  shows "slots_ok (c\<lparr>ct_sems := ct_sems c @ [\<lparr>sm_cap = n, sm_len = 0\<rparr>]\<rparr>)"
proof -
  have "holders (length (ct_sems c)) (ct_tokens c) = 0"
    using assms(1) by (auto simp: slots_ok_def holders_def filter_empty_conv)
  then show ?thesis
    using assms by (auto simp: slots_ok_def nth_append less_Suc_eq)
qed

text \<open>\<open>states_ok\<close>, except that the state at address \<open>a\<close> may still lack its channel.\<close>

definition states_ok_but :: "nat \<Rightarrow> Controller \<Rightarrow> bool" where
  "states_ok_but a c \<longleftrightarrow>
     a < length (ct_states c)
     \<and> (\<forall>(i, b)\<in>set (ct_tenants c). b < length (ct_states c) \<and> (b \<noteq> a \<longrightarrow> ts_sem (ct_states c ! b) \<noteq> None))
     \<and> (\<forall>st\<in>set (ct_states c). \<forall>s. ts_sem st = Some s \<longrightarrow> s < length (ct_sems c))"

lemma find_state_ok:
  assumes "states_ok c" and "find_state i c = (a, c1)"
  shows "states_ok_but a c1 \<and> sync_frame c c1 \<and> ct_sems c1 = ct_sems c"
proof (cases "tenant_state c i")
  case None
  then show ?thesis
    using assms by (fastforce simp: find_state_def states_ok_def states_ok_but_def sync_frame_def nth_append new_state_def)
next
  case (Some b)
  then have "(i, b) \<in> set (ct_tenants c)"
    by (simp add: tenant_state_def map_of_SomeD)
  then show ?thesis
    using Some assms by (auto simp: find_state_def states_ok_def states_ok_but_def sync_frame_def)
qed

lemma set_sem_ok:
  assumes "states_ok_but a c" and "slots_ok c" and "0 < n"
  shows "states_ok (set_sem a n c) \<and> slots_ok (set_sem a n c) \<and> sync_frame c (set_sem a n c)"
proof (cases "case ts_sem (ct_states c ! a) of None \<Rightarrow> True | Some s \<Rightarrow> sm_cap (ct_sems c ! s) \<noteq> n")
  case True
  define c1 where "c1 = c\<lparr>ct_sems := ct_sems c @ [\<lparr>sm_cap = n, sm_len = 0\<rparr>]\<rparr>"
  have e: "set_sem a n c = upd_state a (\<lambda>st. st\<lparr>ts_sem := Some (length (ct_sems c))\<rparr>) c1"
    using True by (simp add: set_sem_def c1_def)
  have "slots_ok c1"
    unfolding c1_def by (rule slots_ok_new [OF assms(2,3)])
  then have "slots_ok (set_sem a n c)"
    by (simp add: e slots_ok_def)
  moreover have "states_ok (set_sem a n c)"
    using assms(1) unfolding e states_ok_def states_ok_but_def c1_def
    by (fastforce simp: nth_list_update dest: set_update_subset_insert [THEN subsetD])
  ultimately show ?thesis
    by (simp add: e c1_def sync_frame_def)
next
  case False
  then have "states_ok c"
    using assms(1) by (fastforce simp: states_ok_def states_ok_but_def split: option.splits)
  then show ?thesis
    using False assms(2) by (simp add: set_sem_def sync_frame_def)
qed

lemma sync_one_ok:
  assumes "states_ok c" and "slots_ok c"
  shows "states_ok (sync_one t c) \<and> slots_ok (sync_one t c) \<and> sync_frame c (sync_one t c)"
proof -
  obtain a c1 where f: "find_state (tn_ID t) c = (a, c1)" by fastforce
  define w where "w = (if tn_Weight t \<le> 0 then 1 else tn_Weight t)"
  define n where "n = (if tn_MaxConcurrent t \<le> 0 then 8 else tn_MaxConcurrent t)"
  define c2 where "c2 = upd_state a (set_limits w (tn_MaxUploadBPS t)) c1"
  have c1: "states_ok_but a c1" "sync_frame c c1" "ct_sems c1 = ct_sems c"
    using find_state_ok [OF assms(1) f] by simp_all
  have "states_ok_but a c2"
    using c1(1) by (fastforce simp: c2_def states_ok_but_def nth_list_update set_limits_def dest: set_update_subset_insert [THEN subsetD])
  moreover have "slots_ok c2"
    using assms(2) c1(2,3) by (simp add: c2_def slots_ok_def sync_frame_def)
  moreover have "0 < n"
    by (simp add: n_def)
  ultimately have "states_ok (set_sem a n c2) \<and> slots_ok (set_sem a n c2) \<and> sync_frame c2 (set_sem a n c2)"
    by (rule set_sem_ok)
  moreover have "sync_one t c = set_sem a n c2"
    by (simp add: sync_one_def f n_def w_def c2_def Let_def)
  moreover have "sync_frame c c2"
    using c1(2) by (simp add: c2_def sync_frame_def)
  ultimately show ?thesis
    by (simp add: sync_frame_def)
qed

lemma sync_fold_ok:
  "states_ok c \<Longrightarrow> slots_ok c \<Longrightarrow>
   states_ok (fold sync_one ts c) \<and> slots_ok (fold sync_one ts c) \<and> sync_frame c (fold sync_one ts c)"
proof (induction ts arbitrary: c)
  case (Cons t ts)
  have t: "states_ok (sync_one t c)" "slots_ok (sync_one t c)" "sync_frame c (sync_one t c)"
    using sync_one_ok [OF Cons.prems] by simp_all
  show ?case
    using Cons.IH [OF t(1,2)] t(3) by (simp add: sync_frame_def)
qed (simp add: sync_frame_def)

lemma SyncTenants_ok:
  assumes "books_ok c"
  shows "books_ok (SyncTenants ts c)" and "sync_frame c (SyncTenants ts c)"
proof -
  define c1 where "c1 = fold sync_one ts c"
  have c1: "states_ok c1" "slots_ok c1" "sync_frame c c1"
    using sync_fold_ok [of c ts] assms by (simp_all add: books_ok_def c1_def)
  have e: "SyncTenants ts c = c1\<lparr>ct_tenants := filter (\<lambda>(i, a). i \<in> set (map tn_ID ts)) (ct_tenants c1)\<rparr>"
    by (simp add: SyncTenants_def c1_def Let_def)
  show "sync_frame c (SyncTenants ts c)"
    using c1(3) by (simp add: e sync_frame_def)
  show "books_ok (SyncTenants ts c)"
    using c1 assms unfolding e books_ok_def
    by (auto simp: bytes_ok_def slots_ok_def states_ok_def sync_frame_def)
qed

text \<open>Taking a slot, releasing and reserving.\<close>

lemma send_ok:
  assumes "books_ok c" and "s < length (ct_sems c)" and "has_slot s c"
  shows "books_ok (snd (send s c))"
  using assms unfolding books_ok_def bytes_ok_def slots_ok_def states_ok_def send_def has_slot_def
  by (auto simp: nth_list_update)

lemma call_release_ok:
  assumes "books_ok c"
  shows "books_ok (call_release r c) \<and> ct_cfg (call_release r c) = ct_cfg c \<and> ct_snapshot (call_release r c) = ct_snapshot c"
proof (cases "\<exists>k. r = Release k \<and> k < length (ct_tokens c) \<and> ct_tokens c ! k \<in> {t. \<exists>n s. t = BytesToken n False \<or> t = SlotToken s False}")
  case False
  then have "call_release r c = c"
    by (auto simp: call_release_def split: release.splits token.splits)
  then show ?thesis using assms by simp
next
  case True
  then obtain k where k: "r = Release k" "k < length (ct_tokens c)"
    and "(\<exists>n. ct_tokens c ! k = BytesToken n False) \<or> (\<exists>s. ct_tokens c ! k = SlotToken s False)"
    by auto
  then consider n where "ct_tokens c ! k = BytesToken n False" | s where "ct_tokens c ! k = SlotToken s False"
    by blast
  then show ?thesis
  proof cases
    case 1
    have "BytesToken n False \<in> set (ct_tokens c)"
      using 1 k(2) by (metis nth_mem)
    then have n: "0 < n" "0 \<le> outstanding (ct_tokens c)"
      using assms outstanding_nonneg by (auto simp: books_ok_def bytes_ok_def)
    have pos: "\<forall>m used. BytesToken m used \<in> set ((ct_tokens c)[k := BytesToken n True]) \<longrightarrow> 0 < m"
      using assms n set_update_subset_insert [of "ct_tokens c" k "BytesToken n True"]
      by (auto simp: books_ok_def bytes_ok_def)
    have o: "outstanding ((ct_tokens c)[k := BytesToken n True]) = outstanding (ct_tokens c) - n"
      using 1 k(2) by (rule outstanding_use(1) [rotated])
    have "wrap64 (ct_reserved c - n) = outstanding (ct_tokens c) - n"
      using outstanding_nonneg [OF pos] o n assms by (simp add: books_ok_def bytes_ok_def)
    moreover have e: "call_release r c =
        c\<lparr>ct_reserved := wrap64 (ct_reserved c - n), ct_tokens := (ct_tokens c)[k := BytesToken n True]\<rparr>"
      using k 1 by (simp add: call_release_def)
    moreover have "slots_ok (call_release r c)"
      using assms 1 k(2) set_update_subset_insert [of "ct_tokens c" k "BytesToken n True"]
      unfolding e slots_ok_def books_ok_def by (auto simp: holders_use(1))
    ultimately show ?thesis
      using assms pos n o unfolding books_ok_def by (simp add: bytes_ok_def states_ok_def)
  next
    case 2
    have "SlotToken s False \<in> set (ct_tokens c)"
      using 2 k(2) by (metis nth_mem)
    then have s: "s < length (ct_sems c)"
      using assms by (auto simp: books_ok_def slots_ok_def)
    have h: "holders s ((ct_tokens c)[k := SlotToken s True]) = holders s (ct_tokens c) - 1"
      "\<And>s'. s' \<noteq> s \<Longrightarrow> holders s' ((ct_tokens c)[k := SlotToken s True]) = holders s' (ct_tokens c)"
      using holders_use(2,3) [OF k(2) 2] by auto
    have e: "call_release r c = recv s (c\<lparr>ct_tokens := (ct_tokens c)[k := SlotToken s True]\<rparr>)"
      using k 2 by (simp add: call_release_def)
    have mem: "s' < length (ct_sems c)" if "SlotToken s' used \<in> set ((ct_tokens c)[k := SlotToken s True])" for s' used
      using subsetD [OF set_update_subset_insert that] assms s by (auto simp: books_ok_def slots_ok_def)
    have "slots_ok (call_release r c)"
      using assms s h mem
      unfolding e recv_def slots_ok_def books_ok_def by (auto simp: nth_list_update)
    moreover have "bytes_ok (call_release r c)"
      using assms 2 k(2) set_update_subset_insert [of "ct_tokens c" k "SlotToken s True"]
      unfolding e recv_def bytes_ok_def books_ok_def by (auto simp: outstanding_use(2))
    ultimately show ?thesis
      using assms unfolding books_ok_def by (simp add: e recv_def states_ok_def)
  qed
qed

lemma call_release_once: "call_release r (call_release r c) = call_release r c"
  by (auto simp: call_release_def recv_def split: release.splits token.splits)

lemma Reserve_ok:
  assumes "books_ok c" and "snapshot_ok c" and "n < 2 ^ 63"
  shows "books_ok (snd (Controller_Reserve n c)) \<and> ct_cfg (snd (Controller_Reserve n c)) = ct_cfg c
    \<and> ct_snapshot (snd (Controller_Reserve n c)) = ct_snapshot c"
proof (cases rule: Reserve_cases [of n c])
  case 3
  have b: "bytes_ok c" using assms(1) by (simp add: books_ok_def)
  have "ct_reserved c + n < 2 ^ 63"
    using Reserve_leaves_floor [OF b assms(2) 3(1) assms(3) 3(5)]
      uint_ge_0 [of "reserveFloor (ct_cfg c) (sp_TotalBytes (ct_snapshot c))"] by linarith
  moreover have "0 \<le> ct_reserved c"
    using b outstanding_nonneg by (auto simp: bytes_ok_def)
  ultimately have "wrap64 (ct_reserved c + n) = ct_reserved c + n" "outstanding (ct_tokens c) + n < 2 ^ 63"
    using 3(1) b by (simp_all add: bytes_ok_def)
  then show ?thesis
    using assms(1) 3(1) unfolding 3(5) books_ok_def by (auto simp: bytes_ok_def slots_ok_def states_ok_def)
qed (use assms in auto)

section \<open>Every step keeps the invariant\<close>

definition controller_ok :: "Controller \<Rightarrow> bool" where
  "controller_ok c \<longleftrightarrow> books_ok c \<and> snapshot_ok c"

lemma Sample_ok:
  assumes "books_ok c" and "plausible (ct_cfg c) stat"
  shows "controller_ok (Sample stat now c) \<and> ct_cfg (Sample stat now c) = ct_cfg c"
proof (cases stat)
  case None
  then show ?thesis
    using same_core_books [OF same_core_fields(7) assms(1)]
    by (simp add: Sample_def controller_ok_def snapshot_ok_def stat_failed_def Let_def)
next
  case (Some p)
  obtain tot avail where p: "p = (tot, avail)" by fastforce
  have c: "same_core c (measured tot avail now c)"
    by (rule measured_effect)
  then show ?thesis
    using same_core_books [OF c assms(1)] assms(2) measured_effect(3,4) [of tot avail now c]
    by (simp add: Some p Sample_def controller_ok_def snapshot_ok_def same_core_def)
qed

lemma same_core_ok:
  "same_core c c' \<Longrightarrow> ct_snapshot c' = ct_snapshot c \<Longrightarrow> controller_ok c \<Longrightarrow> controller_ok c' \<and> ct_cfg c' = ct_cfg c"
  using same_core_books unfolding controller_ok_def snapshot_ok_def same_core_def by fastforce

lemma cstep_ok: "cstep c c' \<Longrightarrow> controller_ok c \<Longrightarrow> controller_ok c' \<and> ct_cfg c' = ct_cfg c"
proof (induction rule: cstep.induct)
  case (sync c ts)
  then show ?case
    using SyncTenants_ok [of c ts] by (simp add: controller_ok_def snapshot_ok_def sync_frame_def)
next
  case (sample c stat now)
  then show ?case
    using Sample_ok by (simp add: controller_ok_def)
next
  case (reserve n c)
  then show ?case
    using Reserve_ok [of c n] by (simp add: controller_ok_def snapshot_ok_def)
next
  case (release c r)
  then show ?case
    using call_release_ok [of c r] by (simp add: controller_ok_def snapshot_ok_def)
next
  case (slot s c)
  then show ?case
    using send_ok [of c s] by (simp add: controller_ok_def snapshot_ok_def send_def)
next
  case (reject a c)
  then show ?case
    by (intro same_core_ok [OF same_core_reject]) (simp_all add: reject_slot_def)
next
  case (charge a c now m)
  then show ?case
    by (intro same_core_ok [OF same_core_account]) (simp_all add: account_tenant_def)
next
  case (upload c u)
  then show ?case
    by (intro same_core_ok [OF same_core_fields(1)]) simp_all
next
  case (download c n)
  then show ?case
    by (intro same_core_ok [OF same_core_fields(2)]) (simp_all add: ObserveDownload_def)
next
  case (delete c n)
  then show ?case
    by (intro same_core_ok [OF same_core_fields(3)]) (simp_all add: ObserveDelete_def)
qed

interpretation capacity_run: kept_by_steps cstep controller_ok ct_cfg
  by unfold_locales (rule cstep_ok)

text \<open>A new controller has consistent books, and a first measurement makes the invariant hold.\<close>

lemma New_books: "books_ok (NewWithStatFS cfg ts) \<and> ct_cfg (NewWithStatFS cfg ts) = cfg"
proof -
  define c where "c = \<lparr>ct_cfg = cfg,
    ct_global = (if 0 < cf_MaxUploadBPS cfg then Lim (rnd64 (of_int (cf_MaxUploadBPS cfg))) else Inf),
    ct_snapshot = zero_snapshot, ct_tenants = [], ct_states = [], ct_sems = [], ct_tokens = [], ct_reserved = 0,
    ct_statErrors = 0, ct_uploaded = 0, ct_downloaded = 0, ct_deleted = 0, ct_lastUploaded = 0, ct_lastDownloaded = 0,
    ct_lastDel = 0, ct_ewmaUpload = 0, ct_ewmaDownload = 0, ct_ewmaDelete = 0, ct_drainEstimate = 0,
    ct_sampledOnce = False\<rparr>"
  have "books_ok c"
    by (simp add: c_def books_ok_def bytes_ok_def slots_ok_def states_ok_def)
  then show ?thesis
    using SyncTenants_ok [of c ts] unfolding NewWithStatFS_def c_def [symmetric] by (simp add: sync_frame_def) (simp add: c_def)
qed

lemma started_ok:
  assumes "plausible cfg stat" and "csteps (Sample stat now (NewWithStatFS cfg ts)) c"
  shows "controller_ok c \<and> ct_cfg c = cfg"
  using capacity_run.steps_keep [OF assms(2)] Sample_ok [of "NewWithStatFS cfg ts" stat now] New_books [of cfg ts] assms(1) by simp

section \<open>Operations as sequences of steps\<close>

text \<open>Addresses stay valid: steps only append states and channels.\<close>

definition grows :: "Controller \<Rightarrow> Controller \<Rightarrow> bool" where
  "grows c c' \<longleftrightarrow> length (ct_states c) \<le> length (ct_states c') \<and> length (ct_sems c) \<le> length (ct_sems c')"

lemma grows_trans: "grows c c' \<Longrightarrow> grows c' c'' \<Longrightarrow> grows c c''"
  by (simp add: grows_def)

lemma same_core_grows: "same_core c c' \<Longrightarrow> grows c c'"
  unfolding same_core_def grows_def by (metis length_map order_refl)

lemma sync_one_grows: "grows c (sync_one t c)"
  by (auto simp: grows_def sync_one_def find_state_def set_sem_def Let_def split: option.splits)

lemma sync_fold_grows: "grows c (fold sync_one ts c)"
proof (induction ts arbitrary: c)
  case (Cons t ts)
  then show ?case
    using sync_one_grows [of c t] Cons.IH [of "sync_one t c"] by (auto intro: grows_trans)
qed (simp add: grows_def)

lemma cstep_grows: "cstep c c' \<Longrightarrow> grows c c'"
proof (induction rule: cstep.induct)
  case (sync c ts)
  then show ?case
    using sync_fold_grows [of c ts] by (simp add: SyncTenants_def grows_def Let_def)
next
  case (sample c stat now)
  then show ?case
    using measured_effect(1) [of c _ _ now] same_core_fields(7) [of c]
    by (auto simp: Sample_def intro: same_core_grows split: option.splits prod.splits)
next
  case (reserve n c)
  then show ?case
    by (cases rule: Reserve_cases [of n c]) (simp_all add: grows_def)
next
  case (release c r)
  then show ?case
    by (auto simp: call_release_def grows_def recv_def split: release.splits token.splits)
next
  case (slot s c)
  then show ?case
    by (simp add: send_def grows_def)
qed (auto intro: same_core_grows same_core_reject same_core_account same_core_fields)

lemma csteps_grows: "csteps c c' \<Longrightarrow> grows c c'"
proof (induction rule: rtranclp_induct)
  case (step y z)
  then show ?case
    using cstep_grows grows_trans by blast
qed (simp add: grows_def)

lemma AllowBytes_steps:
  assumes "n < 2 ^ 63"
  shows "csteps c (snd (AllowBytes n c))"
proof -
  obtain r c' where r: "Controller_Reserve n c = (r, c')" by fastforce
  then have c': "csteps c c'"
    using cstep.reserve [OF assms, of c] by simp
  have "csteps c (call_release x c')" for x
    using c' cstep.release [of c' x] by (rule rtranclp.rtrancl_into_rtrancl)
  then show ?thesis
    using c' by (cases r) (simp_all add: AllowBytes_def r)
qed

lemma AcquireUpload_steps:
  assumes "controller_ok c" and "csteps c (env c)"
  shows "csteps c (snd (AcquireUpload env ev tenant c))"
proof (cases "tenant_state c tenant")
  case (Some a)
  then have "(tenant, a) \<in> set (ct_tenants c)"
    by (simp add: tenant_state_def map_of_SomeD)
  then obtain s where a: "a < length (ct_states c)" and s: "ts_sem (ct_states c ! a) = Some s"
    using assms(1) by (auto simp: controller_ok_def books_ok_def states_ok_def)
  then have sl: "s < length (ct_sems c)"
    using assms(1) nth_mem [OF a] by (auto simp: controller_ok_def books_ok_def states_ok_def)
  have g: "a < length (ct_states (env c))" "s < length (ct_sems (env c))"
    using csteps_grows [OF assms(2)] a sl by (simp_all add: grows_def)
  have here: "has_slot s c \<Longrightarrow> csteps c (snd (send s c))" "csteps c (snd (reject_slot a c))"
    using cstep.slot [OF sl] cstep.reject [OF a] by blast+
  have later: "has_slot s (env c) \<Longrightarrow> csteps c (snd (send s (env c)))" "csteps c (snd (reject_slot a (env c)))"
    using cstep.slot [OF g(2)] cstep.reject [OF g(1)] assms(2) by (meson rtranclp.rtrancl_into_rtrancl)+
  show ?thesis
    using here later assms(2) unfolding AcquireUpload_def Some option.case s Let_def
    by (auto simp: case_prod_beta split: slot_event.splits)
qed (simp add: AcquireUpload_def)

declare wait_chunks.simps [simp del]

lemma wait_chunks_steps:
  assumes "\<And>k c. csteps c (env k c)" and "\<And>a. st = Some a \<Longrightarrow> a < length (ct_states c)"
  shows "csteps c (snd (wait_chunks gw tw env clock st k n c))"
  using assms(2)
proof (induction n arbitrary: k c rule: less_induct)
  case (less n)
  define m where "m = min n burst"
  define c1 where "c1 = env k c"
  have c1: "csteps c c1" unfolding c1_def by (rule assms(1))
  show ?case
  proof (cases "n = 0")
    case False
    then have m: "n - m < n" by (simp add: m_def burst_def)
    have one: "csteps c (snd (wait_chunks gw tw env clock st (Suc k) (n - m) (c2\<lparr>ct_uploaded := ct_uploaded c2 + of_nat m\<rparr>)))"
      if "csteps c c2" for c2
    proof -
      define c3 where "c3 = c2\<lparr>ct_uploaded := ct_uploaded c2 + of_nat m\<rparr>"
      have c3: "csteps c c3"
        using that cstep.upload unfolding c3_def by (meson rtranclp.rtrancl_into_rtrancl)
      moreover have "csteps c3 (snd (wait_chunks gw tw env clock st (Suc k) (n - m) c3))"
      proof (rule less.IH [OF m])
        fix a assume "st = Some a"
        then show "a < length (ct_states c3)"
          using less.prems csteps_grows [OF c3] by (auto simp: grows_def intro: less_le_trans)
      qed
      ultimately show ?thesis
        unfolding c3_def [symmetric] by (rule rtranclp_trans)
    qed
    have two: "csteps c (account_tenant (clock k) a m c1)" if "st = Some a" for a
    proof -
      have "a < length (ct_states c1)"
        using less.prems [OF that] csteps_grows [OF c1] by (simp add: grows_def)
      then show ?thesis
        using c1 cstep.charge by (meson rtranclp.rtrancl_into_rtrancl)
    qed
    show ?thesis
      using one [OF two] one [OF c1] c1 False
      unfolding wait_chunks.simps [of gw tw env clock st k n c] Let_def m_def [symmetric] c1_def [symmetric]
      by (auto split: option.splits)
  qed (simp add: wait_chunks.simps)
qed

lemma WaitN_steps:
  assumes "controller_ok c" and "\<And>k c. csteps c (env k c)"
  shows "csteps c (snd (WaitN gw tw env clock tenant n c))"
proof -
  have "a < length (ct_states c)" if "tenant_state c tenant = Some a" for a
    using that assms(1) unfolding tenant_state_def controller_ok_def books_ok_def states_ok_def by (fastforce dest: map_of_SomeD)
  then show ?thesis
    unfolding WaitN_def using wait_chunks_steps [OF assms(2)] by simp
qed

section \<open>Accounting\<close>

text \<open>Other requests add to the counters while this one waits.\<close>

definition adds :: "(nat \<Rightarrow> Controller \<Rightarrow> Controller) \<Rightarrow> (nat \<Rightarrow> nat) \<Rightarrow> (nat \<Rightarrow> nat) \<Rightarrow> nat \<Rightarrow> bool" where
  "adds env up bs a \<longleftrightarrow>
     (\<forall>k c. ct_uploaded (env k c) = ct_uploaded c + of_nat (up k)
        \<and> length (ct_states c) \<le> length (ct_states (env k c))
        \<and> (a < length (ct_states c) \<longrightarrow> ts_bytes (ct_states (env k c) ! a) = ts_bytes (ct_states c ! a) + of_nat (bs k)))"

definition counted :: "nat \<Rightarrow> Controller \<Rightarrow> Controller \<Rightarrow> nat \<Rightarrow> (nat \<Rightarrow> nat) \<Rightarrow> (nat \<Rightarrow> nat) \<Rightarrow> nat set \<Rightarrow> bool" where
  "counted a c c' n up bs K \<longleftrightarrow>
     ct_uploaded c' = ct_uploaded c + of_nat (n + sum up K)
     \<and> ts_bytes (ct_states c' ! a) = ts_bytes (ct_states c ! a) + of_nat (n + sum bs K)"

lemma wait_chunks_exact:
  assumes "adds env up bs a" and "a < length (ct_states c)" and "wait_chunks gw tw env clock (Some a) k n c = (r, c')"
  shows "(r = None \<and> (\<exists>i. n \<le> i * burst \<and> i * burst < n + burst \<and> counted a c c' n up bs {k..<k + i}))
    \<or> (\<exists>i e. i * burst < n \<and> r = Some (ErrWait e) \<and> counted a c c' (i * burst) up bs {k..<k + Suc i}
         \<and> (let m = min (n - i * burst) burst in gw (k + i) m = Some e \<or> tw (k + i) m = Some e))"
  using assms(2,3)
proof (induction n arbitrary: k c rule: less_induct)
  case (less n)
  define m where "m = min n burst"
  define c1 where "c1 = env k c"
  have c1: "ct_uploaded c1 = ct_uploaded c + of_nat (up k)" "a < length (ct_states c1)"
    "ts_bytes (ct_states c1 ! a) = ts_bytes (ct_states c ! a) + of_nat (bs k)"
    using assms(1) less.prems(1) unfolding adds_def c1_def by (auto intro: less_le_trans)
  show ?case
  proof (cases "n = 0")
    case True
    then show ?thesis
      using less.prems(2) by (intro disjI1) (auto simp: wait_chunks.simps counted_def burst_def intro!: exI [of _ 0])
  next
    case False
    show ?thesis
    proof (cases "gw k m = None \<and> tw k m = None")
      case False
      then obtain e where e: "gw k m = Some e \<or> tw k m = Some e" "(r, c') = (Some (ErrWait e), c1)"
        using less.prems(2) \<open>n \<noteq> 0\<close>
        unfolding wait_chunks.simps [of gw tw env clock "Some a" k n c] Let_def m_def [symmetric] c1_def [symmetric]
        by (auto split: option.splits)
      then show ?thesis
        using c1 \<open>n \<noteq> 0\<close> by (intro disjI2 exI [of _ 0] exI [of _ e]) (simp add: counted_def m_def Let_def)
    next
      case True
      define c2 where "c2 = account_tenant (clock k) a m c1"
      define c3 where "c3 = c2\<lparr>ct_uploaded := ct_uploaded c2 + of_nat m\<rparr>"
      have rec: "wait_chunks gw tw env clock (Some a) (Suc k) (n - m) c3 = (r, c')"
        using less.prems(2) \<open>n \<noteq> 0\<close> True
        unfolding wait_chunks.simps [of gw tw env clock "Some a" k n c] Let_def m_def [symmetric] c1_def [symmetric]
        by (simp add: c2_def c3_def)
      have c3: "a < length (ct_states c3)" "counted a c c3 m up bs {k}"
        using c1 by (simp_all add: c3_def c2_def account_tenant_def counted_def)
      have lt: "n - m < n" using \<open>n \<noteq> 0\<close> by (simp add: m_def burst_def)
      have glue: "counted a c c' (m + l) up bs {k..<k + Suc i}" if "counted a c3 c' l up bs {Suc k..<Suc k + i}" for l i
      proof -
        have "{k..<k + Suc i} = insert k {Suc k..<Suc k + i}" by auto
        then show ?thesis
          using that c3(2) by (simp add: counted_def algebra_simps)
      qed
      from less.IH [OF lt c3(1) rec] show ?thesis
      proof (elim disjE conjE exE)
        fix i assume i: "r = None" "n - m \<le> i * burst" "i * burst < n - m + burst" "counted a c3 c' (n - m) up bs {Suc k..<Suc k + i}"
        have "i = 0 \<or> burst \<le> i * burst" by (cases i) auto
        then have "n \<le> Suc i * burst \<and> Suc i * burst < n + burst"
          using i(2,3) \<open>n \<noteq> 0\<close> by (auto simp: m_def min_def burst_def split: if_splits)
        then show ?thesis
          using glue [OF i(4)] i(1) by (intro disjI1 conjI exI [of _ "Suc i"]) (simp_all add: m_def)
      next
        fix i e assume i: "i * burst < n - m" "r = Some (ErrWait e)" "counted a c3 c' (i * burst) up bs {Suc k..<Suc k + Suc i}"
          "let m' = min (n - m - i * burst) burst in gw (Suc k + i) m' = Some e \<or> tw (Suc k + i) m' = Some e"
        then have "m = burst" by (auto simp: m_def min_def split: if_splits)
        then show ?thesis
          using i glue [OF i(3)] by (intro disjI2 exI [of _ "Suc i"] exI [of _ e]) (auto simp: Let_def)
      qed
    qed
  qed
qed

lemma wait_chunks_granted:
  assumes "\<And>k m. 0 < m \<Longrightarrow> m \<le> burst \<Longrightarrow> gw k m = None \<and> tw k m = None"
  shows "fst (wait_chunks gw tw env clock st k n c) = None"
proof (induction n arbitrary: k c rule: less_induct)
  case (less n)
  show ?case
  proof (cases "n = 0")
    case False
    define m where "m = min n burst"
    have m: "0 < m" "m \<le> burst" "n - m < n"
      using False by (simp_all add: m_def burst_def)
    show ?thesis
      using assms [OF m(1,2)] less.IH [OF m(3)] False
      unfolding wait_chunks.simps [of gw tw env clock st k n c] Let_def m_def [symmetric]
      by (cases st) simp_all
  qed (simp add: wait_chunks.simps)
qed

section \<open>The watermarks\<close>

lemma critical_refuses:
  assumes "sp_Critical (ct_snapshot c)"
  shows "Controller_AdmitUpload c = Some ErrCriticalCapacity" and "CheckCritical c = Some ErrCriticalCapacity"
    and "0 < n \<Longrightarrow> Controller_Reserve n c = (None, c)"
    and "0 < n \<Longrightarrow> WaitN gw tw env clock tenant n c = (Some ErrCriticalCapacity, c)"
  using assms by (simp_all add: Controller_AdmitUpload_def CheckCritical_def Controller_Reserve_def WaitN_def)

lemma next_limit_bound: "next_limit (Lim d) cur = Lim l \<Longrightarrow> 1 \<le> l \<and> l \<le> max d 1"
  by (auto simp: next_limit_def split: limit.splits if_splits)

lemma next_limit_Lim: "\<exists>l. next_limit (Lim d) cur = Lim l"
  by (auto simp: next_limit_def split: limit.splits)

text \<open>The available bytes and the used percentage that a measurement works with.\<close>

definition eff_of :: "Controller \<Rightarrow> 64 word \<Rightarrow> 64 word" where
  "eff_of c avail = eff_avail avail (used_bytes (ct_reserved c))"

definition pct_of :: "Controller \<Rightarrow> 64 word \<Rightarrow> 64 word \<Rightarrow> rat" where
  "pct_of c tot avail = used_percent tot (eff_of c avail)"

lemma desired_budget_bound:
  assumes "0 < cf_MaxUploadBPS cfg"
  shows "\<exists>d. fst (desired_budget cfg drain tot eff pct) = Lim d \<and> d \<le> max 0 (rnd64 (of_int (cf_MaxUploadBPS cfg)))"
  using assms by (auto simp: desired_budget_def Let_def split: if_splits)

lemma desired_budget_critical: "is_critical cfg pct eff \<Longrightarrow> fst (desired_budget cfg drain tot eff pct) = Lim 0"
  by (auto simp: desired_budget_def Let_def)

section \<open>The account table as a subscriber sees it\<close>

lemma sync_one_ids: "fst ` set (ct_tenants (sync_one t c)) = insert (tn_ID t) (fst ` set (ct_tenants c))"
proof (cases "tenant_state c (tn_ID t)")
  case None
  then show ?thesis
    by (simp add: sync_one_def find_state_def set_sem_def Let_def)
next
  case (Some a)
  then have "tn_ID t \<in> fst ` set (ct_tenants c)"
    by (force simp: tenant_state_def dest: map_of_SomeD)
  then show ?thesis
    using Some by (auto simp: sync_one_def find_state_def set_sem_def Let_def)
qed

lemma SyncTenants_ids: "set (TenantIDs (SyncTenants ts c)) = tn_ID ` set ts"
proof -
  have "fst ` set (ct_tenants (fold sync_one ts c)) = tn_ID ` set ts \<union> fst ` set (ct_tenants c)"
    by (induction ts arbitrary: c) (auto simp: sync_one_ids)
  moreover have "set (TenantIDs (SyncTenants ts c)) = fst ` set (ct_tenants (fold sync_one ts c)) \<inter> tn_ID ` set ts"
    by (auto simp: TenantIDs_def SyncTenants_def Let_def)
  ultimately show ?thesis
    by blast
qed

end
