(* ===== verification/Netguard.thy ===== *)
theory Netguard
  imports Prelude "HOL-Library.Word" "HOL-Library.AList"
begin

text \<open>
  The guards in front of the protocol servers (\<^verbatim>\<open>internal/netguard/netguard.go\<close>): the connection limits of a
  listener, the idle deadlines of its connections and of HTTP requests, and the limiter of failed
  authentications. Sockets are not modelled: what the wrapped listener, reader and writer return are arguments, and of
  a connection the model keeps the deadlines set on it.
\<close>

section \<open>Addresses\<close>

text \<open>\<open>net.SplitHostPort\<close>: host and port of an address, or an error.\<close>

definition index_of :: "char \<Rightarrow> string \<Rightarrow> nat option" where
  "index_of c s = (if c \<in> set s then Some (length (takeWhile (\<lambda>x. x \<noteq> c) s)) else None)"

definition SplitHostPort :: "string \<Rightarrow> (string \<times> string) option" where
  "SplitHostPort hp =
     (case last_index CHR '':'' hp of
        None \<Rightarrow> None
      | Some i \<Rightarrow>
          if hd hp = CHR ''['' then
            (case index_of CHR '']'' hp of
               None \<Rightarrow> None
             | Some e \<Rightarrow>
                 if Suc e \<noteq> i then None
                 else if CHR ''['' \<in> set (drop 1 hp) \<or> CHR '']'' \<in> set (drop (Suc e) hp) then None
                 else Some (take (e - 1) (drop 1 hp), drop (Suc i) hp))
          else if CHR '':'' \<in> set (take i hp) \<or> CHR ''['' \<in> set hp \<or> CHR '']'' \<in> set hp then None
          else Some (take i hp, drop (Suc i) hp))"

text \<open>\<open>None\<close> is the nil address.\<close>

definition hostOf :: "string option \<Rightarrow> string" where
  "hostOf a =
     (case a of
        None \<Rightarrow> []
      | Some s \<Rightarrow> (case SplitHostPort s of None \<Rightarrow> s | Some (host, port) \<Rightarrow> host))"

definition HostOf :: "string option \<Rightarrow> string" where
  "HostOf a = hostOf a"

section \<open>The listener\<close>

record Limits =
  lm_MaxConns :: int
  lm_MaxConnsPerIP :: int
  lm_IdleTimeout :: duration

text \<open>A guarded connection: its address, whether its \<open>sync.Once\<close> has fired, and the deadlines set on the socket.\<close>

record Conn =
  cn_ip :: string
  cn_idle :: duration
  cn_once :: bool
  cn_readDeadline :: "gotime option"
  cn_writeDeadline :: "gotime option"

text \<open>\<open>ls_conns\<close> are the connections handed out by \<open>Accept\<close>, by address.\<close>

record Listener =
  ls_limits :: Limits
  ls_total :: int
  ls_perIP :: "string \<Rightarrow> int"       \<comment> \<open>absent keys read as 0\<close>
  ls_wg :: int
  ls_Rejected :: "64 word"
  ls_conns :: "Conn list"

definition NewListener :: "Limits \<Rightarrow> Listener" where
  "NewListener lim =
     \<lparr>ls_limits = lim, ls_total = 0, ls_perIP = (\<lambda>_. 0), ls_wg = 0, ls_Rejected = 0, ls_conns = []\<rparr>"

definition admit :: "string \<Rightarrow> Listener \<Rightarrow> bool \<times> Listener" where
  "admit ip l =
     (if 0 < lm_MaxConns (ls_limits l) \<and> lm_MaxConns (ls_limits l) \<le> ls_total l then (False, l)
      else if 0 < lm_MaxConnsPerIP (ls_limits l) \<and> lm_MaxConnsPerIP (ls_limits l) \<le> ls_perIP l ip then (False, l)
      else (True, l\<lparr>ls_perIP := (ls_perIP l)(ip := ls_perIP l ip + 1), ls_total := ls_total l + 1\<rparr>))"

text \<open>Deleting a key at or below zero makes it read as 0 again.\<close>

definition leave :: "string \<Rightarrow> Listener \<Rightarrow> Listener" where
  "leave ip l =
     (let n = ls_perIP l ip - 1
      in l\<lparr>ls_perIP := (ls_perIP l)(ip := (if n \<le> 0 then 0 else n)), ls_total := ls_total l - 1, ls_wg := ls_wg l - 1\<rparr>)"

text \<open>\<open>Accept\<close> refuses connections until one is admitted. The argument lists what the wrapped listener returns, an error
  or a connection with its remote address; \<open>None\<close> means that it still waits. The result is the address of the
  connection among \<open>ls_conns\<close>.\<close>

fun Accept :: "(string + string option) list \<Rightarrow> Listener \<Rightarrow> (string + nat) option \<times> Listener" where
  "Accept [] l = (None, l)"
| "Accept (Inl e # rest) l = (Some (Inl e), l)"
| "Accept (Inr addr # rest) l =
     (let ip = hostOf addr
      in case admit ip l of
           (False, l') \<Rightarrow> Accept rest (l'\<lparr>ls_Rejected := ls_Rejected l' + 1\<rparr>)
         | (True, l') \<Rightarrow>
             (Some (Inr (length (ls_conns l'))),
              l'\<lparr>ls_wg := ls_wg l' + 1,
                 ls_conns := ls_conns l' @ [\<lparr>cn_ip = ip, cn_idle = lm_IdleTimeout (ls_limits l'), cn_once = False,
                                            cn_readDeadline = None, cn_writeDeadline = None\<rparr>]\<rparr>))"

text \<open>\<open>Close\<close> of a connection: it leaves the listener's books the first time.\<close>

definition Conn_Close :: "nat \<Rightarrow> Listener \<Rightarrow> Listener" where
  "Conn_Close k l =
     (if k < length (ls_conns l) \<and> \<not> cn_once (ls_conns l ! k)
      then leave (cn_ip (ls_conns l ! k)) (l\<lparr>ls_conns := (ls_conns l)[k := (ls_conns l ! k)\<lparr>cn_once := True\<rparr>]\<rparr>)
      else l)"

text \<open>Reading and writing push the deadlines forward; \<open>res\<close> is what the socket returns.\<close>

definition Conn_Read :: "gotime \<Rightarrow> nat \<times> string option \<Rightarrow> Conn \<Rightarrow> (nat \<times> string option) \<times> Conn" where
  "Conn_Read now res cn = (res, if 0 < cn_idle cn then cn\<lparr>cn_readDeadline := Some (now + cn_idle cn)\<rparr> else cn)"

definition Conn_Write :: "gotime \<Rightarrow> nat \<times> string option \<Rightarrow> Conn \<Rightarrow> (nat \<times> string option) \<times> Conn" where
  "Conn_Write now res cn = (res, if 0 < cn_idle cn then cn\<lparr>cn_writeDeadline := Some (now + cn_idle cn)\<rparr> else cn)"

definition Listener_Active :: "Listener \<Rightarrow> int" where
  "Listener_Active l = ls_total l"

section \<open>Failed authentications\<close>

record AuthLimiter =
  au_Budget :: int
  au_Window :: duration
  au_fails :: "(string \<times> gotime list) list"     \<comment> \<open>the map \<open>fails\<close>\<close>
  au_Blocked :: "64 word"
  au_Failures :: "64 word"

definition NewAuthLimiter :: "int \<Rightarrow> AuthLimiter" where
  "NewAuthLimiter perMinute =
     \<lparr>au_Budget = perMinute, au_Window = minute, au_fails = [], au_Blocked = 0, au_Failures = 0\<rparr>"

definition fails_of :: "AuthLimiter \<Rightarrow> string \<Rightarrow> gotime list" where
  "fails_of a ip = (case map_of (au_fails a) ip of None \<Rightarrow> [] | Some ts \<Rightarrow> ts)"

definition prune :: "string \<Rightarrow> gotime \<Rightarrow> AuthLimiter \<Rightarrow> gotime list \<times> AuthLimiter" where
  "prune ip now a =
     (let keep = filter (\<lambda>t. now - t < au_Window a) (fails_of a ip)
      in if keep = [] then ([], a\<lparr>au_fails := AList.delete ip (au_fails a)\<rparr>)
         else (keep, a\<lparr>au_fails := AList.update ip keep (au_fails a)\<rparr>))"

text \<open>A nil limiter allows everything and records nothing.\<close>

definition Allow :: "string \<Rightarrow> gotime \<Rightarrow> AuthLimiter option \<Rightarrow> bool \<times> AuthLimiter option" where
  "Allow ip now oa =
     (case oa of
        None \<Rightarrow> (True, None)
      | Some a \<Rightarrow>
          if au_Budget a \<le> 0 then (True, Some a)
          else case prune ip now a of
            (keep, a') \<Rightarrow>
              if au_Budget a' \<le> int (length keep) then (False, Some (a'\<lparr>au_Blocked := au_Blocked a' + 1\<rparr>))
              else (True, Some a'))"

definition prune_all :: "gotime \<Rightarrow> AuthLimiter \<Rightarrow> AuthLimiter" where
  "prune_all now a = fold (\<lambda>k b. snd (prune k now b)) (map fst (au_fails a)) a"

definition AuthFail :: "string \<Rightarrow> gotime \<Rightarrow> AuthLimiter option \<Rightarrow> AuthLimiter option" where
  "AuthFail ip now oa =
     (case oa of
        None \<Rightarrow> None
      | Some a0 \<Rightarrow>
          let a = a0\<lparr>au_Failures := au_Failures a0 + 1\<rparr>
          in if au_Budget a \<le> 0 then Some a
             else case prune ip now a of
               (keep, a1) \<Rightarrow>
                 let a2 = a1\<lparr>au_fails := AList.update ip (keep @ [now]) (au_fails a1)\<rparr>
                 in Some (if 100000 < length (au_fails a2) then prune_all now a2 else a2))"

section \<open>Stalled requests\<close>

text \<open>What a body or response writer of \<open>StallGuard\<close> keeps: the deadlines of its response controller. The zero time
  clears a deadline.\<close>

record stall =
  sl_idle :: duration
  sl_readDeadline :: "gotime option"
  sl_writeDeadline :: "gotime option"

datatype read_error = EOF | ReadError string

text \<open>\<open>StallGuard\<close> wraps a request only for a positive timeout.\<close>

definition StallGuard :: "duration \<Rightarrow> stall option" where
  "StallGuard idle =
     (if idle \<le> 0 then None else Some \<lparr>sl_idle = idle, sl_readDeadline = None, sl_writeDeadline = None\<rparr>)"

definition body_Read :: "gotime \<Rightarrow> nat \<times> read_error option \<Rightarrow> stall \<Rightarrow> (nat \<times> read_error option) \<times> stall" where
  "body_Read now res w =
     (res, w\<lparr>sl_readDeadline := (if snd res = Some EOF then None else Some (now + sl_idle w))\<rparr>)"

definition writer_Write :: "gotime \<Rightarrow> nat \<times> string option \<Rightarrow> stall \<Rightarrow> (nat \<times> string option) \<times> stall" where
  "writer_Write now res w = (res, w\<lparr>sl_writeDeadline := Some (now + sl_idle w)\<rparr>)"

text \<open>\<open>ReadFrom\<close>: \<open>reads\<close> lists what the reader returns, with the time and the outcome of writing each chunk; the list
  ends when the reader has not answered yet. The result is the number of bytes written and the error.\<close>

fun writer_ReadFrom ::
    "((nat \<times> read_error option) \<times> gotime \<times> (nat \<times> string option)) list \<Rightarrow> nat \<Rightarrow> stall \<Rightarrow>
     (nat \<times> string option) option \<times> stall" where
  "writer_ReadFrom [] tot w = (None, w)"
| "writer_ReadFrom (((n, rerr), now, res) # reads) tot w =
     (let (tot', werr, w') = (if 0 < n then (case writer_Write now res w of ((wn, we), w1) \<Rightarrow> (tot + wn, we, w1)) else (tot, None, w))
      in case werr of
           Some e \<Rightarrow> (Some (tot', Some e), w')
         | None \<Rightarrow>
             (case rerr of
                Some EOF \<Rightarrow> (Some (tot', None), w')
              | Some (ReadError e) \<Rightarrow> (Some (tot', Some e), w')
              | None \<Rightarrow> writer_ReadFrom reads tot' w'))"

end
