(* ===== verification/Netguard_Correct.thy ===== *)
theory Netguard_Correct
  imports Netguard
begin

text \<open>
  Correctness of the network guards: the books of a listener over every interleaving of accepts, reads, writes and
  (repeated) closes, and the limiter of failed authentications against a count over the whole history.
\<close>

section \<open>Connections\<close>

lemma length_filter_update:
  "k < length xs \<Longrightarrow>
   length (filter P (xs[k := y])) + (if P (xs ! k) then 1 else 0) = length (filter P xs) + (if P y then 1 else 0)"
proof (induction xs arbitrary: k)
  case (Cons x xs)
  then show ?case
    by (cases k) auto
qed simp

definition open_conns :: "Listener \<Rightarrow> Conn list" where
  "open_conns l = filter (\<lambda>cn. \<not> cn_once cn) (ls_conns l)"

definition open_from :: "string \<Rightarrow> Listener \<Rightarrow> nat" where
  "open_from ip l = length (filter (\<lambda>cn. \<not> cn_once cn \<and> cn_ip cn = ip) (ls_conns l))"

definition listener_ok :: "Listener \<Rightarrow> bool" where
  "listener_ok l \<longleftrightarrow>
     ls_total l = int (length (open_conns l)) \<and> ls_wg l = int (length (open_conns l))
     \<and> (\<forall>ip. ls_perIP l ip = int (open_from ip l))
     \<and> (0 < lm_MaxConns (ls_limits l) \<longrightarrow> int (length (open_conns l)) \<le> lm_MaxConns (ls_limits l))
     \<and> (0 < lm_MaxConnsPerIP (ls_limits l) \<longrightarrow> (\<forall>ip. int (open_from ip l) \<le> lm_MaxConnsPerIP (ls_limits l)))"

text \<open>The steps of the connections of a listener.\<close>

inductive lstep :: "Listener \<Rightarrow> Listener \<Rightarrow> bool" where
  conn_accept: "lstep l (snd (Accept incoming l))"
| conn_close: "lstep l (Conn_Close k l)"
| conn_read: "lstep l (l\<lparr>ls_conns := (ls_conns l)[k := snd (Conn_Read now res (ls_conns l ! k))]\<rparr>)"
| conn_write: "lstep l (l\<lparr>ls_conns := (ls_conns l)[k := snd (Conn_Write now res (ls_conns l ! k))]\<rparr>)"

lemma Accept_ok:
  "listener_ok l \<Longrightarrow> listener_ok (snd (Accept incoming l)) \<and> ls_limits (snd (Accept incoming l)) = ls_limits l"
proof (induction incoming l rule: Accept.induct)
  case (3 addr rest l)
  define ip where "ip = hostOf addr"
  show ?case
  proof (cases "fst (admit ip l)")
    case True
    then have "\<not> (0 < lm_MaxConns (ls_limits l) \<and> lm_MaxConns (ls_limits l) \<le> ls_total l)"
      "\<not> (0 < lm_MaxConnsPerIP (ls_limits l) \<and> lm_MaxConnsPerIP (ls_limits l) \<le> ls_perIP l ip)"
      by (auto simp: admit_def split: if_splits)
    then show ?thesis
      using 3(2) unfolding Accept.simps Let_def ip_def [symmetric]
      by (auto simp: admit_def listener_ok_def open_conns_def open_from_def)
  next
    case False
    then have "admit ip l = (False, l)"
      by (auto simp: admit_def split: if_splits)
    moreover have "listener_ok (l\<lparr>ls_Rejected := ls_Rejected l + 1\<rparr>)"
      using 3(2) by (simp add: listener_ok_def open_conns_def open_from_def)
    ultimately show ?thesis
      using 3(1) by (simp add: ip_def) blast
  qed
qed simp_all

lemma Conn_Close_ok: "listener_ok l \<Longrightarrow> listener_ok (Conn_Close k l) \<and> ls_limits (Conn_Close k l) = ls_limits l"
proof (cases "k < length (ls_conns l) \<and> \<not> cn_once (ls_conns l ! k)")
  case True
  assume ok: "listener_ok l"
  define ip where "ip = cn_ip (ls_conns l ! k)"
  define l' where "l' = Conn_Close k l"
  have e: "l' = leave ip (l\<lparr>ls_conns := (ls_conns l)[k := (ls_conns l ! k)\<lparr>cn_once := True\<rparr>]\<rparr>)"
    using True by (simp add: l'_def Conn_Close_def ip_def)
  have tot: "length (open_conns l') + 1 = length (open_conns l)"
    using length_filter_update [of k "ls_conns l" "\<lambda>cn. \<not> cn_once cn" "(ls_conns l ! k)\<lparr>cn_once := True\<rparr>"] True
    by (simp add: e open_conns_def leave_def Let_def)
  have per: "open_from i l' + (if i = ip then 1 else 0) = open_from i l" for i
    using length_filter_update [of k "ls_conns l" "\<lambda>cn. \<not> cn_once cn \<and> cn_ip cn = i" "(ls_conns l ! k)\<lparr>cn_once := True\<rparr>"] True
    by (auto simp: e open_from_def leave_def Let_def ip_def split: if_splits)
  have sel: "ls_total l' = ls_total l - 1" "ls_wg l' = ls_wg l - 1" "ls_limits l' = ls_limits l"
    "ls_perIP l' = (ls_perIP l)(ip := (if ls_perIP l ip - 1 \<le> 0 then 0 else ls_perIP l ip - 1))"
    by (simp_all add: e leave_def Let_def)
  have "ls_perIP l' i = int (open_from i l')" for i
    using ok per [of i] by (auto simp: sel listener_ok_def)
  moreover have "int (open_from i l') \<le> lm_MaxConnsPerIP (ls_limits l)" if "0 < lm_MaxConnsPerIP (ls_limits l)" for i
  proof -
    have "int (open_from i l') \<le> int (open_from i l)"
      using per [of i] by (simp split: if_splits)
    also have "\<dots> \<le> lm_MaxConnsPerIP (ls_limits l)"
      using ok that by (simp add: listener_ok_def)
    finally show ?thesis .
  qed
  ultimately have "listener_ok l'"
    using ok tot unfolding listener_ok_def sel(1-3) by auto
  then show ?thesis
    by (simp add: sel(3) flip: l'_def)
qed (auto simp: Conn_Close_def)

lemma deadline_ok:
  assumes "listener_ok l" and "cn_once cn = cn_once (ls_conns l ! k)" "cn_ip cn = cn_ip (ls_conns l ! k)"
  shows "listener_ok (l\<lparr>ls_conns := (ls_conns l)[k := cn]\<rparr>)"
proof (cases "k < length (ls_conns l)")
  case True
  then have "length (filter P ((ls_conns l)[k := cn])) = length (filter P (ls_conns l))"
    if "P cn = P (ls_conns l ! k)" for P
    using length_filter_update [OF True, of P cn] that by (simp split: if_splits)
  then show ?thesis
    using assms by (simp add: listener_ok_def open_conns_def open_from_def)
next
  case False
  then have "(ls_conns l)[k := cn] = ls_conns l"
    by (simp add: list_update_beyond)
  then show ?thesis
    using assms(1) by simp
qed

lemma lstep_ok: "lstep l l' \<Longrightarrow> listener_ok l \<Longrightarrow> listener_ok l' \<and> ls_limits l' = ls_limits l"
proof (induction rule: lstep.induct)
  case (conn_read l k now res)
  then show ?case
    by (auto intro!: deadline_ok simp: Conn_Read_def)
next
  case (conn_write l k now res)
  then show ?case
    by (auto intro!: deadline_ok simp: Conn_Write_def)
qed (use Accept_ok Conn_Close_ok in blast)+

interpretation listener_run: kept_by_steps lstep listener_ok ls_limits
  by unfold_locales (rule lstep_ok)

lemma NewListener_ok: "listener_ok (NewListener lim)"
  by (simp add: listener_ok_def NewListener_def open_conns_def open_from_def)

lemma Conn_Close_once: "Conn_Close k (Conn_Close k l) = Conn_Close k l"
  by (simp add: Conn_Close_def leave_def Let_def)

section \<open>Failed authentications\<close>

datatype auth_event = AFail string gotime | AAllow string gotime

fun auth_step :: "auth_event \<Rightarrow> AuthLimiter option \<Rightarrow> AuthLimiter option" where
  "auth_step (AFail ip t) a = AuthFail ip t a"
| "auth_step (AAllow ip t) a = snd (Allow ip t a)"

fun event_time :: "auth_event \<Rightarrow> gotime" where
  "event_time (AFail ip t) = t"
| "event_time (AAllow ip t) = t"

text \<open>The reference: every failure of an address ever recorded.\<close>

fun failures :: "string \<Rightarrow> auth_event list \<Rightarrow> gotime list" where
  "failures ip [] = []"
| "failures ip (AFail i t # es) = (if i = ip then t # failures ip es else failures ip es)"
| "failures ip (AAllow i t # es) = failures ip es"

definition recent :: "duration \<Rightarrow> gotime \<Rightarrow> gotime list \<Rightarrow> gotime list" where
  "recent w now = filter (\<lambda>t. now - t < w)"

lemma failures_append [simp]: "failures ip (es @ fs) = failures ip es @ failures ip fs"
  by (induction ip es rule: failures.induct) auto

lemma recent_simps [simp]:
  "recent w now [] = []" "recent w now (xs @ ys) = recent w now xs @ recent w now ys"
  by (simp_all add: recent_def)

lemma recent_recent: "t \<le> now \<Longrightarrow> recent w now (recent w t xs) = recent w now xs"
  unfolding recent_def filter_filter by (rule filter_cong) auto

lemma prune_effect:
  assumes "prune ip now a = (keep, a')"
  shows "keep = recent (au_Window a) now (fails_of a ip)"
    and "au_Window a' = au_Window a" "au_Budget a' = au_Budget a"
    and "fails_of a' i = (if i = ip then keep else fails_of a i)"
  using assms
  by (auto simp: prune_def recent_def Let_def fails_of_def update_conv' delete_conv' split: if_splits)

lemma prune_fold:
  "fails_of (fold (\<lambda>k b. snd (prune k now b)) ks a) i = (if i \<in> set ks then recent (au_Window a) now (fails_of a i) else fails_of a i)
   \<and> au_Window (fold (\<lambda>k b. snd (prune k now b)) ks a) = au_Window a \<and> au_Budget (fold (\<lambda>k b. snd (prune k now b)) ks a) = au_Budget a"
proof (induction ks arbitrary: a)
  case (Cons k ks)
  obtain keep a' where p: "prune k now a = (keep, a')" by fastforce
  show ?case
    using Cons.IH [of a'] prune_effect [OF p] by (auto simp: p recent_recent)
qed simp

lemma prune_all_effect:
  "fails_of (prune_all now a) i = recent (au_Window a) now (fails_of a i)"
  "au_Window (prune_all now a) = au_Window a" "au_Budget (prune_all now a) = au_Budget a"
proof -
  have "fails_of a i = []" if "i \<notin> set (map fst (au_fails a))"
    using that by (auto simp: fails_of_def map_of_eq_None_iff [THEN iffD2])
  then show "fails_of (prune_all now a) i = recent (au_Window a) now (fails_of a i)"
    using prune_fold [of now "map fst (au_fails a)" a i] by (auto simp: prune_all_def)
  show "au_Window (prune_all now a) = au_Window a" "au_Budget (prune_all now a) = au_Budget a"
    using prune_fold [of now "map fst (au_fails a)" a i] by (simp_all add: prune_all_def)
qed

text \<open>The limiter represents a history up to a time: what is still recent then or later is the same.\<close>

definition represents :: "AuthLimiter \<Rightarrow> int \<Rightarrow> duration \<Rightarrow> gotime \<Rightarrow> auth_event list \<Rightarrow> bool" where
  "represents a b w t es \<longleftrightarrow>
     au_Budget a = b \<and> au_Window a = w
     \<and> (\<forall>ip now. t \<le> now \<longrightarrow> recent w now (fails_of a ip) = recent w now (failures ip es))"

lemma represents_prune:
  assumes "represents a b w t es" and "t \<le> now" and "prune ip now a = (keep, a')"
  shows "represents a' b w now es" and "keep = recent w now (failures ip es)"
  using assms prune_effect [OF assms(3)]
  by (auto simp: represents_def recent_recent)

lemma represents_Allow:
  assumes "represents a b w t es" and "t \<le> now" and "0 < b"
  shows "fst (Allow ip now (Some a)) \<longleftrightarrow> int (length (recent w now (failures ip es))) < b"
    and "\<exists>a'. snd (Allow ip now (Some a)) = Some a' \<and> represents a' b w now es"
proof -
  obtain keep a' where p: "prune ip now a = (keep, a')" by fastforce
  have r: "represents a' b w now es" "keep = recent w now (failures ip es)"
    using represents_prune [OF assms(1,2) p] by simp_all
  have "represents (a'\<lparr>au_Blocked := n\<rparr>) b w now es" for n
    using r(1) by (simp add: represents_def fails_of_def)
  then show "fst (Allow ip now (Some a)) \<longleftrightarrow> int (length (recent w now (failures ip es))) < b"
    "\<exists>a'. snd (Allow ip now (Some a)) = Some a' \<and> represents a' b w now es"
    using r assms by (auto simp: Allow_def p represents_def)
qed

lemma represents_Fail:
  assumes "represents a b w t es" and "t \<le> now" and "0 < b"
  shows "\<exists>a'. AuthFail ip now (Some a) = Some a' \<and> represents a' b w now (es @ [AFail ip now])"
proof -
  define a0 where "a0 = a\<lparr>au_Failures := au_Failures a + 1\<rparr>"
  have a0: "represents a0 b w t es"
    using assms(1) by (simp add: a0_def represents_def fails_of_def)
  obtain keep a1 where p: "prune ip now a0 = (keep, a1)" by fastforce
  have r: "represents a1 b w now es" "keep = recent w now (failures ip es)"
    using represents_prune [OF a0 assms(2) p] by simp_all
  define a2 where "a2 = a1\<lparr>au_fails := AList.update ip (keep @ [now]) (au_fails a1)\<rparr>"
  have "fails_of a2 i = (if i = ip then keep @ [now] else fails_of a1 i)" for i
    by (simp add: a2_def fails_of_def update_conv')
  then have a2: "represents a2 b w now (es @ [AFail ip now])"
    using r by (auto simp: represents_def recent_recent a2_def)
  then have "represents (prune_all now a2) b w now (es @ [AFail ip now])"
    by (simp add: represents_def prune_all_effect recent_recent)
  then show ?thesis
    using a2 a0 assms(3) unfolding AuthFail_def a0_def [symmetric] Let_def option.case p a2_def [symmetric]
    by (auto simp: represents_def p simp flip: a2_def)
qed

lemma represents_run:
  assumes "0 < b" and "sorted (map event_time es)"
  shows "\<exists>a. fold auth_step es (Some (NewAuthLimiter b)) = Some a
    \<and> (\<forall>t. (\<forall>e\<in>set es. event_time e \<le> t) \<longrightarrow> represents a b minute t es)"
  using assms(2)
proof (induction es rule: rev_induct)
  case Nil
  then show ?case
    by (simp add: represents_def NewAuthLimiter_def fails_of_def)
next
  case (snoc e es)
  define t where "t = event_time e"
  obtain a where a: "fold auth_step es (Some (NewAuthLimiter b)) = Some a"
    "\<And>t. (\<forall>e\<in>set es. event_time e \<le> t) \<Longrightarrow> represents a b minute t es"
    using snoc by (auto simp: sorted_append)
  have "represents a b minute t es"
    using snoc.prems by (intro a(2)) (auto simp: sorted_append t_def)
  then have "\<exists>a'. snd (Allow ip t (Some a)) = Some a' \<and> represents a' b minute t es"
    "\<exists>a'. AuthFail ip t (Some a) = Some a' \<and> represents a' b minute t (es @ [AFail ip t])" for ip
    using represents_Allow(2) represents_Fail assms(1) by blast+
  moreover have "represents a' b minute t (es @ [AAllow ip t])" if "represents a' b minute t es" for a' ip
    using that by (simp add: represents_def)
  ultimately obtain a' where a': "auth_step e (Some a) = Some a'" "represents a' b minute t (es @ [e])"
    by (cases e) (auto simp: t_def, blast+)
  then have "represents a' b minute t' (es @ [e])" if "t \<le> t'" for t'
    using that by (auto simp: represents_def)
  then show ?case
    using a(1) a'(1) by (auto simp: t_def)
qed

text \<open>Pruning keeps every source that failed within the window, so after failures from distinct sources at one time the
  table holds them all, however many.\<close>

definition sprayed :: "gotime \<Rightarrow> string set \<Rightarrow> AuthLimiter \<Rightarrow> bool" where
  "sprayed now S a \<longleftrightarrow>
     0 < au_Budget a \<and> 0 < au_Window a \<and> distinct (map fst (au_fails a))
     \<and> map_of (au_fails a) = (\<lambda>ip. if ip \<in> S then Some [now] else None)"

lemma sprayed_prune: "sprayed now S a \<Longrightarrow> sprayed now S (snd (prune ip now a))"
  unfolding sprayed_def prune_def fails_of_def Let_def
  by (auto simp: update_conv' delete_conv' distinct_update distinct_delete)

lemma sprayed_prune_all: "sprayed now S a \<Longrightarrow> sprayed now S (prune_all now a)"
proof -
  have "sprayed now S a \<Longrightarrow> sprayed now S (fold (\<lambda>k b. snd (prune k now b)) ks a)" for ks
    by (induction ks arbitrary: a) (auto dest: sprayed_prune)
  then show "sprayed now S a \<Longrightarrow> sprayed now S (prune_all now a)"
    by (simp add: prune_all_def)
qed

lemma sprayed_Fail:
  assumes "sprayed now S a" and "ip \<notin> S"
  shows "\<exists>a'. AuthFail ip now (Some a) = Some a' \<and> sprayed now (insert ip S) a'"
proof -
  define a0 where "a0 = a\<lparr>au_Failures := au_Failures a + 1\<rparr>"
  have a0: "sprayed now S a0" using assms(1) by (simp add: a0_def sprayed_def)
  then have "fails_of a0 ip = []" using assms(2) by (simp add: sprayed_def fails_of_def)
  then have p: "prune ip now a0 = ([], a0\<lparr>au_fails := AList.delete ip (au_fails a0)\<rparr>)"
    by (simp add: prune_def)
  define a2 where "a2 = a0\<lparr>au_fails := AList.update ip [now] (AList.delete ip (au_fails a0))\<rparr>"
  have "sprayed now (insert ip S) a2"
    using a0 assms(2) by (auto simp: a2_def sprayed_def update_conv' delete_conv' distinct_update distinct_delete)
  moreover have "0 < au_Budget a0" using a0 by (simp add: sprayed_def)
  then have "AuthFail ip now (Some a) = Some (if 100000 < length (au_fails a2) then prune_all now a2 else a2)"
    using p unfolding a0_def a2_def by (simp add: AuthFail_def)
  ultimately show ?thesis
    using sprayed_prune_all by auto
qed

lemma sprayed_table:
  assumes "distinct ips" and "0 < b"
  shows "\<exists>a. fold (\<lambda>ip. AuthFail ip now) ips (Some (NewAuthLimiter b)) = Some a \<and> length (au_fails a) = length ips"
proof -
  have "\<exists>a'. fold (\<lambda>ip. AuthFail ip now) ips (Some a) = Some a' \<and> sprayed now (S \<union> set ips) a'"
    if "sprayed now S a" "set ips \<inter> S = {}" "distinct ips" for S a
    using that
  proof (induction ips arbitrary: S a)
    case (Cons ip ips)
    then obtain a' where "AuthFail ip now (Some a) = Some a'" "sprayed now (insert ip S) a'"
      using sprayed_Fail [of now S a ip] by auto
    then show ?case
      using Cons.IH [of "insert ip S" a'] Cons.prems by auto
  qed simp
  from this [of "{}" "NewAuthLimiter b"] obtain a where a: "fold (\<lambda>ip. AuthFail ip now) ips (Some (NewAuthLimiter b)) = Some a"
    "sprayed now (set ips) a"
    using assms by (auto simp: sprayed_def NewAuthLimiter_def)
  have "length (au_fails a) = card (dom (map_of (au_fails a)))"
    using a(2) by (metis dom_map_of_conv_image_fst distinct_card length_map set_map sprayed_def)
  also have "dom (map_of (au_fails a)) = set ips"
    using a(2) by (auto simp: sprayed_def split: if_splits)
  finally show ?thesis
    using a(1) assms(1) by (simp add: distinct_card)
qed

end
