(* ===== verification/Guard_Theorems.thy ===== *)
theory Guard_Theorems
  imports Capacity_Correct Netguard_Correct
begin

text \<open>
  The properties of what stands in front of the store: the capacity controller (\<^verbatim>\<open>internal/capacity\<close>), the
  network guards (\<^verbatim>\<open>internal/netguard\<close>) and the accounts (\<^verbatim>\<open>internal/config\<close>, \<^verbatim>\<open>internal/tenant\<close>).
\<close>

section \<open>Capacity\<close>

definition demo_capacity :: CapacityConfig where
  "demo_capacity =
     \<lparr>cf_SoftPercent = 75, cf_HardPercent = 90, cf_CriticalPercent = 95, cf_TargetRunway = 30 * minute, cf_MaxUploadBPS = 0,
      cf_MinFreeBytes = 5 * 2 ^ 30, cf_UploadSlotWait = 10 * second\<rparr>"

definition demo_tenant :: Tenant where
  "demo_tenant = zero_tenant\<lparr>tn_ID := ''acme'', tn_Weight := 2, tn_MaxConcurrent := 1\<rparr>"

definition demo_started :: Controller where
  "demo_started = Sample (Some (107374182400, 53687091200)) 0 (NewWithStatFS demo_capacity [demo_tenant])"

definition demo_view :: "Controller \<Rightarrow> CapacityConfig \<times> int \<times> nat option \<times> nat \<times> bool" where
  "demo_view c = (ct_cfg c, ct_reserved c, tenant_state c ''acme'', length (ct_states c), sp_Critical (ct_snapshot c))"

lemma demo_started_view: "demo_view demo_started = (demo_capacity, 0, Some 0, 1, False)"
  by code_simp

lemmas demo_started_facts = demo_started_view [unfolded demo_view_def prod.inject]

text \<open>C35: Disk reservations are safe under concurrency. In every state reached from a started controller by any
  interleaving of account changes, measurements, reservations, upload slots, transfers and releases: the reserved
  bytes are exactly the reservations not yet released (the 64-bit arithmetic never wraps), a reservation that is granted
  leaves at least the floor (never less than \<open>MinFreeBytes\<close>) of the last measurement free beside all outstanding
  reservations, a release function that is called again does nothing, and every channel holds exactly the upload
  slots not yet released, never more than its capacity.\<close>

theorem reservations_safe:
  assumes "plausible cfg stat" and "csteps (Sample stat now (NewWithStatFS cfg ts)) c"
  shows "ct_reserved c = outstanding (ct_tokens c)
    \<and> (\<forall>n r c'. 0 < n \<and> n < 2 ^ 63 \<and> Controller_Reserve n c = (Some r, c') \<longrightarrow>
         outstanding (ct_tokens c') = outstanding (ct_tokens c) + n
         \<and> outstanding (ct_tokens c') + uint (reserveFloor cfg (sp_TotalBytes (ct_snapshot c))) \<le> uint (sp_AvailableBytes (ct_snapshot c))
         \<and> cf_MinFreeBytes cfg \<le> reserveFloor cfg (sp_TotalBytes (ct_snapshot c)))
    \<and> (\<forall>r. call_release r (call_release r c) = call_release r c)
    \<and> (\<forall>s<length (ct_sems c). sm_len (ct_sems c ! s) = holders s (ct_tokens c)
         \<and> int (holders s (ct_tokens c)) \<le> sm_cap (ct_sems c ! s))"
proof -
  have ok: "bytes_ok c" "slots_ok c" "snapshot_ok c" "books_ok c" "ct_cfg c = cfg"
    using started_ok [OF assms] by (auto simp: controller_ok_def books_ok_def)
  have "outstanding (ct_tokens c') = outstanding (ct_tokens c) + n
      \<and> outstanding (ct_tokens c') + uint (reserveFloor cfg (sp_TotalBytes (ct_snapshot c))) \<le> uint (sp_AvailableBytes (ct_snapshot c))"
    if "0 < n" "n < 2 ^ 63" "Controller_Reserve n c = (Some r, c')" for n r c'
  proof -
    have "bytes_ok c'"
      using Reserve_ok [OF ok(4,3) that(2)] that(3) by (simp add: books_ok_def)
    then show ?thesis
      using Reserve_leaves_floor(1,2) [OF ok(1,3) that] ok(1,5) by (simp add: bytes_ok_def)
  qed
  then show ?thesis
    using ok reserveFloor_min by (auto simp: bytes_ok_def slots_ok_def call_release_once)
qed

theorem reservations_safe_witness:
  "\<exists>c'. Controller_Reserve 1073741824 demo_started = (Some (Release 0), c')
    \<and> outstanding (ct_tokens c') = outstanding (ct_tokens demo_started) + 1073741824
    \<and> outstanding (ct_tokens c') + uint (reserveFloor demo_capacity (sp_TotalBytes (ct_snapshot demo_started)))
         \<le> uint (sp_AvailableBytes (ct_snapshot demo_started))"
proof -
  have "plausible demo_capacity (Some (107374182400, 53687091200))"
    by code_simp
  from reservations_safe [OF this, of 0 "[demo_tenant]" demo_started, folded demo_started_def, OF rtranclp.rtrancl_refl]
  have "\<forall>n r c'. 0 < n \<and> n < 2 ^ 63 \<and> Controller_Reserve n demo_started = (Some r, c') \<longrightarrow>
      outstanding (ct_tokens c') = outstanding (ct_tokens demo_started) + n
      \<and> outstanding (ct_tokens c') + uint (reserveFloor demo_capacity (sp_TotalBytes (ct_snapshot demo_started)))
           \<le> uint (sp_AvailableBytes (ct_snapshot demo_started))"
    by blast
  moreover have "fst (Controller_Reserve 1073741824 demo_started) = Some (Release 0)"
    by code_simp
  then obtain c' where "Controller_Reserve 1073741824 demo_started = (Some (Release 0), c')"
    by (metis prod.collapse)
  moreover have "(0 :: int) < 1073741824" "(1073741824 :: int) < 2 ^ 63"
    by simp_all
  ultimately show ?thesis
    by blast
qed



text \<open>C37: \<open>WaitN\<close> accounts exactly the bytes the rate limiters granted. While other requests add to the counters, a call
  for \<open>n\<close> bytes asks the limiters for chunks of at most the burst, so it succeeds whenever they grant such chunks; when
  it succeeds it has added exactly \<open>n\<close> to the global counter and to the account's (modulo \<open>2 ^ 64\<close>), and when a
  limiter refuses the \<open>i\<close>-th chunk it has added exactly the \<open>i\<close> bursts before it and reports that limiter's error.\<close>

theorem WaitN_accounts:
  assumes "adds env up bs a" and "a < length (ct_states c)" and "tenant_state c tenant = Some a"
    and "\<not> sp_Critical (ct_snapshot c)" and "0 < n" and "WaitN gw tw env clock tenant n c = (r, c')"
  shows "((\<forall>k m. 0 < m \<and> m \<le> burst \<longrightarrow> gw k m = None \<and> tw k m = None) \<longrightarrow> r = None)
    \<and> (r = None \<longrightarrow> (\<exists>i. nat n \<le> i * burst \<and> i * burst < nat n + burst
         \<and> ct_uploaded c' = ct_uploaded c + of_nat (nat n + sum up {0..<i})
         \<and> ts_bytes (ct_states c' ! a) = ts_bytes (ct_states c ! a) + of_nat (nat n + sum bs {0..<i})))
    \<and> (r \<noteq> None \<longrightarrow> (\<exists>i e. i * burst < nat n \<and> r = Some (ErrWait e)
         \<and> (gw i (min (nat n - i * burst) burst) = Some e \<or> tw i (min (nat n - i * burst) burst) = Some e)
         \<and> ct_uploaded c' = ct_uploaded c + of_nat (i * burst + sum up {0..<Suc i})
         \<and> ts_bytes (ct_states c' ! a) = ts_bytes (ct_states c ! a) + of_nat (i * burst + sum bs {0..<Suc i})))"
proof -
  have w: "wait_chunks gw tw env clock (Some a) 0 (nat n) c = (r, c')"
    using assms(3-6) by (simp add: WaitN_def)
  show ?thesis
    using wait_chunks_exact [OF assms(1,2) w] wait_chunks_granted [of gw tw env clock "Some a" 0 "nat n" c] w
    by (auto simp: counted_def Let_def)
qed

theorem WaitN_accounts_witness:
  "\<exists>c'. WaitN (\<lambda>_ _. None) (\<lambda>_ _. None) (\<lambda>_ c. c) (\<lambda>_. 0) ''acme'' 5000000 demo_started = (None, c')
    \<and> ct_uploaded c' = ct_uploaded demo_started + of_nat 5000000
    \<and> ts_bytes (ct_states c' ! 0) = ts_bytes (ct_states demo_started ! 0) + of_nat 5000000"
proof -
  obtain r c' where w: "WaitN (\<lambda>_ _. None) (\<lambda>_ _. None) (\<lambda>_ c. c) (\<lambda>_. 0) ''acme'' 5000000 demo_started = (r, c')"
    by fastforce
  have a: "adds (\<lambda>_ c. c) (\<lambda>_. 0) (\<lambda>_. 0) 0"
    by (simp add: adds_def)
  have c: "0 < length (ct_states demo_started)" "tenant_state demo_started ''acme'' = Some 0"
    "\<not> sp_Critical (ct_snapshot demo_started)"
    by (simp_all add: demo_started_facts)
  have n: "(0 :: int) < 5000000"
    by simp
  note acc = WaitN_accounts [OF a c n w]
  then have r: "r = None"
    by blast
  then have "ct_uploaded c' = ct_uploaded demo_started + of_nat (nat 5000000)
      \<and> ts_bytes (ct_states c' ! 0) = ts_bytes (ct_states demo_started ! 0) + of_nat (nat 5000000)"
    using acc unfolding sum.neutral_const add_0_right by blast
  then show ?thesis
    using w r by simp
qed

section \<open>Connections and failed logins\<close>

text \<open>C38: However accepts, reads, writes and repeated closes interleave, a listener's books count exactly its open
  connections, in total and per address, the configured limits are never exceeded, and closing a connection again
  changes nothing.\<close>

theorem connections_bounded:
  assumes "lstep\<^sup>*\<^sup>* (NewListener limits) l"
  shows "Listener_Active l = int (length (open_conns l)) \<and> ls_wg l = int (length (open_conns l))
    \<and> (0 < lm_MaxConns limits \<longrightarrow> Listener_Active l \<le> lm_MaxConns limits)
    \<and> (\<forall>ip. ls_perIP l ip = int (open_from ip l) \<and> (0 < lm_MaxConnsPerIP limits \<longrightarrow> ls_perIP l ip \<le> lm_MaxConnsPerIP limits))
    \<and> (\<forall>k. Conn_Close k (Conn_Close k l) = Conn_Close k l)"
proof -
  have "listener_ok l" "ls_limits l = limits"
    using listener_run.steps_keep [OF assms NewListener_ok] by (simp_all add: NewListener_def)
  then show ?thesis
    by (simp add: listener_ok_def Listener_Active_def Conn_Close_once)
qed

definition demo_listener :: Listener where
  "demo_listener =
     Conn_Close 0 (snd (Accept [Inr (Some ''10.0.0.7:50002''), Inr (Some ''10.0.0.8:50003'')]
       (snd (Accept [Inr (Some ''10.0.0.7:50001'')] (NewListener \<lparr>lm_MaxConns = 2, lm_MaxConnsPerIP = 1, lm_IdleTimeout = minute\<rparr>)))))"

theorem connections_bounded_witness:
  "Listener_Active demo_listener = int (length (open_conns demo_listener)) \<and> length (open_conns demo_listener) = 1
   \<and> ls_Rejected demo_listener = 1 \<and> ls_perIP demo_listener ''10.0.0.8'' \<le> 1"
proof -
  have "lstep\<^sup>*\<^sup>* (NewListener \<lparr>lm_MaxConns = 2, lm_MaxConnsPerIP = 1, lm_IdleTimeout = minute\<rparr>) demo_listener"
    unfolding demo_listener_def
    by (rule rtranclp.rtrancl_into_rtrancl [OF rtranclp.rtrancl_into_rtrancl [OF r_into_rtranclp [where r = lstep]]])
       (rule lstep.intros)+
  note b = connections_bounded [OF this]
  have "Listener_Active demo_listener = int (length (open_conns demo_listener))" "ls_perIP demo_listener ''10.0.0.8'' \<le> 1"
    using b by (simp, metis (no_types, lifting) Limits.select_convs(2) b less_numeral_extra(1))
  moreover have "length (open_conns demo_listener) = 1" "ls_Rejected demo_listener = 1"
    by code_simp+
  ultimately show ?thesis
    by blast
qed

text \<open>C39: After any sequence of attempts in time order, \<open>Allow\<close> refuses an address exactly when the failures it has
  had in the last minute, counted over the whole history, have reached the budget; pruning never loses one that still
  counts. A budget of zero or less refuses nobody.\<close>

theorem auth_window:
  assumes "sorted (map event_time es)" and "\<forall>e\<in>set es. event_time e \<le> now"
  shows "fst (Allow ip now (fold auth_step es (Some (NewAuthLimiter b))))
    \<longleftrightarrow> b \<le> 0 \<or> int (length (recent minute now (failures ip es))) < b"
proof (cases "0 < b")
  case True
  then obtain a where "fold auth_step es (Some (NewAuthLimiter b)) = Some a" "represents a b minute now es"
    using represents_run [OF True assms(1)] assms(2) by blast
  then show ?thesis
    using represents_Allow(1) [of a b minute now es now ip] True by auto
next
  case False
  have "\<exists>a. fold auth_step es (Some (NewAuthLimiter b)) = Some a \<and> au_Budget a = b"
  proof (induction es rule: rev_induct)
    case (snoc e es)
    then show ?case
      using False by (cases e) (auto simp: AuthFail_def Allow_def Let_def)
  qed (simp add: NewAuthLimiter_def)
  then show ?thesis
    using False by (auto simp: Allow_def)
qed

theorem auth_window_witness:
  "\<not> fst (Allow ''10.0.0.7'' (3 * second) (fold auth_step [AFail ''10.0.0.7'' 0, AFail ''10.0.0.7'' second, AAllow ''10.0.0.8'' second]
      (Some (NewAuthLimiter 2))))
   \<and> fst (Allow ''10.0.0.7'' minute (fold auth_step [AFail ''10.0.0.7'' 0, AFail ''10.0.0.7'' second, AAllow ''10.0.0.8'' second]
      (Some (NewAuthLimiter 2))))"
  using auth_window [of "[AFail ''10.0.0.7'' 0, AFail ''10.0.0.7'' second, AAllow ''10.0.0.8'' second]" "3 * second" "''10.0.0.7''" 2]
    auth_window [of "[AFail ''10.0.0.7'' 0, AFail ''10.0.0.7'' second, AAllow ''10.0.0.8'' second]" minute "''10.0.0.7''" 2]
  by (simp add: recent_def)

section \<open>Accounts\<close>

text \<open>C40: In an account list that passes validation every credential belongs to one account, and the account table finds
  it: the lookups by ID, user name, access key, bucket and API key return exactly the account that has the key, and
  only enabled accounts authenticate. Replacing the list makes the subscribed capacity controller track exactly its
  accounts.\<close>

theorem accounts_resolve:
  assumes "ValidateTenants ts sftp ftp s3 = None"
  shows "(\<forall>k t. Get (newSnapshot ts) k = Some t \<longleftrightarrow> t \<in> set ts \<and> tn_ID t = k)
    \<and> (\<forall>t\<in>set ts. ValidTenantID (tn_ID t))
    \<and> (sftp \<longrightarrow> (\<forall>k t. BySFTPUser (newSnapshot ts) k = Some t \<longleftrightarrow> t \<in> set ts \<and> tn_SFTPUser t = k \<and> \<not> tn_Disabled t))
    \<and> (ftp \<longrightarrow> (\<forall>k t. ByFTPUser (newSnapshot ts) k = Some t \<longleftrightarrow> t \<in> set ts \<and> tn_FTPUser t = k \<and> \<not> tn_Disabled t))
    \<and> (s3 \<longrightarrow> (\<forall>k t. ByAccessKey (newSnapshot ts) k = Some t \<longleftrightarrow> t \<in> set ts \<and> tn_S3AccessKey t = k \<and> \<not> tn_Disabled t)
        \<and> (\<forall>k t. ByBucket (newSnapshot ts) k = Some t \<longleftrightarrow> t \<in> set ts \<and> tn_S3Bucket t = k \<and> \<not> tn_Disabled t))
    \<and> (\<forall>key t. ByAPIKey (newSnapshot ts) key = Some t \<longleftrightarrow>
         key \<noteq> [] \<and> t \<in> set ts \<and> ToLower (tn_APIKeySHA256 t) = hex_encode (sha256 key) \<and> \<not> tn_Disabled t)
    \<and> (\<forall>old c. set (TenantIDs (snd (Replace ts (Subscribe (\<lambda>s. SyncTenants (ac_all s)) (NewRegistry old), c)))) = tn_ID ` set ts)"
proof -
  have u: "unique_keys sftp ftp s3 seen0 ts"
    by (rule ValidateTenants_unique [OF assms])
  have api: "ByAPIKey (newSnapshot ts) key = Some t \<longleftrightarrow>
      key \<noteq> [] \<and> t \<in> set ts \<and> ToLower (tn_APIKeySHA256 t) = hex_encode (sha256 key) \<and> \<not> tn_Disabled t" for key t
  proof -
    have "distinct (map (\<lambda>t. ToLower (tn_APIKeySHA256 t)) ts)"
      using u by (simp add: unique_keys_def fresh_def)
    from active_owner_unique [OF this, of "hex_encode (sha256 key)" t] show ?thesis
      unfolding ByAPIKey_lookup by auto
  qed
  have ids: "Get (newSnapshot ts) k = Some t \<longleftrightarrow> t \<in> set ts \<and> tn_ID t = k" for k t
    using u owner_unique [of tn_ID ts k t] by (simp add: lookups unique_keys_def fresh_def)
  have "ac_all (newSnapshot ts) = ts"
    by (simp add: newSnapshot_def index_fold)
  then have sync: "set (TenantIDs (snd (Replace ts (Subscribe (\<lambda>s. SyncTenants (ac_all s)) (NewRegistry old), c)))) = tn_ID ` set ts" for old c
    by (simp add: Replace_def Subscribe_def NewRegistry_def SyncTenants_ids Let_def)
  show ?thesis
    using u api ids sync
    by (auto simp: lookups unique_keys_def seen0_def lookup_owner_unique list_all_iff)
qed

definition demo_accounts :: "Tenant list" where
  "demo_accounts =
     [zero_tenant\<lparr>tn_ID := ''acme'', tn_APIKeySHA256 := replicate 64 CHR ''a'', tn_SFTPUser := ''acme-up'', tn_SFTPPassword := ''correct-horse''\<rparr>,
      zero_tenant\<lparr>tn_ID := ''beta'', tn_Disabled := True, tn_APIKeySHA256 := replicate 64 CHR ''b'', tn_SFTPUser := ''beta-up'',
        tn_AuthorizedKeys := [''ssh-ed25519 AAAA'']\<rparr>]"

theorem accounts_resolve_witness:
  "BySFTPUser (newSnapshot demo_accounts) ''acme-up'' = Some (demo_accounts ! 0)
   \<and> BySFTPUser (newSnapshot demo_accounts) ''beta-up'' = None
   \<and> Get (newSnapshot demo_accounts) ''beta'' = Some (demo_accounts ! 1)"
proof -
  have "ValidateTenants demo_accounts True False False = None"
    by code_simp
  note r = accounts_resolve [OF this]
  have s: "BySFTPUser (newSnapshot demo_accounts) k = Some t \<longleftrightarrow> t \<in> set demo_accounts \<and> tn_SFTPUser t = k \<and> \<not> tn_Disabled t" for k t
    using r [THEN conjunct2, THEN conjunct2, THEN conjunct1] by simp
  have g: "Get (newSnapshot demo_accounts) k = Some t \<longleftrightarrow> t \<in> set demo_accounts \<and> tn_ID t = k" for k t
    using r [THEN conjunct1] by simp
  have "\<forall>t\<in>set demo_accounts. tn_SFTPUser t = ''beta-up'' \<longrightarrow> tn_Disabled t"
    by code_simp
  then have "BySFTPUser (newSnapshot demo_accounts) ''beta-up'' \<noteq> Some t" for t
    unfolding s by blast
  then have beta: "BySFTPUser (newSnapshot demo_accounts) ''beta-up'' = None"
    by (cases "BySFTPUser (newSnapshot demo_accounts) ''beta-up''") auto
  have at: "demo_accounts ! 0 \<in> set demo_accounts" "demo_accounts ! 1 \<in> set demo_accounts"
    by (rule nth_mem, simp add: demo_accounts_def)+
  have "tn_SFTPUser (demo_accounts ! 0) = ''acme-up''" "\<not> tn_Disabled (demo_accounts ! 0)" "tn_ID (demo_accounts ! 1) = ''beta''"
    by code_simp+
  then show ?thesis
    using at beta unfolding s g by blast
qed

end
